(* ===== verification/Prelude.thy ===== *)
theory Prelude
  imports Main "HOL-Library.Word"
begin

text \<open>
  Shared vocabulary of the development.

  \<^item> \<open>exec\<close>: the outcome of a C++ call that may run into undefined behaviour or a trap (a null
    dereference, a division by zero, a read past the end of a container). The sources never catch
    these, so they are a value of their own, distinct from an ordinary \<open>false\<close> return.
  \<^item> generic lemmas on \<open>takeWhile\<close>, sorted lists and machine words that the component theories use.
  \<^item> \<open>model_inv\<close>: the collection of invariant-preservation facts;
    \<open>word_nat\<close>: the rules that move a word goal to natural numbers.
\<close>

named_theorems model_inv "operations keep the invariant of their component"
named_theorems word_nat "rules that move word goals to natural numbers"

declare word_le_nat_alt [word_nat] word_less_nat_alt [word_nat]

section \<open>Outcomes\<close>

datatype 'a exec = Returns 'a | Undefined

fun exec_bind :: "'a exec \<Rightarrow> ('a \<Rightarrow> 'b exec) \<Rightarrow> 'b exec" where
  "exec_bind (Returns x) f = f x"
| "exec_bind Undefined f = Undefined"

lemma exec_bind_cong [fundef_cong]:
  "x = y \<Longrightarrow> (\<And>v. y = Returns v \<Longrightarrow> f v = g v) \<Longrightarrow> exec_bind x f = exec_bind y g"
  by (cases y) simp_all

lemma exec_bind_Returns_iff:
  "exec_bind x f = Returns z \<longleftrightarrow> (\<exists>y. x = Returns y \<and> f y = Returns z)"
  by (cases x) auto

lemma exec_bindE:
  "exec_bind x f = Returns z \<Longrightarrow> (\<And>y. x = Returns y \<Longrightarrow> f y = Returns z \<Longrightarrow> P) \<Longrightarrow> P"
  by (cases x) auto

lemma exec_bind_pairE:
  assumes "exec_bind x (\<lambda>(a, b). f a b) = Returns z"
  obtains a b where "x = Returns (a, b)" "f a b = Returns z"
  using assms by (cases x) auto

lemma option_eqI: "(\<And>x. a = Some x \<longleftrightarrow> b = Some x) \<Longrightarrow> a = b"
  by (metis option.exhaust)

section \<open>Lists\<close>

lemma takeWhile_length_nth:
  "i < length (takeWhile P xs) \<Longrightarrow> P (xs ! i)"
  by (metis nth_mem set_takeWhileD takeWhile_nth)

lemma nth_length_takeWhile_not:
  "length (takeWhile P xs) < length xs \<Longrightarrow> \<not> P (xs ! length (takeWhile P xs))"
  by (rule nth_length_takeWhile)

lemma length_takeWhile_le [simp]: "length (takeWhile P xs) \<le> length xs"
  by (rule length_takeWhile_le)

lemma take_length_takeWhile: "take (length (takeWhile P xs)) xs = takeWhile P xs"
  by (rule takeWhile_eq_take [symmetric])

lemma drop_length_takeWhile: "drop (length (takeWhile P xs)) xs = dropWhile P xs"
  by (rule dropWhile_eq_drop [symmetric])

lemma dropWhile_eq_filter_not:
  assumes "sorted_wrt R xs" and "\<And>x y. R x y \<Longrightarrow> P y \<Longrightarrow> P x"
  shows "dropWhile P xs = filter (\<lambda>x. \<not> P x) xs"
  using assms(1)
proof (induction xs)
  case Nil
  then show ?case by simp
next
  case (Cons x xs)
  show ?case
  proof (cases "P x")
    case True
    with Cons show ?thesis by simp
  next
    case False
    with Cons.prems assms(2) have "\<forall>y\<in>set xs. \<not> P y" by auto
    with False show ?thesis by (simp add: filter_id_conv)
  qed
qed

lemma takeWhile_eq_filter:
  assumes "sorted_wrt R xs" and "\<And>x y. R x y \<Longrightarrow> P y \<Longrightarrow> P x"
  shows "takeWhile P xs = filter P xs"
  using assms(1)
proof (induction xs)
  case Nil
  then show ?case by simp
next
  case (Cons x xs)
  show ?case
  proof (cases "P x")
    case True
    with Cons show ?thesis by simp
  next
    case False
    with Cons.prems assms(2) have "\<forall>y\<in>set xs. \<not> P y" by auto
    with False show ?thesis by (simp add: filter_empty_conv)
  qed
qed

section \<open>Machine words\<close>

text \<open>The last address of a non-empty block that does not wrap around the address space.\<close>

lemma unat_high_address:
  fixes b s :: "'a::len word"
  assumes "s \<noteq> 0" and "unat b + unat s \<le> 2 ^ LENGTH('a)"
  shows "unat (b + s - 1) = unat b + unat s - 1"
proof -
  have s: "1 \<le> unat s" using assms(1) by (simp add: Suc_leI unat_gt_0)
  have 1: "unat (s - 1) = unat s - 1" using assms(1) by (simp add: unat_minus_one)
  have "b + s - 1 = b + (s - 1)" by simp
  also have "unat \<dots> = unat b + unat (s - 1)"
    using assms(2) s 1 by (intro unat_add_lem [THEN iffD1]) linarith
  finally show ?thesis using 1 s by simp
qed

text \<open>The overflow test of the range containers, \<open>high < base\<close>, is exact.\<close>

lemma high_address_overflow:
  fixes b s :: "'a::len word"
  assumes "s \<noteq> 0"
  shows "b + s - 1 < b \<longleftrightarrow> 2 ^ LENGTH('a) < unat b + unat s"
proof (cases "unat b + unat s \<le> 2 ^ LENGTH('a)")
  case True
  have "0 < unat s" using assms by (simp add: unat_gt_0)
  with True unat_high_address [OF assms True] show ?thesis by (simp add: word_nat)
next
  case False
  have s: "1 \<le> unat s" using assms by (simp add: Suc_leI unat_gt_0)
  have 1: "unat (s - 1) = unat s - 1" using assms by (simp add: unat_minus_one)
  have e: "b + s - 1 = b + (s - 1)" by simp
  have lt: "unat b < 2 ^ LENGTH('a)" "unat s < 2 ^ LENGTH('a)" by (rule unsigned_less)+
  have "unat (b + (s - 1)) = (unat b + (unat s - 1)) mod 2 ^ LENGTH('a)"
    by (simp add: unat_word_ariths 1)
  also have "\<dots> = unat b + (unat s - 1) - 2 ^ LENGTH('a)"
  proof (subst le_mod_geq)
    show "2 ^ LENGTH('a) \<le> unat b + (unat s - 1)" using False s by linarith
    have "unat b + (unat s - 1) - 2 ^ LENGTH('a) < 2 ^ LENGTH('a)"
      using False s lt by linarith
    then show "(unat b + (unat s - 1) - 2 ^ LENGTH('a)) mod 2 ^ LENGTH('a) =
        unat b + (unat s - 1) - 2 ^ LENGTH('a)" by (rule mod_less)
  qed
  finally have "unat (b + s - 1) < unat b" unfolding e using s lt False by linarith
  with False show ?thesis by (simp add: word_nat)
qed

text \<open>The test \<open>address - base < size\<close> is membership in the block, for an address not below the base.\<close>

lemma offset_inside:
  fixes a b s :: "'a::len word"
  assumes "s \<noteq> 0" "b \<le> b + s - 1" "b \<le> a"
  shows "a - b < s \<longleftrightarrow> a \<le> b + s - 1"
proof -
  have fits: "unat b + unat s \<le> 2 ^ LENGTH('a)" using assms(1,2) high_address_overflow [of s b] by (simp flip: not_less)
  have h: "unat (b + s - 1) = unat b + unat s - 1" by (rule unat_high_address [OF assms(1) fits])
  have ab: "unat (a - b) = unat a - unat b" "unat b \<le> unat a" using assms(3) by (simp_all add: unat_sub word_nat)
  have "0 < unat s" using assms(1) by (simp add: unat_gt_0)
  then show ?thesis unfolding word_nat h ab(1) using ab(2) by linarith
qed

end
