(* ===== verification/Std_Map.thy ===== *)
theory Std_Map
  imports Prelude
begin

text \<open>
  \<open>std::map\<close> as the sources use it: the entries in ascending key order, an iterator as a position in
  that order, \<open>end()\<close> as the length. \<open>insert\<close> keeps an entry that is already there, the assignment
  through \<open>operator[]\<close> replaces it, and \<open>erase(i, j)\<close> drops the positions \<open>i .. j - 1\<close>.
\<close>

type_synonym ('k, 'v) omap = "('k \<times> 'v) list"

definition omap_ok :: "('k::linorder, 'v) omap \<Rightarrow> bool" where
  "omap_ok m \<longleftrightarrow> sorted_wrt (<) (map fst m)"

definition lower_bound :: "('k::linorder, 'v) omap \<Rightarrow> 'k \<Rightarrow> nat" where
  "lower_bound m k = length (takeWhile (\<lambda>e. fst e < k) m)"

definition upper_bound :: "('k::linorder, 'v) omap \<Rightarrow> 'k \<Rightarrow> nat" where
  "upper_bound m k = length (takeWhile (\<lambda>e. fst e \<le> k) m)"

definition omap_find :: "('k::linorder, 'v) omap \<Rightarrow> 'k \<Rightarrow> nat" where
  "omap_find m k =
     (let i = lower_bound m k in if i < length m \<and> fst (m ! i) = k then i else length m)"

definition omap_insert :: "'k::linorder \<Rightarrow> 'v \<Rightarrow> ('k, 'v) omap \<Rightarrow> ('k, 'v) omap" where
  "omap_insert k v m =
     (if omap_find m k < length m then m
      else takeWhile (\<lambda>e. fst e < k) m @ (k, v) # dropWhile (\<lambda>e. fst e < k) m)"

definition omap_assign :: "'k::linorder \<Rightarrow> 'v \<Rightarrow> ('k, 'v) omap \<Rightarrow> ('k, 'v) omap" where
  "omap_assign k v m =
     takeWhile (\<lambda>e. fst e < k) m @ (k, v) # dropWhile (\<lambda>e. fst e \<le> k) m"

definition omap_erase :: "nat \<Rightarrow> nat \<Rightarrow> ('k, 'v) omap \<Rightarrow> ('k, 'v) omap" where
  "omap_erase i j m = take i m @ drop j m"

section \<open>The order\<close>

lemma omap_ok_Nil [simp]: "omap_ok []"
  by (simp add: omap_ok_def)

lemma omap_ok_Cons:
  "omap_ok (e # m) \<longleftrightarrow> (\<forall>f\<in>set m. fst e < fst f) \<and> omap_ok m"
  by (simp add: omap_ok_def)

lemma omap_ok_append:
  "omap_ok (xs @ ys) \<longleftrightarrow> omap_ok xs \<and> omap_ok ys \<and> (\<forall>x\<in>set xs. \<forall>y\<in>set ys. fst x < fst y)"
  by (auto simp: omap_ok_def sorted_wrt_append)

lemma omap_ok_wrt: "omap_ok m \<longleftrightarrow> sorted_wrt (\<lambda>e f. fst e < fst f) m"
  by (simp add: omap_ok_def sorted_wrt_map)

lemma omap_ok_distinct: "omap_ok m \<Longrightarrow> distinct (map fst m)"
  by (simp add: omap_ok_def strict_sorted_iff)

lemma omap_ok_nth: "omap_ok m \<Longrightarrow> i < j \<Longrightarrow> j < length m \<Longrightarrow> fst (m ! i) < fst (m ! j)"
  unfolding omap_ok_wrt by (drule sorted_wrt_nth_less)

lemma takeWhile_lt_filter: "omap_ok m \<Longrightarrow> takeWhile (\<lambda>e. fst e < k) m = filter (\<lambda>e. fst e < k) m"
  unfolding omap_ok_wrt by (erule takeWhile_eq_filter) auto

lemma dropWhile_lt_filter: "omap_ok m \<Longrightarrow> dropWhile (\<lambda>e. fst e < k) m = filter (\<lambda>e. k \<le> fst e) m"
  unfolding omap_ok_wrt by (simp add: dropWhile_eq_filter_not [where R = "\<lambda>e f. fst e < fst f"] not_less)

lemma takeWhile_le_filter: "omap_ok m \<Longrightarrow> takeWhile (\<lambda>e. fst e \<le> k) m = filter (\<lambda>e. fst e \<le> k) m"
  unfolding omap_ok_wrt by (erule takeWhile_eq_filter) auto

lemma dropWhile_le_filter: "omap_ok m \<Longrightarrow> dropWhile (\<lambda>e. fst e \<le> k) m = filter (\<lambda>e. k < fst e) m"
  unfolding omap_ok_wrt by (simp add: dropWhile_eq_filter_not [where R = "\<lambda>e f. fst e < fst f"] not_le)

lemmas omap_split_filters =
  takeWhile_lt_filter dropWhile_lt_filter takeWhile_le_filter dropWhile_le_filter

section \<open>Iterators\<close>

lemma lower_bound_le [simp]: "lower_bound m k \<le> length m"
  by (simp add: lower_bound_def)

lemma upper_bound_le [simp]: "upper_bound m k \<le> length m"
  by (simp add: upper_bound_def)

lemma lower_bound_below: "i < lower_bound m k \<Longrightarrow> fst (m ! i) < k"
  unfolding lower_bound_def by (drule takeWhile_length_nth)

lemma lower_bound_at: "lower_bound m k < length m \<Longrightarrow> k \<le> fst (m ! lower_bound m k)"
  unfolding lower_bound_def using nth_length_takeWhile_not by fastforce

lemma lower_bound_above:
  assumes "omap_ok m" and "lower_bound m k \<le> i" and "i < length m"
  shows "k \<le> fst (m ! i)"
proof (cases "i = lower_bound m k")
  case True
  with assms(3) show ?thesis using lower_bound_at by auto
next
  case False
  with assms have "fst (m ! lower_bound m k) < fst (m ! i)" by (intro omap_ok_nth) auto
  moreover have "k \<le> fst (m ! lower_bound m k)" using assms by (intro lower_bound_at) auto
  ultimately show ?thesis by simp
qed

lemma upper_bound_below: "i < upper_bound m k \<Longrightarrow> fst (m ! i) \<le> k"
  unfolding upper_bound_def by (drule takeWhile_length_nth)

lemma upper_bound_above:
  assumes "omap_ok m" and "upper_bound m k \<le> i" and "i < length m"
  shows "k < fst (m ! i)"
proof (cases "i = upper_bound m k")
  case True
  with assms(3) show ?thesis unfolding upper_bound_def using nth_length_takeWhile_not by fastforce
next
  case False
  with assms have "fst (m ! upper_bound m k) < fst (m ! i)" by (intro omap_ok_nth) auto
  moreover have "\<not> fst (m ! upper_bound m k) \<le> k"
    using assms unfolding upper_bound_def by (intro nth_length_takeWhile_not) auto
  ultimately show ?thesis by simp
qed

lemma lower_bound_unique:
  assumes "omap_ok m" and "i \<le> length m"
    and "\<And>j. j < i \<Longrightarrow> fst (m ! j) < k" and "i < length m \<Longrightarrow> k \<le> fst (m ! i)"
  shows "lower_bound m k = i"
proof (rule linorder_cases)
  assume "lower_bound m k < i"
  with assms(2,3) lower_bound_at [of m k] show ?thesis by fastforce
next
  assume "i < lower_bound m k"
  moreover from this have "i < length m" using lower_bound_le [of m k] by linarith
  ultimately show ?thesis using assms(4) lower_bound_below [of i m k] by simp
qed

lemma omap_find_found: "omap_find m k < length m \<Longrightarrow> fst (m ! omap_find m k) = k"
  by (auto simp: omap_find_def Let_def split: if_splits)

lemma omap_find_iff:
  assumes "omap_ok m"
  shows "omap_find m k < length m \<longleftrightarrow> k \<in> fst ` set m"
proof
  assume "omap_find m k < length m"
  then show "k \<in> fst ` set m" using omap_find_found by (metis image_eqI nth_mem)
next
  assume "k \<in> fst ` set m"
  then obtain i where i: "i < length m" "fst (m ! i) = k" by (auto simp: in_set_conv_nth)
  have "lower_bound m k = i"
    by (rule lower_bound_unique) (use assms i omap_ok_nth in auto)
  with i show "omap_find m k < length m" by (simp add: omap_find_def)
qed

lemma omap_find_miss: "\<not> omap_find m k < length m \<Longrightarrow> omap_find m k = length m"
  by (auto simp: omap_find_def Let_def split: if_split_asm)

lemma map_of_nth: "omap_ok m \<Longrightarrow> i < length m \<Longrightarrow> map_of m (fst (m ! i)) = Some (snd (m ! i))"
  by (metis map_of_eq_Some_iff nth_mem omap_ok_distinct prod.collapse)

lemma map_of_rev_distinct: "distinct (map fst m) \<Longrightarrow> map_of (rev m) = map_of m"
  by (simp add: map_of_inject_set rev_map [symmetric])

section \<open>Updates\<close>

lemma omap_insert_fresh:
  "omap_ok m \<Longrightarrow> k \<notin> fst ` set m \<Longrightarrow>
   omap_insert k v m = filter (\<lambda>e. fst e < k) m @ (k, v) # filter (\<lambda>e. k < fst e) m"
  by (auto simp: omap_insert_def omap_find_iff omap_split_filters order.order_iff_strict
      intro!: filter_cong)

lemma omap_insert_present: "omap_ok m \<Longrightarrow> k \<in> fst ` set m \<Longrightarrow> omap_insert k v m = m"
  by (simp add: omap_insert_def omap_find_iff)

lemma omap_ok_filter: "omap_ok m \<Longrightarrow> omap_ok (filter P m)"
  by (simp add: omap_ok_wrt sorted_wrt_filter)

lemma omap_ok_insert [model_inv]: "omap_ok m \<Longrightarrow> omap_ok (omap_insert k v m)"
  by (cases "k \<in> fst ` set m")
    (auto simp: omap_insert_present omap_insert_fresh omap_ok_append omap_ok_Cons omap_ok_filter)

lemma set_omap_insert:
  "omap_ok m \<Longrightarrow> k \<notin> fst ` set m \<Longrightarrow> set (omap_insert k v m) = insert (k, v) (set m)"
  by (force simp: omap_insert_fresh)

lemma map_of_omap_insert:
  assumes "omap_ok m"
  shows "map_of (omap_insert k v m) =
    (if k \<in> fst ` set m then map_of m else (map_of m)(k \<mapsto> v))"
proof (cases "k \<in> fst ` set m")
  case False
  have "(k', v') \<in> set (omap_insert k v m) \<longleftrightarrow> ((map_of m)(k \<mapsto> v)) k' = Some v'" for k' v'
    using assms False omap_ok_distinct [OF assms]
    by (auto simp: set_omap_insert image_iff)
  then have "map_of (omap_insert k v m) k' = ((map_of m)(k \<mapsto> v)) k'" for k'
    using omap_ok_distinct [OF omap_ok_insert [OF assms, of k v]]
    by (metis map_of_eq_Some_iff not_Some_eq)
  with False show ?thesis by auto
qed (use assms in \<open>simp add: omap_insert_present\<close>)

lemma omap_ok_assign [model_inv]: "omap_ok m \<Longrightarrow> omap_ok (omap_assign k v m)"
  by (auto simp: omap_assign_def omap_split_filters omap_ok_append omap_ok_Cons omap_ok_filter)

lemma set_omap_assign:
  "omap_ok m \<Longrightarrow> set (omap_assign k v m) = insert (k, v) {e \<in> set m. fst e \<noteq> k}"
  by (auto simp: omap_assign_def omap_split_filters)

lemma map_of_omap_assign:
  assumes "omap_ok m"
  shows "map_of (omap_assign k v m) = (map_of m)(k \<mapsto> v)"
proof
  fix k'
  have "(k', v') \<in> set (omap_assign k v m) \<longleftrightarrow> ((map_of m)(k \<mapsto> v)) k' = Some v'" for v'
    using assms omap_ok_distinct [OF assms] by (auto simp: set_omap_assign)
  then show "map_of (omap_assign k v m) k' = ((map_of m)(k \<mapsto> v)) k'"
    using omap_ok_distinct [OF omap_ok_assign [OF assms, of k v]]
    by (metis map_of_eq_Some_iff not_Some_eq)
qed

end
