(* ===== verification/Range_Map.thy ===== *)
theory Range_Map
  imports Std_Map
begin

text \<open>
  \<^verbatim>\<open>RangeMap\<close> (\<^verbatim>\<open>processor/range_map.h\<close>, \<^verbatim>\<open>processor/range_map-inl.h\<close>): address ranges that never
  overlap, kept in a \<open>std::map\<close> keyed by the highest address of each range. The address type is an
  unsigned machine word of any width, so \<open>base + size - 1\<close> wraps as in the code.

  The theory states the interface the clients rely on as two locales. \<open>range_reader\<close> is what a lookup
  promises, \<open>range_container\<close> adds what an insertion promises; \<open>RangeMap\<close> interprets both.
\<close>

section \<open>The code\<close>

record ('w, 'e) Range =
  rbase :: 'w
  rentry :: 'e

type_synonym ('a, 'e) RangeMap = "('a word, ('a word, 'e) Range) omap"

text \<open>The out-parameters \<open>entry\<close>, \<open>entry_base\<close>, \<open>entry_size\<close> of a successful lookup.\<close>

type_synonym ('a, 'e) range_hit = "'e \<times> 'a word \<times> 'a word"

definition RangeMap_hit :: "'a::len word \<times> ('a word, 'e) Range \<Rightarrow> ('a, 'e) range_hit" where
  "RangeMap_hit it = (rentry (snd it), rbase (snd it), fst it - rbase (snd it) + 1)"

definition RangeMap_StoreRange ::
  "('a::len, 'e) RangeMap \<Rightarrow> 'a word \<Rightarrow> 'a word \<Rightarrow> 'e \<Rightarrow> bool \<times> ('a, 'e) RangeMap" where
  "RangeMap_StoreRange m base sz entry =
     (let high = base + sz - 1 in
      if sz \<le> 0 \<or> high < base then (False, m)
      else
        let iterator_base = lower_bound m base;
            iterator_high = lower_bound m high
        in if iterator_base \<noteq> iterator_high then (False, m)
           else if iterator_high \<noteq> length m \<and> rbase (snd (m ! iterator_high)) \<le> high
           then (False, m)
           else (True, omap_insert high \<lparr>rbase = base, rentry = entry\<rparr> m))"

definition RangeMap_RetrieveRange ::
  "('a::len, 'e) RangeMap \<Rightarrow> 'a word \<Rightarrow> ('a, 'e) range_hit option" where
  "RangeMap_RetrieveRange m address =
     (let iterator = lower_bound m address in
      if iterator = length m then None
      else if address < rbase (snd (m ! iterator)) then None
      else Some (RangeMap_hit (m ! iterator)))"

definition RangeMap_RetrieveNearestRange ::
  "('a::len, 'e) RangeMap \<Rightarrow> 'a word \<Rightarrow> ('a, 'e) range_hit option" where
  "RangeMap_RetrieveNearestRange m address =
     (case RangeMap_RetrieveRange m address of
        Some hit \<Rightarrow> Some hit
      | None \<Rightarrow>
          let iterator = upper_bound m address in
          if iterator = 0 then None else Some (RangeMap_hit (m ! (iterator - 1))))"

text \<open>\<open>map_.size()\<close> is narrowed to a 32-bit \<open>int\<close>.\<close>

definition RangeMap_GetCount :: "('a::len, 'e) RangeMap \<Rightarrow> int" where
  "RangeMap_GetCount m = sint (of_nat (length m) :: 32 word)"

text \<open>
  The walk \<open>++iterator\<close> does not run for a negative index, so the code then dereferences \<open>begin()\<close>,
  which is \<open>end()\<close> on an empty map.
\<close>

definition RangeMap_RetrieveRangeAtIndex ::
  "('a::len, 'e) RangeMap \<Rightarrow> int \<Rightarrow> ('a, 'e) range_hit option exec" where
  "RangeMap_RetrieveRangeAtIndex m index =
     (if index \<ge> RangeMap_GetCount m then Returns None
      else
        let iterator = nat index in
        if iterator < length m then Returns (Some (RangeMap_hit (m ! iterator))) else Undefined)"

definition RangeMap_Clear :: "('a::len, 'e) RangeMap \<Rightarrow> ('a, 'e) RangeMap" where
  "RangeMap_Clear m = []"

section \<open>The interface\<close>

text \<open>
  A reader holds a set of stored ranges, as triples of lowest address, highest address and entry,
  that are non-empty and do not meet. A lookup returns exactly the range around the address.
\<close>

locale range_reader =
  fixes retrieve :: "'m \<Rightarrow> 'a::len word \<Rightarrow> ('e \<times> 'a word \<times> 'a word) option"
    and invar :: "'m \<Rightarrow> bool"
    and ranges :: "'m \<Rightarrow> ('a word \<times> 'a word \<times> 'e) set"
  assumes ranges_nonempty: "invar m \<Longrightarrow> (b, h, e) \<in> ranges m \<Longrightarrow> b \<le> h"
    and ranges_apart: "invar m \<Longrightarrow> (b, h, e) \<in> ranges m \<Longrightarrow> (b', h', e') \<in> ranges m \<Longrightarrow>
        (b, h, e) = (b', h', e') \<or> h < b' \<or> h' < b"
    and retrieve_hit: "invar m \<Longrightarrow> retrieve m a = Some (e, b, s) \<longleftrightarrow>
        (\<exists>h. (b, h, e) \<in> ranges m \<and> b \<le> a \<and> a \<le> h \<and> s = h - b + 1)"
begin

lemma retrieve_none:
  assumes "invar m"
  shows "retrieve m a = None \<longleftrightarrow> (\<forall>(b, h, e)\<in>ranges m. \<not> (b \<le> a \<and> a \<le> h))"
proof -
  have "retrieve m a = None \<longleftrightarrow> (\<nexists>e b s. retrieve m a = Some (e, b, s))"
    by (metis not_None_eq prod_cases3)
  also have "\<dots> \<longleftrightarrow> (\<nexists>e b h. (b, h, e) \<in> ranges m \<and> b \<le> a \<and> a \<le> h)"
    using retrieve_hit [OF assms] by blast
  finally show ?thesis by auto
qed

lemma retrieve_inside:
  "invar m \<Longrightarrow> (b, h, e) \<in> ranges m \<Longrightarrow> b \<le> a \<Longrightarrow> a \<le> h \<Longrightarrow> retrieve m a = Some (e, b, h - b + 1)"
  using retrieve_hit by blast

lemma retrieve_some:
  "invar m \<Longrightarrow> retrieve m a = Some x \<longleftrightarrow>
   (\<exists>h. (fst (snd x), h, fst x) \<in> ranges m \<and> fst (snd x) \<le> a \<and> a \<le> h \<and>
      snd (snd x) = h - fst (snd x) + 1)"
  using retrieve_hit [of m a "fst x" "fst (snd x)" "snd (snd x)"] by simp

lemma retrieve_only_depends_on_ranges:
  assumes "invar m" "invar m'" "ranges m = ranges m'"
  shows "retrieve m a = retrieve m' a"
proof -
  have "retrieve m a = Some x \<longleftrightarrow> retrieve m' a = Some x" for x
    unfolding retrieve_some [OF assms(1)] retrieve_some [OF assms(2)] assms(3) ..
  then show ?thesis by (rule option_eqI)
qed

end

locale range_container = range_reader retrieve invar ranges
  for retrieve :: "'m \<Rightarrow> 'a::len word \<Rightarrow> ('e \<times> 'a word \<times> 'a word) option"
    and invar :: "'m \<Rightarrow> bool"
    and ranges :: "'m \<Rightarrow> ('a word \<times> 'a word \<times> 'e) set" +
  fixes empty :: 'm
    and store :: "'m \<Rightarrow> 'a word \<Rightarrow> 'a word \<Rightarrow> 'e \<Rightarrow> bool \<times> 'm"
  assumes invar_empty: "invar empty"
    and ranges_empty: "ranges empty = {}"
    and invar_store: "invar m \<Longrightarrow> invar (snd (store m b s e))"
    and ranges_store: "invar m \<Longrightarrow> ranges (snd (store m b s e)) =
        (if fst (store m b s e) then insert (b, b + s - 1, e) (ranges m) else ranges m)"
    and store_accepts: "invar m \<Longrightarrow> fst (store m b s e) \<longleftrightarrow>
        s \<noteq> 0 \<and> unat b + unat s \<le> 2 ^ LENGTH('a) \<and>
        (\<forall>(b', h', e')\<in>ranges m. h' < b \<or> b + s - 1 < b')"
begin

lemma stored_bounds:
  assumes "invar m" "fst (store m b s e)"
  shows "b \<le> b + s - 1" "unat (b + s - 1) = unat b + unat s - 1"
proof -
  have s: "s \<noteq> 0" "unat b + unat s \<le> 2 ^ LENGTH('a)" using assms store_accepts by auto
  then show "unat (b + s - 1) = unat b + unat s - 1" by (rule unat_high_address)
  from s(2) high_address_overflow [OF s(1), of b] show "b \<le> b + s - 1" by (simp add: not_less [symmetric])
qed

lemma retrieve_store:
  assumes "invar m"
  shows "retrieve (snd (store m b s e)) a =
    (if fst (store m b s e) \<and> b \<le> a \<and> a \<le> b + s - 1 then Some (e, b, s) else retrieve m a)"
proof (cases "fst (store m b s e)")
  case False
  with assms have "retrieve (snd (store m b s e)) a = retrieve m a"
    by (intro retrieve_only_depends_on_ranges) (simp_all add: ranges_store invar_store)
  with False show ?thesis by simp
next
  case True
  let ?m = "snd (store m b s e)"
  have inv: "invar ?m" using assms by (rule invar_store)
  have r: "ranges ?m = insert (b, b + s - 1, e) (ranges m)" using assms True by (simp add: ranges_store)
  show ?thesis
  proof (cases "b \<le> a \<and> a \<le> b + s - 1")
    case inside: True
    then have "retrieve ?m a = Some (e, b, (b + s - 1) - b + 1)" using inv r by (intro retrieve_inside) auto
    with inside True show ?thesis by simp
  next
    case outside: False
    have "retrieve ?m a = Some x \<longleftrightarrow> retrieve m a = Some x" for x
      unfolding retrieve_some [OF inv] retrieve_some [OF assms] r using outside by auto
    then have "retrieve ?m a = retrieve m a" by (rule option_eqI)
    with outside show ?thesis by auto
  qed
qed

text \<open>What a whole load does: the entries are offered in order, the failing ones are dropped.\<close>

lemma store_all_invar:
  "invar m \<Longrightarrow> invar (fold (\<lambda>(b, s, e) m. snd (store m b s e)) xs m)"
  by (induction xs arbitrary: m) (auto intro: invar_store)

lemma store_all_keeps:
  "invar m \<Longrightarrow> ranges m \<subseteq> ranges (fold (\<lambda>(b, s, e) m. snd (store m b s e)) xs m)"
proof (induction xs arbitrary: m)
  case Nil
  then show ?case by simp
next
  case (Cons x xs)
  obtain b s e where x: "x = (b, s, e)" by (cases x)
  have "ranges m \<subseteq> ranges (snd (store m b s e))" using Cons.prems by (auto simp: ranges_store)
  also have "\<dots> \<subseteq> ranges (fold (\<lambda>(b, s, e) m. snd (store m b s e)) xs (snd (store m b s e)))"
    using Cons.prems by (intro Cons.IH invar_store)
  finally show ?case by (simp add: x)
qed

lemma store_all_ranges:
  assumes "invar m" "\<forall>(b, s, e)\<in>set xs. s \<noteq> 0 \<and> unat b + unat s \<le> 2 ^ LENGTH('a) \<and>
      (\<forall>(b', h', e')\<in>ranges m. h' < b \<or> b + s - 1 < b')"
    and "sorted_wrt (\<lambda>(b, s, e) (b', s', e'). b' + s' - 1 < b \<or> b + s - 1 < b') xs"
  shows "ranges (fold (\<lambda>(b, s, e) m. snd (store m b s e)) xs m) = ranges m \<union> (\<lambda>(b, s, e). (b, b + s - 1, e)) ` set xs"
  using assms
proof (induction xs arbitrary: m)
  case (Cons x xs)
  obtain b s e where x: "x = (b, s, e)" by (cases x)
  have acc: "fst (store m b s e)" using Cons.prems(1,2) by (auto simp: x store_accepts)
  let ?m = "snd (store m b s e)"
  have r: "ranges ?m = insert (b, b + s - 1, e) (ranges m)" using acc Cons.prems(1) by (simp add: ranges_store)
  have "ranges (fold (\<lambda>(b, s, e) m. snd (store m b s e)) xs ?m) = ranges ?m \<union> (\<lambda>(b, s, e). (b, b + s - 1, e)) ` set xs"
  proof (rule Cons.IH)
    show "invar ?m" using Cons.prems(1) by (rule invar_store)
    show "\<forall>(b, s, e)\<in>set xs. s \<noteq> 0 \<and> unat b + unat s \<le> 2 ^ LENGTH('a) \<and>
        (\<forall>(b', h', e')\<in>ranges ?m. h' < b \<or> b + s - 1 < b')"
      using Cons.prems(2,3) unfolding r x by fastforce
    show "sorted_wrt (\<lambda>(b, s, e) (b', s', e'). b' + s' - 1 < b \<or> b + s - 1 < b') xs" using Cons.prems(3) by simp
  qed
  then show ?case by (simp add: r x)
qed simp

end

section \<open>The implementation meets the interface\<close>

definition RangeMap_inv :: "('a::len, 'e) RangeMap \<Rightarrow> bool" where
  "RangeMap_inv m \<longleftrightarrow>
     (\<forall>x\<in>set m. rbase (snd x) \<le> fst x) \<and> sorted_wrt (\<lambda>x y. fst x < rbase (snd y)) m"

definition RangeMap_ranges :: "('a::len, 'e) RangeMap \<Rightarrow> ('a word \<times> 'a word \<times> 'e) set" where
  "RangeMap_ranges m = (\<lambda>x. (rbase (snd x), fst x, rentry (snd x))) ` set m"

lemma RangeMap_inv_Nil [simp]: "RangeMap_inv []"
  by (simp add: RangeMap_inv_def)

lemma RangeMap_inv_ok: "RangeMap_inv m \<Longrightarrow> omap_ok m"
  unfolding RangeMap_inv_def omap_ok_wrt
  by (elim conjE, erule sorted_wrt_mono_rel [rotated]) (auto intro: less_le_trans)

lemma RangeMap_inv_base: "RangeMap_inv m \<Longrightarrow> x \<in> set m \<Longrightarrow> rbase (snd x) \<le> fst x"
  by (simp add: RangeMap_inv_def)

lemma RangeMap_inv_nth:
  "RangeMap_inv m \<Longrightarrow> i < j \<Longrightarrow> j < length m \<Longrightarrow> fst (m ! i) < rbase (snd (m ! j))"
  unfolding RangeMap_inv_def by (metis sorted_wrt_nth_less)

lemma RangeMap_inv_append:
  "RangeMap_inv (xs @ ys) \<longleftrightarrow>
   RangeMap_inv xs \<and> RangeMap_inv ys \<and> (\<forall>x\<in>set xs. \<forall>y\<in>set ys. fst x < rbase (snd y))"
  by (auto simp: RangeMap_inv_def sorted_wrt_append)

lemma RangeMap_inv_Cons:
  "RangeMap_inv (x # xs) \<longleftrightarrow>
   rbase (snd x) \<le> fst x \<and> RangeMap_inv xs \<and> (\<forall>y\<in>set xs. fst x < rbase (snd y))"
  by (auto simp: RangeMap_inv_def)

lemma RangeMap_inv_apart:
  assumes "RangeMap_inv m" "x \<in> set m" "y \<in> set m"
  shows "x = y \<or> fst x < rbase (snd y) \<or> fst y < rbase (snd x)"
proof -
  from assms obtain i j where "x = m ! i" "y = m ! j" "i < length m" "j < length m"
    by (auto simp: in_set_conv_nth)
  with assms(1) show ?thesis
    using RangeMap_inv_nth [of m i j] RangeMap_inv_nth [of m j i] by (cases i j rule: linorder_cases) auto
qed

text \<open>The position found by \<open>lower_bound\<close> is the only one that can hold the address.\<close>

lemma RangeMap_RetrieveRange_iff:
  assumes "RangeMap_inv m"
  shows "RangeMap_RetrieveRange m a = Some hit \<longleftrightarrow>
    (\<exists>x\<in>set m. rbase (snd x) \<le> a \<and> a \<le> fst x \<and> hit = RangeMap_hit x)"
    (is "?L \<longleftrightarrow> ?R")
proof
  let ?i = "lower_bound m a"
  assume ?L
  then have i: "?i < length m" "rbase (snd (m ! ?i)) \<le> a" "hit = RangeMap_hit (m ! ?i)"
    by (auto simp: RangeMap_RetrieveRange_def Let_def not_less le_neq_implies_less split: if_splits)
  with lower_bound_at [OF i(1)] show ?R by (auto intro!: bexI [of _ "m ! ?i"])
next
  assume ?R
  then obtain i where i: "i < length m" "rbase (snd (m ! i)) \<le> a" "a \<le> fst (m ! i)"
    "hit = RangeMap_hit (m ! i)"
    by (auto simp: in_set_conv_nth)
  have "lower_bound m a = i"
    using i RangeMap_inv_nth [OF assms, of _ i]
    by (intro lower_bound_unique RangeMap_inv_ok [OF assms]) (auto intro: less_le_trans)
  with i show ?L by (simp add: RangeMap_RetrieveRange_def not_less)
qed

text \<open>When the two iterators of \<open>StoreRange\<close> agree and the next range starts above, nothing overlaps.\<close>

lemma RangeMap_StoreRange_success:
  assumes inv: "RangeMap_inv m"
  shows "fst (RangeMap_StoreRange m b s e) \<longleftrightarrow>
    s \<noteq> 0 \<and> b \<le> b + s - 1 \<and> (\<forall>x\<in>set m. fst x < b \<or> b + s - 1 < rbase (snd x))"
proof (cases "s = 0 \<or> b + s - 1 < b")
  case True
  then show ?thesis by (auto simp: RangeMap_StoreRange_def Let_def not_le)
next
  case False
  let ?h = "b + s - 1"
  let ?ib = "lower_bound m b" and ?ih = "lower_bound m ?h"
  have ok: "omap_ok m" using inv by (rule RangeMap_inv_ok)
  have bh: "b \<le> ?h" using False by (simp add: not_less)
  have success: "fst (RangeMap_StoreRange m b s e) \<longleftrightarrow>
      ?ib = ?ih \<and> (?ih < length m \<longrightarrow> ?h < rbase (snd (m ! ?ih)))"
    using False by (auto simp: RangeMap_StoreRange_def Let_def not_le le_neq_implies_less)
  also have "\<dots> \<longleftrightarrow> (\<forall>i<length m. fst (m ! i) < b \<or> ?h < rbase (snd (m ! i)))"
  proof (intro iffI allI impI)
    fix i
    assume eq: "?ib = ?ih \<and> (?ih < length m \<longrightarrow> ?h < rbase (snd (m ! ?ih)))" and i: "i < length m"
    consider "i < ?ib" | "i = ?ib" | "?ib < i" by linarith
    then show "fst (m ! i) < b \<or> ?h < rbase (snd (m ! i))"
    proof cases
      case 1
      then show ?thesis using lower_bound_below by blast
    next
      case 2
      then show ?thesis using eq i by simp
    next
      case 3
      then have "fst (m ! ?ib) < rbase (snd (m ! i))" using i inv by (intro RangeMap_inv_nth)
      moreover have "?h < fst (m ! ?ib)"
        using eq 3 i RangeMap_inv_base [OF inv, of "m ! ?ib"] by (auto intro: less_le_trans)
      ultimately show ?thesis by (meson less_trans)
    qed
  next
    assume all: "\<forall>i<length m. fst (m ! i) < b \<or> ?h < rbase (snd (m ! i))"
    have "?ih = ?ib"
    proof (rule lower_bound_unique [OF ok])
      show "fst (m ! j) < ?h" if "j < ?ib" for j
        using lower_bound_below [OF that] bh by (rule less_le_trans)
      show "?h \<le> fst (m ! ?ib)" if "?ib < length m"
      proof -
        have "?h < rbase (snd (m ! ?ib))" using all that lower_bound_at [OF that] by (auto simp: not_le [symmetric])
        also have "\<dots> \<le> fst (m ! ?ib)" using that by (intro RangeMap_inv_base [OF inv]) simp
        finally show ?thesis by simp
      qed
    qed simp
    moreover have "?h < rbase (snd (m ! ?ib))" if "?ib < length m"
      using all that lower_bound_at [OF that] by (auto simp: not_le [symmetric])
    ultimately show "?ib = ?ih \<and> (?ih < length m \<longrightarrow> ?h < rbase (snd (m ! ?ih)))" by simp
  qed
  finally show ?thesis using False bh by (auto simp: all_set_conv_all_nth)
qed

lemma RangeMap_StoreRange_result:
  "snd (RangeMap_StoreRange m b s e) =
   (if fst (RangeMap_StoreRange m b s e) then omap_insert (b + s - 1) \<lparr>rbase = b, rentry = e\<rparr> m else m)"
  by (simp add: RangeMap_StoreRange_def Let_def)

lemma RangeMap_StoreRange_list:
  assumes "RangeMap_inv m" "fst (RangeMap_StoreRange m b s e)"
  shows "snd (RangeMap_StoreRange m b s e) =
    filter (\<lambda>x. fst x < b + s - 1) m @ (b + s - 1, \<lparr>rbase = b, rentry = e\<rparr>) # filter (\<lambda>x. b + s - 1 < fst x) m"
    and "b + s - 1 \<notin> fst ` set m"
proof -
  have apart: "\<forall>x\<in>set m. fst x < b \<or> b + s - 1 < rbase (snd x)" "b \<le> b + s - 1"
    using assms(2) unfolding RangeMap_StoreRange_success [OF assms(1)] by simp_all
  show "b + s - 1 \<notin> fst ` set m"
  proof
    assume "b + s - 1 \<in> fst ` set m"
    then obtain x where x: "x \<in> set m" "fst x = b + s - 1" by auto
    with apart(1) have "fst x < b \<or> fst x < rbase (snd x)" by auto
    with apart(2) x RangeMap_inv_base [OF assms(1) x(1)] show False by (elim disjE; order)
  qed
  then show "snd (RangeMap_StoreRange m b s e) =
    filter (\<lambda>x. fst x < b + s - 1) m @ (b + s - 1, \<lparr>rbase = b, rentry = e\<rparr>) # filter (\<lambda>x. b + s - 1 < fst x) m"
    using assms by (simp add: RangeMap_StoreRange_result omap_insert_fresh RangeMap_inv_ok)
qed

lemma RangeMap_inv_filter: "RangeMap_inv m \<Longrightarrow> RangeMap_inv (filter P m)"
  by (auto simp: RangeMap_inv_def sorted_wrt_filter)

lemma RangeMap_inv_StoreRange [model_inv]:
  assumes inv: "RangeMap_inv m"
  shows "RangeMap_inv (snd (RangeMap_StoreRange m b s e))"
proof (cases "fst (RangeMap_StoreRange m b s e)")
  case False
  with inv show ?thesis by (simp add: RangeMap_StoreRange_result)
next
  case True
  have bh: "b \<le> b + s - 1" and apart: "\<And>x. x \<in> set m \<Longrightarrow> fst x < b \<or> b + s - 1 < rbase (snd x)"
    using True unfolding RangeMap_StoreRange_success [OF inv] by simp_all
  have below: "fst x < b" if "x \<in> set m" "fst x < b + s - 1" for x
    using apart [OF that(1)] that RangeMap_inv_base [OF inv that(1)] by (elim disjE; order)
  have above: "b + s - 1 < rbase (snd x)" if "x \<in> set m" "b + s - 1 < fst x" for x
    using apart [OF that(1)] that bh by (elim disjE; order)
  have "RangeMap_inv (filter (\<lambda>x. fst x < b + s - 1) m @
      (b + s - 1, \<lparr>rbase = b, rentry = e\<rparr>) # filter (\<lambda>x. b + s - 1 < fst x) m)"
    unfolding RangeMap_inv_append RangeMap_inv_Cons
  proof (intro conjI ballI RangeMap_inv_filter inv)
    fix x y
    assume x: "x \<in> set (filter (\<lambda>x. fst x < b + s - 1) m)"
      and "y \<in> set ((b + s - 1, \<lparr>rbase = b, rentry = e\<rparr>) # filter (\<lambda>x. b + s - 1 < fst x) m)"
    then consider "rbase (snd y) = b" | "b + s - 1 < rbase (snd y)" using above by fastforce
    moreover have "fst x < b" using x below by simp
    ultimately show "fst x < rbase (snd y)" using bh by cases order+
  qed (use bh above in auto)
  then show ?thesis using RangeMap_StoreRange_list [OF inv True] by simp
qed

interpretation rm: range_container RangeMap_RetrieveRange RangeMap_inv RangeMap_ranges
  "[]" RangeMap_StoreRange
proof unfold_locales
  fix m :: "('a, 'e) RangeMap" and a b h s b' h' e e'
  assume inv: "RangeMap_inv m"
  show "(b, h, e) \<in> RangeMap_ranges m \<Longrightarrow> b \<le> h"
    using RangeMap_inv_base [OF inv] by (auto simp: RangeMap_ranges_def)
  show "(b, h, e) \<in> RangeMap_ranges m \<Longrightarrow> (b', h', e') \<in> RangeMap_ranges m \<Longrightarrow>
      (b, h, e) = (b', h', e') \<or> h < b' \<or> h' < b"
    by (auto simp: RangeMap_ranges_def dest: RangeMap_inv_apart [OF inv])
  show "RangeMap_RetrieveRange m a = Some (e, b, s) \<longleftrightarrow>
      (\<exists>h. (b, h, e) \<in> RangeMap_ranges m \<and> b \<le> a \<and> a \<le> h \<and> s = h - b + 1)"
    by (auto simp: RangeMap_RetrieveRange_iff [OF inv] RangeMap_ranges_def RangeMap_hit_def)
  show "RangeMap_inv (snd (RangeMap_StoreRange m b s e))" using inv by (rule RangeMap_inv_StoreRange)
  show "RangeMap_ranges (snd (RangeMap_StoreRange m b s e)) =
      (if fst (RangeMap_StoreRange m b s e) then insert (b, b + s - 1, e) (RangeMap_ranges m)
       else RangeMap_ranges m)"
    using set_omap_insert [OF RangeMap_inv_ok [OF inv], of "b + s - 1" "\<lparr>rbase = b, rentry = e\<rparr>"]
      RangeMap_StoreRange_list(2) [OF inv, of b s e]
    by (simp add: RangeMap_StoreRange_result RangeMap_ranges_def)
  show "fst (RangeMap_StoreRange m b s e) \<longleftrightarrow> s \<noteq> 0 \<and> unat b + unat s \<le> 2 ^ LENGTH('a) \<and>
      (\<forall>(b', h', e')\<in>RangeMap_ranges m. h' < b \<or> b + s - 1 < b')"
    using high_address_overflow [of s b]
    by (auto simp: RangeMap_StoreRange_success [OF inv] RangeMap_ranges_def not_less [symmetric])
qed (simp_all add: RangeMap_ranges_def)

section \<open>The nearest range\<close>

definition nearest_range :: "('a::len, 'e) RangeMap \<Rightarrow> 'a word \<Rightarrow> 'a word \<times> ('a word, 'e) Range \<Rightarrow> bool" where
  "nearest_range m a x \<longleftrightarrow>
     x \<in> set m \<and> rbase (snd x) \<le> a \<and> (\<forall>y\<in>set m. rbase (snd y) \<le> a \<longrightarrow> rbase (snd y) \<le> rbase (snd x))"

lemma nearest_range_inside:
  assumes inv: "RangeMap_inv m" and x: "x \<in> set m" "rbase (snd x) \<le> a" "a \<le> fst x"
  shows "nearest_range m a x"
proof -
  have "rbase (snd y) \<le> rbase (snd x)" if y: "y \<in> set m" "rbase (snd y) \<le> a" for y
    using RangeMap_inv_apart [OF inv x(1) y(1)] RangeMap_inv_base [OF inv y(1)] x y
    by (elim disjE) (simp, order, order)
  with x show ?thesis by (auto simp: nearest_range_def)
qed

lemma RangeMap_RetrieveRange_None:
  assumes "RangeMap_inv m" "RangeMap_RetrieveRange m a = None" "x \<in> set m" "a \<le> fst x"
  shows "a < rbase (snd x)"
proof (rule ccontr)
  assume "\<not> a < rbase (snd x)"
  then have "RangeMap_RetrieveRange m a = Some (RangeMap_hit x)"
    using assms by (subst RangeMap_RetrieveRange_iff) (auto simp: not_less)
  with assms(2) show False by simp
qed

lemma RangeMap_RetrieveNearestRange_cases:
  assumes inv: "RangeMap_inv m"
  shows "case RangeMap_RetrieveNearestRange m a of
      None \<Rightarrow> (\<forall>x\<in>set m. a < rbase (snd x))
    | Some hit \<Rightarrow> (\<exists>x. nearest_range m a x \<and> hit = RangeMap_hit x)"
proof (cases "RangeMap_RetrieveRange m a")
  case (Some hit)
  then obtain x where "x \<in> set m" "rbase (snd x) \<le> a" "a \<le> fst x" "hit = RangeMap_hit x"
    using RangeMap_RetrieveRange_iff [OF inv] by blast
  with nearest_range_inside [OF inv] have "\<exists>x. nearest_range m a x \<and> hit = RangeMap_hit x" by blast
  then show ?thesis using Some by (simp add: RangeMap_RetrieveNearestRange_def)
next
  case None
  let ?u = "upper_bound m a"
  have above: "a < rbase (snd (m ! j))" if "?u \<le> j" "j < length m" for j
    using upper_bound_above [OF RangeMap_inv_ok [OF inv] that] that
    by (intro RangeMap_RetrieveRange_None [OF inv None]) auto
  show ?thesis
  proof (cases "?u = 0")
    case True
    with above have "\<forall>x\<in>set m. a < rbase (snd x)" by (metis in_set_conv_nth le0)
    with None True show ?thesis by (simp add: RangeMap_RetrieveNearestRange_def)
  next
    case False
    then have i: "?u - 1 < length m" "?u - 1 < ?u" using upper_bound_le [of m a] by linarith+
    have "nearest_range m a (m ! (?u - 1))"
      unfolding nearest_range_def
    proof (intro conjI ballI impI)
      show mem: "m ! (?u - 1) \<in> set m" using i by simp
      show "rbase (snd (m ! (?u - 1))) \<le> a"
        using RangeMap_inv_base [OF inv mem] upper_bound_below [OF i(2)] by order
      fix y
      assume "y \<in> set m" and ya: "rbase (snd y) \<le> a"
      then obtain j where j: "j < length m" "y = m ! j" by (auto simp: in_set_conv_nth)
      with ya above [of j] have "j < ?u" by (meson leD leI)
      then consider "j = ?u - 1" | "j < ?u - 1" by linarith
      then show "rbase (snd y) \<le> rbase (snd (m ! (?u - 1)))"
      proof cases
        case 2
        then have "fst y < rbase (snd (m ! (?u - 1)))" using inv i j by (simp add: RangeMap_inv_nth)
        moreover have "rbase (snd y) \<le> fst y" using inv j by (intro RangeMap_inv_base) auto
        ultimately show ?thesis by order
      qed (use j in simp)
    qed
    then have "\<exists>x. nearest_range m a x \<and> RangeMap_hit (m ! (?u - 1)) = RangeMap_hit x" by blast
    with None False show ?thesis by (simp add: RangeMap_RetrieveNearestRange_def)
  qed
qed

lemma nearest_range_unique:
  assumes "RangeMap_inv m" "nearest_range m a x" "nearest_range m a y"
  shows "x = y"
proof -
  have xy: "x \<in> set m" "y \<in> set m" "rbase (snd x) = rbase (snd y)"
    using assms(2,3) by (auto simp: nearest_range_def intro: antisym)
  have "rbase (snd x) \<le> fst x" "rbase (snd y) \<le> fst y"
    using RangeMap_inv_base [OF assms(1) xy(1)] RangeMap_inv_base [OF assms(1) xy(2)] by simp_all
  with RangeMap_inv_apart [OF assms(1) xy(1,2)] xy(3) show ?thesis by auto
qed

lemma RangeMap_RetrieveNearestRange_iff:
  assumes "RangeMap_inv m"
  shows "RangeMap_RetrieveNearestRange m a = Some hit \<longleftrightarrow>
    (\<exists>x. nearest_range m a x \<and> hit = RangeMap_hit x)"
proof (cases "RangeMap_RetrieveNearestRange m a")
  case None
  with RangeMap_RetrieveNearestRange_cases [OF assms, of a] have "\<forall>x\<in>set m. a < rbase (snd x)" by simp
  then have "\<not> nearest_range m a x" for x by (auto simp: nearest_range_def)
  with None show ?thesis by simp
next
  case (Some h)
  with RangeMap_RetrieveNearestRange_cases [OF assms, of a]
  obtain x where x: "nearest_range m a x" "h = RangeMap_hit x" by auto
  then have "nearest_range m a y \<longleftrightarrow> y = x" for y using nearest_range_unique [OF assms] by blast
  with Some x show ?thesis by auto
qed

lemma meets_iff_common_address:
  fixes b :: "'a::len word"
  assumes "b \<le> h" "b' \<le> h'"
  shows "(h' < b \<or> h < b') \<longleftrightarrow> (\<forall>a. b \<le> a \<and> a \<le> h \<longrightarrow> \<not> (b' \<le> a \<and> a \<le> h'))"
proof
  assume "\<forall>a. b \<le> a \<and> a \<le> h \<longrightarrow> \<not> (b' \<le> a \<and> a \<le> h')"
  then have "\<not> (b \<le> max b b' \<and> max b b' \<le> h \<and> b' \<le> max b b' \<and> max b b' \<le> h')" by blast
  then show "h' < b \<or> h < b'" using assms by (auto simp: max_def not_le split: if_splits)
qed auto

section \<open>Properties\<close>

text \<open>C1. A lookup after an insertion: the new range answers for exactly its own addresses, with its own
  base and size, every other address answers as before, and a refused insertion changes nothing.\<close>

theorem RangeMap_store_retrieve:
  assumes "RangeMap_inv m"
  shows "RangeMap_RetrieveRange (snd (RangeMap_StoreRange m b s e)) a =
    (if fst (RangeMap_StoreRange m b s e) \<and> b \<le> a \<and> a \<le> b + s - 1
     then Some (e, b, s) else RangeMap_RetrieveRange m a)"
  using assms by (rule rm.retrieve_store)

theorem RangeMap_store_retrieve_witness:
  "RangeMap_inv ([] :: (32, string) RangeMap) \<and>
   RangeMap_RetrieveRange (snd (RangeMap_StoreRange [] (0x1000 :: 32 word) 16 ''f'')) 0x100F =
     Some (''f'', 0x1000, 16)"
  using RangeMap_store_retrieve [of "[] :: (32, string) RangeMap" "0x1000" 16 "''f''" "0x100F"]
  by (simp add: RangeMap_StoreRange_def lower_bound_def)

text \<open>C2. \<open>StoreRange\<close> accepts a range exactly when it is not empty, does not run past the end of the
  address space and shares no address with a range that is already stored.\<close>

theorem RangeMap_store_accepts:
  fixes b s :: "'a::len word"
  assumes "RangeMap_inv m"
  shows "fst (RangeMap_StoreRange m b s e) \<longleftrightarrow>
    0 < unat s \<and> unat b + unat s \<le> 2 ^ LENGTH('a) \<and>
    (\<forall>a. b \<le> a \<and> a \<le> b + s - 1 \<longrightarrow> RangeMap_RetrieveRange m a = None)"
proof (cases "s \<noteq> 0 \<and> unat b + unat s \<le> 2 ^ LENGTH('a)")
  case False
  then show ?thesis using rm.store_accepts [OF assms] by (auto simp: unat_gt_0)
next
  case True
  then have bh: "b \<le> b + s - 1" using high_address_overflow [of s b] by (simp add: not_less [symmetric])
  have "(\<forall>(b', h, e')\<in>RangeMap_ranges m. h < b \<or> b + s - 1 < b') \<longleftrightarrow>
      (\<forall>(b', h, e')\<in>RangeMap_ranges m. \<forall>a. b \<le> a \<and> a \<le> b + s - 1 \<longrightarrow> \<not> (b' \<le> a \<and> a \<le> h))"
    by (intro ball_cong refl, clarify)
      (rule meets_iff_common_address [OF bh rm.ranges_nonempty [OF assms]])
  also have "\<dots> \<longleftrightarrow> (\<forall>a. b \<le> a \<and> a \<le> b + s - 1 \<longrightarrow> RangeMap_RetrieveRange m a = None)"
    unfolding rm.retrieve_none [OF assms] by fast
  finally have "(\<forall>(b', h, e')\<in>RangeMap_ranges m. h < b \<or> b + s - 1 < b') \<longleftrightarrow>
      (\<forall>a. b \<le> a \<and> a \<le> b + s - 1 \<longrightarrow> RangeMap_RetrieveRange m a = None)" .
  with True show ?thesis by (simp add: rm.store_accepts [OF assms] unat_gt_0)
qed

theorem RangeMap_store_accepts_witness:
  "RangeMap_inv ([] :: (32, string) RangeMap) \<and>
   \<not> fst (RangeMap_StoreRange [] (0xFFFFFFF0 :: 32 word) 0x11 ''f'')"
  using RangeMap_store_accepts [of "[] :: (32, string) RangeMap" "0xFFFFFFF0" "0x11" "''f''"] by simp

lemma RangeMap_nearest_some:
  assumes "RangeMap_inv m"
  shows "RangeMap_RetrieveNearestRange m a = Some (e, b, s) \<longleftrightarrow>
    (\<exists>h. (b, h, e) \<in> RangeMap_ranges m \<and> s = h - b + 1 \<and> b \<le> a \<and>
       (\<forall>(b', h', e')\<in>RangeMap_ranges m. b' \<le> a \<longrightarrow> b' \<le> b))"
proof -
  have "RangeMap_RetrieveNearestRange m a = Some (e, b, s) \<longleftrightarrow>
      (\<exists>x. nearest_range m a x \<and> (e, b, s) = RangeMap_hit x)"
    by (rule RangeMap_RetrieveNearestRange_iff [OF assms])
  also have "\<dots> \<longleftrightarrow> (\<exists>h. (b, h, e) \<in> RangeMap_ranges m \<and> s = h - b + 1 \<and> b \<le> a \<and>
       (\<forall>(b', h', e')\<in>RangeMap_ranges m. b' \<le> a \<longrightarrow> b' \<le> b))"
    (is "?L \<longleftrightarrow> ?R")
  proof
    assume ?L
    then obtain x where "nearest_range m a x" "(e, b, s) = RangeMap_hit x" by blast
    then show ?R
      by (intro exI [of _ "fst x"]) (auto simp: nearest_range_def RangeMap_hit_def RangeMap_ranges_def image_iff
          intro!: bexI [of _ x])
  next
    assume ?R
    then obtain x where "x \<in> set m" "b = rbase (snd x)" "e = rentry (snd x)" "s = fst x - b + 1" "b \<le> a"
      "\<forall>y\<in>set m. rbase (snd y) \<le> a \<longrightarrow> rbase (snd y) \<le> b"
      by (auto simp: RangeMap_ranges_def)
    then show ?L by (intro exI [of _ x]) (simp add: nearest_range_def RangeMap_hit_def)
  qed
  finally show ?thesis .
qed

lemma RangeMap_nearest_none:
  assumes "RangeMap_inv m"
  shows "RangeMap_RetrieveNearestRange m a = None \<longleftrightarrow> (\<forall>(b, h, e)\<in>RangeMap_ranges m. a < b)"
  using RangeMap_RetrieveNearestRange_cases [OF assms, of a]
  by (auto simp: RangeMap_ranges_def nearest_range_def split: option.splits) (metis leD snd_conv)

text \<open>\<open>RetrieveNearestRange\<close> returns the stored range with the greatest base address that is not above
  the address, whether or not that range reaches the address.\<close>

theorem RangeMap_nearest:
  assumes "RangeMap_inv m"
  shows "RangeMap_RetrieveNearestRange m a = Some (e, b, s) \<longleftrightarrow>
    (\<exists>h. (b, h, e) \<in> RangeMap_ranges m \<and> s = h - b + 1 \<and> b \<le> a \<and>
       (\<forall>(b', h', e')\<in>RangeMap_ranges m. b' \<le> a \<longrightarrow> b' \<le> b))"
  by (rule RangeMap_nearest_some [OF assms])

theorem RangeMap_nearest_witness:
  "RangeMap_inv [(0x1FFF :: 32 word, \<lparr>rbase = 0x1000, rentry = ''f''\<rparr>)] \<and>
   RangeMap_RetrieveNearestRange [(0x1FFF :: 32 word, \<lparr>rbase = 0x1000, rentry = ''f''\<rparr>)] 0x3000 =
     Some (''f'', 0x1000, 0x1000)"
  using RangeMap_nearest [of "[(0x1FFF :: 32 word, \<lparr>rbase = 0x1000, rentry = ''f''\<rparr>)]" "0x3000"
      "''f''" "0x1000" "0x1000"]
  by (simp add: RangeMap_inv_def RangeMap_ranges_def)

text \<open>\<open>RetrieveRangeAtIndex\<close> enumerates the stored ranges in ascending order; the one call that leaves
  the defined behaviour is a negative index on an empty map, where it dereferences \<open>end()\<close>.\<close>

theorem RangeMap_at_index:
  assumes "length m < 2 ^ 31"
  shows "RangeMap_RetrieveRangeAtIndex m index =
    (if int (length m) \<le> index then Returns None
     else if m = [] then Undefined
     else Returns (Some (RangeMap_hit (m ! nat index))))"
proof -
  have "RangeMap_GetCount m = int (length m)"
    using assms by (simp add: RangeMap_GetCount_def signed_of_nat signed_take_bit_int_eq_self)
  moreover have "nat index < length m \<longleftrightarrow> m \<noteq> []" if "index < int (length m)"
    using that by (cases "0 \<le> index") (auto simp: nat_less_iff)
  ultimately show ?thesis by (auto simp: RangeMap_RetrieveRangeAtIndex_def Let_def not_le)
qed

theorem RangeMap_at_index_witness:
  "length ([] :: (32, string) RangeMap) < 2 ^ 31 \<and>
   RangeMap_RetrieveRangeAtIndex ([] :: (32, string) RangeMap) (-1) = Undefined"
  using RangeMap_at_index [of "[] :: (32, string) RangeMap" "-1"] by simp

end
