(* ===== verification/Address_Map.thy ===== *)
theory Address_Map
  imports Std_Map
begin

text \<open>
  \<^verbatim>\<open>AddressMap\<close> (\<^verbatim>\<open>processor/address_map-inl.h\<close>): entries at single addresses; a lookup returns the entry at
  the highest stored address that is not above the query. \<open>address_reader\<close> is the contract of the lookup,
  shared with the read-only map of the serialised symbol format.
\<close>

section \<open>The code\<close>

type_synonym ('a, 'e) AddressMap = "('a word, 'e) omap"

definition AddressMap_Store ::
  "('a::len, 'e) AddressMap \<Rightarrow> 'a word \<Rightarrow> 'e \<Rightarrow> bool \<times> ('a, 'e) AddressMap" where
  "AddressMap_Store m address entry =
     (if omap_find m address \<noteq> length m then (False, m)
      else (True, omap_insert address entry m))"

definition AddressMap_Retrieve ::
  "('a::len, 'e) AddressMap \<Rightarrow> 'a word \<Rightarrow> ('e \<times> 'a word) option" where
  "AddressMap_Retrieve m address =
     (let iterator = upper_bound m address in
      if iterator = 0 then None
      else Some (snd (m ! (iterator - 1)), fst (m ! (iterator - 1))))"

definition AddressMap_Clear :: "('a::len, 'e) AddressMap \<Rightarrow> ('a, 'e) AddressMap" where
  "AddressMap_Clear m = []"

section \<open>The interface\<close>

locale address_reader =
  fixes retrieve :: "'m \<Rightarrow> 'a::len word \<Rightarrow> ('e \<times> 'a word) option"
    and invar :: "'m \<Rightarrow> bool"
    and entries :: "'m \<Rightarrow> 'a word \<rightharpoonup> 'e"
  assumes retrieve_hit: "invar m \<Longrightarrow> retrieve m a = Some (e, k) \<longleftrightarrow>
      entries m k = Some e \<and> k \<le> a \<and> (\<forall>k'\<in>dom (entries m). k' \<le> a \<longrightarrow> k' \<le> k)"
    and retrieve_miss: "invar m \<Longrightarrow> retrieve m a = None \<longleftrightarrow> (\<forall>k\<in>dom (entries m). a < k)"
begin

lemma retrieve_stored: "invar m \<Longrightarrow> entries m a = Some e \<Longrightarrow> retrieve m a = Some (e, a)"
  by (simp add: retrieve_hit)

lemma retrieve_gap:
  assumes "invar m" "retrieve m a = Some (e, k)" "a \<le> a'" "\<forall>k'\<in>dom (entries m). \<not> (a < k' \<and> k' \<le> a')"
  shows "retrieve m a' = Some (e, k)"
proof -
  have k: "entries m k = Some e" "k \<le> a" "\<forall>k'\<in>dom (entries m). k' \<le> a \<longrightarrow> k' \<le> k"
    using assms(1,2) by (auto simp: retrieve_hit)
  have "k' \<le> k" if "k' \<in> dom (entries m)" "k' \<le> a'" for k'
    using that assms(4) k(3) by (meson leI)
  with k assms(1,3) show ?thesis by (simp add: retrieve_hit)
qed

end

section \<open>The implementation meets the interface\<close>

lemma AddressMap_Retrieve_some:
  assumes "omap_ok m" "0 < upper_bound m a"
  defines "i \<equiv> upper_bound m a - 1"
  shows "map_of m (fst (m ! i)) = Some (snd (m ! i))" "fst (m ! i) \<le> a"
    and "\<forall>k\<in>dom (map_of m). k \<le> a \<longrightarrow> k \<le> fst (m ! i)"
proof -
  have i: "i < length m" "i < upper_bound m a" using assms(2) upper_bound_le [of m a] unfolding i_def by linarith+
  show "map_of m (fst (m ! i)) = Some (snd (m ! i))" using assms(1) i(1) by (rule map_of_nth)
  show "fst (m ! i) \<le> a" using i(2) by (rule upper_bound_below)
  show "\<forall>k\<in>dom (map_of m). k \<le> a \<longrightarrow> k \<le> fst (m ! i)"
  proof (intro ballI impI)
    fix k
    assume k: "k \<in> dom (map_of m)" "k \<le> a"
    then have "k \<in> fst ` set m" by (simp add: dom_map_of_conv_image_fst)
    then obtain j where j: "j < length m" "fst (m ! j) = k" by (auto simp: in_set_conv_nth)
    with k(2) have "j < upper_bound m a" using upper_bound_above [OF assms(1)] by (meson leD leI)
    then have "j \<le> i" by (simp add: i_def)
    then show "k \<le> fst (m ! i)"
      using omap_ok_nth [OF assms(1), of j i] i(1) j(2) by (cases "j = i") auto
  qed
qed

lemma AddressMap_Retrieve_none:
  assumes "omap_ok m"
  shows "upper_bound m a = 0 \<longleftrightarrow> (\<forall>k\<in>dom (map_of m). a < k)"
proof
  assume "upper_bound m a = 0"
  then have "a < fst (m ! j)" if "j < length m" for j using that upper_bound_above [OF assms, of a j] by simp
  then show "\<forall>k\<in>dom (map_of m). a < k"
    by (metis dom_map_of_conv_image_fst imageE in_set_conv_nth)
next
  assume all: "\<forall>k\<in>dom (map_of m). a < k"
  show "upper_bound m a = 0"
  proof (rule ccontr)
    assume "upper_bound m a \<noteq> 0"
    with AddressMap_Retrieve_some(1,2) [OF assms, of a] all show False by (auto dest!: leD)
  qed
qed

interpretation am: address_reader AddressMap_Retrieve omap_ok map_of
proof
  fix m :: "('a, 'e) AddressMap" and a k e
  assume ok: "omap_ok m"
  show "AddressMap_Retrieve m a = None \<longleftrightarrow> (\<forall>k\<in>dom (map_of m). a < k)"
    using AddressMap_Retrieve_none [OF ok] by (simp add: AddressMap_Retrieve_def Let_def)
  show "AddressMap_Retrieve m a = Some (e, k) \<longleftrightarrow>
      map_of m k = Some e \<and> k \<le> a \<and> (\<forall>k'\<in>dom (map_of m). k' \<le> a \<longrightarrow> k' \<le> k)"
  proof (cases "upper_bound m a = 0")
    case True
    then have "\<not> (map_of m k = Some e \<and> k \<le> a)" using AddressMap_Retrieve_none [OF ok, of a] by (metis domI leD)
    with True show ?thesis by (auto simp: AddressMap_Retrieve_def)
  next
    case False
    note some = AddressMap_Retrieve_some [OF ok, of a]
    let ?x = "m ! (upper_bound m a - 1)"
    have "(e = snd ?x \<and> k = fst ?x) \<longleftrightarrow>
        map_of m k = Some e \<and> k \<le> a \<and> (\<forall>k'\<in>dom (map_of m). k' \<le> a \<longrightarrow> k' \<le> k)" (is "?L \<longleftrightarrow> ?R")
    proof
      assume ?R
      then have "k = fst ?x" using some False by (intro antisym) (auto simp: domI)
      with \<open>?R\<close> some(1) False show ?L by simp
    qed (use some False in simp)
    moreover have "AddressMap_Retrieve m a = Some (e, k) \<longleftrightarrow> e = snd ?x \<and> k = fst ?x"
      using False by (auto simp: AddressMap_Retrieve_def Let_def)
    ultimately show ?thesis by simp
  qed
qed

lemma AddressMap_Store_result:
  assumes "omap_ok m"
  shows "AddressMap_Store m a e =
    (if a \<in> dom (map_of m) then (False, m) else (True, omap_insert a e m))"
proof -
  have "omap_find m a \<noteq> length m \<longleftrightarrow> omap_find m a < length m"
    by (auto simp: omap_find_def Let_def)
  then show ?thesis
    by (simp add: AddressMap_Store_def omap_find_iff [OF assms] dom_map_of_conv_image_fst)
qed

lemma AddressMap_ok_Store [model_inv]: "omap_ok m \<Longrightarrow> omap_ok (snd (AddressMap_Store m a e))"
  by (simp add: AddressMap_Store_result omap_ok_insert)

lemma AddressMap_entries_Store:
  "omap_ok m \<Longrightarrow> map_of (snd (AddressMap_Store m a e)) =
   (if a \<in> dom (map_of m) then map_of m else (map_of m)(a \<mapsto> e))"
  by (simp add: AddressMap_Store_result map_of_omap_insert dom_map_of_conv_image_fst)

section \<open>Properties\<close>

text \<open>\<open>Store\<close> refuses an address that is taken, and a lookup then returns the entry at the highest
  stored address not above the query, the new entry included when it was accepted.\<close>

theorem AddressMap_store_retrieve:
  assumes "omap_ok m"
  shows "(fst (AddressMap_Store m k e) \<longleftrightarrow> k \<notin> dom (map_of m)) \<and>
    AddressMap_Retrieve (snd (AddressMap_Store m k e)) a =
      (if fst (AddressMap_Store m k e) \<and> k \<le> a \<and>
          (\<forall>e' k'. AddressMap_Retrieve m a = Some (e', k') \<longrightarrow> k' < k)
       then Some (e, k) else AddressMap_Retrieve m a)"
proof (cases "k \<in> dom (map_of m)")
  case True
  with assms show ?thesis by (simp add: AddressMap_Store_result)
next
  case False
  let ?m = "snd (AddressMap_Store m k e)"
  have succ: "fst (AddressMap_Store m k e)" using assms False by (simp add: AddressMap_Store_result)
  have ok: "omap_ok ?m" using assms by (rule AddressMap_ok_Store)
  have ents: "map_of ?m = (map_of m)(k \<mapsto> e)" using False assms by (simp add: AddressMap_entries_Store)
  have "AddressMap_Retrieve ?m a = (if k \<le> a \<and> (\<forall>e' k'. AddressMap_Retrieve m a = Some (e', k') \<longrightarrow> k' < k)
      then Some (e, k) else AddressMap_Retrieve m a)"
  proof (cases "AddressMap_Retrieve m a")
    case None
    then have all: "\<forall>k\<in>dom (map_of m). a < k" using am.retrieve_miss [OF assms] by simp
    then have none: "\<not> k' \<le> a" if "map_of m k' = Some y" for k' y using that by (metis domI leD)
    have "AddressMap_Retrieve ?m a = (if k \<le> a then Some (e, k) else None)"
    proof (cases "k \<le> a")
      case True
      then show ?thesis using none by (auto simp: am.retrieve_hit [OF ok] ents)
    next
      case False
      then show ?thesis using all by (auto simp: am.retrieve_miss [OF ok] ents not_le)
    qed
    with None show ?thesis by simp
  next
    case (Some x)
    then obtain e0 k0 where x: "AddressMap_Retrieve m a = Some (e0, k0)" by (cases x) auto
    then have h: "map_of m k0 = Some e0" "k0 \<le> a" "\<forall>k'\<in>dom (map_of m). k' \<le> a \<longrightarrow> k' \<le> k0"
      using am.retrieve_hit [OF assms] by blast+
    have neq: "k0 \<noteq> k" using h(1) False by auto
    show ?thesis
    proof (cases "k \<le> a \<and> k0 < k")
      case True
      then have "AddressMap_Retrieve ?m a = Some (e, k)"
        using h by (force simp: am.retrieve_hit [OF ok] ents)
      with True x show ?thesis by simp
    next
      case no: False
      then have "AddressMap_Retrieve ?m a = Some (e0, k0)"
        using h neq by (auto simp: am.retrieve_hit [OF ok] ents)
      with no x show ?thesis by auto
    qed
  qed
  with succ False show ?thesis by simp
qed

theorem AddressMap_store_retrieve_witness:
  "omap_ok [(0x100 :: 64 word, ''a'')] \<and> fst (AddressMap_Store [(0x100 :: 64 word, ''a'')] 0x200 ''b'') \<and>
   AddressMap_Retrieve (snd (AddressMap_Store [(0x100 :: 64 word, ''a'')] 0x200 ''b'')) 0x1FF =
     Some (''a'', 0x100)"
  using AddressMap_store_retrieve [of "[(0x100 :: 64 word, ''a'')]" "0x200" "''b''" "0x1FF"]
  by (simp add: omap_ok_def AddressMap_Retrieve_def upper_bound_def)

end
