(* ===== verification/Contained_Range_Map.thy ===== *)
theory Contained_Range_Map
  imports Std_Map
begin

text \<open>
  \<^verbatim>\<open>ContainedRangeMap\<close> (\<^verbatim>\<open>processor/contained_range_map.h\<close>, \<^verbatim>\<open>processor/contained_range_map-inl.h\<close>): a tree
  of address ranges in which a range may only hold smaller ranges that lie entirely inside it. Each node
  keeps its children in a \<open>std::map\<close> keyed by the highest address of the child; the pointer to that map is
  null until something is stored, which is the \<open>option\<close> below. The root's own base and entry are never read.

  The specification is the set of stored ranges: \<open>StoreRange\<close> keeps it a family of pairwise disjoint or
  strictly nested ranges and refuses exactly what would break that, and \<open>RetrieveRange\<close> returns the
  smallest range around an address.
\<close>

section \<open>The code\<close>

datatype ('k, 'e) ContainedRangeMap =
  Node (nbase: 'k) (nentry: 'e) (nmap: "('k \<times> ('k, 'e) ContainedRangeMap) list option")

type_synonym ('a, 'e) crm = "('a word, 'e) ContainedRangeMap"

definition ContainedRangeMap_root :: "'e \<Rightarrow> ('a::len, 'e) crm" where
  "ContainedRangeMap_root e = Node 0 e None"

fun children :: "('k, 'e) ContainedRangeMap \<Rightarrow> ('k \<times> ('k, 'e) ContainedRangeMap) list" where
  "children (Node b e None) = []"
| "children (Node b e (Some m)) = m"

fun with_children ::
  "('k, 'e) ContainedRangeMap \<Rightarrow> ('k \<times> ('k, 'e) ContainedRangeMap) list \<Rightarrow> ('k, 'e) ContainedRangeMap" where
  "with_children (Node b e m) m' = Node b e (Some m')"

lemma size_children: "x \<in> set (children n) \<Longrightarrow> size (snd x) < size n"
proof (cases n rule: children.cases)
  case (2 b e m)
  assume "x \<in> set (children n)"
  with 2 have "x \<in> set m" by simp
  then have "size (snd x) \<le> size_list (size_prod (\<lambda>_. 0) size) m"
    by (rule size_list_estimation') (simp add: size_prod_simp)
  with 2 show ?thesis by simp
qed auto

lemma size_children_nth: "i < length (children n) \<Longrightarrow> size (snd (children n ! i)) < size n"
  by (rule size_children) simp

function ContainedRangeMap_StoreRange ::
  "('a::len, 'e) crm \<Rightarrow> 'a word \<Rightarrow> 'a word \<Rightarrow> 'e \<Rightarrow> bool \<times> ('a, 'e) crm" where
  "ContainedRangeMap_StoreRange n base sz entry =
     (let high = base + sz - 1 in
      if sz \<le> 0 \<or> high < base then (False, n)
      else
        let m = children n;
            iterator_base = lower_bound m base;
            iterator_high = lower_bound m high;
            iterator_end = length m
        in if iterator_base = iterator_high \<and> iterator_base \<noteq> iterator_end \<and>
              base \<ge> nbase (snd (m ! iterator_base))
           then
             (if nbase (snd (m ! iterator_base)) = base \<and> fst (m ! iterator_base) = high
              then (False, with_children n m)
              else
                let r = ContainedRangeMap_StoreRange (snd (m ! iterator_base)) base sz entry
                in (fst r, with_children n (m[iterator_base := (fst (m ! iterator_base), snd r)])))
           else
             let contains_high = iterator_high \<noteq> iterator_end \<and>
                   high \<ge> nbase (snd (m ! iterator_high))
             in if (iterator_base \<noteq> iterator_end \<and> base > nbase (snd (m ! iterator_base))) \<or>
                   (contains_high \<and> high < fst (m ! iterator_high))
                then (False, with_children n m)
                else
                  let iterator_high = (if contains_high then iterator_high + 1 else iterator_high);
                      child_map = (if iterator_base \<noteq> iterator_high
                                   then Some (take (iterator_high - iterator_base) (drop iterator_base m))
                                   else None);
                      m' = (if iterator_base \<noteq> iterator_high
                            then omap_erase iterator_base iterator_high m else m)
                  in (True, with_children n (omap_insert high (Node base entry child_map) m')))"
  by pat_completeness auto
termination
  by (relation "measure (\<lambda>(n, _). size n)")
    (auto intro!: size_children_nth simp: le_neq_implies_less)

declare ContainedRangeMap_StoreRange.simps [simp del]

function ContainedRangeMap_RetrieveRange :: "('a::len, 'e) crm \<Rightarrow> 'a word \<Rightarrow> 'e option" where
  "ContainedRangeMap_RetrieveRange n address =
     (if nmap n = None then None
      else
        let m = children n; iterator = lower_bound m address
        in if iterator = length m \<or> address < nbase (snd (m ! iterator)) then None
           else (case ContainedRangeMap_RetrieveRange (snd (m ! iterator)) address of
                   Some entry \<Rightarrow> Some entry
                 | None \<Rightarrow> Some (nentry (snd (m ! iterator)))))"
  by pat_completeness auto
termination
  by (relation "measure (\<lambda>(n, _). size n)")
    (auto intro!: size_children_nth simp: le_neq_implies_less)

declare ContainedRangeMap_RetrieveRange.simps [simp del]

fun ContainedRangeMap_Clear :: "('a::len, 'e) crm \<Rightarrow> ('a, 'e) crm" where
  "ContainedRangeMap_Clear (Node b e m) = Node b e None"

section \<open>Specification\<close>

text \<open>The stored ranges below a node, as lowest address, highest address and entry.\<close>

function crm_ranges :: "('k, 'e) ContainedRangeMap \<Rightarrow> ('k \<times> 'k \<times> 'e) set" where
  "crm_ranges n =
     (\<Union>x\<in>set (children n). insert (nbase (snd x), fst x, nentry (snd x)) (crm_ranges (snd x)))"
  by pat_completeness auto
termination
  by (relation "measure size") (auto dest: size_children)

declare crm_ranges.simps [simp del]

definition siblings_ok :: "('k::linorder \<times> ('k, 'e) ContainedRangeMap) list \<Rightarrow> bool" where
  "siblings_ok m \<longleftrightarrow>
     (\<forall>x\<in>set m. nbase (snd x) \<le> fst x) \<and> sorted_wrt (\<lambda>x y. fst x < nbase (snd y)) m"

definition strictly_inside :: "'k::linorder \<Rightarrow> 'k \<Rightarrow> 'k \<Rightarrow> 'k \<Rightarrow> bool" where
  "strictly_inside b h b' h' \<longleftrightarrow> b' \<le> b \<and> h \<le> h' \<and> (b, h) \<noteq> (b', h')"

function crm_inv :: "('k::linorder, 'e) ContainedRangeMap \<Rightarrow> bool" where
  "crm_inv n \<longleftrightarrow>
     siblings_ok (children n) \<and>
     (\<forall>x\<in>set (children n). crm_inv (snd x) \<and>
        (\<forall>y\<in>set (children (snd x)). strictly_inside (nbase (snd y)) (fst y) (nbase (snd x)) (fst x)))"
  by pat_completeness auto
termination
  by (relation "measure size") (auto dest: size_children)

declare crm_inv.simps [simp del]

section \<open>Siblings\<close>

lemma siblings_ok_Nil [simp]: "siblings_ok []"
  by (simp add: siblings_ok_def)

lemma siblings_ok_append:
  "siblings_ok (xs @ ys) \<longleftrightarrow>
   siblings_ok xs \<and> siblings_ok ys \<and> (\<forall>x\<in>set xs. \<forall>y\<in>set ys. fst x < nbase (snd y))"
  by (auto simp: siblings_ok_def sorted_wrt_append)

lemma siblings_ok_Cons:
  "siblings_ok (x # xs) \<longleftrightarrow>
   nbase (snd x) \<le> fst x \<and> siblings_ok xs \<and> (\<forall>y\<in>set xs. fst x < nbase (snd y))"
  by (auto simp: siblings_ok_def)

lemma siblings_ok_base: "siblings_ok m \<Longrightarrow> x \<in> set m \<Longrightarrow> nbase (snd x) \<le> fst x"
  by (simp add: siblings_ok_def)

lemma siblings_ok_omap: "siblings_ok m \<Longrightarrow> omap_ok m"
  unfolding siblings_ok_def omap_ok_wrt
  by (elim conjE, erule sorted_wrt_mono_rel [rotated]) (auto intro: less_le_trans)

lemma siblings_ok_nth:
  "siblings_ok m \<Longrightarrow> i < j \<Longrightarrow> j < length m \<Longrightarrow> fst (m ! i) < nbase (snd (m ! j))"
  unfolding siblings_ok_def by (metis sorted_wrt_nth_less)

lemma siblings_ok_apart:
  assumes "siblings_ok m" "x \<in> set m" "y \<in> set m"
  shows "x = y \<or> fst x < nbase (snd y) \<or> fst y < nbase (snd x)"
proof -
  from assms obtain i j where "x = m ! i" "y = m ! j" "i < length m" "j < length m"
    by (auto simp: in_set_conv_nth)
  with assms(1) show ?thesis
    using siblings_ok_nth [of m i j] siblings_ok_nth [of m j i] by (cases i j rule: linorder_cases) auto
qed

text \<open>A sibling around an address is where \<open>lower_bound\<close> points.\<close>

lemma lower_bound_around:
  assumes ok: "siblings_ok m" and x: "x \<in> set m" "nbase (snd x) \<le> a" "a \<le> fst x"
  shows "lower_bound m a < length m \<and> m ! lower_bound m a = x"
proof -
  obtain i where i: "i < length m" "x = m ! i" using x(1) by (auto simp: in_set_conv_nth)
  have "lower_bound m a = i"
    using i x siblings_ok_nth [OF ok, of _ i]
    by (intro lower_bound_unique siblings_ok_omap [OF ok]) (auto intro: less_le_trans)
  with i show ?thesis by auto
qed

lemma enclosed_iff:
  assumes ok: "siblings_ok m" and bh: "b \<le> h"
  shows "lower_bound m b = lower_bound m h \<and> lower_bound m b \<noteq> length m \<and>
      nbase (snd (m ! lower_bound m b)) \<le> b \<longleftrightarrow>
    (\<exists>x\<in>set m. nbase (snd x) \<le> b \<and> h \<le> fst x)"
    (is "?L \<longleftrightarrow> ?R")
proof
  assume L: ?L
  then have "lower_bound m h < length m" using lower_bound_le [of m b] by linarith
  with L lower_bound_at [of m h] show ?R by (metis nth_mem)
next
  assume ?R
  then obtain x where x: "x \<in> set m" "nbase (snd x) \<le> b" "h \<le> fst x" by blast
  then have "nbase (snd x) \<le> h" "b \<le> fst x" using bh by order+
  with x have l: "lower_bound m b < length m \<and> m ! lower_bound m b = x"
    "lower_bound m h < length m \<and> m ! lower_bound m h = x"
    using lower_bound_around [OF ok x(1), of b] lower_bound_around [OF ok x(1), of h] by auto
  have "distinct m" using omap_ok_distinct [OF siblings_ok_omap [OF ok]] by (simp add: distinct_map)
  with l have "lower_bound m b = lower_bound m h" by (metis nth_eq_iff_index_eq)
  with l x show ?L by simp
qed

text \<open>Without an enclosing sibling, the code's test is that some sibling meets the range only in part.\<close>

definition meets_partly :: "'k::linorder \<Rightarrow> 'k \<Rightarrow> 'k \<times> ('k, 'e) ContainedRangeMap \<Rightarrow> bool" where
  "meets_partly b h x \<longleftrightarrow>
     \<not> fst x < b \<and> \<not> h < nbase (snd x) \<and> \<not> (b \<le> nbase (snd x) \<and> fst x \<le> h)"

definition partly_test :: "('k::linorder \<times> ('k, 'e) ContainedRangeMap) list \<Rightarrow> 'k \<Rightarrow> 'k \<Rightarrow> bool" where
  "partly_test m b h \<longleftrightarrow>
     (lower_bound m b \<noteq> length m \<and> b > nbase (snd (m ! lower_bound m b))) \<or>
     ((lower_bound m h \<noteq> length m \<and> h \<ge> nbase (snd (m ! lower_bound m h))) \<and>
      h < fst (m ! lower_bound m h))"

definition first_above :: "('k::linorder \<times> ('k, 'e) ContainedRangeMap) list \<Rightarrow> 'k \<Rightarrow> nat" where
  "first_above m h =
     (if lower_bound m h \<noteq> length m \<and> h \<ge> nbase (snd (m ! lower_bound m h))
      then lower_bound m h + 1 else lower_bound m h)"

lemma lower_bound_mono: "omap_ok m \<Longrightarrow> b \<le> h \<Longrightarrow> lower_bound m b \<le> lower_bound m h"
  by (metis (no_types, lifting) leD leI le_less_trans less_le_trans lower_bound_at lower_bound_below
      lower_bound_le)

lemma untouched_siblings:
  assumes ok: "siblings_ok m" and bh: "b \<le> h" and pass: "\<not> partly_test m b h"
  shows "lower_bound m b \<le> first_above m h" "first_above m h \<le> length m"
    and "i < lower_bound m b \<Longrightarrow> fst (m ! i) < b"
    and "lower_bound m b \<le> i \<Longrightarrow> i < first_above m h \<Longrightarrow> b \<le> nbase (snd (m ! i)) \<and> fst (m ! i) \<le> h"
    and "first_above m h \<le> i \<Longrightarrow> i < length m \<Longrightarrow> h < nbase (snd (m ! i))"
proof -
  let ?ib = "lower_bound m b" and ?ih = "lower_bound m h"
  have mono: "?ib \<le> ?ih" using siblings_ok_omap [OF ok] bh by (rule lower_bound_mono)
  then show "?ib \<le> first_above m h" by (simp add: first_above_def)
  show le: "first_above m h \<le> length m"
    using lower_bound_le [of m h] by (auto simp: first_above_def Suc_le_eq le_neq_implies_less)
  show "i < ?ib \<Longrightarrow> fst (m ! i) < b" by (rule lower_bound_below)
  show "b \<le> nbase (snd (m ! i)) \<and> fst (m ! i) \<le> h" if i: "?ib \<le> i" "i < first_above m h"
  proof
    have len: "i < length m" using i le by linarith
    have first: "b \<le> nbase (snd (m ! ?ib))" using pass len i by (auto simp: partly_test_def not_less)
    show "b \<le> nbase (snd (m ! i))"
    proof (cases "i = ?ib")
      case False
      then have "fst (m ! ?ib) < nbase (snd (m ! i))" using i len ok by (intro siblings_ok_nth) auto
      moreover have "b \<le> fst (m ! ?ib)" using len i by (intro lower_bound_at) auto
      ultimately show ?thesis by order
    qed (use first in simp)
    show "fst (m ! i) \<le> h"
    proof (cases "i < ?ih")
      case True
      then show ?thesis using lower_bound_below by (metis less_imp_le)
    next
      case False
      with i(2) have "i = ?ih" "h \<ge> nbase (snd (m ! ?ih))" by (auto simp: first_above_def split: if_splits)
      with pass len show ?thesis by (auto simp: partly_test_def not_less)
    qed
  qed
  show "h < nbase (snd (m ! i))" if i: "first_above m h \<le> i" "i < length m"
  proof (cases "i = ?ih")
    case True
    with i show ?thesis by (auto simp: first_above_def not_le split: if_splits)
  next
    case False
    with i have "?ih < i" by (auto simp: first_above_def split: if_splits)
    then have "fst (m ! ?ih) < nbase (snd (m ! i))" "?ih < length m" using i ok by (auto intro: siblings_ok_nth)
    then show ?thesis using lower_bound_at [of m h] by (meson le_less_trans)
  qed
qed

lemma partly_test_iff:
  assumes ok: "siblings_ok m" and bh: "b \<le> h"
    and out: "\<not> (\<exists>x\<in>set m. nbase (snd x) \<le> b \<and> h \<le> fst x)"
  shows "partly_test m b h \<longleftrightarrow> (\<exists>x\<in>set m. meets_partly b h x)"
proof
  assume "partly_test m b h"
  then consider
      (low) "lower_bound m b < length m" "nbase (snd (m ! lower_bound m b)) < b"
    | (high) "lower_bound m h < length m" "nbase (snd (m ! lower_bound m h)) \<le> h" "h < fst (m ! lower_bound m h)"
    using lower_bound_le [of m b] lower_bound_le [of m h]
    by (auto simp: partly_test_def le_neq_implies_less)
  then show "\<exists>x\<in>set m. meets_partly b h x"
  proof cases
    case low
    let ?x = "m ! lower_bound m b"
    have "b \<le> fst ?x" using low(1) by (rule lower_bound_at)
    then have "meets_partly b h ?x" using low(2) bh unfolding meets_partly_def by auto
    with low(1) show ?thesis by (meson nth_mem)
  next
    case high
    let ?x = "m ! lower_bound m h"
    have mem: "?x \<in> set m" using high(1) by simp
    with out high(3) have "\<not> nbase (snd ?x) \<le> b" by (meson less_imp_le)
    then have "meets_partly b h ?x" using high(2,3) bh unfolding meets_partly_def by auto
    with mem show ?thesis by blast
  qed
next
  assume "\<exists>x\<in>set m. meets_partly b h x"
  then obtain i where i: "i < length m" "meets_partly b h (m ! i)" by (auto simp: in_set_conv_nth)
  show "partly_test m b h"
  proof (rule ccontr)
    assume pass: "\<not> partly_test m b h"
    note u = untouched_siblings [OF ok bh pass]
    consider "i < lower_bound m b" | "lower_bound m b \<le> i" "i < first_above m h" | "first_above m h \<le> i"
      by linarith
    then show False using u(3-5) [of i] i by cases (auto simp: meets_partly_def)
  qed
qed

section \<open>Lookup finds the smallest range\<close>

lemma crm_invD:
  assumes "crm_inv n"
  shows "siblings_ok (children n)" "x \<in> set (children n) \<Longrightarrow> crm_inv (snd x)"
    and "x \<in> set (children n) \<Longrightarrow> y \<in> set (children (snd x)) \<Longrightarrow>
      strictly_inside (nbase (snd y)) (fst y) (nbase (snd x)) (fst x)"
  using assms crm_inv.simps [of n] by blast+

lemma crm_ranges_iff:
  "r \<in> crm_ranges n \<longleftrightarrow>
   (\<exists>x\<in>set (children n). r = (nbase (snd x), fst x, nentry (snd x)) \<or> r \<in> crm_ranges (snd x))"
  by (subst crm_ranges.simps) auto

text \<open>Everything stored below a child lies strictly inside the child.\<close>

lemma crm_ranges_below:
  "crm_inv n \<Longrightarrow> x \<in> set (children n) \<Longrightarrow> (b, h, e) \<in> crm_ranges (snd x) \<Longrightarrow>
   strictly_inside b h (nbase (snd x)) (fst x)"
proof (induction n arbitrary: x rule: crm_ranges.induct)
  case (1 n)
  from 1(4) obtain y where y: "y \<in> set (children (snd x))"
    "(b, h) = (nbase (snd y), fst y) \<or> (b, h, e) \<in> crm_ranges (snd y)"
    using crm_ranges_iff by blast
  have in_x: "strictly_inside (nbase (snd y)) (fst y) (nbase (snd x)) (fst x)"
    using crm_invD(3) [OF 1(2,3) y(1)] .
  from y(2) show ?case
  proof
    assume "(b, h, e) \<in> crm_ranges (snd y)"
    then have "strictly_inside b h (nbase (snd y)) (fst y)"
      using 1(1) [OF 1(3) crm_invD(2) [OF 1(2,3)] y(1)] by blast
    with in_x show ?thesis by (auto simp: strictly_inside_def)
  qed (use in_x in simp)
qed

lemma crm_ranges_nonempty: "crm_inv n \<Longrightarrow> (b, h, e) \<in> crm_ranges n \<Longrightarrow> b \<le> h"
proof (induction n rule: crm_ranges.induct)
  case (1 n)
  then obtain x where x: "x \<in> set (children n)"
    "(b, h, e) = (nbase (snd x), fst x, nentry (snd x)) \<or> (b, h, e) \<in> crm_ranges (snd x)"
    using crm_ranges_iff by blast
  from x(2) show ?case
  proof
    assume "(b, h, e) = (nbase (snd x), fst x, nentry (snd x))"
    then show ?thesis using siblings_ok_base [OF crm_invD(1) [OF 1(2)] x(1)] by simp
  qed (use 1(1) [OF x(1) crm_invD(2) [OF 1(2) x(1)]] in blast)
qed

definition smallest_around :: "('k::linorder \<times> 'k \<times> 'e) set \<Rightarrow> 'k \<Rightarrow> 'k \<times> 'k \<times> 'e \<Rightarrow> bool" where
  "smallest_around R a r \<longleftrightarrow>
     r \<in> R \<and> fst r \<le> a \<and> a \<le> fst (snd r) \<and>
     (\<forall>r'\<in>R. fst r' \<le> a \<and> a \<le> fst (snd r') \<longrightarrow> fst r' \<le> fst r \<and> fst (snd r) \<le> fst (snd r'))"

lemma crm_ranges_child:
  assumes "crm_inv n" "(b, h, e) \<in> crm_ranges n"
  obtains x where "x \<in> set (children n)" "nbase (snd x) \<le> b" "h \<le> fst x"
    "(b, h, e) = (nbase (snd x), fst x, nentry (snd x)) \<or> (b, h, e) \<in> crm_ranges (snd x)"
proof -
  from assms(2) obtain x where x: "x \<in> set (children n)"
    "(b, h, e) = (nbase (snd x), fst x, nentry (snd x)) \<or> (b, h, e) \<in> crm_ranges (snd x)"
    using crm_ranges_iff by blast
  then have "nbase (snd x) \<le> b" "h \<le> fst x"
    using crm_ranges_below [OF assms(1) x(1)] by (auto simp: strictly_inside_def)
  with x that show thesis by blast
qed

lemma child_around_unique:
  assumes "crm_inv n" "x \<in> set (children n)" "nbase (snd x) \<le> a" "a \<le> fst x"
    and "(b, h, e) \<in> crm_ranges n" "b \<le> a" "a \<le> h"
  shows "(b, h, e) = (nbase (snd x), fst x, nentry (snd x)) \<or> (b, h, e) \<in> crm_ranges (snd x)"
proof -
  obtain y where y: "y \<in> set (children n)" "nbase (snd y) \<le> b" "h \<le> fst y"
    "(b, h, e) = (nbase (snd y), fst y, nentry (snd y)) \<or> (b, h, e) \<in> crm_ranges (snd y)"
    using crm_ranges_child [OF assms(1,5)] .
  then have "nbase (snd y) \<le> a" "a \<le> fst y" using assms(6,7) by order+
  then have "x = y"
    using siblings_ok_apart [OF crm_invD(1) [OF assms(1)] assms(2) y(1)] assms(3,4) by auto
  with y show ?thesis by simp
qed

lemma crm_retrieve_cases:
  "crm_inv n \<Longrightarrow>
   (case ContainedRangeMap_RetrieveRange n a of
      None \<Rightarrow> \<forall>(b, h, e)\<in>crm_ranges n. \<not> (b \<le> a \<and> a \<le> h)
    | Some e \<Rightarrow> \<exists>b h. smallest_around (crm_ranges n) a (b, h, e))"
proof (induction n a rule: ContainedRangeMap_RetrieveRange.induct)
  case (1 n a)
  let ?m = "children n"
  let ?i = "lower_bound ?m a"
  note ok = crm_invD(1) [OF 1(2)]
  show ?case
  proof (cases "nmap n = None \<or> ?i = length ?m \<or> a < nbase (snd (?m ! ?i))")
    case True
    have out: "\<not> (nbase (snd x) \<le> a \<and> a \<le> fst x)" if "x \<in> set ?m" for x
      using True lower_bound_around [OF ok that, of a] that by (cases n rule: children.cases) auto
    have "\<not> (b \<le> a \<and> a \<le> h)" if r: "(b, h, e) \<in> crm_ranges n" for b h e
    proof -
      obtain x where "x \<in> set ?m" "nbase (snd x) \<le> b" "h \<le> fst x" using crm_ranges_child [OF 1(2) r] .
      with out [of x] show ?thesis by auto
    qed
    moreover have "ContainedRangeMap_RetrieveRange n a = None"
      using True by (subst ContainedRangeMap_RetrieveRange.simps) (auto simp: Let_def)
    ultimately show ?thesis by auto
  next
    case False
    let ?x = "?m ! ?i"
    have x: "?x \<in> set ?m" using False lower_bound_le [of ?m a] by (auto simp: le_neq_implies_less)
    have xa: "nbase (snd ?x) \<le> a" "a \<le> fst ?x"
      using False lower_bound_at [of ?m a] lower_bound_le [of ?m a] by (auto simp: le_neq_implies_less not_less)
    have around: "\<And>b h e. (b, h, e) \<in> crm_ranges n \<Longrightarrow> b \<le> a \<Longrightarrow> a \<le> h \<Longrightarrow>
        (b, h, e) = (nbase (snd ?x), fst ?x, nentry (snd ?x)) \<or> (b, h, e) \<in> crm_ranges (snd ?x)"
      by (rule child_around_unique [OF 1(2) x xa])
    have inx: "crm_inv (snd ?x)" using crm_invD(2) [OF 1(2) x] .
    have ret: "ContainedRangeMap_RetrieveRange n a =
        (case ContainedRangeMap_RetrieveRange (snd ?x) a of
           Some e \<Rightarrow> Some e | None \<Rightarrow> Some (nentry (snd ?x)))"
      using False by (subst ContainedRangeMap_RetrieveRange.simps) (auto simp: Let_def)
    note IH = 1(1) [OF _ refl refl _ inx]
    show ?thesis
    proof (cases "ContainedRangeMap_RetrieveRange (snd ?x) a")
      case None
      with IH False have none: "\<forall>(b, h, e)\<in>crm_ranges (snd ?x). \<not> (b \<le> a \<and> a \<le> h)" by simp
      have "smallest_around (crm_ranges n) a (nbase (snd ?x), fst ?x, nentry (snd ?x))"
        unfolding smallest_around_def
      proof (intro conjI ballI impI)
        fix r'
        assume r': "r' \<in> crm_ranges n" "fst r' \<le> a \<and> a \<le> fst (snd r')"
        then have "r' = (nbase (snd ?x), fst ?x, nentry (snd ?x))"
          using around [of "fst r'" "fst (snd r')" "snd (snd r')"] none by auto
        then show "fst r' \<le> fst (nbase (snd ?x), fst ?x, nentry (snd ?x))"
          and "fst (snd (nbase (snd ?x), fst ?x, nentry (snd ?x))) \<le> fst (snd r')" by simp_all
      qed (use xa x crm_ranges_iff [of _ n] in auto)
      with None ret show ?thesis by auto
    next
      case (Some e)
      with IH False obtain b h where s: "smallest_around (crm_ranges (snd ?x)) a (b, h, e)" by auto
      then have r: "(b, h, e) \<in> crm_ranges (snd ?x)" by (simp add: smallest_around_def)
      have "smallest_around (crm_ranges n) a (b, h, e)"
        unfolding smallest_around_def
      proof (intro conjI ballI impI)
        fix r'
        assume r': "r' \<in> crm_ranges n" "fst r' \<le> a \<and> a \<le> fst (snd r')"
        then consider "r' = (nbase (snd ?x), fst ?x, nentry (snd ?x))" | "r' \<in> crm_ranges (snd ?x)"
          using around [of "fst r'" "fst (snd r')" "snd (snd r')"] by auto
        then have "fst r' \<le> b \<and> h \<le> fst (snd r')"
          using crm_ranges_below [OF 1(2) x r] s r'(2)
          by cases (auto simp: strictly_inside_def smallest_around_def)
        then show "fst r' \<le> fst (b, h, e)" and "fst (snd (b, h, e)) \<le> fst (snd r')" by simp_all
      qed (use s x r crm_ranges_iff [of _ n] in \<open>auto simp: smallest_around_def\<close>)
      with Some ret show ?thesis by auto
    qed
  qed
qed

section \<open>Insertion keeps the tree and accepts what it should\<close>

text \<open>Two ranges may be stored together when they are apart or one lies strictly inside the other.\<close>

definition compatible :: "'k::linorder \<Rightarrow> 'k \<Rightarrow> 'k \<times> 'k \<times> 'e \<Rightarrow> bool" where
  "compatible b h r \<longleftrightarrow>
     fst (snd r) < b \<or> h < fst r \<or>
     strictly_inside b h (fst r) (fst (snd r)) \<or> strictly_inside (fst r) (fst (snd r)) b h"

lemma strictly_inside_shrink:
  assumes "strictly_inside b h b' h'" "b \<le> b0" "h0 \<le> h"
  shows "strictly_inside b0 h0 b' h'"
  using assms unfolding strictly_inside_def by auto

text \<open>The three outcomes of the code past its parameter check, by what the siblings look like.\<close>

lemma with_children_simps [simp]:
  "children (with_children n m) = m" "nbase (with_children n m) = nbase n" "nentry (with_children n m) = nentry n"
  by (cases n; simp)+

lemma StoreRange_same:
  assumes inv: "crm_inv n" and bh: "s \<noteq> 0" "b \<le> b + s - 1"
    and x: "x \<in> set (children n)" "nbase (snd x) = b" "fst x = b + s - 1"
  shows "ContainedRangeMap_StoreRange n b s e = (False, with_children n (children n))"
proof -
  note ok = crm_invD(1) [OF inv]
  have "\<exists>x\<in>set (children n). nbase (snd x) \<le> b \<and> b + s - 1 \<le> fst x" using x by auto
  with enclosed_iff [OF ok bh(2)]
  have "lower_bound (children n) b = lower_bound (children n) (b + s - 1)" by blast
  with lower_bound_around [OF ok x(1), of b] x bh show ?thesis
    by (subst ContainedRangeMap_StoreRange.simps) (simp add: Let_def leD)
qed

lemma StoreRange_within:
  assumes inv: "crm_inv n" and bh: "s \<noteq> 0" "b \<le> b + s - 1"
    and x: "x \<in> set (children n)" "strictly_inside b (b + s - 1) (nbase (snd x)) (fst x)"
  obtains i where "i < length (children n)" "children n ! i = x"
    "ContainedRangeMap_StoreRange n b s e =
      (fst (ContainedRangeMap_StoreRange (snd x) b s e),
       with_children n ((children n)[i := (fst x, snd (ContainedRangeMap_StoreRange (snd x) b s e))]))"
proof -
  note ok = crm_invD(1) [OF inv]
  have x': "nbase (snd x) \<le> b" "b + s - 1 \<le> fst x" "\<not> (nbase (snd x) = b \<and> fst x = b + s - 1)"
    using x(2) by (auto simp: strictly_inside_def)
  then have "\<exists>x\<in>set (children n). nbase (snd x) \<le> b \<and> b + s - 1 \<le> fst x" using x by auto
  with enclosed_iff [OF ok bh(2)]
  have eq: "lower_bound (children n) b = lower_bound (children n) (b + s - 1)" by blast
  have bx: "b \<le> fst x" using bh(2) x'(2) by order
  have i: "lower_bound (children n) b < length (children n)" "children n ! lower_bound (children n) b = x"
    using lower_bound_around [OF ok x(1) x'(1) bx] by auto
  have "ContainedRangeMap_StoreRange n b s e =
      (fst (ContainedRangeMap_StoreRange (snd x) b s e),
       with_children n ((children n)[lower_bound (children n) b :=
         (fst x, snd (ContainedRangeMap_StoreRange (snd x) b s e))]))"
    using i x' eq [symmetric] bh
    by (subst ContainedRangeMap_StoreRange.simps) (auto simp add: Let_def not_less)
  with i that show thesis by blast
qed

lemma StoreRange_partly:
  assumes inv: "crm_inv n" and bh: "s \<noteq> 0" "b \<le> b + s - 1"
    and out: "\<not> (\<exists>x\<in>set (children n). nbase (snd x) \<le> b \<and> b + s - 1 \<le> fst x)"
    and partly: "\<exists>x\<in>set (children n). meets_partly b (b + s - 1) x"
  shows "ContainedRangeMap_StoreRange n b s e = (False, with_children n (children n))"
proof -
  note ok = crm_invD(1) [OF inv]
  have "partly_test (children n) b (b + s - 1)" using partly_test_iff [OF ok bh(2) out] partly by blast
  moreover note enclosed_iff [OF ok bh(2)]
  ultimately show ?thesis
    using out bh by (subst ContainedRangeMap_StoreRange.simps) (auto simp: Let_def not_less partly_test_def)
qed

lemma StoreRange_new_child:
  assumes inv: "crm_inv n" and bh: "s \<noteq> 0" "b \<le> b + s - 1"
    and out: "\<not> (\<exists>x\<in>set (children n). nbase (snd x) \<le> b \<and> b + s - 1 \<le> fst x)"
    and whole: "\<not> (\<exists>x\<in>set (children n). meets_partly b (b + s - 1) x)"
  obtains A B C cm where "children n = A @ B @ C"
    "\<forall>x\<in>set A. fst x < b" "\<forall>x\<in>set B. b \<le> nbase (snd x) \<and> fst x \<le> b + s - 1"
    "\<forall>x\<in>set C. b + s - 1 < nbase (snd x)" "children (Node b e cm) = B"
    "ContainedRangeMap_StoreRange n b s e =
      (True, with_children n (A @ (b + s - 1, Node b e cm) # C))"
proof -
  note ok = crm_invD(1) [OF inv]
  let ?m = "children n" and ?h = "b + s - 1"
  let ?i = "lower_bound ?m b" and ?j = "first_above ?m ?h"
  have pass: "\<not> partly_test ?m b ?h" using partly_test_iff [OF ok bh(2) out] whole by blast
  note u = untouched_siblings [OF ok bh(2) pass]
  define A B C where "A = take ?i ?m" and "B = take (?j - ?i) (drop ?i ?m)" and "C = drop ?j ?m"
  define cm where "cm = (if ?i \<noteq> ?j then Some B else None)"
  have m: "?m = A @ B @ C"
    using u(1,2) unfolding A_def B_def C_def
    by (metis append_take_drop_id drop_drop le_add_diff_inverse2)
  have A: "\<forall>x\<in>set A. fst x < b" using u(3) by (fastforce simp: A_def in_set_conv_nth)
  have B: "\<forall>x\<in>set B. b \<le> nbase (snd x) \<and> fst x \<le> ?h"
  proof
    fix x
    assume "x \<in> set B"
    then obtain k where "k < ?j - ?i" "x = ?m ! (?i + k)" using u(1,2) by (auto simp: B_def in_set_conv_nth)
    with u(4) [of "?i + k"] show "b \<le> nbase (snd x) \<and> fst x \<le> ?h" by simp
  qed
  have C: "\<forall>x\<in>set C. ?h < nbase (snd x)"
  proof
    fix x
    assume "x \<in> set C"
    then obtain k where "k < length ?m - ?j" "x = ?m ! (?j + k)" using u(2) by (auto simp: C_def in_set_conv_nth)
    with u(5) [of "?j + k"] show "?h < nbase (snd x)" by simp
  qed
  have kids: "children (Node b e cm) = B" using u(1) by (auto simp: cm_def B_def)
  have erase: "(if ?i \<noteq> ?j then omap_erase ?i ?j ?m else ?m) = A @ C"
    by (simp add: A_def C_def omap_erase_def)
  have okAC: "siblings_ok (A @ C)" using ok unfolding m by (auto simp: siblings_ok_append)
  have A': "fst x < ?h" if "x \<in> set A" for x using A that bh(2) by (meson less_le_trans)
  have C': "?h < fst x" if "x \<in> set C" for x
    using C that siblings_ok_base [OF okAC, of x] by (auto intro: less_le_trans)
  have fresh: "?h \<notin> fst ` set (A @ C)" using A' C' by force
  have ins: "omap_insert ?h c (A @ C) = A @ (?h, c) # C" for c
  proof -
    have "filter (\<lambda>x. fst x < ?h) A = A" "filter (\<lambda>x. ?h < fst x) C = C" using A' C' by simp_all
    moreover have "filter (\<lambda>x. fst x < ?h) C = []" "filter (\<lambda>x. ?h < fst x) A = []"
      using A' C' by (fastforce simp: filter_empty_conv)+
    ultimately show ?thesis by (simp add: omap_insert_fresh [OF siblings_ok_omap [OF okAC] fresh])
  qed
  have "ContainedRangeMap_StoreRange n b s e = (True, with_children n (omap_insert ?h
      (Node b e (if ?i \<noteq> ?j then Some (take (?j - ?i) (drop ?i ?m)) else None))
      (if ?i \<noteq> ?j then omap_erase ?i ?j ?m else ?m)))"
    using out bh pass enclosed_iff [OF ok bh(2)]
    by (subst ContainedRangeMap_StoreRange.simps)
      (auto simp: Let_def not_less partly_test_def first_above_def)
  then have "ContainedRangeMap_StoreRange n b s e = (True, with_children n (A @ (?h, Node b e cm) # C))"
    unfolding erase ins by (simp add: cm_def B_def)
  with that m A B C kids show thesis by blast
qed

text \<open>The stored ranges and the invariant of a node depend on its list of children only.\<close>

definition forest_ranges :: "('k \<times> ('k, 'e) ContainedRangeMap) list \<Rightarrow> ('k \<times> 'k \<times> 'e) set" where
  "forest_ranges m = (\<Union>x\<in>set m. insert (nbase (snd x), fst x, nentry (snd x)) (crm_ranges (snd x)))"

definition forest_inv :: "('k::linorder \<times> ('k, 'e) ContainedRangeMap) list \<Rightarrow> bool" where
  "forest_inv m \<longleftrightarrow> (\<forall>x\<in>set m. crm_inv (snd x) \<and>
     (\<forall>y\<in>set (children (snd x)). strictly_inside (nbase (snd y)) (fst y) (nbase (snd x)) (fst x)))"

lemma crm_ranges_forest: "crm_ranges n = forest_ranges (children n)"
  unfolding forest_ranges_def by (rule crm_ranges.simps)

lemma crm_inv_forest: "crm_inv n \<longleftrightarrow> siblings_ok (children n) \<and> forest_inv (children n)"
  unfolding forest_inv_def by (rule crm_inv.simps)

lemma forest_ranges_simps [simp]:
  "forest_ranges [] = {}"
  "forest_ranges (x # m) = insert (nbase (snd x), fst x, nentry (snd x)) (crm_ranges (snd x)) \<union> forest_ranges m"
  "forest_ranges (m @ m') = forest_ranges m \<union> forest_ranges m'"
  by (auto simp: forest_ranges_def)

lemma forest_inv_simps [simp]:
  "forest_inv []"
  "forest_inv (x # m) \<longleftrightarrow> crm_inv (snd x) \<and>
     (\<forall>y\<in>set (children (snd x)). strictly_inside (nbase (snd y)) (fst y) (nbase (snd x)) (fst x)) \<and>
     forest_inv m"
  "forest_inv (m @ m') \<longleftrightarrow> forest_inv m \<and> forest_inv m'"
  by (auto simp: forest_inv_def)

lemma forest_ranges_within:
  assumes "crm_inv n" "set m \<subseteq> set (children n)" "q \<in> forest_ranges m"
  shows "\<exists>x\<in>set m. nbase (snd x) \<le> fst q \<and> fst q \<le> fst (snd q) \<and> fst (snd q) \<le> fst x"
proof -
  obtain b h e where q: "q = (b, h, e)" by (cases q)
  from assms(3) obtain x where x: "x \<in> set m"
    "(b, h, e) = (nbase (snd x), fst x, nentry (snd x)) \<or> (b, h, e) \<in> crm_ranges (snd x)"
    by (auto simp: forest_ranges_def q)
  with assms(2) have xn: "x \<in> set (children n)" by blast
  then have "(b, h, e) \<in> crm_ranges n" using x(2) crm_ranges_iff by blast
  then have "b \<le> h" by (rule crm_ranges_nonempty [OF assms(1)])
  moreover have "nbase (snd x) \<le> b" "h \<le> fst x"
    using x(2) crm_ranges_below [OF assms(1) xn] by (auto simp: strictly_inside_def)
  ultimately show ?thesis using x(1) by (auto simp: q)
qed

definition store_spec ::
  "('a::len, 'e) crm \<Rightarrow> 'a word \<Rightarrow> 'a word \<Rightarrow> 'e \<Rightarrow> bool \<times> ('a, 'e) crm \<Rightarrow> bool" where
  "store_spec n b s e r \<longleftrightarrow>
     crm_inv (snd r) \<and> nbase (snd r) = nbase n \<and> nentry (snd r) = nentry n \<and>
     crm_ranges (snd r) = (if fst r then insert (b, b + s - 1, e) (crm_ranges n) else crm_ranges n) \<and>
     (fst r \<longleftrightarrow> s \<noteq> 0 \<and> b \<le> b + s - 1 \<and> (\<forall>q\<in>crm_ranges n. compatible b (b + s - 1) q))"

lemma store_spec_refused:
  assumes "crm_inv n" "q \<in> crm_ranges n" "\<not> compatible b (b + s - 1) q"
  shows "store_spec n b s e (False, with_children n (children n))"
  using assms by (auto simp: store_spec_def crm_inv_forest crm_ranges_forest)

lemma store_spec_within:
  assumes inv: "crm_inv n" and bh: "s \<noteq> 0" "b \<le> b + s - 1"
    and m: "children n = A @ x # C" and x: "strictly_inside b (b + s - 1) (nbase (snd x)) (fst x)"
    and sub: "store_spec (snd x) b s e r"
  shows "store_spec n b s e (fst r, with_children n (A @ (fst x, snd r) # C))"
proof -
  let ?h = "b + s - 1"
  have xn: "x \<in> set (children n)" using m by simp
  have sib: "siblings_ok (A @ x # C)" and forest: "forest_inv (A @ x # C)"
    using inv m by (auto simp: crm_inv_forest)
  have r: "crm_inv (snd r)" "nbase (snd r) = nbase (snd x)" "nentry (snd r) = nentry (snd x)"
    "crm_ranges (snd r) = (if fst r then insert (b, ?h, e) (crm_ranges (snd x)) else crm_ranges (snd x))"
    "fst r \<longleftrightarrow> (\<forall>q\<in>crm_ranges (snd x). compatible b ?h q)"
    using sub bh by (auto simp: store_spec_def)
  have inside: "strictly_inside (nbase (snd y)) (fst y) (nbase (snd x)) (fst x)"
    if "y \<in> set (children (snd r))" for y
  proof -
    have "(nbase (snd y), fst y, nentry (snd y)) \<in> crm_ranges (snd r)" using that crm_ranges_iff by blast
    then consider "nbase (snd y) = b" "fst y = ?h" | "(nbase (snd y), fst y, nentry (snd y)) \<in> crm_ranges (snd x)"
      unfolding r(4) by (auto split: if_splits)
    then show ?thesis using x crm_ranges_below [OF inv xn] by cases auto
  qed
  have apart: "compatible b ?h q" if q: "q \<in> forest_ranges (A @ C)" for q
  proof -
    have "set (A @ C) \<subseteq> set (children n)" using m by auto
    then obtain y where y: "y \<in> set (A @ C)" "nbase (snd y) \<le> fst q" "fst (snd q) \<le> fst y"
      using forest_ranges_within [OF inv _ q] by blast
    then have "fst y < nbase (snd x) \<or> fst x < nbase (snd y)"
      using sib by (auto simp: siblings_ok_append siblings_ok_Cons)
    moreover have "nbase (snd x) \<le> b" "?h \<le> fst x" using x by (auto simp: strictly_inside_def)
    ultimately have "fst (snd q) < b \<or> ?h < fst q" using y(2,3) by (elim disjE) (rule disjI1, order, rule disjI2, order)
    then show ?thesis by (auto simp: compatible_def)
  qed
  have self: "compatible b ?h (nbase (snd x), fst x, nentry (snd x))" using x by (simp add: compatible_def)
  show ?thesis
    unfolding store_spec_def fst_conv snd_conv
  proof (intro conjI)
    show "crm_inv (with_children n (A @ (fst x, snd r) # C))"
      using sib forest r(1,2) inside
      unfolding crm_inv_forest [of "with_children n (A @ (fst x, snd r) # C)"]
      by (simp add: siblings_ok_append siblings_ok_Cons)
    show "crm_ranges (with_children n (A @ (fst x, snd r) # C)) =
        (if fst r then insert (b, ?h, e) (crm_ranges n) else crm_ranges n)"
      unfolding crm_ranges_forest [of n] crm_ranges_forest [of "with_children n (A @ (fst x, snd r) # C)"] m
      using r(2-4) by (simp add: insert_commute)
    have "crm_ranges n = forest_ranges (A @ C) \<union> insert (nbase (snd x), fst x, nentry (snd x)) (crm_ranges (snd x))"
      unfolding crm_ranges_forest [of n] m by auto
    then show "fst r \<longleftrightarrow> s \<noteq> 0 \<and> b \<le> ?h \<and> (\<forall>q\<in>crm_ranges n. compatible b ?h q)"
      unfolding r(5) using bh apart self by blast
  qed simp_all
qed

lemma store_spec_new_child:
  assumes inv: "crm_inv n" and bh: "s \<noteq> 0" "b \<le> b + s - 1"
    and out: "\<not> (\<exists>x\<in>set (children n). nbase (snd x) \<le> b \<and> b + s - 1 \<le> fst x)"
    and m: "children n = A @ B @ C"
    and A: "\<forall>x\<in>set A. fst x < b" and B: "\<forall>x\<in>set B. b \<le> nbase (snd x) \<and> fst x \<le> b + s - 1"
    and C: "\<forall>x\<in>set C. b + s - 1 < nbase (snd x)" and cm: "children (Node b e cm) = B"
  shows "store_spec n b s e (True, with_children n (A @ (b + s - 1, Node b e cm) # C))"
proof -
  let ?h = "b + s - 1"
  have sib: "siblings_ok (A @ B @ C)" and forest: "forest_inv (A @ B @ C)"
    using inv m by (auto simp: crm_inv_forest)
  have inside: "strictly_inside (nbase (snd x)) (fst x) b ?h" if "x \<in> set B" for x
    using that B out m by (auto simp: strictly_inside_def)
  have all: "compatible b ?h q" if q: "q \<in> crm_ranges n" for q
  proof -
    obtain x where x: "x \<in> set (A @ B @ C)" "nbase (snd x) \<le> fst q" "fst (snd q) \<le> fst x"
      using forest_ranges_within [OF inv, of "children n" q] q unfolding crm_ranges_forest m by blast
    then consider "fst x < b" | "strictly_inside (nbase (snd x)) (fst x) b ?h" | "?h < nbase (snd x)"
      using A C inside by auto
    then show ?thesis
    proof cases
      case 1
      with x(3) have "fst (snd q) < b" by order
      then show ?thesis by (simp add: compatible_def)
    next
      case 2
      then have "strictly_inside (fst q) (fst (snd q)) b ?h" using x(2,3) by (rule strictly_inside_shrink)
      then show ?thesis by (simp add: compatible_def)
    next
      case 3
      with x(2) have "?h < fst q" by order
      then show ?thesis by (simp add: compatible_def)
    qed
  qed
  have node: "crm_inv (Node b e cm)"
    using sib forest cm by (simp add: crm_inv_forest siblings_ok_append)
  have AC: "fst x < nbase (snd y)" if "x \<in> set A" "y \<in> set C" for x y
    using sib that by (auto simp: siblings_ok_append)
  show ?thesis
    unfolding store_spec_def fst_conv snd_conv
  proof (intro conjI)
    show "crm_inv (with_children n (A @ (?h, Node b e cm) # C))"
      using sib forest node inside A C AC cm bh
      unfolding crm_inv_forest [of "with_children n (A @ (?h, Node b e cm) # C)"]
      by (simp add: siblings_ok_append siblings_ok_Cons)
    show "crm_ranges (with_children n (A @ (?h, Node b e cm) # C)) =
        (if True then insert (b, ?h, e) (crm_ranges n) else crm_ranges n)"
      unfolding crm_ranges_forest [of n] crm_ranges_forest [of "with_children n (A @ (?h, Node b e cm) # C)"] m
      using cm crm_ranges_forest [of "Node b e cm"] by simp
    show "True \<longleftrightarrow> s \<noteq> 0 \<and> b \<le> ?h \<and> (\<forall>q\<in>crm_ranges n. compatible b ?h q)" using bh all by simp
  qed simp_all
qed

lemma StoreRange_spec:
  "crm_inv n \<Longrightarrow> store_spec n b s e (ContainedRangeMap_StoreRange n b s e)"
proof (induction n rule: measure_induct_rule [of size])
  case (less n)
  let ?h = "b + s - 1"
  have child: "(nbase (snd x), fst x, nentry (snd x)) \<in> crm_ranges n" if "x \<in> set (children n)" for x
    using that crm_ranges_iff by blast
  consider (bad) "s = 0 \<or> ?h < b"
    | (same) x where "s \<noteq> 0" "b \<le> ?h" "x \<in> set (children n)" "nbase (snd x) = b" "fst x = ?h"
    | (within) x where "s \<noteq> 0" "b \<le> ?h" "x \<in> set (children n)" "strictly_inside b ?h (nbase (snd x)) (fst x)"
    | (partly) x where "s \<noteq> 0" "b \<le> ?h" "\<not> (\<exists>x\<in>set (children n). nbase (snd x) \<le> b \<and> ?h \<le> fst x)"
        "x \<in> set (children n)" "meets_partly b ?h x"
    | (new_child) "s \<noteq> 0" "b \<le> ?h" "\<not> (\<exists>x\<in>set (children n). nbase (snd x) \<le> b \<and> ?h \<le> fst x)"
        "\<not> (\<exists>x\<in>set (children n). meets_partly b ?h x)"
  proof (cases "s = 0 \<or> ?h < b")
    case False
    then have bh: "s \<noteq> 0" "b \<le> ?h" by auto
    show thesis
    proof (cases "\<exists>x\<in>set (children n). nbase (snd x) \<le> b \<and> ?h \<le> fst x")
      case True
      then obtain x where x: "x \<in> set (children n)" "nbase (snd x) \<le> b" "?h \<le> fst x" by blast
      show thesis
      proof (cases "nbase (snd x) = b \<and> fst x = ?h")
        case False
        with x have "strictly_inside b ?h (nbase (snd x)) (fst x)" by (auto simp: strictly_inside_def)
        then show thesis by (rule within [OF bh x(1)])
      qed (use same [OF bh x(1)] in blast)
    next
      case False
      then show thesis using partly [OF bh False] new_child [OF bh False] by blast
    qed
  qed (use bad in blast)
  then show ?case
  proof cases
    case bad
    then have "ContainedRangeMap_StoreRange n b s e = (False, n)"
      by (subst ContainedRangeMap_StoreRange.simps) (auto simp: Let_def)
    with bad less.prems show ?thesis by (auto simp: store_spec_def)
  next
    case same
    with store_spec_refused [OF less.prems child [OF same(3)]] StoreRange_same [OF less.prems]
    show ?thesis by (simp add: compatible_def strictly_inside_def leD)
  next
    case within
    obtain i where i: "i < length (children n)" "children n ! i = x"
      "ContainedRangeMap_StoreRange n b s e =
        (fst (ContainedRangeMap_StoreRange (snd x) b s e),
         with_children n ((children n)[i := (fst x, snd (ContainedRangeMap_StoreRange (snd x) b s e))]))"
      using StoreRange_within [OF less.prems within] .
    have sub: "store_spec (snd x) b s e (ContainedRangeMap_StoreRange (snd x) b s e)"
      using size_children [OF within(3)] crm_invD(2) [OF less.prems within(3)] by (rule less.IH)
    have m: "children n = take i (children n) @ x # drop (Suc i) (children n)"
      using i(1,2) by (metis id_take_nth_drop)
    show ?thesis
      using store_spec_within [OF less.prems within(1,2) m within(4) sub] i(1,3)
      by (simp add: upd_conv_take_nth_drop)
  next
    case partly
    have "\<not> compatible b ?h (nbase (snd x), fst x, nentry (snd x))"
      using partly(3-5) by (auto simp: compatible_def meets_partly_def strictly_inside_def)
    then have "store_spec n b s e (False, with_children n (children n))"
      by (rule store_spec_refused [OF less.prems child [OF partly(4)]])
    moreover have "ContainedRangeMap_StoreRange n b s e = (False, with_children n (children n))"
      using partly(4,5) by (intro StoreRange_partly [OF less.prems partly(1-3)]) blast
    ultimately show ?thesis by simp
  next
    case new_child
    show ?thesis
      using StoreRange_new_child [OF less.prems new_child, of e] store_spec_new_child [OF less.prems new_child(1-3)]
      by metis
  qed
qed

section \<open>The interface\<close>

text \<open>
  What the symbol resolver relies on: lookups are determined by the stored ranges, and an insertion adds
  its range or leaves the map as it was.
\<close>

locale nested_reader =
  fixes retrieve :: "'m \<Rightarrow> 'a::len word \<Rightarrow> 'e option"
    and invar :: "'m \<Rightarrow> bool"
    and ranges :: "'m \<Rightarrow> ('a word \<times> 'a word \<times> 'e) set"
  assumes retrieve_smallest: "invar m \<Longrightarrow>
      retrieve m a = Some e \<longleftrightarrow> (\<exists>b h. smallest_around (ranges m) a (b, h, e))"
begin

lemma retrieve_stored_range:
  "invar m \<Longrightarrow> retrieve m a = Some e \<Longrightarrow> \<exists>b h. (b, h, e) \<in> ranges m \<and> b \<le> a \<and> a \<le> h"
  by (auto simp: retrieve_smallest smallest_around_def)

end

locale nested_container = nested_reader retrieve invar ranges
  for retrieve :: "'m \<Rightarrow> 'a::len word \<Rightarrow> 'e option"
    and invar :: "'m \<Rightarrow> bool"
    and ranges :: "'m \<Rightarrow> ('a word \<times> 'a word \<times> 'e) set" +
  fixes store :: "'m \<Rightarrow> 'a word \<Rightarrow> 'a word \<Rightarrow> 'e \<Rightarrow> bool \<times> 'm"
  assumes invar_store: "invar m \<Longrightarrow> invar (snd (store m b s e))"
    and ranges_store: "invar m \<Longrightarrow> ranges (snd (store m b s e)) =
      (if fst (store m b s e) then insert (b, b + s - 1, e) (ranges m) else ranges m)"
begin

lemma retrieve_store_outside:
  assumes "invar m" "\<not> (b \<le> a \<and> a \<le> b + s - 1)"
  shows "retrieve (snd (store m b s e)) a = retrieve m a"
proof (rule option_eqI)
  fix x
  have "smallest_around (ranges (snd (store m b s e))) a r \<longleftrightarrow> smallest_around (ranges m) a r" for r
    using assms by (auto simp: ranges_store smallest_around_def)
  then show "retrieve (snd (store m b s e)) a = Some x \<longleftrightarrow> retrieve m a = Some x"
    using assms(1) by (simp add: retrieve_smallest invar_store)
qed

lemma retrieve_store_innermost:
  assumes "invar m" "fst (store m b s e)" "b \<le> a" "a \<le> b + s - 1"
    and "\<forall>(b', h', e')\<in>ranges m. b' \<le> a \<and> a \<le> h' \<longrightarrow> b' \<le> b \<and> b + s - 1 \<le> h'"
  shows "retrieve (snd (store m b s e)) a = Some e"
proof -
  have "smallest_around (ranges (snd (store m b s e))) a (b, b + s - 1, e)"
    using assms by (auto simp: ranges_store smallest_around_def)
  then show ?thesis using assms(1) retrieve_smallest invar_store by blast
qed

lemma store_all_invar: "invar m \<Longrightarrow> invar (fold (\<lambda>(b, s, e) m. snd (store m b s e)) xs m)"
  by (induction xs arbitrary: m) (auto intro: invar_store)

end

lemma crm_ranges_unique:
  "crm_inv n \<Longrightarrow> (b, h, e) \<in> crm_ranges n \<Longrightarrow> (b, h, e') \<in> crm_ranges n \<Longrightarrow> e = e'"
proof (induction n rule: crm_ranges.induct)
  case (1 n)
  have "b \<le> h" using crm_ranges_nonempty [OF 1(2,3)] .
  obtain x where x: "x \<in> set (children n)" "nbase (snd x) \<le> b" "h \<le> fst x"
    "(b, h, e) = (nbase (snd x), fst x, nentry (snd x)) \<or> (b, h, e) \<in> crm_ranges (snd x)"
    using crm_ranges_child [OF 1(2,3)] .
  have "b \<le> fst x" using \<open>b \<le> h\<close> x(3) by order
  then have x': "(b, h, e') = (nbase (snd x), fst x, nentry (snd x)) \<or> (b, h, e') \<in> crm_ranges (snd x)"
    using child_around_unique [OF 1(2) x(1,2) _ 1(4) _ \<open>b \<le> h\<close>] by blast
  have no: "(nbase (snd x), fst x, f) \<notin> crm_ranges (snd x)" for f
    using crm_ranges_below [OF 1(2) x(1)] by (auto simp: strictly_inside_def)
  show ?case
    using x(4) x' no 1(1) [OF x(1) crm_invD(2) [OF 1(2) x(1)]] by auto
qed

lemma crm_retrieve_iff:
  assumes "crm_inv n"
  shows "ContainedRangeMap_RetrieveRange n a = Some e \<longleftrightarrow> (\<exists>b h. smallest_around (crm_ranges n) a (b, h, e))"
    (is "?L \<longleftrightarrow> ?R")
proof
  assume ?L
  with crm_retrieve_cases [OF assms, of a] show ?R by simp
next
  assume ?R
  then obtain b h where bh: "smallest_around (crm_ranges n) a (b, h, e)" by blast
  then have r: "(b, h, e) \<in> crm_ranges n" "b \<le> a" "a \<le> h" by (auto simp: smallest_around_def)
  have "ContainedRangeMap_RetrieveRange n a \<noteq> None" using crm_retrieve_cases [OF assms, of a] r
    by (intro notI) auto
  then obtain e' b' h'
    where e': "ContainedRangeMap_RetrieveRange n a = Some e'" "smallest_around (crm_ranges n) a (b', h', e')"
    using crm_retrieve_cases [OF assms, of a] by auto
  then have r': "(b', h', e') \<in> crm_ranges n" "b' \<le> a" "a \<le> h'" by (auto simp: smallest_around_def)
  have "b' \<le> b \<and> h \<le> h'" using bh r' unfolding smallest_around_def by fastforce
  moreover have "b \<le> b' \<and> h' \<le> h" using e'(2) r unfolding smallest_around_def by fastforce
  ultimately have "b' = b" "h' = h" "(b', h', e') \<in> crm_ranges n" using r'(1) by auto
  with crm_ranges_unique [OF assms r(1)] e' show ?L by simp
qed

interpretation crm: nested_container ContainedRangeMap_RetrieveRange crm_inv crm_ranges
  ContainedRangeMap_StoreRange
proof
  fix m :: "('a, 'e) crm" and a b s e
  assume inv: "crm_inv m"
  show "ContainedRangeMap_RetrieveRange m a = Some e \<longleftrightarrow> (\<exists>b h. smallest_around (crm_ranges m) a (b, h, e))"
    by (rule crm_retrieve_iff [OF inv])
  show "crm_inv (snd (ContainedRangeMap_StoreRange m b s e))"
    and "crm_ranges (snd (ContainedRangeMap_StoreRange m b s e)) =
      (if fst (ContainedRangeMap_StoreRange m b s e) then insert (b, b + s - 1, e) (crm_ranges m)
       else crm_ranges m)"
    using StoreRange_spec [OF inv, of b s e] by (auto simp: store_spec_def)
qed

lemmas crm_inv_StoreRange [model_inv] = crm.invar_store

lemma crm_inv_root [simp]: "crm_inv (ContainedRangeMap_root e)"
  by (simp add: crm_inv_forest ContainedRangeMap_root_def)

lemma crm_ranges_root [simp]: "crm_ranges (ContainedRangeMap_root e) = {}"
  by (simp add: crm_ranges_forest ContainedRangeMap_root_def)

section \<open>Properties\<close>

text \<open>C3. \<open>RetrieveRange\<close> returns the entry of the smallest stored range around the address: one that contains
  it and lies inside every other stored range that does. It fails exactly when no stored range contains
  the address.\<close>

theorem ContainedRangeMap_retrieve_smallest:
  assumes "crm_inv n"
  shows "case ContainedRangeMap_RetrieveRange n a of
      None \<Rightarrow> \<not> (\<exists>b h e. (b, h, e) \<in> crm_ranges n \<and> b \<le> a \<and> a \<le> h)
    | Some e \<Rightarrow> \<exists>b h. (b, h, e) \<in> crm_ranges n \<and> b \<le> a \<and> a \<le> h \<and>
        (\<forall>b' h' e'. (b', h', e') \<in> crm_ranges n \<and> b' \<le> a \<and> a \<le> h' \<longrightarrow> b' \<le> b \<and> h \<le> h')"
proof (cases "ContainedRangeMap_RetrieveRange n a")
  case None
  with crm_retrieve_cases [OF assms, of a] show ?thesis by auto
next
  case (Some e)
  with crm_retrieve_cases [OF assms, of a] obtain b h where "smallest_around (crm_ranges n) a (b, h, e)" by auto
  then have "(b, h, e) \<in> crm_ranges n \<and> b \<le> a \<and> a \<le> h \<and>
      (\<forall>b' h' e'. (b', h', e') \<in> crm_ranges n \<and> b' \<le> a \<and> a \<le> h' \<longrightarrow> b' \<le> b \<and> h \<le> h')"
    unfolding smallest_around_def by fastforce
  with Some show ?thesis by (simp only: option.case) blast
qed

theorem ContainedRangeMap_retrieve_smallest_witness:
  "crm_inv (ContainedRangeMap_root ''r'' :: (32, string) crm) \<and>
   ContainedRangeMap_RetrieveRange (ContainedRangeMap_root ''r'' :: (32, string) crm) 7 = None"
  using ContainedRangeMap_retrieve_smallest [of "ContainedRangeMap_root ''r'' :: (32, string) crm" 7]
  by (auto split: option.splits)

text \<open>\<open>StoreRange\<close> accepts a range exactly when it is non-empty, does not wrap, and is disjoint from,
  strictly inside or strictly around every stored range. It then adds that range and nothing else,
  otherwise it stores nothing; the tree stays well-formed in both cases.\<close>

theorem ContainedRangeMap_store:
  fixes b s :: "'a::len word"
  assumes "crm_inv n"
  shows "case ContainedRangeMap_StoreRange n b s e of (stored, n') \<Rightarrow>
    crm_inv n' \<and>
    crm_ranges n' = (if stored then insert (b, b + s - 1, e) (crm_ranges n) else crm_ranges n) \<and>
    (stored \<longleftrightarrow> 0 < unat s \<and> unat b + unat s \<le> 2 ^ LENGTH('a) \<and>
       (\<forall>b' h' e'. (b', h', e') \<in> crm_ranges n \<longrightarrow>
          h' < b \<or> b + s - 1 < b' \<or>
          (b' \<le> b \<and> b + s - 1 \<le> h' \<and> (b, b + s - 1) \<noteq> (b', h')) \<or>
          (b \<le> b' \<and> h' \<le> b + s - 1 \<and> (b, b + s - 1) \<noteq> (b', h'))))"
proof -
  have size: "s \<noteq> 0 \<and> b \<le> b + s - 1 \<longleftrightarrow> 0 < unat s \<and> unat b + unat s \<le> 2 ^ LENGTH('a)"
    using high_address_overflow [of s b] by (auto simp: unat_gt_0 not_less [symmetric])
  have compat: "(\<forall>q\<in>crm_ranges n. compatible b (b + s - 1) q) \<longleftrightarrow>
      (\<forall>b' h' e'. (b', h', e') \<in> crm_ranges n \<longrightarrow>
          h' < b \<or> b + s - 1 < b' \<or>
          (b' \<le> b \<and> b + s - 1 \<le> h' \<and> (b, b + s - 1) \<noteq> (b', h')) \<or>
          (b \<le> b' \<and> h' \<le> b + s - 1 \<and> (b, b + s - 1) \<noteq> (b', h')))"
    by (simp add: compatible_def strictly_inside_def Ball_def eq_commute)
  show ?thesis
    unfolding case_prod_beta compat [symmetric]
    using StoreRange_spec [OF assms, of b s e] size unfolding store_spec_def by blast
qed

theorem ContainedRangeMap_store_witness:
  "crm_inv (ContainedRangeMap_root ''r'' :: (32, string) crm) \<and>
   fst (ContainedRangeMap_StoreRange (ContainedRangeMap_root ''r'') (0x10 :: 32 word) 8 ''f'')"
  using ContainedRangeMap_store [of "ContainedRangeMap_root ''r'' :: (32, string) crm" "0x10" 8 "''f''"]
  by (simp add: case_prod_beta)

end
