(* ===== verification/Text_Stream.thy ===== *)
theory Text_Stream
  imports Prelude
begin

text \<open>
  The formatted text input and output of the C++ standard library that the sources use: extracting
  white-space separated words from an \<open>istringstream\<close>, extracting an unsigned integer, and inserting
  one into an \<open>ostringstream\<close>. Unsigned extraction follows the C++11 rules: white space is skipped, an
  optional sign is accepted (a minus sign negates modulo the width), at least one decimal digit is
  needed, and a magnitude that does not fit the type fails.
\<close>

section \<open>Characters\<close>

definition is_space :: "char \<Rightarrow> bool" where
  "is_space c \<longleftrightarrow> of_char c = (32 :: nat) \<or> (9 \<le> (of_char c :: nat) \<and> of_char c \<le> (13 :: nat))"

definition is_digit :: "char \<Rightarrow> bool" where
  "is_digit c \<longleftrightarrow> 48 \<le> (of_char c :: nat) \<and> of_char c \<le> (57 :: nat)"

definition digit_char :: "nat \<Rightarrow> char" where
  "digit_char d = char_of (48 + d)"

definition digit_value :: "char \<Rightarrow> nat" where
  "digit_value c = of_char c - 48"

lemma digit_char_eval:
  "digit_char 0 = CHR ''0''" "digit_char 1 = CHR ''1''" "digit_char 2 = CHR ''2''" "digit_char 3 = CHR ''3''"
  "digit_char 4 = CHR ''4''" "digit_char 5 = CHR ''5''" "digit_char 6 = CHR ''6''" "digit_char 7 = CHR ''7''"
  "digit_char 8 = CHR ''8''" "digit_char 9 = CHR ''9''"
  by (simp_all add: digit_char_def char_of_def bit_Suc bit_0)

lemma digit_char_digit: "d < 10 \<Longrightarrow> is_digit (digit_char d)"
  by (simp add: is_digit_def digit_char_def of_char_of)

lemma digit_value_char: "d < 10 \<Longrightarrow> digit_value (digit_char d) = d"
  by (simp add: digit_value_def digit_char_def of_char_of)

lemma digit_not_space: "is_digit c \<Longrightarrow> \<not> is_space c"
  by (auto simp: is_digit_def is_space_def)

lemma digit_not_sign: "is_digit c \<Longrightarrow> c \<noteq> CHR ''-'' \<and> c \<noteq> CHR ''+''"
  by (auto simp: is_digit_def)

section \<open>Decimal numbers\<close>

fun show_decimal :: "nat \<Rightarrow> string" where
  "show_decimal n =
     (if n < 10 then [digit_char n] else show_decimal (n div 10) @ [digit_char (n mod 10)])"

declare show_decimal.simps [simp del]

definition decimal_value :: "string \<Rightarrow> nat" where
  "decimal_value ds = foldl (\<lambda>acc c. 10 * acc + digit_value c) 0 ds"

lemma decimal_value_snoc: "decimal_value (ds @ [c]) = 10 * decimal_value ds + digit_value c"
  by (simp add: decimal_value_def)

lemma decimal_value_show: "decimal_value (show_decimal n) = n"
proof (induction n rule: show_decimal.induct)
  case (1 n)
  show ?case
  proof (cases "n < 10")
    case True
    then show ?thesis
      by (subst show_decimal.simps) (simp add: decimal_value_def digit_value_char)
  next
    case False
    with 1 have "decimal_value (show_decimal (n div 10)) = n div 10" by simp
    with False show ?thesis
      by (subst show_decimal.simps) (simp add: decimal_value_snoc digit_value_char)
  qed
qed

lemma show_decimal_digits: "c \<in> set (show_decimal n) \<Longrightarrow> is_digit c"
proof (induction n rule: show_decimal.induct)
  case (1 n)
  show ?case
  proof (cases "n < 10")
    case True
    with 1(2) show ?thesis by (subst (asm) show_decimal.simps) (simp add: digit_char_digit)
  next
    case False
    with 1(2) have "c \<in> set (show_decimal (n div 10)) \<or> c = digit_char (n mod 10)"
      by (subst (asm) show_decimal.simps) auto
    with 1(1) [OF False] show ?thesis by (auto simp: digit_char_digit)
  qed
qed

lemma show_decimal_nonempty [simp]: "show_decimal n \<noteq> []"
  by (subst show_decimal.simps) simp

section \<open>Extraction and insertion of unsigned integers\<close>

definition extract_unsigned :: "string \<Rightarrow> ('a::len word \<times> string) option" where
  "extract_unsigned s =
     (let s1 = dropWhile is_space s;
          negative = (s1 \<noteq> [] \<and> hd s1 = CHR ''-'');
          s2 = (if s1 \<noteq> [] \<and> (hd s1 = CHR ''-'' \<or> hd s1 = CHR ''+'') then tl s1 else s1);
          ds = takeWhile is_digit s2
      in if ds = [] then None
         else if 2 ^ LENGTH('a) \<le> decimal_value ds then None
         else Some (if negative then - of_nat (decimal_value ds) else of_nat (decimal_value ds),
                    dropWhile is_digit s2))"

definition insert_unsigned :: "'a::len word \<Rightarrow> string" where
  "insert_unsigned w = show_decimal (unat w)"

lemma insert_unsigned_digits: "c \<in> set (insert_unsigned w) \<Longrightarrow> is_digit c"
  unfolding insert_unsigned_def by (rule show_decimal_digits)

lemma insert_unsigned_nonempty [simp]: "insert_unsigned w \<noteq> []"
  by (simp add: insert_unsigned_def)

lemma insert_unsigned_hd: "is_digit (hd (insert_unsigned w))"
  by (rule insert_unsigned_digits [of _ w]) simp

text \<open>What is written is read back, whatever the width.\<close>

lemma extract_insert_unsigned: "extract_unsigned (insert_unsigned w) = Some (w, [])"
proof -
  let ?s = "insert_unsigned w"
  have hd: "is_digit (hd ?s)" by (rule insert_unsigned_hd)
  have "dropWhile is_space ?s = ?s"
    using hd digit_not_space by (cases ?s) auto
  moreover have "takeWhile is_digit ?s = ?s" "dropWhile is_digit ?s = []"
    using insert_unsigned_digits by (auto simp: takeWhile_eq_all_conv dropWhile_eq_Nil_conv)
  moreover have "decimal_value ?s = unat w" by (simp add: insert_unsigned_def decimal_value_show)
  moreover have "unat w < 2 ^ LENGTH('a)" by (rule unsigned_less)
  ultimately show ?thesis
    using digit_not_sign [OF hd]
    by (simp add: extract_unsigned_def Let_def not_le del: takeWhile_eq_all_conv dropWhile_eq_Nil_conv)
qed

lemma extract_unsigned_not_number:
  assumes "s \<noteq> []" "\<not> is_space (hd s)" "\<not> is_digit (hd s)" "hd s \<noteq> CHR ''-''" "hd s \<noteq> CHR ''+''"
  shows "extract_unsigned s = None"
  using assms by (cases s) (auto simp: extract_unsigned_def Let_def)

lemmas text_eval = is_space_def is_digit_def insert_unsigned_def show_decimal.simps digit_char_eval
  extract_unsigned_def decimal_value_def digit_value_def

section \<open>Words of a stream\<close>

function stream_tokens :: "string \<Rightarrow> string list" where
  "stream_tokens s =
     (let s1 = dropWhile is_space s in
      if s1 = [] then []
      else takeWhile (\<lambda>c. \<not> is_space c) s1 # stream_tokens (dropWhile (\<lambda>c. \<not> is_space c) s1))"
  by pat_completeness auto
termination
proof (relation "measure length", simp)
  fix s s1 :: string
  assume s1: "s1 = dropWhile is_space s" "s1 \<noteq> []"
  then have "\<not> is_space (hd s1)" by (metis hd_dropWhile)
  with s1(2) have "length (dropWhile (\<lambda>c. \<not> is_space c) s1) < length s1"
    by (cases s1) (auto simp: less_Suc_eq_le length_dropWhile_le)
  also have "length s1 \<le> length s" using s1(1) by (simp add: length_dropWhile_le)
  finally show "(dropWhile (\<lambda>c. \<not> is_space c) s1, s) \<in> measure length" by simp
qed

declare stream_tokens.simps [simp del]

definition word_token :: "string \<Rightarrow> bool" where
  "word_token t \<longleftrightarrow> t \<noteq> [] \<and> (\<forall>c\<in>set t. \<not> is_space c)"

lemma stream_tokens_word: "t \<in> set (stream_tokens s) \<Longrightarrow> word_token t"
proof (induction s rule: stream_tokens.induct)
  case (1 s)
  define s1 where "s1 = dropWhile is_space s"
  have eq: "stream_tokens s = (if s1 = [] then [] else
      takeWhile (\<lambda>c. \<not> is_space c) s1 # stream_tokens (dropWhile (\<lambda>c. \<not> is_space c) s1))"
    by (subst stream_tokens.simps) (simp add: s1_def Let_def)
  show ?case
  proof (cases "s1 = []")
    case True
    with 1(2) eq show ?thesis by simp
  next
    case False
    then have "\<not> is_space (hd s1)" unfolding s1_def by (rule hd_dropWhile)
    with False have "word_token (takeWhile (\<lambda>c. \<not> is_space c) s1)"
      by (cases s1) (auto simp: word_token_def dest: set_takeWhileD)
    moreover have "t = takeWhile (\<lambda>c. \<not> is_space c) s1 \<or>
        t \<in> set (stream_tokens (dropWhile (\<lambda>c. \<not> is_space c) s1))"
      using 1(2) unfolding eq using False by simp
    ultimately show ?thesis using 1(1) [OF s1_def False] by blast
  qed
qed

fun unwords :: "string list \<Rightarrow> string" where
  "unwords [] = []"
| "unwords [t] = t"
| "unwords (t # ts) = t @ CHR '' '' # unwords ts"

lemma is_space_blank [simp]: "is_space CHR '' ''"
  by (simp add: is_space_def)

lemma stream_tokens_Nil [simp]: "stream_tokens [] = []"
  by (subst stream_tokens.simps) simp

lemma stream_tokens_word_append:
  assumes "word_token t" "s = [] \<or> is_space (hd s)"
  shows "stream_tokens (t @ s) = t # stream_tokens s"
proof -
  have t: "t \<noteq> []" "\<forall>c\<in>set t. \<not> is_space c" using assms(1) by (auto simp: word_token_def)
  have "dropWhile is_space (t @ s) = t @ s" using t by (cases t) auto
  moreover have "takeWhile (\<lambda>c. \<not> is_space c) (t @ s) = t" "dropWhile (\<lambda>c. \<not> is_space c) (t @ s) = s"
    using t(2) assms(2) by (cases s; simp add: takeWhile_append2 dropWhile_append2)+
  ultimately show ?thesis using t(1) by (subst stream_tokens.simps) simp
qed

lemma stream_tokens_blank: "stream_tokens (CHR '' '' # s) = stream_tokens s"
  by (subst (1 2) stream_tokens.simps) simp

lemma stream_tokens_unwords: "\<forall>t\<in>set ts. word_token t \<Longrightarrow> stream_tokens (unwords ts) = ts"
proof (induction ts rule: unwords.induct)
  case (2 t)
  then show ?case using stream_tokens_word_append [of t "[]"] by simp
next
  case (3 t u ts)
  then show ?case by (simp add: stream_tokens_word_append stream_tokens_blank)
qed simp

end
