(* ===== verification/C_Strings.thy ===== *)
theory C_Strings
  imports Text_Stream
begin

text \<open>
  The C string functions that the symbol-file code uses, on strings without their terminator: a
  \<open>char *\<close> is the list of characters up to its NUL. \<open>strtok_r\<close> returns the token and the new cursor,
  the text after the delimiter that it overwrote.
\<close>

definition c_str :: "string \<Rightarrow> string" where
  "c_str s = takeWhile (\<lambda>c. of_char c \<noteq> (0 :: nat)) s"

definition strtok_r :: "char list \<Rightarrow> string \<Rightarrow> (string \<times> string) option" where
  "strtok_r breaks s =
     (let s1 = dropWhile (\<lambda>c. c \<in> set breaks) s in
      if s1 = [] then None
      else Some (takeWhile (\<lambda>c. c \<notin> set breaks) s1, tl (dropWhile (\<lambda>c. c \<notin> set breaks) s1)))"

lemma strtok_r_shorter: "strtok_r breaks s = Some (token, cursor) \<Longrightarrow> length cursor < length s"
proof -
  assume a: "strtok_r breaks s = Some (token, cursor)"
  define s1 where "s1 = dropWhile (\<lambda>c. c \<in> set breaks) s"
  have s1: "s1 \<noteq> []" "cursor = tl (dropWhile (\<lambda>c. c \<notin> set breaks) s1)"
    using a by (auto simp: strtok_r_def s1_def Let_def split: if_split_asm)
  have "length (tl (dropWhile (\<lambda>c. c \<notin> set breaks) s1)) \<le> length s1 - 1"
    by (simp add: length_dropWhile_le diff_le_mono)
  moreover have "length s1 \<le> length s" "0 < length s1" using s1(1) by (simp_all add: s1_def length_dropWhile_le)
  ultimately show "length cursor < length s" unfolding s1(2) by linarith
qed

text \<open>The tokens that a loop of \<open>strtok_r\<close> calls with one set of delimiters returns.\<close>

function strtok_all :: "char list \<Rightarrow> string \<Rightarrow> string list" where
  "strtok_all breaks s =
     (case strtok_r breaks s of None \<Rightarrow> [] | Some (token, cursor) \<Rightarrow> token # strtok_all breaks cursor)"
  by pat_completeness auto
termination
  by (relation "measure (\<lambda>(breaks, s). length s)") (auto dest: strtok_r_shorter)

declare strtok_all.simps [simp del]

lemma strtok_all_None: "strtok_r breaks s = None \<Longrightarrow> strtok_all breaks s = []"
  by (subst strtok_all.simps) simp

lemma strtok_all_Some:
  "strtok_r breaks s = Some (token, cursor) \<Longrightarrow> strtok_all breaks s = token # strtok_all breaks cursor"
  by (subst strtok_all.simps) simp

lemma strtok_all_Cons:
  "strtok_all breaks (c # s) =
     (if c \<in> set breaks then strtok_all breaks s
      else takeWhile (\<lambda>c. c \<notin> set breaks) (c # s) # strtok_all breaks (tl (dropWhile (\<lambda>c. c \<notin> set breaks) s)))"
  by (subst (1 2) strtok_all.simps) (simp add: strtok_r_def)

lemma strtok_all_Nil [simp]: "strtok_all breaks [] = []"
  by (rule strtok_all_None) (simp add: strtok_r_def)

lemmas strtok_all_eval = strtok_all_Nil strtok_all_Cons

definition free_of :: "char list \<Rightarrow> string \<Rightarrow> bool" where
  "free_of breaks t \<longleftrightarrow> t \<noteq> [] \<and> set t \<inter> set breaks = {}"

lemma strtok_r_token: "strtok_r breaks s = Some (token, cursor) \<Longrightarrow> free_of breaks token"
proof -
  assume a: "strtok_r breaks s = Some (token, cursor)"
  define s1 where "s1 = dropWhile (\<lambda>c. c \<in> set breaks) s"
  have s1: "s1 \<noteq> []" "token = takeWhile (\<lambda>c. c \<notin> set breaks) s1"
    using a by (auto simp: strtok_r_def s1_def Let_def split: if_split_asm)
  have "hd s1 \<notin> set breaks" using s1(1) unfolding s1_def by (rule hd_dropWhile)
  then show ?thesis using s1 by (cases s1) (auto simp: free_of_def dest: set_takeWhileD)
qed

lemma strtok_all_tokens: "t \<in> set (strtok_all breaks s) \<Longrightarrow> free_of breaks t"
proof (induction breaks s rule: strtok_all.induct)
  case (1 breaks s)
  show ?case
  proof (cases "strtok_r breaks s")
    case None
    with 1 show ?thesis by (simp add: strtok_all_None)
  next
    case (Some p)
    obtain token cursor where p: "p = (token, cursor)" by (cases p)
    with 1(2) Some have "t = token \<or> t \<in> set (strtok_all breaks cursor)"
      by (simp add: strtok_all_Some)
    with 1(1) [OF Some p [symmetric]] strtok_r_token Some p show ?thesis by blast
  qed
qed

lemma strtok_r_word:
  assumes "free_of breaks t" "s = [] \<or> hd s \<in> set breaks"
  shows "strtok_r breaks (t @ s) = Some (t, tl s)"
proof -
  have t: "t \<noteq> []" "\<forall>c\<in>set t. c \<notin> set breaks" using assms(1) by (auto simp: free_of_def)
  have "dropWhile (\<lambda>c. c \<in> set breaks) (t @ s) = t @ s" using t by (cases t) auto
  moreover have "takeWhile (\<lambda>c. c \<notin> set breaks) (t @ s) = t" "dropWhile (\<lambda>c. c \<notin> set breaks) (t @ s) = s"
    using t(2) assms(2) by (cases s; simp add: takeWhile_append2 dropWhile_append2)+
  ultimately show ?thesis using t(1) by (simp add: strtok_r_def)
qed

lemma strtok_all_unwords:
  assumes "CHR '' '' \<in> set breaks"
  shows "\<forall>t\<in>set ts. free_of breaks t \<Longrightarrow> strtok_all breaks (unwords ts) = ts"
proof (induction ts rule: unwords.induct)
  case 1
  then show ?case by simp
next
  case (2 t)
  then show ?case using strtok_r_word [of breaks t "[]"] by (simp add: strtok_all_Some)
next
  case (3 t u ts)
  then have "strtok_r breaks (unwords (t # u # ts)) = Some (t, unwords (u # ts))"
    using strtok_r_word [of breaks t "CHR '' '' # unwords (u # ts)"] assms by simp
  then show ?case using 3 by (simp add: strtok_all_Some)
qed

end
