(* ===== verification/Postfix_Evaluator.thy ===== *)
theory Postfix_Evaluator
  imports Text_Stream
begin

text \<open>
  \<^verbatim>\<open>PostfixEvaluator\<close> (\<^verbatim>\<open>processor/postfix_evaluator.h\<close>, \<^verbatim>\<open>processor/postfix_evaluator-inl.h\<close>): the stack
  machine that runs the program strings of MSVC frame data and the rules of STACK CFI records. The stack
  holds strings, as in the code: an intermediate result is printed when it is pushed and parsed again
  when it is popped. \<open>ValueType\<close> is an unsigned machine word of any width.

  A null dictionary, a division by zero and an assignment to a negative literal leave the defined
  behaviour of the code; they are the outcome \<open>Undefined\<close>.
\<close>

unbundle bit_operations_syntax

section \<open>The code\<close>

text \<open>The head of \<open>stk\<close> is the back of \<open>stack_\<close>. \<open>assigned\<close> is the validity map of the running
  \<open>Evaluate\<close>; both it and the dictionary may be null.\<close>

type_synonym 'a dictionary = "string \<rightharpoonup> 'a word"
type_synonym 'a memory = "'a word \<rightharpoonup> 'a word"

record 'w evaluator =
  dictionary :: "(string \<rightharpoonup> 'w) option"
  memory :: "('w \<rightharpoonup> 'w) option"
  stk :: "string list"
  assigned :: "(string \<rightharpoonup> bool) option"

datatype 'v PopResult = POP_RESULT_FAIL | POP_RESULT_VALUE 'v | POP_RESULT_IDENTIFIER string

datatype BinaryOperation =
    BINARY_OP_ADD | BINARY_OP_SUBTRACT | BINARY_OP_MULTIPLY
  | BINARY_OP_DIVIDE_QUOTIENT | BINARY_OP_DIVIDE_MODULUS | BINARY_OP_ALIGN

text \<open>The literal of a token, if all of it is one, with its leading minus sign split off.\<close>

definition token_literal :: "string \<Rightarrow> (bool \<times> 'a::len word) option" where
  "token_literal token =
     (let negative = (token \<noteq> [] \<and> hd token = CHR ''-'');
          rest = (if negative then tl token else token)
      in case extract_unsigned rest of
           Some (literal, []) \<Rightarrow> Some (negative, literal)
         | _ \<Rightarrow> None)"

text \<open>\<open>has_value\<close> says whether the \<open>value\<close> out-parameter is non-null; a negative literal is negated
  through that pointer without a check.\<close>

definition PopValueOrIdentifier ::
  "bool \<Rightarrow> 'a::len word evaluator \<Rightarrow> ('a word PopResult \<times> 'a word evaluator) exec" where
  "PopValueOrIdentifier has_value ev =
     (case stk ev of
        [] \<Rightarrow> Returns (POP_RESULT_FAIL, ev)
      | token # rest \<Rightarrow>
          let ev' = ev\<lparr>stk := rest\<rparr> in
          (case token_literal token of
             Some (negative, literal) \<Rightarrow>
               if negative \<and> \<not> has_value then Undefined
               else Returns (POP_RESULT_VALUE (if negative then - literal else literal), ev')
           | None \<Rightarrow> Returns (POP_RESULT_IDENTIFIER token, ev')))"

definition PopValue :: "'a::len word evaluator \<Rightarrow> ('a word option \<times> 'a word evaluator) exec" where
  "PopValue ev =
     exec_bind (PopValueOrIdentifier True ev) (\<lambda>(result, ev').
       case result of
         POP_RESULT_FAIL \<Rightarrow> Returns (None, ev')
       | POP_RESULT_VALUE literal \<Rightarrow> Returns (Some literal, ev')
       | POP_RESULT_IDENTIFIER token \<Rightarrow>
           (case dictionary ev' of
              None \<Rightarrow> Undefined
            | Some d \<Rightarrow> Returns (d token, ev')))"

definition PopValues :: "'a::len word evaluator \<Rightarrow> (('a word \<times> 'a word) option \<times> 'a word evaluator) exec" where
  "PopValues ev =
     exec_bind (PopValue ev) (\<lambda>(v2, ev').
       case v2 of
         None \<Rightarrow> Returns (None, ev')
       | Some value2 \<Rightarrow>
           exec_bind (PopValue ev') (\<lambda>(v1, ev'').
             case v1 of
               None \<Rightarrow> Returns (None, ev'')
             | Some value1 \<Rightarrow> Returns (Some (value1, value2), ev'')))"

definition PushValue :: "'a::len word \<Rightarrow> 'a word evaluator \<Rightarrow> 'a word evaluator" where
  "PushValue value ev = ev\<lparr>stk := insert_unsigned value # stk ev\<rparr>"

definition token_operation :: "string \<Rightarrow> BinaryOperation option" where
  "token_operation token =
     (if token = ''+'' then Some BINARY_OP_ADD
      else if token = ''-'' then Some BINARY_OP_SUBTRACT
      else if token = ''*'' then Some BINARY_OP_MULTIPLY
      else if token = ''/'' then Some BINARY_OP_DIVIDE_QUOTIENT
      else if token = ''%'' then Some BINARY_OP_DIVIDE_MODULUS
      else if token = ''@'' then Some BINARY_OP_ALIGN
      else None)"

fun binary_operation :: "BinaryOperation \<Rightarrow> 'a::len word \<Rightarrow> 'a word \<Rightarrow> 'a word exec" where
  "binary_operation BINARY_OP_ADD operand1 operand2 = Returns (operand1 + operand2)"
| "binary_operation BINARY_OP_SUBTRACT operand1 operand2 = Returns (operand1 - operand2)"
| "binary_operation BINARY_OP_MULTIPLY operand1 operand2 = Returns (operand1 * operand2)"
| "binary_operation BINARY_OP_DIVIDE_QUOTIENT operand1 operand2 =
     (if operand2 = 0 then Undefined else Returns (operand1 div operand2))"
| "binary_operation BINARY_OP_DIVIDE_MODULUS operand1 operand2 =
     (if operand2 = 0 then Undefined else Returns (operand1 mod operand2))"
| "binary_operation BINARY_OP_ALIGN operand1 operand2 =
     Returns (operand1 AND ((- 1) XOR (operand2 - 1)))"

definition EvaluateToken :: "string \<Rightarrow> 'a::len word evaluator \<Rightarrow> (bool \<times> 'a word evaluator) exec" where
  "EvaluateToken token ev =
     (case token_operation token of
        Some operation \<Rightarrow>
          exec_bind (PopValues ev) (\<lambda>(operands, ev').
            case operands of
              None \<Rightarrow> Returns (False, ev')
            | Some (operand1, operand2) \<Rightarrow>
                exec_bind (binary_operation operation operand1 operand2) (\<lambda>result.
                  Returns (True, PushValue result ev')))
      | None \<Rightarrow>
          if token = ''^'' then
            (case memory ev of
               None \<Rightarrow> Returns (False, ev)
             | Some mem \<Rightarrow>
                 exec_bind (PopValue ev) (\<lambda>(addr, ev').
                   case addr of
                     None \<Rightarrow> Returns (False, ev')
                   | Some address \<Rightarrow>
                       (case mem address of
                          None \<Rightarrow> Returns (False, ev')
                        | Some value \<Rightarrow> Returns (True, PushValue value ev'))))
          else if token = ''='' then
            exec_bind (PopValue ev) (\<lambda>(v, ev').
              case v of
                None \<Rightarrow> Returns (False, ev')
              | Some value \<Rightarrow>
                  exec_bind (PopValueOrIdentifier False ev') (\<lambda>(result, ev'').
                    case result of
                      POP_RESULT_IDENTIFIER identifier \<Rightarrow>
                        if identifier = [] \<or> hd identifier \<noteq> CHR ''$'' then Returns (False, ev'')
                        else
                          (case dictionary ev'' of
                             None \<Rightarrow> Undefined
                           | Some d \<Rightarrow>
                               Returns (True, ev''\<lparr>dictionary := Some (d(identifier \<mapsto> value)),
                                 assigned := map_option (\<lambda>a. a(identifier \<mapsto> True)) (assigned ev'')\<rparr>))
                    | _ \<Rightarrow> Returns (False, ev'')))
          else Returns (True, ev\<lparr>stk := token # stk ev\<rparr>))"

fun EvaluateInternal :: "string list \<Rightarrow> 'a::len word evaluator \<Rightarrow> (bool \<times> 'a word evaluator) exec" where
  "EvaluateInternal [] ev = Returns (True, ev)"
| "EvaluateInternal (token # tokens) ev =
     (if length token > 1 \<and> hd token = CHR ''='' then
        exec_bind (EvaluateToken ''='' ev) (\<lambda>(ok, ev').
          if \<not> ok then Returns (False, ev')
          else
            exec_bind (EvaluateToken (tl token) ev') (\<lambda>(ok, ev'').
              if \<not> ok then Returns (False, ev'') else EvaluateInternal tokens ev''))
      else
        exec_bind (EvaluateToken token ev) (\<lambda>(ok, ev').
          if \<not> ok then Returns (False, ev') else EvaluateInternal tokens ev'))"

text \<open>The \<open>AutoStackClearer\<close> empties the stack on every return.\<close>

definition Evaluate ::
  "string \<Rightarrow> (string \<rightharpoonup> bool) option \<Rightarrow> 'a::len word evaluator \<Rightarrow> (bool \<times> 'a word evaluator) exec" where
  "Evaluate expression asg ev =
     exec_bind (EvaluateInternal (stream_tokens expression) (ev\<lparr>assigned := asg\<rparr>)) (\<lambda>(ok, ev').
       Returns (ok \<and> stk ev' = [], ev'\<lparr>stk := []\<rparr>))"

definition EvaluateForValue ::
  "string \<Rightarrow> 'a::len word evaluator \<Rightarrow> ('a word option \<times> 'a word evaluator) exec" where
  "EvaluateForValue expression ev =
     exec_bind (EvaluateInternal (stream_tokens expression) (ev\<lparr>assigned := None\<rparr>)) (\<lambda>(ok, ev').
       if \<not> ok then Returns (None, ev'\<lparr>stk := []\<rparr>)
       else if length (stk ev') \<noteq> 1 then Returns (None, ev'\<lparr>stk := []\<rparr>)
       else exec_bind (PopValue ev') (\<lambda>(result, ev''). Returns (result, ev''\<lparr>stk := []\<rparr>)))"

section \<open>Popping and pushing\<close>

definition token_value :: "'a::len dictionary \<Rightarrow> string \<Rightarrow> 'a word option" where
  "token_value d token =
     (case token_literal token of
        Some (negative, literal) \<Rightarrow> Some (if negative then - literal else literal)
      | None \<Rightarrow> d token)"

lemma PopValue_token:
  assumes "dictionary ev = Some d" "stk ev = token # rest"
  shows "PopValue ev = Returns (token_value d token, ev\<lparr>stk := rest\<rparr>)"
  using assms
  by (auto simp: PopValue_def PopValueOrIdentifier_def token_value_def split: option.splits)

lemma PopValue_empty: "stk ev = [] \<Longrightarrow> PopValue ev = Returns (None, ev)"
  by (simp add: PopValue_def PopValueOrIdentifier_def)

lemma token_literal_insert: "token_literal (insert_unsigned w) = Some (False, w)"
  using digit_not_sign [OF insert_unsigned_hd [of w]]
  by (simp add: token_literal_def extract_insert_unsigned)

lemma token_value_insert [simp]: "token_value d (insert_unsigned w) = Some w"
  by (simp add: token_value_def token_literal_insert)

definition identifier_token :: "string \<Rightarrow> bool" where
  "identifier_token t \<longleftrightarrow>
     word_token t \<and> \<not> is_digit (hd t) \<and> hd t \<notin> set ''+-*/%@^=''"

lemma token_literal_identifier: "identifier_token t \<Longrightarrow> token_literal t = None"
  by (auto simp: identifier_token_def word_token_def token_literal_def extract_unsigned_not_number)

lemma token_value_identifier: "identifier_token t \<Longrightarrow> token_value d t = d t"
  by (simp add: token_value_def token_literal_identifier)

text \<open>A token that is no operator is pushed as it is.\<close>

definition plain_token :: "string \<Rightarrow> bool" where
  "plain_token t \<longleftrightarrow> t \<noteq> [] \<and> hd t \<notin> set ''+-*/%@^=''"

lemma EvaluateToken_plain: "plain_token t \<Longrightarrow> EvaluateToken t ev = Returns (True, ev\<lparr>stk := t # stk ev\<rparr>)"
  by (cases t) (simp_all add: EvaluateToken_def token_operation_def plain_token_def)

lemma EvaluateInternal_plain:
  "plain_token t \<Longrightarrow> EvaluateInternal (t # ts) ev = EvaluateInternal ts (ev\<lparr>stk := t # stk ev\<rparr>)"
  by (simp add: EvaluateToken_plain) (auto simp: plain_token_def)

lemma plain_token_insert: "plain_token (insert_unsigned w)"
  using insert_unsigned_hd [of w] by (auto simp: plain_token_def is_digit_def)

lemma plain_token_identifier: "identifier_token t \<Longrightarrow> plain_token t"
  by (auto simp: plain_token_def identifier_token_def word_token_def)

section \<open>Expressions\<close>

text \<open>The expressions that postfix strings denote, their rendering and their value.\<close>

datatype 'w expr = Lit 'w | Var string | Bin BinaryOperation "'w expr" "'w expr" | Deref "'w expr"

fun operation_token :: "BinaryOperation \<Rightarrow> string" where
  "operation_token BINARY_OP_ADD = ''+''"
| "operation_token BINARY_OP_SUBTRACT = ''-''"
| "operation_token BINARY_OP_MULTIPLY = ''*''"
| "operation_token BINARY_OP_DIVIDE_QUOTIENT = ''/''"
| "operation_token BINARY_OP_DIVIDE_MODULUS = ''%''"
| "operation_token BINARY_OP_ALIGN = ''@''"

lemma token_operation_token [simp]: "token_operation (operation_token op) = Some op"
  by (cases op) (simp_all add: token_operation_def)

lemma operation_token_word: "word_token (operation_token op)"
  by (cases op) (simp_all add: word_token_def is_space_def)

lemma operation_token_length [simp]: "length (operation_token op) = 1"
  by (cases op) simp_all

fun expr_tokens :: "'a::len word expr \<Rightarrow> string list" where
  "expr_tokens (Lit w) = [insert_unsigned w]"
| "expr_tokens (Var x) = [x]"
| "expr_tokens (Bin op a b) = expr_tokens a @ expr_tokens b @ [operation_token op]"
| "expr_tokens (Deref a) = expr_tokens a @ [''^'']"

fun expr_ok :: "'a::len word expr \<Rightarrow> bool" where
  "expr_ok (Lit w) \<longleftrightarrow> True"
| "expr_ok (Var x) \<longleftrightarrow> identifier_token x"
| "expr_ok (Bin op a b) \<longleftrightarrow> expr_ok a \<and> expr_ok b"
| "expr_ok (Deref a) \<longleftrightarrow> expr_ok a"

fun expr_value :: "'a::len dictionary \<Rightarrow> 'a memory option \<Rightarrow> 'a word expr \<Rightarrow> 'a word option" where
  "expr_value d mem (Lit w) = Some w"
| "expr_value d mem (Var x) = d x"
| "expr_value d mem (Bin op a b) =
     (case (expr_value d mem a, expr_value d mem b) of
        (Some x, Some y) \<Rightarrow>
          (case binary_operation op x y of Returns r \<Rightarrow> Some r | Undefined \<Rightarrow> None)
      | _ \<Rightarrow> None)"
| "expr_value d mem (Deref a) =
     (case (expr_value d mem a, mem) of (Some x, Some m) \<Rightarrow> m x | _ \<Rightarrow> None)"

lemma expr_tokens_words: "expr_ok e \<Longrightarrow> t \<in> set (expr_tokens e) \<Longrightarrow> word_token t"
proof (induction e)
  case (Lit w)
  then show ?case
    using insert_unsigned_digits digit_not_space by (auto simp: word_token_def)
next
  case (Bin op a b)
  then show ?case using operation_token_word by auto
next
  case (Deref e)
  then show ?case by (auto simp: word_token_def is_space_def)
qed (auto simp: identifier_token_def)

lemma EvaluateInternal_operation:
  assumes "dictionary ev = Some d" "stk ev = t2 # t1 # rest"
    and "token_value d t1 = Some x" "token_value d t2 = Some y" "binary_operation op x y = Returns r"
  shows "EvaluateInternal (operation_token op # ts) ev =
    EvaluateInternal ts (ev\<lparr>stk := insert_unsigned r # rest\<rparr>)"
proof -
  have "PopValues ev = Returns (Some (x, y), ev\<lparr>stk := rest\<rparr>)"
    using assms by (simp add: PopValues_def PopValue_token [of ev] PopValue_token [of "ev\<lparr>stk := t1 # rest\<rparr>"])
  then show ?thesis using assms(5) by (simp add: EvaluateToken_def PushValue_def)
qed

lemma EvaluateInternal_deref:
  assumes "dictionary ev = Some d" "stk ev = t # rest" "token_value d t = Some x"
    and "memory ev = Some m" "m x = Some v"
  shows "EvaluateInternal (''^'' # ts) ev = EvaluateInternal ts (ev\<lparr>stk := insert_unsigned v # rest\<rparr>)"
  using assms by (simp add: EvaluateToken_def token_operation_def PopValue_token [of ev] PushValue_def)

text \<open>Running an expression pushes one token that denotes its value and touches nothing else.\<close>

fun pushed :: "'a::len word expr \<Rightarrow> 'a word \<Rightarrow> string" where
  "pushed (Var x) v = x"
| "pushed e v = insert_unsigned v"

lemma token_value_pushed:
  "expr_ok e \<Longrightarrow> expr_value d mem e = Some v \<Longrightarrow> token_value d (pushed e v) = Some v"
  by (cases e) (simp_all add: token_value_identifier)

lemma EvaluateInternal_expr:
  assumes "dictionary ev = Some d" "expr_ok e" "expr_value d (memory ev) e = Some v"
  shows "EvaluateInternal (expr_tokens e @ ts) ev =
    EvaluateInternal ts (ev\<lparr>stk := pushed e v # stk ev\<rparr>)"
  using assms
proof (induction e arbitrary: ev v ts)
  case (Bin op a b)
  from Bin.prems obtain x y where xy: "expr_value d (memory ev) a = Some x"
    "expr_value d (memory ev) b = Some y" "binary_operation op x y = Returns v"
    by (auto split: option.splits exec.splits)
  let ?ev = "ev\<lparr>stk := pushed b y # pushed a x # stk ev\<rparr>"
  have "EvaluateInternal (expr_tokens (Bin op a b) @ ts) ev = EvaluateInternal (operation_token op # ts) ?ev"
    using Bin.prems xy by (simp add: Bin.IH del: EvaluateInternal.simps)
  also have "\<dots> = EvaluateInternal ts (?ev\<lparr>stk := insert_unsigned v # stk ev\<rparr>)"
    using Bin.prems xy by (intro EvaluateInternal_operation) (auto intro: token_value_pushed)
  finally show ?case by simp
next
  case (Deref a)
  from Deref.prems obtain x m where x: "expr_value d (memory ev) a = Some x" "memory ev = Some m" "m x = Some v"
    by (auto split: option.splits)
  let ?ev = "ev\<lparr>stk := pushed a x # stk ev\<rparr>"
  have "EvaluateInternal (expr_tokens (Deref a) @ ts) ev = EvaluateInternal (''^'' # ts) ?ev"
    using Deref.prems x by (simp add: Deref.IH del: EvaluateInternal.simps)
  also have "\<dots> = EvaluateInternal ts (?ev\<lparr>stk := insert_unsigned v # stk ev\<rparr>)"
    using Deref.prems x by (intro EvaluateInternal_deref [of _ d _ _ x m]) (auto intro: token_value_pushed)
  finally show ?case by simp
qed (simp_all add: EvaluateInternal_plain plain_token_insert plain_token_identifier del: EvaluateInternal.simps)

section \<open>Programs of assignments\<close>

text \<open>An MSVC program string is a sequence of assignments \<open>$v expression =\<close>.\<close>

fun program_tokens :: "(string \<times> 'a::len word expr) list \<Rightarrow> string list" where
  "program_tokens [] = []"
| "program_tokens ((x, e) # p) = x # expr_tokens e @ ''='' # program_tokens p"

fun run_program ::
  "'a::len memory option \<Rightarrow> (string \<times> 'a word expr) list \<Rightarrow> 'a dictionary \<Rightarrow> 'a dictionary option" where
  "run_program mem [] d = Some d"
| "run_program mem ((x, e) # p) d =
     (case expr_value d mem e of None \<Rightarrow> None | Some v \<Rightarrow> run_program mem p (d(x \<mapsto> v)))"

definition program_ok :: "(string \<times> 'a::len word expr) list \<Rightarrow> bool" where
  "program_ok p \<longleftrightarrow> (\<forall>(x, e)\<in>set p. identifier_token x \<and> hd x = CHR ''$'' \<and> expr_ok e)"

lemma EvaluateToken_assign:
  assumes "dictionary ev = Some d" "stk ev = t # x # rest" "token_value d t = Some v"
    and "identifier_token x" "hd x = CHR ''$''"
  shows "EvaluateToken ''='' ev =
    Returns (True, ev\<lparr>dictionary := Some (d(x \<mapsto> v)), stk := rest,
      assigned := map_option (\<lambda>a. a(x \<mapsto> True)) (assigned ev)\<rparr>)"
proof -
  have pop: "PopValueOrIdentifier False (ev\<lparr>stk := x # rest\<rparr>) = Returns (POP_RESULT_IDENTIFIER x, ev\<lparr>stk := rest\<rparr>)"
    by (simp add: PopValueOrIdentifier_def Let_def token_literal_identifier [OF assms(4)])
  have "x \<noteq> []" using assms(4) by (simp add: identifier_token_def word_token_def)
  with assms pop show ?thesis
    by (simp add: EvaluateToken_def token_operation_def PopValue_token [OF assms(1,2)])
qed

lemma EvaluateInternal_program:
  assumes "dictionary ev = Some d" "stk ev = []" "program_ok p" "run_program (memory ev) p d = Some d'"
  shows "EvaluateInternal (program_tokens p) ev =
    Returns (True, ev\<lparr>dictionary := Some d',
      assigned := map_option (\<lambda>a. fold (\<lambda>(x, e) a. a(x \<mapsto> True)) p a) (assigned ev)\<rparr>)"
  using assms
proof (induction p arbitrary: ev d)
  case Nil
  then show ?case by (cases ev) (auto simp: option.map_ident)
next
  case (Cons xe p)
  obtain x e where xe: "xe = (x, e)" by (cases xe)
  from Cons.prems(4) obtain v where v: "expr_value d (memory ev) e = Some v"
    "run_program (memory ev) p (d(x \<mapsto> v)) = Some d'"
    by (auto simp: xe split: option.splits)
  have ok: "identifier_token x" "hd x = CHR ''$''" "expr_ok e" "program_ok p"
    using Cons.prems(3) by (auto simp: program_ok_def xe)
  let ?ev1 = "ev\<lparr>stk := [x]\<rparr>" and ?ev2 = "ev\<lparr>stk := [pushed e v, x]\<rparr>"
  let ?ev3 = "ev\<lparr>dictionary := Some (d(x \<mapsto> v)), stk := [],
      assigned := map_option (\<lambda>a. a(x \<mapsto> True)) (assigned ev)\<rparr>"
  have "EvaluateInternal (program_tokens (xe # p)) ev =
      EvaluateInternal (expr_tokens e @ ''='' # program_tokens p) ?ev1"
    using Cons.prems(2) by (simp add: xe EvaluateInternal_plain plain_token_identifier [OF ok(1)] del: EvaluateInternal.simps)
  also have "\<dots> = EvaluateInternal (''='' # program_tokens p) ?ev2"
    using Cons.prems(1) v ok by (subst EvaluateInternal_expr [of _ d _ v]) simp_all
  also have "\<dots> = EvaluateInternal (program_tokens p) ?ev3"
    using EvaluateToken_assign [of ?ev2 d "pushed e v" x "[]" v] token_value_pushed [OF ok(3) v(1)] ok Cons.prems(1)
    by simp
  also have "\<dots> = Returns (True, ?ev3\<lparr>dictionary := Some d',
      assigned := map_option (\<lambda>a. fold (\<lambda>(x, e) a. a(x \<mapsto> True)) p a) (assigned ?ev3)\<rparr>)"
    using v ok by (intro Cons.IH [of _ "d(x \<mapsto> v)"]) (simp_all add: fun_upd_def)
  finally have "EvaluateInternal (program_tokens (xe # p)) ev = Returns (True, ?ev3\<lparr>dictionary := Some d',
      assigned := map_option (\<lambda>a. fold (\<lambda>(x, e) a. a(x \<mapsto> True)) p a) (assigned ?ev3)\<rparr>)" .
  then show ?case
    unfolding xe using Cons.prems(2) by (cases ev) (simp add: option.map_comp comp_def fun_upd_def del: EvaluateInternal.simps)
qed

lemma program_tokens_words: "program_ok p \<Longrightarrow> t \<in> set (program_tokens p) \<Longrightarrow> word_token t"
  by (induction p rule: program_tokens.induct)
    (auto simp: program_ok_def identifier_token_def dest: expr_tokens_words, simp add: word_token_def is_space_def)

section \<open>What evaluation can change\<close>

text \<open>Every state reached differs from the start only in the stack and in variables, names that begin with
  a dollar sign, and each variable written is marked in the validity map.\<close>

definition only_variables :: "'a::len word evaluator \<Rightarrow> 'a word evaluator \<Rightarrow> bool" where
  "only_variables ev ev' \<longleftrightarrow>
     memory ev' = memory ev \<and>
     (dictionary ev' = None \<longleftrightarrow> dictionary ev = None) \<and> (assigned ev' = None \<longleftrightarrow> assigned ev = None) \<and>
     (\<forall>k. (\<exists>x. k = CHR ''$'' # x) \<or> the (dictionary ev') k = the (dictionary ev) k) \<and>
     (assigned ev \<noteq> None \<longrightarrow>
       (\<forall>k. the (assigned ev') k = Some True \<or>
          (the (dictionary ev') k = the (dictionary ev) k \<and> the (assigned ev') k = the (assigned ev) k)))"

lemma only_variables_refl: "dictionary ev' = dictionary ev \<Longrightarrow> memory ev' = memory ev \<Longrightarrow>
    assigned ev' = assigned ev \<Longrightarrow> only_variables ev ev'"
  by (simp add: only_variables_def)

lemma only_variables_trans:
  assumes "only_variables ev ev'" "only_variables ev' ev''"
  shows "only_variables ev ev''"
  using assms unfolding only_variables_def by metis

definition same_but_stack :: "'a::len word evaluator \<Rightarrow> 'a word evaluator \<Rightarrow> bool" where
  "same_but_stack ev ev' \<longleftrightarrow>
     dictionary ev' = dictionary ev \<and> memory ev' = memory ev \<and> assigned ev' = assigned ev"

lemma same_but_stack_simps [simp]:
  "same_but_stack ev ev" "same_but_stack ev (ev'\<lparr>stk := s\<rparr>) \<longleftrightarrow> same_but_stack ev ev'"
  "same_but_stack ev (PushValue v ev') \<longleftrightarrow> same_but_stack ev ev'"
  by (simp_all add: same_but_stack_def PushValue_def)

lemma same_but_stack_trans: "same_but_stack ev ev' \<Longrightarrow> same_but_stack ev' ev'' \<Longrightarrow> same_but_stack ev ev''"
  by (simp add: same_but_stack_def)

lemma same_only_variables: "same_but_stack ev ev' \<Longrightarrow> only_variables ev ev'"
  by (simp add: same_but_stack_def only_variables_refl)

lemma PopValueOrIdentifier_frame:
  "PopValueOrIdentifier b ev = Returns (r, ev') \<Longrightarrow> same_but_stack ev ev'"
  by (auto simp: PopValueOrIdentifier_def Let_def split: list.splits option.splits if_splits)

lemma PopValue_frame: "PopValue ev = Returns (r, ev') \<Longrightarrow> same_but_stack ev ev'"
  unfolding PopValue_def
  by (elim exec_bind_pairE)
    (auto split: PopResult.split_asm option.split_asm dest: PopValueOrIdentifier_frame)

lemma PopValues_frame: "PopValues ev = Returns (r, ev') \<Longrightarrow> same_but_stack ev ev'"
  unfolding PopValues_def
  by (elim exec_bind_pairE)
    (auto split: option.split_asm elim!: exec_bind_pairE dest!: PopValue_frame intro: same_but_stack_trans)

lemmas pop_frames = PopValueOrIdentifier_frame PopValue_frame PopValues_frame

text \<open>The one step that writes: an assignment to a name that starts with a dollar sign.\<close>

lemma assign_only_variables:
  assumes "same_but_stack ev ev'" "dictionary ev' = Some d" "x \<noteq> []" "hd x = CHR ''$''"
  shows "only_variables ev (ev'\<lparr>dictionary := Some (d(x \<mapsto> v)),
    assigned := map_option (\<lambda>a. a(x \<mapsto> True)) (assigned ev')\<rparr>)"
proof -
  have "dictionary ev = Some d" "assigned ev' = assigned ev" "memory ev' = memory ev"
    using assms by (auto simp: same_but_stack_def)
  with assms(3,4) show ?thesis by (cases x; cases "assigned ev") (auto simp: only_variables_def)
qed

lemma EvaluateToken_only_variables:
  assumes "EvaluateToken token ev = Returns (ok, ev')"
  shows "only_variables ev ev'"
proof (cases "token_operation token")
  case (Some op)
  with assms show ?thesis
    by (auto simp: EvaluateToken_def elim!: exec_bind_pairE exec_bindE split: option.split_asm
        dest!: pop_frames intro!: same_only_variables)
next
  case None
  show ?thesis
  proof (cases "token = ''=''")
    case False
    with None assms show ?thesis
      by (auto simp: EvaluateToken_def elim!: exec_bind_pairE split: option.split_asm if_split_asm
          dest!: pop_frames intro!: same_only_variables)
  next
    case True
    note eq = assms [unfolded EvaluateToken_def True token_operation_def, simplified]
    from eq obtain v ev1 where ev1: "PopValue ev = Returns (v, ev1)" by (elim exec_bind_pairE)
    note same1 = PopValue_frame [OF ev1]
    show ?thesis
    proof (cases v)
      case None
      with eq ev1 same1 show ?thesis by (auto intro: same_only_variables)
    next
      case (Some w)
      with eq ev1 obtain result ev2 where ev2: "PopValueOrIdentifier False ev1 = Returns (result, ev2)"
        by (auto elim!: exec_bind_pairE)
      then have same2: "same_but_stack ev ev2"
        using same1 PopValueOrIdentifier_frame same_but_stack_trans by blast
      from eq ev1 Some ev2 same2 show ?thesis
        by (auto split: PopResult.split_asm if_split_asm option.split_asm
            intro: same_only_variables assign_only_variables)
    qed
  qed
qed

lemma EvaluateInternal_only_variables:
  "EvaluateInternal tokens ev = Returns (ok, ev') \<Longrightarrow> only_variables ev ev'"
proof (induction tokens arbitrary: ev)
  case Nil
  then show ?case by (auto intro: only_variables_refl)
next
  case (Cons token tokens)
  have step: "only_variables ev1 ev'" if "EvaluateToken t ev1 = Returns (True, ev2)" "only_variables ev2 ev'"
    for t and ev1 ev2 :: "'a word evaluator"
    using that EvaluateToken_only_variables only_variables_trans by blast
  from Cons.prems show ?case
    by (simp split: if_split_asm; elim exec_bind_pairE; simp split: if_split_asm;
        (elim exec_bind_pairE; simp split: if_split_asm)?)
      (meson step EvaluateToken_only_variables Cons.IH)+
qed

section \<open>Expressions without a value\<close>

definition no_result :: "(bool \<times> 'a::len word evaluator) exec \<Rightarrow> bool" where
  "no_result r \<longleftrightarrow> r = Undefined \<or> (\<exists>ev. r = Returns (False, ev))"

lemma no_result_internal:
  "no_result (EvaluateToken t ev) \<Longrightarrow> t \<in> set [''+'', ''-'', ''*'', ''/'', ''%'', ''@'', ''^''] \<Longrightarrow>
    no_result (EvaluateInternal (t # ts) ev)"
  by (auto simp: no_result_def)

lemma operation_token_set: "operation_token op \<in> set [''+'', ''-'', ''*'', ''/'', ''%'', ''@'', ''^'']"
  by (cases op) simp_all

lemma PopValues_tokens:
  assumes "dictionary ev = Some d" "stk ev = t2 # t1 # rest"
  shows "PopValues ev = (case (token_value d t2, token_value d t1) of
      (None, _) \<Rightarrow> Returns (None, ev\<lparr>stk := t1 # rest\<rparr>)
    | (Some y, None) \<Rightarrow> Returns (None, ev\<lparr>stk := rest\<rparr>)
    | (Some y, Some x) \<Rightarrow> Returns (Some (x, y), ev\<lparr>stk := rest\<rparr>))"
  using assms
  by (simp add: PopValues_def PopValue_token [of ev] PopValue_token [of "ev\<lparr>stk := t1 # rest\<rparr>"]
      split: option.split)

lemma operation_stops:
  assumes "dictionary ev = Some d" "stk ev = t2 # t1 # rest"
    and "\<not> (\<exists>x y r. token_value d t1 = Some x \<and> token_value d t2 = Some y \<and> binary_operation op x y = Returns r)"
  shows "no_result (EvaluateInternal (operation_token op # ts) ev)"
proof -
  have "binary_operation op x y = Undefined" if "token_value d t1 = Some x" "token_value d t2 = Some y" for x y
    using that assms(3) by (cases "binary_operation op x y") auto
  then show ?thesis
    by (intro no_result_internal operation_token_set)
      (auto simp: EvaluateToken_def PopValues_tokens [OF assms(1,2)] no_result_def split: option.splits)
qed

lemma deref_stops:
  assumes "dictionary ev = Some d" "stk ev = t # rest"
    and "\<not> (\<exists>x m v. token_value d t = Some x \<and> memory ev = Some m \<and> m x = Some v)"
  shows "no_result (EvaluateInternal (''^'' # ts) ev)"
  using assms(3) by (intro no_result_internal)
    (auto simp: EvaluateToken_def token_operation_def no_result_def PopValue_token [OF assms(1,2)]
      split: option.splits)

text \<open>Every expression either stops the run or pushes one token that denotes its value. An unknown name
  is pushed all the same, and stops the operation that pops it.\<close>

lemma EvaluateInternal_expr_cases:
  assumes "dictionary ev = Some d" "expr_ok e"
  shows "no_result (EvaluateInternal (expr_tokens e @ ts) ev) \<or>
    (\<exists>t. EvaluateInternal (expr_tokens e @ ts) ev = EvaluateInternal ts (ev\<lparr>stk := t # stk ev\<rparr>) \<and>
      token_value d t = expr_value d (memory ev) e)"
  using assms
proof (induction e arbitrary: ev ts)
  case (Lit w)
  have "EvaluateInternal (expr_tokens (Lit w) @ ts) ev =
      EvaluateInternal ts (ev\<lparr>stk := insert_unsigned w # stk ev\<rparr>)"
    by (simp add: EvaluateInternal_plain plain_token_insert del: EvaluateInternal.simps)
  then show ?case using token_value_insert [of d w] by auto
next
  case (Var x)
  then show ?case
    by (auto simp: EvaluateInternal_plain plain_token_identifier token_value_identifier
        simp del: EvaluateInternal.simps)
next
  case (Bin op a b)
  let ?run = "EvaluateInternal (expr_tokens a @ expr_tokens b @ operation_token op # ts) ev"
  show ?case
  proof (cases "no_result ?run")
    case False
    with Bin.IH(1) [of ev "expr_tokens b @ operation_token op # ts"] Bin.prems obtain t1 where
      t1: "?run = EvaluateInternal (expr_tokens b @ operation_token op # ts) (ev\<lparr>stk := t1 # stk ev\<rparr>)"
        "token_value d t1 = expr_value d (memory ev) a" by auto
    let ?ev = "ev\<lparr>stk := t1 # stk ev\<rparr>"
    from False Bin.IH(2) [of ?ev "operation_token op # ts"] Bin.prems t1(1) obtain t2 where
      t2: "?run = EvaluateInternal (operation_token op # ts) (?ev\<lparr>stk := t2 # stk ?ev\<rparr>)"
        "token_value d t2 = expr_value d (memory ev) b" by auto
    have some: "\<exists>x y r. token_value d t1 = Some x \<and> token_value d t2 = Some y \<and> binary_operation op x y = Returns r"
      using False operation_stops [of "?ev\<lparr>stk := t2 # stk ?ev\<rparr>" d t2 t1 "stk ev" op ts] Bin.prems(1)
      unfolding t2(1) by (auto simp del: EvaluateInternal.simps)
    then obtain x y r where xyr: "token_value d t1 = Some x" "token_value d t2 = Some y"
      "binary_operation op x y = Returns r" by blast
    with EvaluateInternal_operation [of "?ev\<lparr>stk := t2 # stk ?ev\<rparr>" d t2 t1 "stk ev" x y op r ts] Bin.prems(1)
    have "?run = EvaluateInternal ts (ev\<lparr>stk := insert_unsigned r # stk ev\<rparr>)" unfolding t2(1) by simp
    moreover have "token_value d (insert_unsigned r) = expr_value d (memory ev) (Bin op a b)"
      using xyr t1(2) t2(2) by (auto simp: option.case_eq_if)
    ultimately show ?thesis by auto
  qed simp
next
  case (Deref a)
  let ?run = "EvaluateInternal (expr_tokens a @ ''^'' # ts) ev"
  show ?case
  proof (cases "no_result ?run")
    case False
    with Deref.IH [of ev "''^'' # ts"] Deref.prems obtain t where
      t: "?run = EvaluateInternal (''^'' # ts) (ev\<lparr>stk := t # stk ev\<rparr>)"
        "token_value d t = expr_value d (memory ev) a" by auto
    have "\<exists>x m v. token_value d t = Some x \<and> memory ev = Some m \<and> m x = Some v"
      by (rule ccontr, use False deref_stops [of "ev\<lparr>stk := t # stk ev\<rparr>" d t "stk ev" ts] Deref.prems(1)
          in \<open>simp add: t(1) del: EvaluateInternal.simps\<close>)
    then obtain x m v where xmv: "token_value d t = Some x" "memory ev = Some m" "m x = Some v" by blast
    with EvaluateInternal_deref [of "ev\<lparr>stk := t # stk ev\<rparr>" d t "stk ev" x m v ts] Deref.prems(1)
    have "?run = EvaluateInternal ts (ev\<lparr>stk := insert_unsigned v # stk ev\<rparr>)" unfolding t(1) by simp
    moreover have "token_value d (insert_unsigned v) = expr_value d (memory ev) (Deref a)"
      using xmv t(2) by (auto simp: option.case_eq_if)
    ultimately show ?thesis by auto
  qed simp
qed

section \<open>Properties\<close>

text \<open>A value that is pushed, which prints it in decimal, is the value that the next pop reads back,
  and the pop restores the evaluator, whatever its dictionary, memory and stack.\<close>

theorem PostfixEvaluator_push_pop: "PopValue (PushValue v ev) = Returns (Some v, ev)"
  by (simp add: PopValue_def PopValueOrIdentifier_def PushValue_def token_literal_insert)

text \<open>C4. \<open>EvaluateForValue\<close> on the postfix string of an expression over literals, names, the six binary
  operators and dereferencing returns the value of the expression, computed with wrap-around words, and
  leaves dictionary and memory as they were and the stack empty. When the expression has no value, because a name is unknown, a
  memory read fails or a divisor is zero, no value is returned.\<close>

theorem EvaluateForValue_expression:
  assumes "dictionary ev = Some d" "stk ev = []" "expr_ok e"
  shows "case expr_value d (memory ev) e of
      Some v \<Rightarrow> EvaluateForValue (unwords (expr_tokens e)) ev = Returns (Some v, ev\<lparr>assigned := None\<rparr>)
    | None \<Rightarrow> \<forall>v ev'. EvaluateForValue (unwords (expr_tokens e)) ev \<noteq> Returns (Some v, ev')"
proof -
  let ?ev = "ev\<lparr>assigned := None\<rparr>"
  have tokens: "stream_tokens (unwords (expr_tokens e)) = expr_tokens e"
    using expr_tokens_words [OF assms(3)] by (intro stream_tokens_unwords) auto
  have d: "dictionary ?ev = Some d" using assms(1) by simp
  have run: "no_result (EvaluateInternal (expr_tokens e) ?ev) \<or>
      (\<exists>t. EvaluateInternal (expr_tokens e) ?ev = Returns (True, ?ev\<lparr>stk := [t]\<rparr>) \<and>
        token_value d t = expr_value d (memory ev) e)"
    using EvaluateInternal_expr_cases [OF d assms(3), of "[]"] assms(2) by simp
  show ?thesis
  proof (cases "expr_value d (memory ev) e")
    case None
    with run show ?thesis
      by (auto simp: EvaluateForValue_def tokens no_result_def PopValue_token [of _ d] assms(1))
  next
    case (Some v)
    then have "EvaluateInternal (expr_tokens e) ?ev = Returns (True, ?ev\<lparr>stk := [pushed e v]\<rparr>)"
      using EvaluateInternal_expr [OF d assms(3), of v "[]"] assms(2) by simp
    with Some assms show ?thesis
      by (simp add: EvaluateForValue_def tokens PopValue_token [of _ d] token_value_pushed)
  qed
qed

lemma EvaluateForValue_expression_witness:
  "EvaluateForValue ''$eax 4 + ^'' \<lparr>dictionary = Some [''$eax'' \<mapsto> 16], memory = Some [20 \<mapsto> 7], stk = [], assigned = None\<rparr>
    = Returns (Some (7 :: 32 word), \<lparr>dictionary = Some [''$eax'' \<mapsto> 16], memory = Some [20 \<mapsto> 7], stk = [], assigned = None\<rparr>)"
  using EvaluateForValue_expression [of
      "\<lparr>dictionary = Some [''$eax'' \<mapsto> 16], memory = Some [20 \<mapsto> 7], stk = [], assigned = None\<rparr>"
      "[''$eax'' \<mapsto> (16 :: 32 word)]" "Deref (Bin BINARY_OP_ADD (Var ''$eax'') (Lit 4))"]
  by (simp add: identifier_token_def word_token_def text_eval)

text \<open>\<open>Evaluate\<close> on a program string, a sequence of assignments \<open>$v expression =\<close>, runs the assignments
  in order, each seeing the earlier ones, returns true, and marks exactly the assigned variables as valid.\<close>

theorem Evaluate_assignment_program:
  assumes "dictionary ev = Some d" "stk ev = []" "program_ok p" "run_program (memory ev) p d = Some d'"
  shows "Evaluate (unwords (program_tokens p)) asg ev =
    Returns (True, ev\<lparr>dictionary := Some d',
      assigned := map_option (\<lambda>a. fold (\<lambda>(x, e) a. a(x \<mapsto> True)) p a) asg\<rparr>)"
proof -
  have tokens: "stream_tokens (unwords (program_tokens p)) = program_tokens p"
    using program_tokens_words [OF assms(3)] by (intro stream_tokens_unwords) auto
  have "EvaluateInternal (program_tokens p) (ev\<lparr>assigned := asg\<rparr>) =
      Returns (True, ev\<lparr>dictionary := Some d',
        assigned := map_option (\<lambda>a. fold (\<lambda>(x, e) a. a(x \<mapsto> True)) p a) asg\<rparr>)"
    using EvaluateInternal_program [of "ev\<lparr>assigned := asg\<rparr>" d p d'] assms by simp
  with assms(2) show ?thesis by (simp add: Evaluate_def tokens)
qed

lemma Evaluate_assignment_program_witness:
  "Evaluate ''$T0 $esp 4 + = $eip $T0 ='' (Some Map.empty)
      \<lparr>dictionary = Some [''$esp'' \<mapsto> 16], memory = None, stk = [], assigned = None\<rparr>
    = Returns (True, \<lparr>dictionary = Some [''$esp'' \<mapsto> (16 :: 32 word), ''$T0'' \<mapsto> 20, ''$eip'' \<mapsto> 20],
        memory = None, stk = [], assigned = Some [''$T0'' \<mapsto> True, ''$eip'' \<mapsto> True]\<rparr>)"
  using Evaluate_assignment_program [of
      "\<lparr>dictionary = Some [''$esp'' \<mapsto> 16], memory = None, stk = [], assigned = None\<rparr>"
      "[''$esp'' \<mapsto> (16 :: 32 word)]"
      "[(''$T0'', Bin BINARY_OP_ADD (Var ''$esp'') (Lit 4)), (''$eip'', Var ''$T0'')]"
      "[''$esp'' \<mapsto> 16, ''$T0'' \<mapsto> 20, ''$eip'' \<mapsto> 20]" "Some Map.empty"]
  by (simp add: program_ok_def identifier_token_def word_token_def text_eval)

text \<open>However an evaluation ends, it leaves the stack empty; it writes no constant, only names that
  begin with a dollar sign; memory stays the same; and every name whose value or mark differs is marked
  as assigned, so a caller that looks only at marked names misses no change.\<close>

theorem Evaluate_frame:
  assumes "Evaluate expression (Some a) ev = Returns (ok, ev')" "dictionary ev = Some d"
  shows "\<exists>d' a'. dictionary ev' = Some d' \<and> assigned ev' = Some a' \<and> memory ev' = memory ev \<and> stk ev' = [] \<and>
    (\<forall>k. (\<exists>x. k = CHR ''$'' # x) \<or> d' k = d k) \<and>
    (\<forall>k. a' k = Some True \<or> (d' k = d k \<and> a' k = a k))"
proof -
  obtain ok1 ev1 where run: "EvaluateInternal (stream_tokens expression) (ev\<lparr>assigned := Some a\<rparr>) = Returns (ok1, ev1)"
    and ev': "ev' = ev1\<lparr>stk := []\<rparr>"
    using assms(1) by (auto simp: Evaluate_def elim!: exec_bind_pairE)
  from EvaluateInternal_only_variables [OF run] assms(2) show ?thesis
    unfolding only_variables_def ev' by auto
qed

lemma Evaluate_frame_witness:
  "\<exists>d' a'. dictionary \<lparr>dictionary = Some [''$a'' \<mapsto> (1 :: 32 word)], memory = None, stk = [],
        assigned = Some [''$a'' \<mapsto> True]\<rparr> = Some d' \<and> [''$a'' \<mapsto> True] = a' \<and> d' ''b'' = None"
  using Evaluate_frame [of "''$a 1 =''" Map.empty
      "\<lparr>dictionary = Some Map.empty, memory = None, stk = [], assigned = None\<rparr>" True
      "\<lparr>dictionary = Some [''$a'' \<mapsto> (1 :: 32 word)], memory = None, stk = [], assigned = Some [''$a'' \<mapsto> True]\<rparr>"
      Map.empty]
  by (simp add: Evaluate_def stream_tokens.simps text_eval EvaluateToken_def token_operation_def
      PopValue_def PopValueOrIdentifier_def token_literal_def)

text \<open>The \<open>@\<close> operator with a power of two rounds its first operand down to a multiple of it.\<close>

theorem align_rounds_down:
  fixes x :: "'a::len word"
  assumes "k < LENGTH('a)"
  shows "\<exists>r. binary_operation BINARY_OP_ALIGN x (2 ^ k) = Returns r \<and> unat r = unat x - unat x mod 2 ^ k"
proof -
  have mask: "(- 1) XOR (2 ^ k - 1) = NOT (mask k :: 'a word)"
    by (simp flip: mask_eq_exp_minus_1)
  have sum: "(x AND NOT (mask k)) + (x AND mask k) = x" 
    by (subst disjunctive_add_eq_or) (auto simp: bit_eq_iff bit_simps)
  have low: "unat (x AND mask k) = unat x mod 2 ^ k"
    unfolding take_bit_eq_mask [symmetric] unsigned_take_bit_eq by (rule take_bit_eq_mod)
  have "x AND NOT (mask k) = x - (x AND mask k)" using sum by (metis add_diff_cancel_right')
  moreover have "unat (x - (x AND mask k)) = unat x - unat (x AND mask k)"
    by (intro unat_sub) (simp add: word_nat low)
  ultimately show ?thesis by (simp add: low flip: mask_eq_exp_minus_1)
qed

lemma align_rounds_down_witness:
  "\<exists>r. binary_operation BINARY_OP_ALIGN (37 :: 32 word) (2 ^ 4) = Returns r \<and> unat r = 37 - 37 mod 2 ^ 4"
  using align_rounds_down [of 4 "37 :: 32 word"] by simp

text \<open>One arithmetic token with two operands on the stack is undefined only for a zero divisor; every
  other combination returns true and pushes the result.\<close>

theorem EvaluateToken_arithmetic:
  assumes "dictionary ev = Some d" "stk ev = t2 # t1 # rest" "token_operation token = Some op"
    "token_value d t1 = Some x" "token_value d t2 = Some y"
  shows "EvaluateToken token ev =
    (if y = 0 \<and> op \<in> {BINARY_OP_DIVIDE_QUOTIENT, BINARY_OP_DIVIDE_MODULUS} then Undefined
     else Returns (True, ev\<lparr>stk := insert_unsigned (case op of
         BINARY_OP_ADD \<Rightarrow> x + y | BINARY_OP_SUBTRACT \<Rightarrow> x - y | BINARY_OP_MULTIPLY \<Rightarrow> x * y
       | BINARY_OP_DIVIDE_QUOTIENT \<Rightarrow> x div y | BINARY_OP_DIVIDE_MODULUS \<Rightarrow> x mod y
       | BINARY_OP_ALIGN \<Rightarrow> x AND NOT (y - 1)) # rest\<rparr>))"
  using assms
  by (cases op) (simp_all add: EvaluateToken_def PopValues_tokens PushValue_def bit_eq_iff bit_simps)

lemma EvaluateToken_arithmetic_witness:
  "EvaluateToken ''-'' \<lparr>dictionary = Some [''b'' \<mapsto> (3 :: 32 word)], memory = None, stk = [''b'', ''2''], assigned = None\<rparr>
    = Returns (True, \<lparr>dictionary = Some [''b'' \<mapsto> 3], memory = None,
        stk = [insert_unsigned (2 - 3 :: 32 word)], assigned = None\<rparr>)"
proof -
  have "extract_unsigned ''2'' = Some (2 :: 32 word, [])" "extract_unsigned ''b'' = (None :: (32 word \<times> string) option)"
    by (simp_all add: text_eval)
  then show ?thesis
    using EvaluateToken_arithmetic [of
        "\<lparr>dictionary = Some [''b'' \<mapsto> 3], memory = None, stk = [''b'', ''2''], assigned = None\<rparr>"
        "[''b'' \<mapsto> (3 :: 32 word)]" "''b''" "''2''" "[]" "''-''" BINARY_OP_SUBTRACT 2 3]
    by (simp add: token_operation_def token_value_def token_literal_def)
qed

end
