(* ===== verification/CFI_Frame_Info.thy ===== *)
theory CFI_Frame_Info
  imports C_Strings Std_Map Postfix_Evaluator "HOL-Library.List_Lexorder" "HOL-Library.Char_ord"
begin

text \<open>
  STACK CFI rules (\<^verbatim>\<open>processor/cfi_frame_info.h\<close>, \<^verbatim>\<open>cfi_frame_info.cc\<close>, \<^verbatim>\<open>cfi_frame_info-inl.h\<close>):
  the rule set \<open>CFIFrameInfo\<close> with its evaluation and its text form, the parser of that text, which
  reports rules to a handler, and the table-driven register walker that the CPU stack walkers share.
\<close>

section \<open>The code\<close>

subsection \<open>Rule sets\<close>

record CFIFrameInfo =
  cfa_rule :: string
  ra_rule :: string
  register_rules :: "(string, string) omap"

definition CFIFrameInfo_empty :: CFIFrameInfo where
  "CFIFrameInfo_empty = \<lparr>cfa_rule = [], ra_rule = [], register_rules = []\<rparr>"

definition SetCFARule :: "string \<Rightarrow> CFIFrameInfo \<Rightarrow> CFIFrameInfo" where
  "SetCFARule expression fi = fi\<lparr>cfa_rule := expression\<rparr>"

definition SetRARule :: "string \<Rightarrow> CFIFrameInfo \<Rightarrow> CFIFrameInfo" where
  "SetRARule expression fi = fi\<lparr>ra_rule := expression\<rparr>"

definition SetRegisterRule :: "string \<Rightarrow> string \<Rightarrow> CFIFrameInfo \<Rightarrow> CFIFrameInfo" where
  "SetRegisterRule register_name expression fi =
     fi\<lparr>register_rules := omap_assign register_name expression (register_rules fi)\<rparr>"

text \<open>The loop over \<open>register_rules_\<close>; one evaluator is shared, and its dictionary \<open>working\<close> is reset
  before each rule. \<open>caller\<close> is the out-parameter, filled as far as the loop got.\<close>

fun FindCallerRegs_rules ::
  "'a::len dictionary \<Rightarrow> 'a word \<Rightarrow> (string, string) omap \<Rightarrow> 'a word evaluator \<Rightarrow> 'a dictionary \<Rightarrow>
   (bool \<times> 'a dictionary) exec" where
  "FindCallerRegs_rules registers cfa [] evaluator caller = Returns (True, caller)"
| "FindCallerRegs_rules registers cfa ((name, rule) # rules) evaluator caller =
     exec_bind (EvaluateForValue rule (evaluator\<lparr>dictionary := Some (registers(''.cfa'' \<mapsto> cfa))\<rparr>))
       (\<lambda>(v, evaluator').
         case v of
           None \<Rightarrow> Returns (False, caller)
         | Some val \<Rightarrow> FindCallerRegs_rules registers cfa rules evaluator' (caller(name \<mapsto> val)))"

definition FindCallerRegs ::
  "CFIFrameInfo \<Rightarrow> 'a::len dictionary \<Rightarrow> 'a memory \<Rightarrow> 'a dictionary \<Rightarrow> (bool \<times> 'a dictionary) exec" where
  "FindCallerRegs fi registers mem caller_registers =
     (if cfa_rule fi = [] \<or> ra_rule fi = [] then Returns (False, caller_registers)
      else
        exec_bind (EvaluateForValue (cfa_rule fi)
            \<lparr>dictionary = Some registers, memory = Some mem, stk = [], assigned = None\<rparr>) (\<lambda>(c, evaluator).
          case c of
            None \<Rightarrow> Returns (False, Map.empty)
          | Some cfa \<Rightarrow>
              exec_bind (EvaluateForValue (ra_rule fi)
                  (evaluator\<lparr>dictionary := Some (registers(''.cfa'' \<mapsto> cfa))\<rparr>)) (\<lambda>(r, evaluator').
                case r of
                  None \<Rightarrow> Returns (False, Map.empty)
                | Some ra \<Rightarrow>
                    exec_bind (FindCallerRegs_rules registers cfa (register_rules fi) evaluator' Map.empty)
                      (\<lambda>(ok, caller).
                        if \<not> ok then Returns (False, caller)
                        else Returns (True, caller(''.ra'' \<mapsto> ra, ''.cfa'' \<mapsto> cfa))))))"

definition Serialize_append :: "string \<Rightarrow> string \<Rightarrow> string \<Rightarrow> string" where
  "Serialize_append stream name rule =
     stream @ (if stream = [] then [] else '' '') @ name @ '': '' @ rule"

definition CFIFrameInfo_Serialize :: "CFIFrameInfo \<Rightarrow> string" where
  "CFIFrameInfo_Serialize fi =
     (let s0 = [];
          s1 = (if cfa_rule fi \<noteq> [] then s0 @ ''.cfa: '' @ cfa_rule fi else s0);
          s2 = (if ra_rule fi \<noteq> [] then Serialize_append s1 ''.ra'' (ra_rule fi) else s1)
      in foldl (\<lambda>s (name, rule). Serialize_append s name rule) s2 (register_rules fi))"

subsection \<open>The rule parser\<close>

text \<open>A handler is the three virtual functions, acting on the handler's own state.\<close>

record 'h Handler =
  CFARule :: "string \<Rightarrow> 'h \<Rightarrow> 'h"
  RARule :: "string \<Rightarrow> 'h \<Rightarrow> 'h"
  RegisterRule :: "string \<Rightarrow> string \<Rightarrow> 'h \<Rightarrow> 'h"

definition CFIRuleParser_Report :: "'h Handler \<Rightarrow> string \<Rightarrow> string \<Rightarrow> 'h \<Rightarrow> bool \<times> 'h" where
  "CFIRuleParser_Report handler name expression h =
     (if name = [] \<or> expression = [] then (False, h)
      else if name = ''.cfa'' then (True, CFARule handler expression h)
      else if name = ''.ra'' then (True, RARule handler expression h)
      else (True, RegisterRule handler name expression h))"

text \<open>The loop over the tokens, with the parser's \<open>name_\<close> and \<open>expression_\<close>.\<close>

fun CFIRuleParser_loop :: "'h Handler \<Rightarrow> string list \<Rightarrow> string \<Rightarrow> string \<Rightarrow> 'h \<Rightarrow> bool \<times> 'h" where
  "CFIRuleParser_loop handler [] name expression h = CFIRuleParser_Report handler name expression h"
| "CFIRuleParser_loop handler (token # tokens) name expression h =
     (if token \<noteq> [] \<and> last token = CHR '':'' then
        if length token < 2 then (False, h)
        else if name \<noteq> [] \<or> expression \<noteq> [] then
          (let (ok, h') = CFIRuleParser_Report handler name expression h in
           if \<not> ok then (False, h')
           else CFIRuleParser_loop handler tokens (butlast token) [] h')
        else CFIRuleParser_loop handler tokens (butlast token) [] h
      else
        CFIRuleParser_loop handler tokens name
          ((if expression \<noteq> [] then expression @ '' '' else expression) @ token) h)"

definition cfi_token_breaks :: "char list" where
  "cfi_token_breaks = [CHR '' '', CHR 9, CHR 13, CHR 10]"

definition CFIRuleParser_Parse :: "'h Handler \<Rightarrow> string \<Rightarrow> 'h \<Rightarrow> bool \<times> 'h" where
  "CFIRuleParser_Parse handler rule_set h =
     CFIRuleParser_loop handler (strtok_all cfi_token_breaks (c_str rule_set)) [] [] h"

definition CFIFrameInfoParseHandler :: "CFIFrameInfo Handler" where
  "CFIFrameInfoParseHandler =
     \<lparr>CFARule = SetCFARule, RARule = SetRARule, RegisterRule = SetRegisterRule\<rparr>"

subsection \<open>The register walker\<close>

text \<open>A raw context is a function from its members; a member pointer is an element of \<open>'m\<close>.\<close>

record 'm RegisterSet =
  rname :: string
  alternate_name :: "string option"
  callee_saves :: bool
  validity_flag :: "32 word"
  context_member :: 'm

definition callee_register_values ::
  "'m RegisterSet list \<Rightarrow> ('m \<Rightarrow> 'a::len word) \<Rightarrow> 32 word \<Rightarrow> 'a dictionary" where
  "callee_register_values register_map callee_context callee_validity =
     foldl (\<lambda>regs r. if callee_validity AND validity_flag r \<noteq> 0
                     then regs(rname r \<mapsto> callee_context (context_member r)) else regs)
       Map.empty register_map"

definition caller_register_step ::
  "'a::len dictionary \<Rightarrow> ('m \<Rightarrow> 'a word) \<Rightarrow> 32 word \<Rightarrow> 'm RegisterSet \<Rightarrow>
   ('m \<Rightarrow> 'a word) \<times> 32 word \<Rightarrow> ('m \<Rightarrow> 'a word) \<times> 32 word" where
  "caller_register_step caller_registers callee_context callee_validity r = (\<lambda>(caller_context, caller_validity).
     (case caller_registers (rname r) of
        Some v \<Rightarrow> (caller_context(context_member r := v), caller_validity OR validity_flag r)
      | None \<Rightarrow>
          (case Option.bind (alternate_name r) caller_registers of
             Some v \<Rightarrow> (caller_context(context_member r := v), caller_validity OR validity_flag r)
           | None \<Rightarrow>
               if callee_saves r \<and> callee_validity AND validity_flag r \<noteq> 0
               then (caller_context(context_member r := callee_context (context_member r)),
                     caller_validity OR validity_flag r)
               else (caller_context, caller_validity))))"

text \<open>\<open>filler\<close> is the register value whose bytes are all \<open>0xda\<close>, which \<open>memset\<close> leaves in every member.\<close>

definition filler :: "'a::len word" where
  "filler = of_int (foldl (\<lambda>acc _. acc * 256 + 218) 0 [0..<LENGTH('a) div 8])"

definition FindCallerRegisters ::
  "'m RegisterSet list \<Rightarrow> 'a::len memory \<Rightarrow> CFIFrameInfo \<Rightarrow> ('m \<Rightarrow> 'a word) \<Rightarrow> 32 word \<Rightarrow>
   (('m \<Rightarrow> 'a word) \<times> 32 word) option exec" where
  "FindCallerRegisters register_map mem cfi_frame_info callee_context callee_validity =
     exec_bind (FindCallerRegs cfi_frame_info
         (callee_register_values register_map callee_context callee_validity) mem Map.empty)
       (\<lambda>(ok, caller_registers).
         if \<not> ok then Returns None
         else Returns (Some (foldl
           (\<lambda>s r. caller_register_step caller_registers callee_context callee_validity r s)
           (\<lambda>_. filler, 0) register_map)))"

section \<open>The grammar of rule sets\<close>

text \<open>A rule set is a non-empty sequence of rules; a rule is a non-empty name followed by a colon and at
  least one expression token; an expression token does not end in a colon.\<close>

definition plain_tokens :: "string list \<Rightarrow> bool" where
  "plain_tokens es \<longleftrightarrow> (\<forall>e\<in>set es. e \<noteq> [] \<and> last e \<noteq> CHR '':'')"

definition rule_ok :: "string \<times> string list \<Rightarrow> bool" where
  "rule_ok r \<longleftrightarrow> fst r \<noteq> [] \<and> snd r \<noteq> [] \<and> plain_tokens (snd r)"

lemma rule_ok_pair [simp]: "rule_ok (name, es) \<longleftrightarrow> name \<noteq> [] \<and> es \<noteq> [] \<and> plain_tokens es"
  by (simp add: rule_ok_def)

fun rule_tokens :: "(string \<times> string list) list \<Rightarrow> string list" where
  "rule_tokens [] = []"
| "rule_tokens ((name, es) # rules) = (name @ '':'') # es @ rule_tokens rules"

text \<open>The handler calls that a rule set stands for.\<close>

definition report :: "'h Handler \<Rightarrow> string \<Rightarrow> string \<Rightarrow> 'h \<Rightarrow> 'h" where
  "report handler name expression =
     (if name = ''.cfa'' then CFARule handler expression
      else if name = ''.ra'' then RARule handler expression
      else RegisterRule handler name expression)"

fun report_rules :: "'h Handler \<Rightarrow> (string \<times> string list) list \<Rightarrow> 'h \<Rightarrow> 'h" where
  "report_rules handler [] h = h"
| "report_rules handler ((name, es) # rules) h =
     report_rules handler rules (report handler name (unwords es) h)"

lemma CFIRuleParser_Report_ok:
  "CFIRuleParser_Report handler name expression h =
     (if name \<noteq> [] \<and> expression \<noteq> [] then (True, report handler name expression h) else (False, h))"
  by (simp add: CFIRuleParser_Report_def report_def)

lemma unwords_eq_Nil [simp]: "\<forall>t\<in>set ts. t \<noteq> [] \<Longrightarrow> unwords ts = [] \<longleftrightarrow> ts = []"
  by (induction ts rule: unwords.induct) auto

lemma unwords_append: "xs \<noteq> [] \<Longrightarrow> ys \<noteq> [] \<Longrightarrow> unwords (xs @ ys) = unwords xs @ '' '' @ unwords ys"
proof (induction xs rule: unwords.induct)
  case (2 t)
  then show ?case by (cases ys) simp_all
qed simp_all

lemma plain_tokens_simps [simp]:
  "plain_tokens []" "plain_tokens (e # es) \<longleftrightarrow> e \<noteq> [] \<and> last e \<noteq> CHR '':'' \<and> plain_tokens es"
  "plain_tokens (xs @ ys) \<longleftrightarrow> plain_tokens xs \<and> plain_tokens ys"
  by (auto simp: plain_tokens_def)

lemma plain_unwords_Nil: "plain_tokens es \<Longrightarrow> unwords es = [] \<longleftrightarrow> es = []"
  by (simp add: plain_tokens_def)

lemma loop_plain:
  "plain_tokens pre \<Longrightarrow> plain_tokens es \<Longrightarrow>
    CFIRuleParser_loop handler (es @ tokens) name (unwords pre) h =
    CFIRuleParser_loop handler tokens name (unwords (pre @ es)) h"
proof (induction es arbitrary: pre)
  case (Cons e es)
  have "(if unwords pre \<noteq> [] then unwords pre @ '' '' else unwords pre) @ e = unwords (pre @ [e])"
    using Cons.prems(1) by (cases "pre = []") (simp_all add: plain_unwords_Nil unwords_append)
  with Cons.IH [of "pre @ [e]"] Cons.prems show ?case by simp
qed simp

lemma loop_rules:
  assumes "name \<noteq> []" "plain_tokens es" "es \<noteq> []" "list_all rule_ok rules"
  shows "CFIRuleParser_loop handler (rule_tokens rules) name (unwords es) h =
    (True, report_rules handler ((name, es) # rules) h)"
  using assms
proof (induction rules arbitrary: name es h)
  case Nil
  then show ?case by (simp add: CFIRuleParser_Report_ok plain_unwords_Nil)
next
  case (Cons r rules)
  obtain n fs where r: "r = (n, fs)" by (cases r)
  have ok: "n \<noteq> []" "fs \<noteq> []" "plain_tokens fs" "list_all rule_ok rules" "Suc 0 \<le> length n"
    using Cons.prems(4) by (auto simp: r Suc_le_eq)
  have "CFIRuleParser_loop handler (rule_tokens (r # rules)) name (unwords es) h =
      CFIRuleParser_loop handler (fs @ rule_tokens rules) n (unwords []) (report handler name (unwords es) h)"
    using Cons.prems ok by (simp add: r CFIRuleParser_Report_ok plain_unwords_Nil)
  also have "\<dots> = CFIRuleParser_loop handler (rule_tokens rules) n (unwords fs) (report handler name (unwords es) h)"
    using loop_plain [of "[]" fs] ok by simp
  also have "\<dots> = (True, report_rules handler ((n, fs) # rules) (report handler name (unwords es) h))"
    using ok by (intro Cons.IH) simp_all
  finally show ?case by (simp add: r)
qed

lemma loop_accepts:
  assumes "rules \<noteq> []" "list_all rule_ok rules"
  shows "CFIRuleParser_loop handler (rule_tokens rules) [] [] h = (True, report_rules handler rules h)"
proof -
  obtain n es rest where rules: "rules = (n, es) # rest" using assms(1) by (cases rules) auto
  have ok: "n \<noteq> []" "es \<noteq> []" "plain_tokens es" "list_all rule_ok rest" "Suc 0 \<le> length n"
    using assms(2) by (auto simp: rules Suc_le_eq)
  have "CFIRuleParser_loop handler (rule_tokens rules) [] [] h =
      CFIRuleParser_loop handler (rule_tokens rest) n (unwords es) h"
    using loop_plain [of "[]" es handler "rule_tokens rest" n h] ok by (simp add: rules)
  then show ?thesis using loop_rules [of n es rest handler h] ok rules by simp
qed

text \<open>Acceptance from a state in the middle of a rule: either nothing is pending and a rule follows, or a
  name is pending and its expression is completed.\<close>

lemma loop_accepted:
  assumes "fst (CFIRuleParser_loop handler tokens name (unwords pre) h)"
    and "plain_tokens pre" "\<forall>t\<in>set tokens. t \<noteq> []"
  shows "\<exists>es rules. tokens = es @ rule_tokens rules \<and> plain_tokens es \<and> list_all rule_ok rules \<and>
    (if name = [] then pre = [] \<and> es = [] \<and> rules \<noteq> [] else pre @ es \<noteq> [])"
  using assms
proof (induction tokens arbitrary: name pre h)
  case Nil
  then have "name \<noteq> [] \<and> pre \<noteq> []"
    by (simp add: CFIRuleParser_Report_ok plain_unwords_Nil split: if_split_asm)
  then show ?case by (intro exI [of _ "[]"]) simp
next
  case (Cons token tokens)
  show ?case
  proof (cases "last token = CHR '':''")
    case True
    define n where "n = butlast token"
    have token: "token = n @ '':''"
      using True Cons.prems(3) append_butlast_last_id [of token] by (simp add: n_def)
    obtain h' where run: "fst (CFIRuleParser_loop handler tokens n (unwords []) h')"
      and n: "n \<noteq> []" and pend: "name \<noteq> [] \<and> pre \<noteq> [] \<or> name = [] \<and> pre = []"
      using Cons.prems(1,2) by (auto simp: token CFIRuleParser_Report_ok plain_unwords_Nil split: if_split_asm)
    from Cons.IH [OF run] Cons.prems(3) n obtain es rules where
      "tokens = es @ rule_tokens rules" "plain_tokens es" "list_all rule_ok rules" "es \<noteq> []" by auto
    with n pend token show ?thesis
      by (rule_tac x = "[]" in exI, rule_tac x = "(n, es) # rules" in exI) auto
  next
    case False
    have join: "(if unwords pre \<noteq> [] then unwords pre @ '' '' else unwords pre) @ token = unwords (pre @ [token])"
      using Cons.prems(2) by (cases "pre = []") (simp_all add: plain_unwords_Nil unwords_append)
    have "fst (CFIRuleParser_loop handler tokens name (unwords (pre @ [token])) h)"
      using Cons.prems(1) False join by simp
    from Cons.IH [OF this] Cons.prems(2,3) False obtain es rules where
      "tokens = es @ rule_tokens rules" "plain_tokens es" "list_all rule_ok rules" "name \<noteq> []"
      by (auto split: if_split_asm)
    with False Cons.prems(3) show ?thesis
      by (rule_tac x = "token # es" in exI, rule_tac x = rules in exI) simp
  qed
qed

text \<open>C6. The rule parser accepts a text exactly when its tokens form a rule set, and then makes exactly
  the handler calls of that rule set, in order, each with the tokens of its expression joined by single
  blanks, whatever white space separated them.\<close>

theorem CFIRuleParser_Parse_grammar:
  "CFIRuleParser_Parse handler rule_set h = (True, h') \<longleftrightarrow>
    (\<exists>rules. rules \<noteq> [] \<and> list_all rule_ok rules \<and> h' = report_rules handler rules h \<and>
      strtok_all cfi_token_breaks (c_str rule_set) = rule_tokens rules)"
proof
  let ?tokens = "strtok_all cfi_token_breaks (c_str rule_set)"
  assume a: "CFIRuleParser_Parse handler rule_set h = (True, h')"
  have "\<forall>t\<in>set ?tokens. t \<noteq> []" using strtok_all_tokens by (auto simp: free_of_def)
  with a loop_accepted [of handler ?tokens "[]" "[]" h] obtain rules where
    rules: "?tokens = rule_tokens rules" "list_all rule_ok rules" "rules \<noteq> []"
    by (auto simp: CFIRuleParser_Parse_def)
  with a loop_accepts [OF rules(3,2), of handler h]
  show "\<exists>rules. rules \<noteq> [] \<and> list_all rule_ok rules \<and> h' = report_rules handler rules h \<and> ?tokens = rule_tokens rules"
    by (auto simp: CFIRuleParser_Parse_def)
next
  assume "\<exists>rules. rules \<noteq> [] \<and> list_all rule_ok rules \<and> h' = report_rules handler rules h \<and>
      strtok_all cfi_token_breaks (c_str rule_set) = rule_tokens rules"
  then show "CFIRuleParser_Parse handler rule_set h = (True, h')"
    using loop_accepts by (auto simp: CFIRuleParser_Parse_def)
qed

section \<open>What a handler promises\<close>

text \<open>The parser's client sees a handler as a lookup from rule names to expressions; each report
  overrides one name.\<close>

locale rule_handler =
  fixes handler :: "'h Handler"
    and rule_of :: "'h \<Rightarrow> string \<Rightarrow> string option"
    and inv :: "'h \<Rightarrow> bool"
  assumes reported: "inv h \<Longrightarrow> name \<noteq> [] \<Longrightarrow> expression \<noteq> [] \<Longrightarrow>
      rule_of (report handler name expression h) = (rule_of h)(name \<mapsto> expression)"
    and report_inv: "inv h \<Longrightarrow> inv (report handler name expression h)"
begin

text \<open>After a rule set, a name has the expression of the last rule for it, and its old one if there is none.\<close>

lemma rule_set_applied:
  assumes "inv h" "list_all rule_ok rules"
  shows "inv (report_rules handler rules h) \<and>
    rule_of (report_rules handler rules h) = rule_of h ++ map_of (rev (map (\<lambda>(n, es). (n, unwords es)) rules))"
  using assms
proof (induction rules arbitrary: h)
  case (Cons r rules)
  obtain n es where r: "r = (n, es)" by (cases r)
  have "n \<noteq> []" "unwords es \<noteq> []" "list_all rule_ok rules"
    using Cons.prems(2) by (simp_all add: r plain_unwords_Nil)
  with Cons.IH [of "report handler n (unwords es) h"] Cons.prems(1) show ?case
    by (auto simp: r report_inv reported map_add_def fun_eq_iff split: option.split)
qed simp

end

definition frame_info_rule :: "CFIFrameInfo \<Rightarrow> string \<Rightarrow> string option" where
  "frame_info_rule fi name =
     (if name = ''.cfa'' then if cfa_rule fi = [] then None else Some (cfa_rule fi)
      else if name = ''.ra'' then if ra_rule fi = [] then None else Some (ra_rule fi)
      else map_of (register_rules fi) name)"

definition frame_info_inv :: "CFIFrameInfo \<Rightarrow> bool" where
  "frame_info_inv fi \<longleftrightarrow> omap_ok (register_rules fi) \<and>
     ''.cfa'' \<notin> fst ` set (register_rules fi) \<and> ''.ra'' \<notin> fst ` set (register_rules fi)"

interpretation fih: rule_handler CFIFrameInfoParseHandler frame_info_rule frame_info_inv
  by unfold_locales
    (auto simp: report_def CFIFrameInfoParseHandler_def SetCFARule_def SetRARule_def SetRegisterRule_def
      frame_info_rule_def frame_info_inv_def map_of_omap_assign omap_ok_assign set_omap_assign fun_eq_iff)

text \<open>Two rule sets with the same lookup are the same.\<close>

lemma omap_rebuild: "omap_ok m \<Longrightarrow> map (\<lambda>k. (k, the (map_of m k))) (map fst m) = m"
  by (auto intro!: map_idI dest: omap_ok_distinct)

lemma omap_eqI:
  assumes "omap_ok m" "omap_ok m'" "map_of m = map_of m'"
  shows "m = m'"
proof -
  have "fst ` set m = fst ` set m'" using assms(3) by (metis dom_map_of_conv_image_fst)
  then have "map fst m = map fst m'"
    using assms(1,2) unfolding omap_ok_def by (intro strict_sorted_equal) simp_all
  then show ?thesis using omap_rebuild [OF assms(1)] omap_rebuild [OF assms(2)] assms(3) by simp
qed

lemma frame_info_eqI:
  assumes "frame_info_inv fi" "frame_info_inv fi'" "frame_info_rule fi = frame_info_rule fi'"
  shows "fi = fi'"
proof -
  have rule: "frame_info_rule fi name = frame_info_rule fi' name" for name using assms(3) by simp
  have "cfa_rule fi = cfa_rule fi'" "ra_rule fi = ra_rule fi'"
    using rule [of "''.cfa''"] rule [of "''.ra''"] by (auto simp: frame_info_rule_def split: if_split_asm)
  moreover have "map_of (register_rules fi) name = map_of (register_rules fi') name" for name
  proof (cases "name = ''.cfa'' \<or> name = ''.ra''")
    case True
    with assms(1,2) have "name \<notin> fst ` set (register_rules fi)" "name \<notin> fst ` set (register_rules fi')"
      unfolding frame_info_inv_def by metis+
    then show ?thesis by (simp flip: map_of_eq_None_iff)
  next
    case False
    with rule [of name] show ?thesis by (simp add: frame_info_rule_def)
  qed
  then have "register_rules fi = register_rules fi'"
    using assms(1,2) by (intro omap_eqI) (auto simp: frame_info_inv_def)
  ultimately show ?thesis by simp
qed

section \<open>Properties\<close>

text \<open>Parsing a rule set into a \<open>CFIFrameInfo\<close> overrides exactly the rules it mentions: afterwards each
  name has the last expression the text gives for it, and every other rule is as before. This is how a
  STACK CFI record amends the rules of the records before it.\<close>

theorem CFIRuleParser_Parse_overrides:
  assumes "frame_info_inv fi"
    and "rules \<noteq> []" "list_all rule_ok rules" "strtok_all cfi_token_breaks (c_str rule_set) = rule_tokens rules"
  shows "\<exists>fi'. CFIRuleParser_Parse CFIFrameInfoParseHandler rule_set fi = (True, fi') \<and> frame_info_inv fi' \<and>
    frame_info_rule fi' = frame_info_rule fi ++ map_of (rev (map (\<lambda>(n, es). (n, unwords es)) rules))"
  using fih.rule_set_applied [OF assms(1,3)] loop_accepts [OF assms(2,3), of CFIFrameInfoParseHandler] assms(4)
  by (intro exI [of _ "report_rules CFIFrameInfoParseHandler rules fi"]) (simp add: CFIRuleParser_Parse_def)

lemma CFIRuleParser_Parse_overrides_witness:
  "\<exists>fi'. CFIRuleParser_Parse CFIFrameInfoParseHandler '' .cfa: $esp 4 +  x: 1''
      \<lparr>cfa_rule = ''0'', ra_rule = ''7'', register_rules = []\<rparr> = (True, fi') \<and> frame_info_inv fi' \<and>
    frame_info_rule fi' = frame_info_rule \<lparr>cfa_rule = ''0'', ra_rule = ''7'', register_rules = []\<rparr> ++
      [''.cfa'' \<mapsto> ''$esp 4 +'', ''x'' \<mapsto> ''1'']"
  using CFIRuleParser_Parse_overrides [of "\<lparr>cfa_rule = ''0'', ra_rule = ''7'', register_rules = []\<rparr>"
      "[(''.cfa'', [''$esp'', ''4'', ''+'']), (''x'', [''1''])]" "'' .cfa: $esp 4 +  x: 1''"]
  by (simp add: frame_info_inv_def c_str_def cfi_token_breaks_def strtok_all_eval)

text \<open>The rules of a rule set in the order of its text form.\<close>

definition frame_info_rules :: "CFIFrameInfo \<Rightarrow> (string \<times> string) list" where
  "frame_info_rules fi =
     (if cfa_rule fi = [] then [] else [(''.cfa'', cfa_rule fi)]) @
     (if ra_rule fi = [] then [] else [(''.ra'', ra_rule fi)]) @ register_rules fi"

lemma Serialize_rules:
  "CFIFrameInfo_Serialize fi = unwords (map (\<lambda>(n, r). n @ '': '' @ r) (frame_info_rules fi))"
proof -
  have app: "foldl (\<lambda>s (n, r). Serialize_append s n r) (unwords (map (\<lambda>(n, r). n @ '': '' @ r) done)) todo =
      unwords (map (\<lambda>(n, r). n @ '': '' @ r) (done @ todo))" for "done" todo :: "(string \<times> string) list"
  proof (induction todo arbitrary: "done")
    case (Cons nr todo)
    obtain n r where nr: "nr = (n, r)" by (cases nr)
    have "Serialize_append (unwords (map (\<lambda>(n, r). n @ '': '' @ r) done)) n r =
        unwords (map (\<lambda>(n, r). n @ '': '' @ r) (done @ [(n, r)]))"
      by (cases "done = []") (auto simp: Serialize_append_def unwords_append split: prod.splits)
    with Cons.IH [of "done @ [(n, r)]"] show ?case by (simp add: nr)
  qed simp
  show ?thesis
    using app [of "(if cfa_rule fi = [] then [] else [(''.cfa'', cfa_rule fi)]) @
        (if ra_rule fi = [] then [] else [(''.ra'', ra_rule fi)])" "register_rules fi"]
    by (cases "cfa_rule fi = []"; cases "ra_rule fi = []")
      (simp_all add: CFIFrameInfo_Serialize_def frame_info_rules_def Serialize_append_def Let_def)
qed

text \<open>A name or an expression token that the text form carries unchanged.\<close>

definition cfi_word :: "string \<Rightarrow> bool" where
  "cfi_word t \<longleftrightarrow> free_of cfi_token_breaks t \<and> c_str t = t"

definition cfi_rule_ok :: "string \<times> string list \<Rightarrow> bool" where
  "cfi_rule_ok r \<longleftrightarrow> rule_ok r \<and> cfi_word (fst r) \<and> list_all cfi_word (snd r)"

lemma unwords_Cons: "ts \<noteq> [] \<Longrightarrow> unwords (t # ts) = t @ '' '' @ unwords ts"
  by (cases ts) simp_all

lemma rule_text:
  "list_all rule_ok rules \<Longrightarrow>
    unwords (map (\<lambda>(n, r). n @ '': '' @ r) (map (\<lambda>(n, es). (n, unwords es)) rules)) = unwords (rule_tokens rules)"
proof (induction rules rule: rule_tokens.induct)
  case (2 name es rules)
  show ?case
  proof (cases "rules = []")
    case True
    with 2 show ?thesis by (simp add: unwords_Cons)
  next
    case False
    then have "rule_tokens rules \<noteq> []" by (cases rules) auto
    with False 2 show ?thesis by (simp add: unwords_Cons unwords_append)
  qed
qed simp

lemma c_str_unwords: "\<forall>t\<in>set ts. c_str t = t \<Longrightarrow> c_str (unwords ts) = unwords ts"
  by (induction ts rule: unwords.induct) (simp_all add: c_str_def takeWhile_append2 takeWhile_eq_all_conv)

lemma rule_tokens_words: "list_all cfi_rule_ok rules \<Longrightarrow> t \<in> set (rule_tokens rules) \<Longrightarrow> cfi_word t"
  by (induction rules rule: rule_tokens.induct)
    (auto simp: cfi_rule_ok_def cfi_word_def free_of_def c_str_def cfi_token_breaks_def list_all_iff
      takeWhile_eq_all_conv)

text \<open>C7. The text that \<open>Serialize\<close> writes is parsed back to the same rule set, for every rule set that has
  a rule, whose register names are proper words and whose expressions are words joined by single blanks.\<close>

theorem CFIFrameInfo_Serialize_Parse:
  assumes "frame_info_inv fi" "rules \<noteq> []" "list_all cfi_rule_ok rules"
    and "frame_info_rules fi = map (\<lambda>(n, es). (n, unwords es)) rules"
  shows "CFIRuleParser_Parse CFIFrameInfoParseHandler (CFIFrameInfo_Serialize fi) CFIFrameInfo_empty = (True, fi)"
proof -
  have ok: "list_all rule_ok rules" using assms(3) by (auto simp: list_all_iff cfi_rule_ok_def)
  have words: "\<forall>t\<in>set (rule_tokens rules). free_of cfi_token_breaks t \<and> c_str t = t"
    using rule_tokens_words [OF assms(3)] by (auto simp: cfi_word_def)
  have ser: "CFIFrameInfo_Serialize fi = unwords (rule_tokens rules)"
    unfolding Serialize_rules assms(4) by (rule rule_text [OF ok])
  have tokens: "strtok_all cfi_token_breaks (c_str (CFIFrameInfo_Serialize fi)) = rule_tokens rules"
    using words by (simp add: ser c_str_unwords strtok_all_unwords cfi_token_breaks_def)
  let ?fi = "report_rules CFIFrameInfoParseHandler rules CFIFrameInfo_empty"
  have empty: "frame_info_inv CFIFrameInfo_empty" "frame_info_rule CFIFrameInfo_empty = Map.empty"
    by (auto simp: frame_info_inv_def CFIFrameInfo_empty_def frame_info_rule_def)
  have distinct: "distinct (map fst (frame_info_rules fi))"
    using assms(1) omap_ok_distinct [of "register_rules fi"]
    by (auto simp: frame_info_inv_def frame_info_rules_def)
  have "frame_info_rule ?fi = map_of (rev (frame_info_rules fi))"
    using fih.rule_set_applied [OF empty(1) ok] empty(2) assms(4) by simp
  also have "\<dots> = map_of (frame_info_rules fi)"
    using distinct by (simp add: map_of_rev_distinct)
  also have "\<dots> = frame_info_rule fi"
    using assms(1) by (auto simp: frame_info_rules_def frame_info_rule_def frame_info_inv_def fun_eq_iff
        map_of_eq_None_iff [THEN iffD2])
  finally have "?fi = fi" using fih.rule_set_applied [OF empty(1) ok] assms(1) by (intro frame_info_eqI) simp_all
  with loop_accepts [OF assms(2) ok, of CFIFrameInfoParseHandler] tokens show ?thesis by (simp add: CFIRuleParser_Parse_def)
qed

lemma CFIFrameInfo_Serialize_Parse_witness:
  "CFIRuleParser_Parse CFIFrameInfoParseHandler
     (CFIFrameInfo_Serialize \<lparr>cfa_rule = ''$esp 4 +'', ra_rule = [], register_rules = [(''x'', ''1'')]\<rparr>)
     CFIFrameInfo_empty =
   (True, \<lparr>cfa_rule = ''$esp 4 +'', ra_rule = [], register_rules = [(''x'', ''1'')]\<rparr>)"
  using CFIFrameInfo_Serialize_Parse [of
      "\<lparr>cfa_rule = ''$esp 4 +'', ra_rule = [], register_rules = [(''x'', ''1'')]\<rparr>"
      "[(''.cfa'', [''$esp'', ''4'', ''+'']), (''x'', [''1''])]"]
  by (simp add: frame_info_inv_def frame_info_rules_def cfi_rule_ok_def cfi_word_def free_of_def
      cfi_token_breaks_def c_str_def omap_ok_def)

section \<open>Recovering the caller's registers\<close>

text \<open>The reference: each rule is evaluated on its own, by a fresh evaluator over the callee's registers.\<close>

definition rule_value :: "'a::len dictionary \<Rightarrow> 'a memory \<Rightarrow> string \<Rightarrow> 'a word option exec" where
  "rule_value registers mem rule =
     exec_bind (EvaluateForValue rule \<lparr>dictionary = Some registers, memory = Some mem, stk = [], assigned = None\<rparr>)
       (\<lambda>(v, _). Returns v)"

definition ready :: "'a::len memory \<Rightarrow> 'a word evaluator \<Rightarrow> bool" where
  "ready mem ev \<longleftrightarrow> memory ev = Some mem \<and> stk ev = [] \<and> assigned ev = None"

lemma ready_dictionary:
  "ready mem ev \<Longrightarrow> ev\<lparr>dictionary := Some d\<rparr> = \<lparr>dictionary = Some d, memory = Some mem, stk = [], assigned = None\<rparr>"
  by (cases ev) (simp add: ready_def)

text \<open>Every evaluation hands back an evaluator that is as good as new once its dictionary is reset.\<close>

lemma EvaluateForValue_ready:
  assumes "ready mem ev" "EvaluateForValue rule ev = Returns (v, ev')"
  shows "ready mem ev'"
proof -
  have start: "ev\<lparr>assigned := None\<rparr> = ev" using assms(1) by (cases ev) (simp add: ready_def)
  from assms(2) obtain ok ev1 where run: "EvaluateInternal (stream_tokens rule) ev = Returns (ok, ev1)"
    and same: "same_but_stack ev1 ev'" and "stk ev' = []"
    by (auto simp: EvaluateForValue_def start elim!: exec_bind_pairE split: if_split_asm dest!: PopValue_frame)
  with assms(1) EvaluateInternal_only_variables [OF run] show ?thesis
    by (auto simp: ready_def only_variables_def same_but_stack_def)
qed

lemma then_rule:
  assumes "ready mem ev" and "\<And>w ev'. ready mem ev' \<Longrightarrow> k w ev' = Returns (True, y) \<longleftrightarrow> K w"
  shows "exec_bind (EvaluateForValue rule (ev\<lparr>dictionary := Some d\<rparr>))
      (\<lambda>(v, ev'). case v of None \<Rightarrow> Returns (False, x) | Some w \<Rightarrow> k w ev') = Returns (True, y) \<longleftrightarrow>
    (\<exists>w. rule_value d mem rule = Returns (Some w) \<and> K w)"
proof -
  let ?ev = "\<lparr>dictionary = Some d, memory = Some mem, stk = [], assigned = None\<rparr>"
  have "ready mem ?ev" by (simp add: ready_def)
  note keeps = EvaluateForValue_ready [OF this]
  show ?thesis unfolding ready_dictionary [OF assms(1)] rule_value_def
    by (cases "EvaluateForValue rule ?ev") (auto dest!: keeps simp: assms(2) split: option.splits)
qed

lemma FindCallerRegs_rules_iff:
  assumes "ready mem ev"
  shows "FindCallerRegs_rules registers cfa rules ev caller = Returns (True, caller') \<longleftrightarrow>
    (\<exists>vs. list_all2 (\<lambda>(n, rule) v. rule_value (registers(''.cfa'' \<mapsto> cfa)) mem rule = Returns (Some v)) rules vs \<and>
      caller' = caller ++ map_of (rev (zip (map fst rules) vs)))"
  using assms
proof (induction rules arbitrary: ev caller)
  case (Cons nr rules)
  obtain n rule where nr: "nr = (n, rule)" by (cases nr)
  show ?case
    unfolding nr FindCallerRegs_rules.simps
  proof (subst then_rule [where K = "\<lambda>w. \<exists>vs. list_all2 (\<lambda>(n, rule) v.
          rule_value (registers(''.cfa'' \<mapsto> cfa)) mem rule = Returns (Some v)) rules vs \<and>
        caller' = caller(n \<mapsto> w) ++ map_of (rev (zip (map fst rules) vs))"])
    show "ready mem ev" by (rule Cons.prems)
  next
    fix w ev'
    assume "ready mem ev'"
    then show "FindCallerRegs_rules registers cfa rules ev' (caller(n \<mapsto> w)) = Returns (True, caller') \<longleftrightarrow>
      (\<exists>vs. list_all2 (\<lambda>(n, rule) v. rule_value (registers(''.cfa'' \<mapsto> cfa)) mem rule = Returns (Some v)) rules vs \<and>
        caller' = caller(n \<mapsto> w) ++ map_of (rev (zip (map fst rules) vs)))" by (rule Cons.IH)
  qed (fastforce simp: list_all2_Cons1)
qed auto

text \<open>C5. \<open>FindCallerRegs\<close> succeeds exactly when there are rules for the call frame address and the return
  address and every rule has a value, each computed on its own from the callee's registers (with \<open>.cfa\<close> set for
  all but the first), so that no rule sees an assignment or a stack left by another. The caller's registers
  are then those values, with \<open>.cfa\<close> and \<open>.ra\<close>, and nothing else.\<close>

theorem FindCallerRegs_iff:
  "FindCallerRegs fi registers mem caller = Returns (True, caller') \<longleftrightarrow>
    cfa_rule fi \<noteq> [] \<and> ra_rule fi \<noteq> [] \<and>
    (\<exists>cfa ra vs. rule_value registers mem (cfa_rule fi) = Returns (Some cfa) \<and>
      rule_value (registers(''.cfa'' \<mapsto> cfa)) mem (ra_rule fi) = Returns (Some ra) \<and>
      list_all2 (\<lambda>(n, rule) v. rule_value (registers(''.cfa'' \<mapsto> cfa)) mem rule = Returns (Some v)) (register_rules fi) vs \<and>
      caller' = (map_of (rev (zip (map fst (register_rules fi)) vs)))(''.ra'' \<mapsto> ra, ''.cfa'' \<mapsto> cfa))"
proof (cases "cfa_rule fi = [] \<or> ra_rule fi = []")
  case False
  let ?ev0 = "\<lparr>dictionary = Some registers, memory = Some mem, stk = [], assigned = None\<rparr>"
  have r0: "ready mem ?ev0" by (simp add: ready_def)
  have last: "exec_bind (FindCallerRegs_rules registers cfa (register_rules fi) ev Map.empty)
      (\<lambda>(ok, cr). if \<not> ok then Returns (False, cr) else Returns (True, cr(''.ra'' \<mapsto> ra, ''.cfa'' \<mapsto> cfa))) =
      Returns (True, caller') \<longleftrightarrow>
    (\<exists>vs. list_all2 (\<lambda>(n, rule) v. rule_value (registers(''.cfa'' \<mapsto> cfa)) mem rule = Returns (Some v))
        (register_rules fi) vs \<and>
      caller' = (map_of (rev (zip (map fst (register_rules fi)) vs)))(''.ra'' \<mapsto> ra, ''.cfa'' \<mapsto> cfa))"
    if "ready mem ev" for cfa ra ev
    using FindCallerRegs_rules_iff [OF that, of registers cfa "register_rules fi" Map.empty]
    by (auto simp: exec_bind_Returns_iff split: if_split_asm)
  have start: "?ev0 = ?ev0\<lparr>dictionary := Some registers\<rparr>" by simp
  show ?thesis
    using False unfolding FindCallerRegs_def
    apply (subst start)
    apply (simp only: if_False)
    apply (subst then_rule [OF r0 then_rule])
    apply assumption
    apply (erule last)
    apply simp
    done
qed (auto simp: FindCallerRegs_def)

section \<open>The register walker\<close>

text \<open>The caller's value of a register, by the three sources the walker tries in order.\<close>

definition recovered ::
  "'a::len dictionary \<Rightarrow> ('m \<Rightarrow> 'a word) \<Rightarrow> 32 word \<Rightarrow> 'm RegisterSet \<Rightarrow> 'a word option" where
  "recovered caller_registers callee_context callee_validity r =
     (case caller_registers (rname r) of
        Some v \<Rightarrow> Some v
      | None \<Rightarrow>
          (case Option.bind (alternate_name r) caller_registers of
             Some v \<Rightarrow> Some v
           | None \<Rightarrow>
               if callee_saves r \<and> callee_validity AND validity_flag r \<noteq> 0
               then Some (callee_context (context_member r)) else None))"

lemma caller_register_step_recovered:
  "caller_register_step regs ctx valid r (c, f) =
    (case recovered regs ctx valid r of
       Some v \<Rightarrow> (c(context_member r := v), f OR validity_flag r) | None \<Rightarrow> (c, f))"
  by (auto simp: caller_register_step_def recovered_def split: option.split)

text \<open>A register table names each context member once and gives each register a flag bit of its own.\<close>

definition register_table_ok :: "'m RegisterSet list \<Rightarrow> bool" where
  "register_table_ok rs \<longleftrightarrow> distinct (map context_member rs) \<and> (\<forall>r\<in>set rs. validity_flag r \<noteq> 0) \<and>
     sorted_wrt (\<lambda>r s. validity_flag r AND validity_flag s = 0) rs"

lemma and_or_disjoint: "(f OR g) AND h = 0 \<longleftrightarrow> f AND h = 0 \<and> g AND (h :: 'b::len word) = 0"
  by (auto simp: bit_eq_iff bit_simps)

lemma register_fold:
  fixes ctx c0 :: "'m \<Rightarrow> 'a::len word"
  assumes "register_table_ok rs"
    and "(c, f) = foldl (\<lambda>s r. caller_register_step regs ctx valid r s) (c0, f0) rs"
  shows "(\<forall>m. m \<notin> context_member ` set rs \<longrightarrow> c m = c0 m) \<and>
    (\<forall>g. (\<forall>r\<in>set rs. validity_flag r AND g = 0) \<longrightarrow> f AND g = 0 \<longleftrightarrow> f0 AND g = 0) \<and>
    (\<forall>r\<in>set rs. f0 AND validity_flag r = 0 \<longrightarrow>
      (case recovered regs ctx valid r of
         Some v \<Rightarrow> c (context_member r) = v \<and> f AND validity_flag r \<noteq> 0
       | None \<Rightarrow> c (context_member r) = c0 (context_member r) \<and> f AND validity_flag r = 0))"
  using assms
proof (induction rs arbitrary: c0 f0)
  case (Cons r rs)
  let ?s = "caller_register_step regs ctx valid r (c0, f0)"
  obtain c1 f1 where s: "?s = (c1, f1)" by (cases ?s)
  have ok: "register_table_ok rs" "validity_flag r \<noteq> 0" "context_member r \<notin> context_member ` set rs"
    "\<forall>q\<in>set rs. validity_flag r AND validity_flag q = 0" "\<forall>q\<in>set rs. validity_flag q AND validity_flag r = 0"
    using Cons.prems(1) by (auto simp: register_table_ok_def and.commute)
  have fold: "(c, f) = foldl (\<lambda>s r. caller_register_step regs ctx valid r s) (c1, f1) rs"
    using Cons.prems(2) by (simp add: s)
  note IH = Cons.IH [OF ok(1) fold]
  show ?case
  proof (cases "recovered regs ctx valid r")
    case None
    then have "c1 = c0" "f1 = f0" using s by (simp_all add: caller_register_step_recovered)
    with IH None ok(3,5) show ?thesis by auto
  next
    case (Some v)
    then have st: "c1 = c0(context_member r := v)" "f1 = f0 OR validity_flag r"
      using s by (simp_all add: caller_register_step_recovered)
    have "c (context_member r) = v" using IH ok(3) st(1) by simp
    moreover have "f AND validity_flag r \<noteq> 0" using IH ok(2,5) st(2) by (simp add: and_or_disjoint)
    moreover have flags: "\<forall>q\<in>set rs. f0 AND validity_flag q = 0 \<longrightarrow> f1 AND validity_flag q = 0"
      using ok(4) st(2) by (simp add: and_or_disjoint)
    have members: "\<forall>q\<in>set rs. c1 (context_member q) = c0 (context_member q)"
      using ok(3) st(1) by (metis fun_upd_apply imageI)
    have "\<forall>q\<in>set rs. f0 AND validity_flag q = 0 \<longrightarrow> (case recovered regs ctx valid q of
         Some v \<Rightarrow> c (context_member q) = v \<and> f AND validity_flag q \<noteq> 0
       | None \<Rightarrow> c (context_member q) = c0 (context_member q) \<and> f AND validity_flag q = 0)"
    proof (intro ballI impI)
      fix q
      assume q: "q \<in> set rs" "f0 AND validity_flag q = 0"
      with flags have "f1 AND validity_flag q = 0" by blast
      with IH q(1) have "case recovered regs ctx valid q of
         Some v \<Rightarrow> c (context_member q) = v \<and> f AND validity_flag q \<noteq> 0
       | None \<Rightarrow> c (context_member q) = c1 (context_member q) \<and> f AND validity_flag q = 0" by blast
      with members q(1) show "case recovered regs ctx valid q of
         Some v \<Rightarrow> c (context_member q) = v \<and> f AND validity_flag q \<noteq> 0
       | None \<Rightarrow> c (context_member q) = c0 (context_member q) \<and> f AND validity_flag q = 0"
        by (simp split: option.splits)
    qed
    moreover have "\<forall>m. m \<notin> context_member ` set (r # rs) \<longrightarrow> c m = c0 m" using IH st(1) by simp
    moreover have "\<forall>g. (\<forall>q\<in>set (r # rs). validity_flag q AND g = 0) \<longrightarrow> f AND g = 0 \<longleftrightarrow> f0 AND g = 0"
      using IH st(2) by (simp add: and_or_disjoint)
    ultimately show ?thesis using Some by simp
  qed
qed simp

text \<open>With a proper register table, a successful CFI step sets a register's validity bit exactly when
  the rules gave it a value under its name, or under its alternate name, or it is callee-saved and was valid in the
  callee; the context then holds that value, and the fill pattern otherwise. No other bit is set.\<close>

theorem FindCallerRegisters_recovers:
  assumes "register_table_ok register_map"
    and "FindCallerRegisters register_map mem fi callee_context callee_validity = Returns (Some (ctx, valid))"
  shows "\<exists>regs. FindCallerRegs fi (callee_register_values register_map callee_context callee_validity) mem Map.empty
      = Returns (True, regs) \<and>
    (\<forall>r\<in>set register_map. case recovered regs callee_context callee_validity r of
        Some v \<Rightarrow> ctx (context_member r) = v \<and> valid AND validity_flag r \<noteq> 0
      | None \<Rightarrow> ctx (context_member r) = filler \<and> valid AND validity_flag r = 0) \<and>
    (\<forall>g. (\<forall>r\<in>set register_map. validity_flag r AND g = 0) \<longrightarrow> valid AND g = 0)"
proof -
  from assms(2) obtain regs where regs:
    "FindCallerRegs fi (callee_register_values register_map callee_context callee_validity) mem Map.empty
      = Returns (True, regs)"
    "(ctx, valid) = foldl (\<lambda>s r. caller_register_step regs callee_context callee_validity r s)
      (\<lambda>_. filler, 0) register_map"
    by (auto simp: FindCallerRegisters_def elim!: exec_bind_pairE split: if_split_asm)
  from register_fold [OF assms(1) regs(2)] regs(1) show ?thesis by (intro exI [of _ regs]) simp
qed

lemma FindCallerRegisters_recovers_witness:
  "\<exists>regs. FindCallerRegs \<lparr>cfa_rule = ''9'', ra_rule = ''8'', register_rules = []\<rparr>
      (callee_register_values
        [\<lparr>rname = ''$eip'', alternate_name = Some ''.ra'', callee_saves = False, validity_flag = 1, context_member = True\<rparr>]
        (\<lambda>m. 5) 1) Map.empty Map.empty = Returns (True, regs :: 32 dictionary)"
proof -
  let ?fi = "\<lparr>cfa_rule = ''9'', ra_rule = ''8'', register_rules = []\<rparr>"
  let ?r = "\<lparr>rname = ''$eip'', alternate_name = Some ''.ra'', callee_saves = False, validity_flag = 1, context_member = True\<rparr>"
  have "FindCallerRegs ?fi d Map.empty Map.empty = Returns (True, [''.ra'' \<mapsto> 8, ''.cfa'' \<mapsto> (9 :: 32 word)])" for d
    by (simp add: FindCallerRegs_def EvaluateForValue_def stream_tokens.simps EvaluateToken_def token_operation_def
        PopValue_def PopValueOrIdentifier_def token_literal_def text_eval)
  then have run: "FindCallerRegisters [?r] Map.empty ?fi (\<lambda>m. 5) 1 =
      Returns (Some ((\<lambda>_. filler)(True := 8 :: 32 word), 1))"
    by (simp add: FindCallerRegisters_def caller_register_step_def)
  show ?thesis
    using FindCallerRegisters_recovers [OF _ run] by (auto simp: register_table_ok_def)
qed

text \<open>The dictionary handed to the rules holds exactly the callee's valid registers, by name.\<close>

theorem callee_register_values_valid:
  assumes "distinct (map rname register_map)" "r \<in> set register_map"
  shows "callee_register_values register_map ctx valid (rname r) =
    (if valid AND validity_flag r \<noteq> 0 then Some (ctx (context_member r)) else None)"
proof -
  have frame: "n \<notin> rname ` set rs \<Longrightarrow>
      foldl (\<lambda>regs r. if valid AND validity_flag r \<noteq> 0 then regs(rname r \<mapsto> ctx (context_member r)) else regs) d rs n = d n"
    for n rs and d :: "'b dictionary"
    by (induction rs arbitrary: d) auto
  have "foldl (\<lambda>regs r. if valid AND validity_flag r \<noteq> 0 then regs(rname r \<mapsto> ctx (context_member r)) else regs) d
      register_map (rname r) = (if valid AND validity_flag r \<noteq> 0 then Some (ctx (context_member r)) else d (rname r))"
    for d :: "'b dictionary"
    using assms by (induction register_map arbitrary: d) (auto simp: frame, metis imageI)
  then show ?thesis by (simp add: callee_register_values_def)
qed

lemma callee_register_values_valid_witness:
  "callee_register_values
     [\<lparr>rname = ''$eip'', alternate_name = Some ''.ra'', callee_saves = False, validity_flag = 1, context_member = True\<rparr>,
      \<lparr>rname = ''$esp'', alternate_name = Some ''.cfa'', callee_saves = False, validity_flag = 2, context_member = False\<rparr>]
     (\<lambda>m. if m then 5 else 6) 2 ''$esp'' = Some (6 :: 32 word)"
  using callee_register_values_valid [of
     "[\<lparr>rname = ''$eip'', alternate_name = Some ''.ra'', callee_saves = False, validity_flag = 1, context_member = True\<rparr>,
      \<lparr>rname = ''$esp'', alternate_name = Some ''.cfa'', callee_saves = False, validity_flag = 2, context_member = False\<rparr>]"
     "\<lparr>rname = ''$esp'', alternate_name = Some ''.cfa'', callee_saves = False, validity_flag = 2, context_member = False\<rparr>"
     "\<lambda>m. if m then 5 else 6" 2]
  by simp

end
