(* ===== verification/C_Numbers.thy ===== *)
theory C_Numbers
  imports C_Strings
begin

text \<open>
  \<open>strtol\<close>, \<open>strtoul\<close> and \<open>strtoull\<close> of the C library, on the LP64 data model (\<open>long\<close> has 64 bits): white
  space, a sign and, in base 16, a \<open>0x\<close> prefix are accepted; the result saturates; the end pointer is the
  whole string when there is no number. The printers are the inverse that the symbol dumpers use
  (\<open>%llx\<close>, \<open>%d\<close>).
\<close>

section \<open>Digits\<close>

definition c_digit :: "char \<Rightarrow> nat" where
  "c_digit c =
     (let v = of_char c :: nat in
      if 48 \<le> v \<and> v \<le> 57 then v - 48
      else if 97 \<le> v \<and> v \<le> 122 then v - 87
      else if 65 \<le> v \<and> v \<le> 90 then v - 55
      else 255)"

definition digit_of :: "nat \<Rightarrow> char" where
  "digit_of d = (if d < 10 then char_of (48 + d) else char_of (87 + d))"

definition base_value :: "nat \<Rightarrow> string \<Rightarrow> nat" where
  "base_value b ds = foldl (\<lambda>acc c. b * acc + c_digit c) 0 ds"

function show_base :: "nat \<Rightarrow> nat \<Rightarrow> string" where
  "show_base b n = (if n < b \<or> b < 2 then [digit_of n] else show_base b (n div b) @ [digit_of (n mod b)])"
  by pat_completeness auto
termination by (relation "measure snd") auto

declare show_base.simps [simp del]

lemma c_digit_of: "d < 16 \<Longrightarrow> c_digit (digit_of d) = d"
  by (simp add: c_digit_def digit_of_def of_char_of Let_def)

lemma digit_of_not_space: "d < 16 \<Longrightarrow> \<not> is_space (digit_of d)"
  by (simp add: digit_of_def is_space_def of_char_of)

lemma base_value_snoc: "base_value b (ds @ [c]) = b * base_value b ds + c_digit c"
  by (simp add: base_value_def)

lemma base_value_show: "2 \<le> b \<Longrightarrow> b \<le> 16 \<Longrightarrow> base_value b (show_base b n) = n"
proof (induction b n rule: show_base.induct)
  case (1 b n)
  show ?case
  proof (cases "n < b")
    case True
    with 1 show ?thesis by (subst show_base.simps) (simp add: base_value_def c_digit_of)
  next
    case False
    with 1 have "base_value b (show_base b (n div b)) = n div b" by simp
    moreover have "n mod b < 16" using 1(2,3) by (simp add: less_le_trans [OF mod_less_divisor])
    ultimately show ?thesis using False 1(2) by (subst show_base.simps) (simp add: base_value_snoc c_digit_of)
  qed
qed

lemma show_base_digits:
  "2 \<le> b \<Longrightarrow> b \<le> 16 \<Longrightarrow> c \<in> set (show_base b n) \<Longrightarrow> \<exists>d<b. c = digit_of d"
proof (induction b n rule: show_base.induct)
  case (1 b n)
  show ?case
  proof (cases "n < b")
    case True
    with 1(4) show ?thesis by (subst (asm) show_base.simps) auto
  next
    case False
    with 1 have "c \<in> set (show_base b (n div b)) \<or> c = digit_of (n mod b)"
      by (subst (asm) show_base.simps) auto
    moreover have "n mod b < b" using 1(2) by simp
    ultimately show ?thesis using 1(1) [OF _ 1(2,3)] 1(2) False by fastforce
  qed
qed

lemma show_base_Nil [simp]: "show_base b n \<noteq> []"
  by (subst show_base.simps) simp

section \<open>Conversions\<close>

definition strto_prefix :: "nat \<Rightarrow> string \<Rightarrow> string" where
  "strto_prefix b s =
     (if b = 16 \<and> length s > 2 \<and> s ! 0 = CHR ''0'' \<and> (s ! 1 = CHR ''x'' \<or> s ! 1 = CHR ''X'') \<and> c_digit (s ! 2) < 16
      then drop 2 s else s)"

definition strto :: "nat \<Rightarrow> string \<Rightarrow> (bool \<times> nat \<times> string) option" where
  "strto b s =
     (let s1 = dropWhile is_space s;
          negative = (s1 \<noteq> [] \<and> hd s1 = CHR ''-'');
          s2 = (if s1 \<noteq> [] \<and> (hd s1 = CHR ''-'' \<or> hd s1 = CHR ''+'') then tl s1 else s1);
          s3 = strto_prefix b s2;
          ds = takeWhile (\<lambda>c. c_digit c < b) s3
      in if ds = [] then None else Some (negative, base_value b ds, dropWhile (\<lambda>c. c_digit c < b) s3))"

definition LONG_MAX :: int where "LONG_MAX = 2 ^ 63 - 1"

definition LONG_MIN :: int where "LONG_MIN = - (2 ^ 63)"

definition strtol :: "nat \<Rightarrow> string \<Rightarrow> int \<times> string" where
  "strtol b s =
     (case strto b s of
        None \<Rightarrow> (0, s)
      | Some (negative, v, rest) \<Rightarrow>
          (max LONG_MIN (min LONG_MAX (if negative then - int v else int v)), rest))"

definition strtoull :: "nat \<Rightarrow> string \<Rightarrow> 64 word \<times> string" where
  "strtoull b s =
     (case strto b s of
        None \<Rightarrow> (0, s)
      | Some (negative, v, rest) \<Rightarrow>
          (if 2 ^ 64 \<le> v then - 1 else if negative then - of_nat v else of_nat v, rest))"

text \<open>The number \<open>strtoul\<close> returns, which is the same under LP64.\<close>

definition strtoul :: "nat \<Rightarrow> string \<Rightarrow> 64 word" where
  "strtoul b s = fst (strtoull b s)"

lemma digit_of_sign: "d < 16 \<Longrightarrow> digit_of d \<noteq> CHR ''-'' \<and> digit_of d \<noteq> CHR ''+''"
proof (rule ccontr)
  assume "d < 16" "\<not> (digit_of d \<noteq> CHR ''-'' \<and> digit_of d \<noteq> CHR ''+'')"
  then have "c_digit (digit_of d) = 255" by (auto simp: c_digit_def)
  with \<open>d < 16\<close> show False by (simp add: c_digit_of)
qed

lemma strto_show:
  assumes b: "2 \<le> b" "b \<le> 16" and rest: "rest = [] \<or> \<not> c_digit (hd rest) < 16"
    and x: "b = 16 \<longrightarrow> rest = [] \<or> hd rest \<notin> {CHR ''x'', CHR ''X''}"
  shows "strto b (show_base b n @ rest) = Some (False, n, rest)"
proof -
  let ?s = "show_base b n"
  have digits: "\<forall>c\<in>set ?s. \<exists>d<16. c = digit_of d" using show_base_digits [OF b] b(2) by (meson less_le_trans)
  have small: "\<forall>c\<in>set ?s. c_digit c < b"
    using show_base_digits [OF b] b(2) by (metis c_digit_of less_le_trans)
  obtain c t where ct: "?s = c # t" by (cases ?s) auto
  with digits obtain d where d: "c = digit_of d" "d < 16" by auto
  have sp: "dropWhile is_space (?s @ rest) = ?s @ rest" using d by (simp add: ct digit_of_not_space)
  have sgn: "hd (?s @ rest) \<noteq> CHR ''-''" "hd (?s @ rest) \<noteq> CHR ''+''" using d digit_of_sign by (auto simp: ct)
  have "(c # t @ rest) ! 1 \<noteq> CHR ''x'' \<and> (c # t @ rest) ! 1 \<noteq> CHR ''X''"
    if "b = 16" "length (c # t @ rest) > 2"
  proof (cases t)
    case Nil
    with that x show ?thesis by (cases rest) auto
  next
    case (Cons e u)
    then have "e \<in> set ?s" by (simp add: ct)
    then have "c_digit e < 16" using small that(1) by blast
    then show ?thesis using Cons by (auto simp: ct c_digit_def)
  qed
  then have pre: "strto_prefix b (?s @ rest) = ?s @ rest" by (auto simp: strto_prefix_def ct)
  have "takeWhile (\<lambda>c. c_digit c < b) (?s @ rest) = ?s" "dropWhile (\<lambda>c. c_digit c < b) (?s @ rest) = rest"
    using small rest b(2) by (cases rest; simp add: takeWhile_append2 dropWhile_append2)+
  then show ?thesis
    using sgn by (simp add: strto_def sp pre Let_def base_value_show [OF b])
qed

lemma strtoull_show:
  "n < 2 ^ 64 \<Longrightarrow> strtoull 16 (show_base 16 n) = (of_nat n, [])"
  using strto_show [of 16 "[]" n] by (simp add: strtoull_def)

lemma strtol_show:
  "2 \<le> b \<Longrightarrow> b \<le> 16 \<Longrightarrow> int n \<le> LONG_MAX \<Longrightarrow> strtol b (show_base b n) = (int n, [])"
  using strto_show [of b "[]" n] by (simp add: strtol_def LONG_MAX_def LONG_MIN_def)

section \<open>\<open>Tokenize\<close>\<close>

text \<open>The loop of \<open>Tokenize\<close>: \<open>remaining\<close> counts down once per token; the last token is taken up to the end
  of the line by the caller. The flag says that the counter reached zero.\<close>

fun Tokenize_loop :: "char list \<Rightarrow> nat \<Rightarrow> string option \<Rightarrow> string \<Rightarrow> string list \<Rightarrow> bool \<times> string \<times> string list" where
  "Tokenize_loop separators remaining None cursor tokens = (False, cursor, tokens)"
| "Tokenize_loop separators 0 (Some token) cursor tokens = (False, cursor, tokens)"
| "Tokenize_loop separators (Suc remaining) (Some token) cursor tokens =
     (if remaining > 0 then
        if remaining > 1 then
          (case strtok_r separators cursor of
             None \<Rightarrow> Tokenize_loop separators remaining None [] (tokens @ [token])
           | Some (next_token, cursor') \<Rightarrow>
               Tokenize_loop separators remaining (Some next_token) cursor' (tokens @ [token]))
        else Tokenize_loop separators remaining (Some token) cursor (tokens @ [token])
      else (True, cursor, tokens))"

definition line_breaks :: "char list" where
  "line_breaks = [CHR 13, CHR 10]"

definition Tokenize :: "string \<Rightarrow> char list \<Rightarrow> nat \<Rightarrow> string list option" where
  "Tokenize line separators max_tokens =
     (let (exhausted, cursor, tokens) =
            (case strtok_r separators line of
               None \<Rightarrow> Tokenize_loop separators max_tokens None [] []
             | Some (token, cursor) \<Rightarrow> Tokenize_loop separators max_tokens (Some token) cursor []);
          tokens' =
            (if exhausted then
               (case strtok_r line_breaks cursor of Some (token, _) \<Rightarrow> tokens @ [token] | None \<Rightarrow> tokens)
             else tokens)
      in if length tokens' = max_tokens then Some tokens' else None)"

text \<open>A record: single-word fields separated by blanks, then the rest of the line as one field.\<close>

lemma Tokenize_loop_fields:
  assumes "CHR '' '' \<in> set seps" "\<forall>f\<in>set fields. free_of seps f" "free_of seps f0"
  shows "Tokenize_loop seps (Suc (Suc (length fields))) (Some f0) (concat (map (\<lambda>f. f @ '' '') fields) @ lst) toks =
    (True, lst, toks @ f0 # fields)"
  using assms(2,3)
proof (induction fields arbitrary: f0 toks)
  case (Cons f fields)
  have "strtok_r seps (f @ CHR '' '' # concat (map (\<lambda>f. f @ '' '') fields) @ lst) =
      Some (f, concat (map (\<lambda>f. f @ '' '') fields) @ lst)"
    using strtok_r_word [of seps f "CHR '' '' # concat (map (\<lambda>f. f @ '' '') fields) @ lst"] Cons.prems assms(1) by simp
  with Cons show ?case by simp
qed simp

lemma Tokenize_record:
  assumes "CHR '' '' \<in> set seps" "fields \<noteq> []" "\<forall>f\<in>set fields. free_of seps f" "free_of line_breaks lst"
  shows "Tokenize (concat (map (\<lambda>f. f @ '' '') fields) @ lst) seps (Suc (length fields)) = Some (fields @ [lst])"
proof -
  obtain f0 fs where fields: "fields = f0 # fs" using assms(2) by (cases fields) auto
  have first: "strtok_r seps (f0 @ CHR '' '' # concat (map (\<lambda>f. f @ '' '') fs) @ lst) =
      Some (f0, concat (map (\<lambda>f. f @ '' '') fs) @ lst)"
    using strtok_r_word [of seps f0 "CHR '' '' # concat (map (\<lambda>f. f @ '' '') fs) @ lst"] assms(1,3)
    by (simp add: fields)
  have last: "strtok_r line_breaks lst = Some (lst, [])"
    using strtok_r_word [of line_breaks lst "[]"] assms(4) by simp
  show ?thesis
    using Tokenize_loop_fields [of seps fs f0 lst "[]"] first last assms(1,3)
    by (simp add: fields Tokenize_def)
qed

end
