(* ===== verification/Windows_Frame_Info.thy ===== *)
theory Windows_Frame_Info
  imports C_Numbers
begin

text \<open>
  MSVC frame data, the STACK WIN records (\<^verbatim>\<open>processor/windows_frame_info.h\<close>, \<^verbatim>\<open>processor/tokenize.cc\<close>).
\<close>

section \<open>The code\<close>

text \<open>The field \<open>valid\<close> is a set of flags, \<open>VALID_ALL\<close> being all ones.\<close>

record WindowsFrameInfo =
  type_of_info :: int
  valid :: "32 word"
  prolog_size :: "32 word"
  epilog_size :: "32 word"
  parameter_size :: "32 word"
  saved_register_size :: "32 word"
  local_size :: "32 word"
  max_stack_size :: "32 word"
  allocates_base_pointer :: bool
  program_string :: string

definition VALID_NONE :: "32 word" where "VALID_NONE = 0"

definition VALID_PARAMETER_SIZE :: "32 word" where "VALID_PARAMETER_SIZE = 1"

definition VALID_ALL :: "32 word" where "VALID_ALL = - 1"

definition STACK_INFO_FPO :: int where "STACK_INFO_FPO = 0"

definition STACK_INFO_FRAME_DATA :: int where "STACK_INFO_FRAME_DATA = 4"

definition STACK_INFO_LAST :: int where "STACK_INFO_LAST = 5"

definition STACK_INFO_UNKNOWN :: int where "STACK_INFO_UNKNOWN = - 1"

definition WindowsFrameInfo_default :: WindowsFrameInfo where
  "WindowsFrameInfo_default =
     \<lparr>type_of_info = STACK_INFO_UNKNOWN, valid = VALID_NONE, prolog_size = 0, epilog_size = 0,
      parameter_size = 0, saved_register_size = 0, local_size = 0, max_stack_size = 0,
      allocates_base_pointer = False, program_string = []\<rparr>"

definition kWhitespace :: "char list" where
  "kWhitespace = [CHR '' '', CHR 13, CHR 10]"

definition to_int32 :: "int \<Rightarrow> int" where
  "to_int32 i = sint (word_of_int i :: 32 word)"

lemma to_int32_self: "- (2 ^ 31) \<le> i \<Longrightarrow> i < 2 ^ 31 \<Longrightarrow> to_int32 i = i"
  by (simp add: to_int32_def signed_of_int signed_take_bit_int_eq_self)

text \<open>The result is the type, the address, the size of the code and the frame data.\<close>

definition WindowsFrameInfo_ParseFromString ::
  "string \<Rightarrow> (int \<times> 64 word \<times> 64 word \<times> WindowsFrameInfo) option" where
  "WindowsFrameInfo_ParseFromString s =
     (case Tokenize s kWhitespace 11 of
        None \<Rightarrow> None
      | Some tokens \<Rightarrow>
          let typ = to_int32 (fst (strtol 16 (tokens ! 0))) in
          if typ < 0 \<or> typ > STACK_INFO_LAST - 1 then None
          else
            let rva = fst (strtoull 16 (tokens ! 1));
                code_size = fst (strtoull 16 (tokens ! 2));
                has_program_string = (ucast (strtoul 16 (tokens ! 9)) :: 32 word)
            in Some (typ, rva, code_size,
                 \<lparr>type_of_info = typ, valid = VALID_ALL,
                  prolog_size = ucast (strtoul 16 (tokens ! 3)),
                  epilog_size = ucast (strtoul 16 (tokens ! 4)),
                  parameter_size = ucast (strtoul 16 (tokens ! 5)),
                  saved_register_size = ucast (strtoul 16 (tokens ! 6)),
                  local_size = ucast (strtoul 16 (tokens ! 7)),
                  max_stack_size = ucast (strtoul 16 (tokens ! 8)),
                  allocates_base_pointer =
                    (has_program_string = 0 \<and> (ucast (strtoul 16 (tokens ! 10)) :: 32 word) \<noteq> 0),
                  program_string = (if has_program_string \<noteq> 0 then tokens ! 10 else [])\<rparr>))"

definition WindowsFrameInfo_CopyFrom :: "WindowsFrameInfo \<Rightarrow> WindowsFrameInfo \<Rightarrow> WindowsFrameInfo" where
  "WindowsFrameInfo_CopyFrom this that =
     this\<lparr>type_of_info := type_of_info that, valid := valid that, prolog_size := prolog_size that,
       epilog_size := epilog_size that, parameter_size := parameter_size that,
       saved_register_size := saved_register_size that, local_size := local_size that,
       max_stack_size := max_stack_size that, allocates_base_pointer := allocates_base_pointer that,
       program_string := program_string that\<rparr>"

definition WindowsFrameInfo_Clear :: "WindowsFrameInfo \<Rightarrow> WindowsFrameInfo" where
  "WindowsFrameInfo_Clear this =
     this\<lparr>type_of_info := STACK_INFO_UNKNOWN, valid := VALID_NONE, program_string := []\<rparr>"

section \<open>Printing and parsing\<close>

definition show_hex :: "'a::len word \<Rightarrow> string" where
  "show_hex w = show_base 16 (unat w)"

lemma show_base_free: "2 \<le> b \<Longrightarrow> b \<le> 16 \<Longrightarrow> free_of kWhitespace (show_base b n)"
proof -
  assume b: "2 \<le> b" "b \<le> 16"
  have "c \<notin> set kWhitespace" if c: "c \<in> set (show_base b n)" for c
  proof -
    obtain d where d: "d < b" "c = digit_of d" using show_base_digits [OF b c] by blast
    with b(2) have "d < 16" by linarith
    with d(2) have "\<not> is_space c" by (simp add: digit_of_not_space)
    then show ?thesis by (auto simp: kWhitespace_def is_space_def)
  qed
  then show ?thesis by (auto simp: free_of_def)
qed

lemma show_hex_free: "free_of kWhitespace (show_hex w)"
  by (simp add: show_hex_def show_base_free)

lemma strtoull_show_hex: "LENGTH('a::len) \<le> 64 \<Longrightarrow> strtoull 16 (show_hex (w :: 'a word)) = (ucast w, [])"
proof -
  assume "LENGTH('a) \<le> 64"
  then have "(2 :: nat) ^ LENGTH('a) \<le> 2 ^ 64" by (intro power_increasing) simp_all
  then have "unat w < 2 ^ 64" using unsigned_less [of w] by (rule less_le_trans [rotated])
  then show ?thesis by (simp add: show_hex_def strtoull_show)
qed

lemma strtoul_show_hex: "ucast (strtoul 16 (show_hex (w :: 32 word))) = w"
  by (simp add: strtoul_def strtoull_show_hex bit_eq_iff bit_simps)

text \<open>A STACK WIN record as the dumper writes it, after the word \<open>WIN\<close>.\<close>

definition print_windows_frame_info :: "64 word \<Rightarrow> 64 word \<Rightarrow> WindowsFrameInfo \<Rightarrow> string" where
  "print_windows_frame_info rva code_size w =
     concat (map (\<lambda>f. f @ '' '')
       [show_base 16 (nat (type_of_info w)), show_hex rva, show_hex code_size, show_hex (prolog_size w),
        show_hex (epilog_size w), show_hex (parameter_size w), show_hex (saved_register_size w),
        show_hex (local_size w), show_hex (max_stack_size w),
        if program_string w = [] then ''0'' else ''1'']) @
     (if program_string w = [] then if allocates_base_pointer w then ''1'' else ''0'' else program_string w)"

definition printable_frame_info :: "WindowsFrameInfo \<Rightarrow> bool" where
  "printable_frame_info w \<longleftrightarrow>
     0 \<le> type_of_info w \<and> type_of_info w < STACK_INFO_LAST \<and> valid w = VALID_ALL \<and>
     (program_string w = [] \<or> \<not> allocates_base_pointer w \<and> free_of line_breaks (program_string w))"

lemma WindowsFrameInfo_print_parse:
  assumes "printable_frame_info w"
  shows "WindowsFrameInfo_ParseFromString (print_windows_frame_info rva code_size w) =
    Some (type_of_info w, rva, code_size, w)"
proof -
  have kind: "0 \<le> type_of_info w" "type_of_info w \<le> 4" using assms by (auto simp: printable_frame_info_def STACK_INFO_LAST_def)
  let ?type = "show_base 16 (nat (type_of_info w))"
  let ?flag = "if program_string w = [] then ''0'' else ''1''"
  let ?last = "if program_string w = [] then if allocates_base_pointer w then ''1'' else ''0'' else program_string w"
  let ?fields = "[?type, show_hex rva, show_hex code_size, show_hex (prolog_size w),
        show_hex (epilog_size w), show_hex (parameter_size w), show_hex (saved_register_size w),
        show_hex (local_size w), show_hex (max_stack_size w), ?flag]"
  have free: "\<forall>f\<in>set ?fields. free_of kWhitespace f"
    by (simp add: show_hex_free show_base_free) (simp add: free_of_def kWhitespace_def)
  have blank: "CHR '' '' \<in> set kWhitespace" by (simp add: kWhitespace_def)
  have last: "free_of line_breaks ?last"
    using assms by (auto simp: printable_frame_info_def free_of_def line_breaks_def)
  have tokens: "Tokenize (print_windows_frame_info rva code_size w) kWhitespace 11 = Some (?fields @ [?last])"
    using Tokenize_record [OF blank _ free last] by (simp add: print_windows_frame_info_def eval_nat_numeral)
  have num: "strtoul 16 ''0'' = 0" "strtoul 16 ''1'' = 1"
    by (simp_all add: strtoul_def strtoull_def strto_def strto_prefix_def c_digit_def is_space_def base_value_def)
  have kind2: "to_int32 (fst (strtol 16 ?type)) = type_of_info w"
    using kind by (simp add: strtol_show LONG_MAX_def to_int32_self)
  show ?thesis
    using assms kind
    by (auto intro!: WindowsFrameInfo.equality simp: WindowsFrameInfo_ParseFromString_def tokens kind2 num strtoull_show_hex strtoul_show_hex
        printable_frame_info_def STACK_INFO_LAST_def Let_def)
qed

text \<open>A STACK WIN record, with either a program string or the base-pointer flag, is parsed back to the
  values it was printed from.\<close>

theorem WindowsFrameInfo_parse_print:
  assumes "printable_frame_info w"
  shows "WindowsFrameInfo_ParseFromString (print_windows_frame_info rva code_size w) =
    Some (type_of_info w, rva, code_size, w)"
  by (rule WindowsFrameInfo_print_parse [OF assms])

lemma WindowsFrameInfo_parse_print_witness:
  "WindowsFrameInfo_ParseFromString (print_windows_frame_info 0x1000 0x20
      \<lparr>type_of_info = 4, valid = VALID_ALL, prolog_size = 1, epilog_size = 0, parameter_size = 8,
       saved_register_size = 0, local_size = 0, max_stack_size = 0, allocates_base_pointer = False,
       program_string = ''$eip 4 + =''\<rparr>) =
    Some (4, 0x1000, 0x20,
      \<lparr>type_of_info = 4, valid = VALID_ALL, prolog_size = 1, epilog_size = 0, parameter_size = 8,
       saved_register_size = 0, local_size = 0, max_stack_size = 0, allocates_base_pointer = False,
       program_string = ''$eip 4 + =''\<rparr>)"
  using WindowsFrameInfo_parse_print [of "\<lparr>type_of_info = 4, valid = VALID_ALL, prolog_size = 1, epilog_size = 0,
      parameter_size = 8, saved_register_size = 0, local_size = 0, max_stack_size = 0, allocates_base_pointer = False,
      program_string = ''$eip 4 + =''\<rparr>" "0x1000" "0x20"]
  by (simp add: printable_frame_info_def STACK_INFO_LAST_def free_of_def line_breaks_def)

end
