(* ===== verification/Source_Line_Resolver.thy ===== *)
theory Source_Line_Resolver
  imports Range_Map Address_Map Contained_Range_Map CFI_Frame_Info Windows_Frame_Info
begin

text \<open>
  The text symbol-file reader and its queries (\<^verbatim>\<open>processor/basic_source_line_resolver.cc\<close>,
  \<^verbatim>\<open>processor/basic_source_line_resolver_types.h\<close>, \<^verbatim>\<open>processor/source_line_resolver_base_types.h\<close>).

  The functions of a module are shared objects: the range map holds pointers to them, and the lines that
  follow a FUNC record are added through the loader's own pointer. They live in an explicit heap here, a
  list of functions addressed by position.
\<close>

section \<open>Records\<close>

record Line =
  laddress :: "64 word"
  lsize :: "64 word"
  source_file_id :: int
  lline :: int

record Function =
  fname :: string
  faddress :: "64 word"
  fsize :: "64 word"
  fparameter_size :: int
  lines :: "(64, Line) RangeMap"

record PublicSymbol =
  pname :: string
  paddress :: "64 word"
  pparameter_size :: int

text \<open>The root of each \<open>ContainedRangeMap\<close> carries a null entry in the code, which no lookup returns.\<close>

record Module =
  files :: "(int, string) omap"
  function_map :: "(64, nat) RangeMap"
  func_heap :: "Function list"
  public_symbols :: "(64, PublicSymbol) AddressMap"
  is_corrupt :: bool
  windows_frame_info :: "(64, WindowsFrameInfo) crm list"
  cfi_initial_rules :: "(64, string) RangeMap"
  cfi_delta_rules :: "(64 word, string) omap"

definition Module_empty :: Module where
  "Module_empty =
     \<lparr>files = [], function_map = [], func_heap = [], public_symbols = [], is_corrupt = False,
      windows_frame_info = replicate (nat STACK_INFO_LAST) (ContainedRangeMap_root WindowsFrameInfo_default),
      cfi_initial_rules = [], cfi_delta_rules = []\<rparr>"

section \<open>Parsing the records of a symbol file\<close>

definition IsValidAfterNumber :: "string \<Rightarrow> bool" where
  "IsValidAfterNumber after_number \<longleftrightarrow> after_number = [] \<or> hd after_number \<in> set kWhitespace"

definition SymbolParseHelper_ParseFile :: "string \<Rightarrow> (int \<times> string) option" where
  "SymbolParseHelper_ParseFile file_line =
     (case Tokenize (drop 5 file_line) kWhitespace 2 of
        None \<Rightarrow> None
      | Some tokens \<Rightarrow>
          let (index, after_number) = strtol 10 (tokens ! 0) in
          if \<not> IsValidAfterNumber after_number \<or> index < 0 \<or> index = LONG_MAX then None
          else Some (index, tokens ! 1))"

definition SymbolParseHelper_ParseFunction :: "string \<Rightarrow> (64 word \<times> 64 word \<times> int \<times> string) option" where
  "SymbolParseHelper_ParseFunction function_line =
     (case Tokenize (drop 5 function_line) kWhitespace 4 of
        None \<Rightarrow> None
      | Some tokens \<Rightarrow>
          let (address, after_number) = strtoull 16 (tokens ! 0) in
          if \<not> IsValidAfterNumber after_number \<or> address = - 1 then None
          else
            let (sz, after_number) = strtoull 16 (tokens ! 1) in
            if \<not> IsValidAfterNumber after_number \<or> sz = - 1 then None
            else
              let (stack_param_size, after_number) = strtol 16 (tokens ! 2) in
              if \<not> IsValidAfterNumber after_number \<or> stack_param_size = LONG_MAX \<or> stack_param_size < 0 then None
              else Some (address, sz, stack_param_size, tokens ! 3))"

definition SymbolParseHelper_ParseLine :: "string \<Rightarrow> (64 word \<times> 64 word \<times> int \<times> int) option" where
  "SymbolParseHelper_ParseLine line_line =
     (case Tokenize line_line kWhitespace 4 of
        None \<Rightarrow> None
      | Some tokens \<Rightarrow>
          let (address, after_number) = strtoull 16 (tokens ! 0) in
          if \<not> IsValidAfterNumber after_number \<or> address = - 1 then None
          else
            let (sz, after_number) = strtoull 16 (tokens ! 1) in
            if \<not> IsValidAfterNumber after_number \<or> sz = - 1 then None
            else
              let (line_number, after_number) = strtol 10 (tokens ! 2) in
              if \<not> IsValidAfterNumber after_number \<or> line_number = LONG_MAX then None
              else
                let (source_file, after_number) = strtol 10 (tokens ! 3) in
                if \<not> IsValidAfterNumber after_number \<or> source_file < 0 \<or> source_file = LONG_MAX then None
                else if line_number < 0 then None
                else Some (address, sz, line_number, source_file))"

definition SymbolParseHelper_ParsePublicSymbol :: "string \<Rightarrow> (64 word \<times> int \<times> string) option" where
  "SymbolParseHelper_ParsePublicSymbol public_line =
     (case Tokenize (drop 7 public_line) kWhitespace 3 of
        None \<Rightarrow> None
      | Some tokens \<Rightarrow>
          let (address, after_number) = strtoull 16 (tokens ! 0) in
          if \<not> IsValidAfterNumber after_number \<or> address = - 1 then None
          else
            let (stack_param_size, after_number) = strtol 16 (tokens ! 1) in
            if \<not> IsValidAfterNumber after_number \<or> stack_param_size = LONG_MAX \<or> stack_param_size < 0 then None
            else Some (address, stack_param_size, tokens ! 2))"

definition Module_ParseFile :: "string \<Rightarrow> Module \<Rightarrow> bool \<times> Module" where
  "Module_ParseFile file_line m =
     (case SymbolParseHelper_ParseFile file_line of
        None \<Rightarrow> (False, m)
      | Some (index, filename) \<Rightarrow> (True, m\<lparr>files := omap_insert (to_int32 index) filename (files m)\<rparr>))"

definition Module_ParseFunction :: "string \<Rightarrow> Function option" where
  "Module_ParseFunction function_line =
     map_option (\<lambda>(address, sz, stack_param_size, name).
         \<lparr>fname = name, faddress = address, fsize = sz, fparameter_size = to_int32 stack_param_size, lines = []\<rparr>)
       (SymbolParseHelper_ParseFunction function_line)"

definition Module_ParseLine :: "string \<Rightarrow> Line option" where
  "Module_ParseLine line_line =
     map_option (\<lambda>(address, sz, line_number, source_file).
         \<lparr>laddress = address, lsize = sz, source_file_id = to_int32 source_file, lline = to_int32 line_number\<rparr>)
       (SymbolParseHelper_ParseLine line_line)"

definition Module_ParsePublicSymbol :: "string \<Rightarrow> Module \<Rightarrow> bool \<times> Module" where
  "Module_ParsePublicSymbol public_line m =
     (case SymbolParseHelper_ParsePublicSymbol public_line of
        None \<Rightarrow> (False, m)
      | Some (address, stack_param_size, name) \<Rightarrow>
          if address = 0 then (True, m)
          else
            let (ok, symbols) = AddressMap_Store (public_symbols m) address
                  \<lparr>pname = name, paddress = address, pparameter_size = to_int32 stack_param_size\<rparr>
            in (ok, m\<lparr>public_symbols := symbols\<rparr>))"

definition Module_ParseCFIFrameInfo :: "string \<Rightarrow> Module \<Rightarrow> bool \<times> Module" where
  "Module_ParseCFIFrameInfo stack_info_line m =
     (case strtok_r kWhitespace stack_info_line of
        None \<Rightarrow> (False, m)
      | Some (init_or_address, cursor) \<Rightarrow>
          if init_or_address = ''INIT'' then
            (case strtok_r kWhitespace cursor of
               None \<Rightarrow> (False, m)
             | Some (address_field, cursor) \<Rightarrow>
                 (case strtok_r kWhitespace cursor of
                    None \<Rightarrow> (False, m)
                  | Some (size_field, cursor) \<Rightarrow>
                      (case strtok_r line_breaks cursor of
                         None \<Rightarrow> (False, m)
                       | Some (initial_rules, _) \<Rightarrow>
                           (True, m\<lparr>cfi_initial_rules :=
                              snd (RangeMap_StoreRange (cfi_initial_rules m) (strtoul 16 address_field)
                                     (strtoul 16 size_field) initial_rules)\<rparr>))))
          else
            (case strtok_r line_breaks cursor of
               None \<Rightarrow> (False, m)
             | Some (delta_rules, _) \<Rightarrow>
                 (True, m\<lparr>cfi_delta_rules :=
                    omap_assign (strtoul 16 init_or_address) delta_rules (cfi_delta_rules m)\<rparr>)))"

text \<open>
  \<open>ParseStackInfo\<close> gets the line and \<open>cursor\<close>, the rest of the buffer. It writes a NUL over the character
  after the platform name and steps over it; when that character is the terminator of the line,
  it goes on in the text that follows the line. \<open>beyond\<close> is that text, \<open>None\<close> when the buffer
  ends there. The tokenizer of a CFI record then cuts that text at the end of its first word, and the loader
  sees the shortened text. The result is the new cursor with the return value.
\<close>

definition clobbered :: "string \<Rightarrow> string" where
  "clobbered s =
     takeWhile (\<lambda>c. c \<in> set kWhitespace) s @
     takeWhile (\<lambda>c. c \<notin> set kWhitespace) (dropWhile (\<lambda>c. c \<in> set kWhitespace) s)"

definition Module_ParseStackInfo ::
  "string \<Rightarrow> string option \<Rightarrow> string \<Rightarrow> Module \<Rightarrow> (bool \<times> Module \<times> string) exec" where
  "Module_ParseStackInfo stack_info_line beyond cursor m =
     (let p = dropWhile (\<lambda>c. c = CHR '' '') (drop 6 stack_info_line);
          platform = takeWhile (\<lambda>c. c \<notin> set kWhitespace) p;
          rest = dropWhile (\<lambda>c. c \<notin> set kWhitespace) p;
          info = (if rest \<noteq> [] then Returns (tl rest)
                  else (case beyond of None \<Rightarrow> Undefined | Some t \<Rightarrow> Returns t))
      in if platform = ''WIN'' then
           exec_bind info (\<lambda>s.
             case WindowsFrameInfo_ParseFromString s of
               None \<Rightarrow> Returns (False, m, cursor)
             | Some (typ, rva, code_size, stack_frame_info) \<Rightarrow>
                 Returns (True, m\<lparr>windows_frame_info := (windows_frame_info m)[nat typ :=
                   snd (ContainedRangeMap_StoreRange (windows_frame_info m ! nat typ) rva code_size
                          stack_frame_info)]\<rparr>, cursor))
         else if platform = ''CFI'' then
           exec_bind info (\<lambda>s.
             let (ok, m') = Module_ParseCFIFrameInfo s m
             in Returns (ok, m', if rest \<noteq> [] then cursor else clobbered s))
         else Returns (False, m, cursor))"

section \<open>Loading\<close>

record loader =
  lmodule :: Module
  cur_func :: "nat option"
  num_errors :: nat

definition kMaxErrorsBeforeBailing :: nat where "kMaxErrorsBeforeBailing = 100"

definition LogParseError :: "loader \<Rightarrow> loader" where
  "LogParseError l = l\<lparr>num_errors := num_errors l + 1\<rparr>"

definition load_function :: "Function \<Rightarrow> loader \<Rightarrow> loader" where
  "load_function f l =
     (let m = lmodule l; p = length (func_heap m) in
      l\<lparr>lmodule := m\<lparr>func_heap := func_heap m @ [f],
          function_map := snd (RangeMap_StoreRange (function_map m) (faddress f) (fsize f) p)\<rparr>,
        cur_func := Some p\<rparr>)"

definition load_line :: "nat \<Rightarrow> Line \<Rightarrow> loader \<Rightarrow> loader" where
  "load_line p line l =
     (let m = lmodule l; f = func_heap m ! p in
      l\<lparr>lmodule := m\<lparr>func_heap := (func_heap m)[p :=
          f\<lparr>lines := snd (RangeMap_StoreRange (lines f) (laddress line) (lsize line) line)\<rparr>]\<rparr>\<rparr>)"

text \<open>One line of the file. The rest of the buffer is passed through for the STACK case.\<close>

definition load_record :: "string \<Rightarrow> string option \<Rightarrow> string \<Rightarrow> loader \<Rightarrow> (loader \<times> string) exec" where
  "load_record buffer beyond cursor l =
     (if take 5 buffer = ''FILE '' then
        let (ok, m) = Module_ParseFile buffer (lmodule l); l' = l\<lparr>lmodule := m\<rparr>
        in Returns (if ok then l' else LogParseError l', cursor)
      else if take 6 buffer = ''STACK '' then
        exec_bind (Module_ParseStackInfo buffer beyond cursor (lmodule l)) (\<lambda>(ok, m, cursor').
          let l' = l\<lparr>lmodule := m\<rparr> in Returns (if ok then l' else LogParseError l', cursor'))
      else if take 5 buffer = ''FUNC '' then
        (case Module_ParseFunction buffer of
           None \<Rightarrow> Returns (LogParseError (l\<lparr>cur_func := None\<rparr>), cursor)
         | Some f \<Rightarrow> Returns (load_function f l, cursor))
      else if take 7 buffer = ''PUBLIC '' then
        let (ok, m) = Module_ParsePublicSymbol buffer (lmodule l);
            l' = l\<lparr>lmodule := m, cur_func := None\<rparr>
        in Returns (if ok then l' else LogParseError l', cursor)
      else if take 7 buffer = ''MODULE '' then Returns (l, cursor)
      else if take 5 buffer = ''INFO '' then Returns (l, cursor)
      else
        (case cur_func l of
           None \<Rightarrow> Returns (LogParseError l, cursor)
         | Some p \<Rightarrow>
             (case Module_ParseLine buffer of
                None \<Rightarrow> Returns (LogParseError l, cursor)
              | Some line \<Rightarrow> Returns (load_line p line l, cursor))))"

lemma length_clobbered: "length (clobbered s) \<le> length s"
proof -
  have "length (clobbered s) \<le> length (takeWhile (\<lambda>c. c \<in> set kWhitespace) s) +
      length (dropWhile (\<lambda>c. c \<in> set kWhitespace) s)"
    by (simp add: clobbered_def)
  also have "\<dots> = length s" by (metis length_append takeWhile_dropWhile_id)
  finally show ?thesis .
qed

lemma load_record_cursor:
  "load_record buffer beyond cursor l = Returns (l', cursor') \<Longrightarrow>
    cursor' = cursor \<or> (\<exists>t. beyond = Some t \<and> cursor' = clobbered t)"
  by (auto simp: load_record_def Module_ParseStackInfo_def Let_def case_prod_beta exec_bind_Returns_iff
      split: if_split_asm option.split_asm)

definition text_after_line :: "bool \<Rightarrow> string \<Rightarrow> string \<Rightarrow> string option" where
  "text_after_line spare s cursor =
     (if dropWhile (\<lambda>c. c \<notin> set line_breaks) (dropWhile (\<lambda>c. c \<in> set line_breaks) s) \<noteq> [] then Some cursor
      else if spare then Some [] else None)"

text \<open>The loop over the lines. \<open>spare\<close> says that the buffer goes on after its terminator.\<close>

function LoadMapFromMemory_loop :: "bool \<Rightarrow> string \<Rightarrow> loader \<Rightarrow> loader exec" where
  "LoadMapFromMemory_loop spare s l =
     (case strtok_r line_breaks s of
        None \<Rightarrow> Returns l
      | Some (buffer, cursor) \<Rightarrow>
          exec_bind (load_record buffer (text_after_line spare s cursor) cursor l) (\<lambda>(l', cursor').
            if num_errors l' > kMaxErrorsBeforeBailing then Returns l'
            else LoadMapFromMemory_loop spare cursor' l'))"
  by pat_completeness auto
termination
proof (relation "measure (\<lambda>(spare, s, l). length s)")
  fix spare s l p buffer cursor q l' cursor'
  assume line: "strtok_r line_breaks s = Some p" "(buffer, cursor) = p"
    and rec: "load_record buffer (text_after_line spare s cursor) cursor l = Returns q" "(l', cursor') = q"
  have "length cursor' \<le> length cursor"
    using load_record_cursor [of buffer "text_after_line spare s cursor" cursor l l' cursor'] rec length_clobbered
    by (auto simp: text_after_line_def clobbered_def split: if_split_asm)
  also have "length cursor < length s" using line by (intro strtok_r_shorter [of line_breaks _ buffer]) simp
  finally show "((spare, cursor', l'), (spare, s, l)) \<in> measure (\<lambda>(spare, s, l). length s)" by simp
qed simp

declare LoadMapFromMemory_loop.simps [simp del]

definition Module_LoadMapFromMemory :: "string \<Rightarrow> Module \<Rightarrow> (bool \<times> Module) exec" where
  "Module_LoadMapFromMemory memory_buffer m =
     (if memory_buffer = [] then Returns (True, m)
      else
        let body = butlast memory_buffer;
            content = rev (dropWhile (\<lambda>c. c = CHR 0x00) (rev body));
            spare = (length content < length body);
            has_null_terminator_in_the_middle = (CHR 0x00 \<in> set content);
            l = \<lparr>lmodule = m, cur_func = None,
                 num_errors = (if has_null_terminator_in_the_middle then 1 else 0)\<rparr>
        in exec_bind (LoadMapFromMemory_loop spare (map (\<lambda>c. if c = CHR 0x00 then CHR ''_'' else c) content) l)
             (\<lambda>l. Returns (True, (lmodule l)\<lparr>is_corrupt := num_errors l > 0\<rparr>)))"

section \<open>Queries\<close>

text \<open>\<open>module_base\<close> is \<open>frame->module->base_address()\<close>.\<close>

record StackFrame =
  instruction :: "64 word"
  module_base :: "64 word"
  function_name :: string
  function_base :: "64 word"
  source_file_name :: string
  source_line :: int
  source_line_base :: "64 word"

text \<open>The function whose range holds the address, and the base of the nearest function at or below it.\<close>

definition Module_LookupAddress :: "Module \<Rightarrow> StackFrame \<Rightarrow> StackFrame" where
  "Module_LookupAddress m frame =
     (let address = instruction frame - module_base frame;
          nearest = RangeMap_RetrieveNearestRange (function_map m) address
      in case nearest of
           Some (p, base, sz) \<Rightarrow>
             if address \<ge> base \<and> address - base < sz then
               let func = func_heap m ! p;
                   frame1 = frame\<lparr>function_name := fname func, function_base := module_base frame + base\<rparr>
               in (case RangeMap_RetrieveRange (lines func) address of
                     None \<Rightarrow> frame1
                   | Some (line, line_base, _) \<Rightarrow>
                       let it = omap_find (files m) (source_file_id line);
                           frame2 = (if it \<noteq> length (files m)
                                     then frame1\<lparr>source_file_name := snd (files m ! it)\<rparr> else frame1)
                       in frame2\<lparr>source_line := lline line, source_line_base := module_base frame + line_base\<rparr>)
             else
               (case AddressMap_Retrieve (public_symbols m) address of
                  Some (symbol, public_address) \<Rightarrow>
                    if public_address > base
                    then frame\<lparr>function_name := pname symbol, function_base := module_base frame + public_address\<rparr>
                    else frame
                | None \<Rightarrow> frame)
         | None \<Rightarrow>
             (case AddressMap_Retrieve (public_symbols m) address of
                Some (symbol, public_address) \<Rightarrow>
                  frame\<lparr>function_name := pname symbol, function_base := module_base frame + public_address\<rparr>
              | None \<Rightarrow> frame))"

text \<open>The parameter size of a PUBLIC symbol is written to the result that the code then throws away.\<close>

definition Module_FindWindowsFrameInfo :: "Module \<Rightarrow> StackFrame \<Rightarrow> WindowsFrameInfo option" where
  "Module_FindWindowsFrameInfo m frame =
     (let address = instruction frame - module_base frame;
          info = (case ContainedRangeMap_RetrieveRange (windows_frame_info m ! nat STACK_INFO_FRAME_DATA) address of
                    Some w \<Rightarrow> Some w
                  | None \<Rightarrow> ContainedRangeMap_RetrieveRange (windows_frame_info m ! nat STACK_INFO_FPO) address)
      in case info of
           Some frame_info \<Rightarrow> Some (WindowsFrameInfo_CopyFrom WindowsFrameInfo_default frame_info)
         | None \<Rightarrow>
             (case RangeMap_RetrieveNearestRange (function_map m) address of
                Some (p, base, sz) \<Rightarrow>
                  if address \<ge> base \<and> address - base < sz
                  then Some (WindowsFrameInfo_default\<lparr>
                         parameter_size := word_of_int (fparameter_size (func_heap m ! p)),
                         valid := valid WindowsFrameInfo_default OR VALID_PARAMETER_SIZE\<rparr>)
                  else None
              | None \<Rightarrow> None))"

definition ParseCFIRuleSet :: "string \<Rightarrow> CFIFrameInfo \<Rightarrow> bool \<times> CFIFrameInfo" where
  "ParseCFIRuleSet rule_set frame_info = CFIRuleParser_Parse CFIFrameInfoParseHandler rule_set frame_info"

text \<open>The result of a delta rule set is ignored, also when only part of it could be parsed.\<close>

fun apply_delta_rules :: "64 word \<Rightarrow> (64 word, string) omap \<Rightarrow> CFIFrameInfo \<Rightarrow> CFIFrameInfo" where
  "apply_delta_rules address [] rules = rules"
| "apply_delta_rules address (delta # deltas) rules =
     (if fst delta \<le> address then apply_delta_rules address deltas (snd (ParseCFIRuleSet (snd delta) rules))
      else rules)"

definition Module_FindCFIFrameInfo :: "Module \<Rightarrow> StackFrame \<Rightarrow> CFIFrameInfo option" where
  "Module_FindCFIFrameInfo m frame =
     (let address = instruction frame - module_base frame in
      case RangeMap_RetrieveRange (cfi_initial_rules m) address of
        None \<Rightarrow> None
      | Some (initial_rules, initial_base, _) \<Rightarrow>
          let (ok, rules) = ParseCFIRuleSet initial_rules CFIFrameInfo_empty in
          if \<not> ok then None
          else Some (apply_delta_rules address
                 (drop (lower_bound (cfi_delta_rules m) initial_base) (cfi_delta_rules m)) rules))"

section \<open>Invariant\<close>

definition func_ok :: "Function \<Rightarrow> bool" where
  "func_ok f \<longleftrightarrow> RangeMap_inv (lines f)"

definition module_inv :: "Module \<Rightarrow> bool" where
  "module_inv m \<longleftrightarrow>
     omap_ok (files m) \<and> RangeMap_inv (function_map m) \<and> omap_ok (public_symbols m) \<and>
     length (windows_frame_info m) = nat STACK_INFO_LAST \<and> (\<forall>n\<in>set (windows_frame_info m). crm_inv n) \<and>
     RangeMap_inv (cfi_initial_rules m) \<and> omap_ok (cfi_delta_rules m) \<and>
     (\<forall>f\<in>set (func_heap m). func_ok f) \<and>
     (\<forall>(b, h, p)\<in>RangeMap_ranges (function_map m). p < length (func_heap m) \<and>
        fsize (func_heap m ! p) \<noteq> 0 \<and> faddress (func_heap m ! p) = b \<and> faddress (func_heap m ! p) + fsize (func_heap m ! p) - 1 = h)"

definition loader_inv :: "loader \<Rightarrow> bool" where
  "loader_inv l \<longleftrightarrow> module_inv (lmodule l) \<and>
     (case cur_func l of None \<Rightarrow> True | Some p \<Rightarrow> p < length (func_heap (lmodule l)))"

lemma module_inv_empty [model_inv]: "module_inv Module_empty"
  by (auto simp: module_inv_def Module_empty_def RangeMap_ranges_def)

lemma module_inv_ParseFile [model_inv]: "module_inv m \<Longrightarrow> module_inv (snd (Module_ParseFile s m))"
  by (auto simp: Module_ParseFile_def module_inv_def omap_ok_insert split: option.split)

lemma module_inv_ParsePublicSymbol [model_inv]: "module_inv m \<Longrightarrow> module_inv (snd (Module_ParsePublicSymbol s m))"
  by (auto simp: Module_ParsePublicSymbol_def module_inv_def AddressMap_Store_def omap_ok_insert Let_def
      split: option.split)

lemma module_inv_ParseCFIFrameInfo [model_inv]: "module_inv m \<Longrightarrow> module_inv (snd (Module_ParseCFIFrameInfo s m))"
  by (auto simp: Module_ParseCFIFrameInfo_def module_inv_def rm.invar_store omap_ok_assign split: option.split)

lemma parsed_type_range:
  "WindowsFrameInfo_ParseFromString s = Some (t, rva, sz, w) \<Longrightarrow> 0 \<le> t \<and> t < STACK_INFO_LAST"
  by (auto simp: WindowsFrameInfo_ParseFromString_def Let_def split: option.split_asm if_split_asm)

lemma module_inv_ParseStackInfo [model_inv]:
  assumes "module_inv m" "Module_ParseStackInfo s beyond cursor m = Returns (ok, m', cursor')"
  shows "module_inv m'"
proof -
  have store: "module_inv (m\<lparr>windows_frame_info := (windows_frame_info m)[nat t :=
      snd (ContainedRangeMap_StoreRange (windows_frame_info m ! nat t) rva sz w)]\<rparr>)"
    if "WindowsFrameInfo_ParseFromString i = Some (t, rva, sz, w)" for i t rva sz w
  proof -
    have "nat t < length (windows_frame_info m)"
      using parsed_type_range [OF that] assms(1) by (auto simp: module_inv_def)
    then have "crm_inv (windows_frame_info m ! nat t)" using assms(1) by (auto simp: module_inv_def)
    then show ?thesis using assms(1) crm_inv_StoreRange
      by (auto simp: module_inv_def dest!: set_update_subset_insert [THEN subsetD])
  qed
  show ?thesis
    using assms(2) store assms(1) module_inv_ParseCFIFrameInfo [OF assms(1)]
    by (auto simp: Module_ParseStackInfo_def Let_def case_prod_beta exec_bind_Returns_iff
        split: if_split_asm option.split_asm)
qed

lemma loader_inv_function: "loader_inv l \<Longrightarrow> func_ok f \<Longrightarrow> loader_inv (load_function f l)"
proof -
  assume l: "loader_inv l" "func_ok f"
  let ?m = "lmodule l"
  have inv: "RangeMap_inv (function_map ?m)" using l(1) by (simp add: loader_inv_def module_inv_def)
  have entry: "fsize f \<noteq> 0 \<and> b = faddress f \<and> h = faddress f + fsize f - 1 \<and> p = length (func_heap ?m) \<or>
      (b, h, p) \<in> RangeMap_ranges (function_map ?m)"
    if "(b, h, p) \<in> RangeMap_ranges (snd (RangeMap_StoreRange (function_map ?m) (faddress f) (fsize f)
      (length (func_heap ?m))))" for b h p
    using that inv by (auto simp: rm.ranges_store rm.store_accepts split: if_split_asm)
  show ?thesis
    using l entry
    by (fastforce simp: loader_inv_def module_inv_def load_function_def Let_def rm.invar_store nth_append)
qed

lemma loader_inv_line: "loader_inv l \<Longrightarrow> cur_func l = Some p \<Longrightarrow> loader_inv (load_line p line l)"
proof -
  assume l: "loader_inv l" "cur_func l = Some p"
  let ?m = "lmodule l"
  let ?f = "(func_heap ?m ! p)\<lparr>lines := snd (RangeMap_StoreRange (lines (func_heap ?m ! p)) (laddress line) (lsize line) line)\<rparr>"
  have p: "p < length (func_heap ?m)" using l by (simp add: loader_inv_def)
  then have "func_ok (func_heap ?m ! p)" using l(1) by (auto simp: loader_inv_def module_inv_def)
  then have "func_ok ?f" by (simp add: func_ok_def rm.invar_store)
  moreover have "faddress ((func_heap ?m)[p := ?f] ! q) = faddress (func_heap ?m ! q) \<and>
      fsize ((func_heap ?m)[p := ?f] ! q) = fsize (func_heap ?m ! q)" for q
    using p by (cases "p = q") simp_all
  ultimately show ?thesis
    using l p unfolding loader_inv_def module_inv_def load_line_def Let_def
    by (auto dest!: set_update_subset_insert [THEN subsetD] split: prod.splits)
qed

lemma loader_inv_log: "loader_inv (LogParseError l) \<longleftrightarrow> loader_inv l"
  by (auto simp: loader_inv_def LogParseError_def split: option.splits)

lemma loader_inv_module:
  "loader_inv l \<Longrightarrow> module_inv m \<Longrightarrow> func_heap m = func_heap (lmodule l) \<Longrightarrow> loader_inv (l\<lparr>lmodule := m\<rparr>)"
  by (auto simp: loader_inv_def split: option.splits)

lemma loader_inv_no_func: "loader_inv l \<Longrightarrow> module_inv m \<Longrightarrow> loader_inv (l\<lparr>lmodule := m, cur_func := None\<rparr>)"
  by (simp add: loader_inv_def)

text \<open>Only FUNC records and source lines touch the functions.\<close>

lemma ParseFile_heap [simp]: "func_heap (snd (Module_ParseFile s m)) = func_heap m"
  by (simp add: Module_ParseFile_def split: option.split)

lemma ParseCFIFrameInfo_heap [simp]: "func_heap (snd (Module_ParseCFIFrameInfo s m)) = func_heap m"
  by (auto simp: Module_ParseCFIFrameInfo_def split: option.split)

lemma ParseStackInfo_heap:
  "Module_ParseStackInfo s beyond cursor m = Returns (ok, m', cursor') \<Longrightarrow> func_heap m' = func_heap m"
  using ParseCFIFrameInfo_heap
  by (auto simp: Module_ParseStackInfo_def Let_def case_prod_beta exec_bind_Returns_iff
      split: if_split_asm option.split_asm)

lemma ParseFunction_ok: "Module_ParseFunction s = Some f \<Longrightarrow> func_ok f"
  by (auto simp: Module_ParseFunction_def func_ok_def)

lemma loader_inv_record [model_inv]:
  assumes "loader_inv l" "load_record buffer beyond cursor l = Returns (l', cursor')"
  shows "loader_inv l'"
proof -
  have m: "module_inv (lmodule l)" using assms(1) by (simp add: loader_inv_def)
  have stack: "loader_inv (l\<lparr>lmodule := m'\<rparr>)"
    if "Module_ParseStackInfo buffer beyond cursor (lmodule l) = Returns (ok, m', c)" for ok m' c
    using assms(1) module_inv_ParseStackInfo [OF m that] ParseStackInfo_heap [OF that] by (rule loader_inv_module)
  have filed: "loader_inv (l\<lparr>lmodule := snd (Module_ParseFile buffer (lmodule l))\<rparr>)"
    using assms(1) m by (intro loader_inv_module) (simp_all add: module_inv_ParseFile)
  have public: "loader_inv (l\<lparr>lmodule := snd (Module_ParsePublicSymbol buffer (lmodule l)), cur_func := None\<rparr>)"
    using assms(1) m by (intro loader_inv_no_func) (simp_all add: module_inv_ParsePublicSymbol)
  have none: "loader_inv (l\<lparr>cur_func := None\<rparr>)" using assms(1) by (simp add: loader_inv_def)
  show ?thesis
    using assms filed public none
    by (auto simp: load_record_def Let_def case_prod_beta exec_bind_Returns_iff loader_inv_log
        intro: loader_inv_function loader_inv_line ParseFunction_ok stack
        split: if_split_asm option.split_asm)
qed

lemma loader_inv_loop [model_inv]:
  "loader_inv l \<Longrightarrow> LoadMapFromMemory_loop spare s l = Returns l' \<Longrightarrow> loader_inv l'"
proof (induction spare s l rule: LoadMapFromMemory_loop.induct)
  case (1 spare s l)
  show ?case
  proof (cases "strtok_r line_breaks s")
    case None
    with 1(2,3) show ?thesis by (simp add: LoadMapFromMemory_loop.simps [of spare s])
  next
    case (Some p)
    obtain buffer cursor where p: "p = (buffer, cursor)" by (cases p)
    from 1(3) Some p obtain l1 cursor1 where
      rec: "load_record buffer (text_after_line spare s cursor) cursor l = Returns (l1, cursor1)"
      and rest: "(if num_errors l1 > kMaxErrorsBeforeBailing then Returns l1
        else LoadMapFromMemory_loop spare cursor1 l1) = Returns l'"
      by (subst (asm) LoadMapFromMemory_loop.simps) (auto elim!: exec_bind_pairE)
    have inv1: "loader_inv l1" by (rule loader_inv_record [OF 1(2) rec])
    show ?thesis
    proof (cases "num_errors l1 > kMaxErrorsBeforeBailing")
      case True
      with rest inv1 show ?thesis by simp
    next
      case False
      with rest 1(1) [OF Some p [symmetric] rec refl False inv1] show ?thesis by simp
    qed
  qed
qed

lemma load_module_inv:
  assumes "module_inv m" "Module_LoadMapFromMemory memory_buffer m = Returns (ok, m')"
  shows "ok \<and> module_inv m'"
proof (cases "memory_buffer = []")
  case True
  with assms show ?thesis by (simp add: Module_LoadMapFromMemory_def)
next
  case False
  with assms(2) obtain spare s n l' where
    run: "LoadMapFromMemory_loop spare s \<lparr>lmodule = m, cur_func = None, num_errors = n\<rparr> = Returns l'"
    and m': "ok" "m' = (lmodule l')\<lparr>is_corrupt := num_errors l' > 0\<rparr>"
    by (auto simp: Module_LoadMapFromMemory_def Let_def exec_bind_Returns_iff)
  have "loader_inv \<lparr>lmodule = m, cur_func = None, num_errors = n\<rparr>" using assms(1) by (simp add: loader_inv_def)
  from loader_inv_loop [OF this run] m' show ?thesis by (simp add: loader_inv_def module_inv_def)
qed

text \<open>C9. Whenever a load of symbol data returns, for whatever bytes, it reports success and has kept the module
  well-formed: the symbol tables are sorted and free of overlaps, every function the table points to exists and has the
  stored range, and every frame-data tree is properly nested. (For which bytes a load returns is a separate question.)\<close>

theorem LoadMapFromMemory_inv:
  assumes "module_inv m" "Module_LoadMapFromMemory memory_buffer m = Returns (ok, m')"
  shows "ok \<and> module_inv m'"
  using assms by (rule load_module_inv)

section \<open>What the queries return\<close>

text \<open>The nearest function covers the address exactly when some function does.\<close>

lemma nearest_function:
  assumes "module_inv m"
  shows "case RangeMap_RetrieveNearestRange (function_map m) a of
      None \<Rightarrow> \<forall>(b, h, p)\<in>RangeMap_ranges (function_map m). a < b
    | Some (p, b, s) \<Rightarrow> b \<le> a \<and>
        (b, b + s - 1, p) \<in> RangeMap_ranges (function_map m) \<and>
        (a - b < s \<longleftrightarrow> a \<le> b + s - 1) \<and>
        (\<forall>(b', h', p')\<in>RangeMap_ranges (function_map m). b' \<le> a \<longrightarrow> b' \<le> b)"
proof -
  have inv: "RangeMap_inv (function_map m)" using assms by (simp add: module_inv_def)
  show ?thesis
  proof (cases "RangeMap_RetrieveNearestRange (function_map m) a")
    case None
    moreover from None have "\<forall>(b, h, p)\<in>RangeMap_ranges (function_map m). a < b"
      by (simp only: RangeMap_nearest_none [OF inv])
    ultimately show ?thesis by simp
  next
    case (Some hit)
    obtain p b s where hit: "hit = (p, b, s)" by (cases hit)
    from Some obtain h where h: "(b, h, p) \<in> RangeMap_ranges (function_map m)" "s = h - b + 1" "b \<le> a"
      "\<forall>(b', h', p')\<in>RangeMap_ranges (function_map m). b' \<le> a \<longrightarrow> b' \<le> b"
      by (auto simp: hit RangeMap_nearest_some [OF inv])
    have f: "fsize (func_heap m ! p) \<noteq> 0" "h = b + fsize (func_heap m ! p) - 1"
      using assms h(1) by (auto simp: module_inv_def)
    have "b \<le> h" using rm.ranges_nonempty [OF inv h(1)] .
    have s: "s = fsize (func_heap m ! p)" using f(2) h(2) by simp
    have "a - b < s \<longleftrightarrow> a \<le> b + s - 1" using f \<open>b \<le> h\<close> h(3) by (simp add: s offset_inside)
    with h f s show ?thesis by (simp add: Some hit)
  qed
qed

text \<open>What a frame is filled with inside a function, from its line table and the file table.\<close>

definition function_info :: "Module \<Rightarrow> StackFrame \<Rightarrow> nat \<Rightarrow> 64 word \<Rightarrow> StackFrame" where
  "function_info m frame p base =
     (let func = func_heap m ! p; address = instruction frame - module_base frame;
          frame1 = frame\<lparr>function_name := fname func, function_base := module_base frame + base\<rparr>
      in case RangeMap_RetrieveRange (lines func) address of
           None \<Rightarrow> frame1
         | Some (line, line_base, _) \<Rightarrow>
             (case map_of (files m) (source_file_id line) of
                Some name \<Rightarrow> frame1\<lparr>source_file_name := name\<rparr> | None \<Rightarrow> frame1)
             \<lparr>source_line := lline line, source_line_base := module_base frame + line_base\<rparr>)"

lemma omap_find_map_of:
  assumes "omap_ok m"
  shows "map_of m k = (if omap_find m k \<noteq> length m then Some (snd (m ! omap_find m k)) else None)"
proof (cases "k \<in> fst ` set m")
  case True
  then have lt: "omap_find m k < length m" using omap_find_iff [OF assms] by blast
  then have "fst (m ! omap_find m k) = k" by (rule omap_find_found)
  with map_of_nth [OF assms lt] lt show ?thesis by simp
next
  case False
  then have "\<not> omap_find m k < length m" using omap_find_iff [OF assms] by blast
  moreover have "omap_find m k \<le> length m" by (simp add: omap_find_def Let_def)
  ultimately show ?thesis using False by (simp add: map_of_eq_None_iff)
qed

lemma LookupAddress_inside:
  assumes "module_inv m" "(b, h, p) \<in> RangeMap_ranges (function_map m)"
    and "b \<le> instruction frame - module_base frame" "instruction frame - module_base frame \<le> h"
  shows "Module_LookupAddress m frame = function_info m frame p b"
proof -
  let ?a = "instruction frame - module_base frame"
  have inv: "RangeMap_inv (function_map m)" and fok: "omap_ok (files m)" using assms(1) by (simp_all add: module_inv_def)
  obtain q b' s where near: "RangeMap_RetrieveNearestRange (function_map m) ?a = Some (q, b', s)"
    "b' \<le> ?a" "(b', b' + s - 1, q) \<in> RangeMap_ranges (function_map m)" "?a - b' < s \<longleftrightarrow> ?a \<le> b' + s - 1"
    "\<forall>(b'', h', p')\<in>RangeMap_ranges (function_map m). b'' \<le> ?a \<longrightarrow> b'' \<le> b'"
    using nearest_function [OF assms(1), of ?a] assms(2,3) by (auto split: option.splits)
  have "b \<le> b'" using near(5) assms(2,3) by fastforce
  have "b' \<le> b' + s - 1" using rm.ranges_nonempty [OF inv near(3)] .
  have "\<not> h < b'" "\<not> b' + s - 1 < b" using \<open>b \<le> b'\<close> \<open>b' \<le> b' + s - 1\<close> near(2) assms(4) by order+
  then have "(b, h, p) = (b', b' + s - 1, q)" using rm.ranges_apart [OF inv assms(2) near(3)] by blast
  with near assms(4) show ?thesis
    by (simp add: Module_LookupAddress_def function_info_def Let_def omap_find_map_of [OF fok] split: option.split)
qed

text \<open>C11. Looking up an address inside a stored function fills in that function's name and base, and from its
  line table the file, line number and line base, exactly when a line record covers the address.\<close>

theorem LookupAddress_function:
  assumes "module_inv m" "(b, h, p) \<in> RangeMap_ranges (function_map m)"
    and "b \<le> instruction frame - module_base frame" "instruction frame - module_base frame \<le> h"
  shows "Module_LookupAddress m frame = function_info m frame p b"
  using assms by (rule LookupAddress_inside)

text \<open>C12. An address outside every stored function gets the name of the PUBLIC symbol at the greatest address
  not above it, provided that symbol lies above every function that starts at or below the address; otherwise the
  frame is left as it was. Line information is never filled in for a PUBLIC symbol.\<close>

theorem LookupAddress_public:
  assumes "module_inv m"
    and "\<forall>(b, h, p)\<in>RangeMap_ranges (function_map m).
      \<not> (b \<le> instruction frame - module_base frame \<and> instruction frame - module_base frame \<le> h)"
  shows "Module_LookupAddress m frame =
    (case AddressMap_Retrieve (public_symbols m) (instruction frame - module_base frame) of
       Some (symbol, k) \<Rightarrow>
         if \<forall>(b, h, p)\<in>RangeMap_ranges (function_map m). b \<le> instruction frame - module_base frame \<longrightarrow> b < k
         then frame\<lparr>function_name := pname symbol, function_base := module_base frame + k\<rparr> else frame
     | None \<Rightarrow> frame)"
proof -
  let ?a = "instruction frame - module_base frame"
  note near = nearest_function [OF assms(1), of ?a]
  show ?thesis
  proof (cases "RangeMap_RetrieveNearestRange (function_map m) ?a")
    case None
    with near have "\<forall>(b, h, p)\<in>RangeMap_ranges (function_map m). \<not> b \<le> ?a" by (auto simp: not_le)
    then have all: "(\<forall>(b, h, p)\<in>RangeMap_ranges (function_map m). b \<le> ?a \<longrightarrow> b < k)" for k by fastforce
    show ?thesis by (simp add: Module_LookupAddress_def Let_def None all split: option.split)
  next
    case (Some hit)
    obtain q b s where hit: "hit = (q, b, s)" by (cases hit)
    have n: "b \<le> ?a" "(b, b + s - 1, q) \<in> RangeMap_ranges (function_map m)" "?a - b < s \<longleftrightarrow> ?a \<le> b + s - 1"
      "\<forall>(b', h', p')\<in>RangeMap_ranges (function_map m). b' \<le> ?a \<longrightarrow> b' \<le> b"
      using near by (simp_all add: Some hit)
    have out: "\<not> ?a - b < s" using n(1-3) assms(2) by auto
    have "(\<forall>(b', h, p)\<in>RangeMap_ranges (function_map m). b' \<le> ?a \<longrightarrow> b' < k) \<longleftrightarrow> b < k" for k
      using n(1,2,4) by (auto intro: le_less_trans)
    then show ?thesis
      using out n(1) by (simp add: Module_LookupAddress_def Let_def Some hit split: option.split)
  qed
qed

lemma apply_delta_rules_fold:
  "omap_ok ds \<Longrightarrow> apply_delta_rules a ds rules =
    foldl (\<lambda>r d. snd (ParseCFIRuleSet (snd d) r)) rules (filter (\<lambda>d. fst d \<le> a) ds)"
proof (induction ds arbitrary: rules)
  case (Cons d ds)
  show ?case
  proof (cases "fst d \<le> a")
    case False
    then have "\<forall>e\<in>set ds. \<not> fst e \<le> a" using Cons.prems by (auto simp: omap_ok_Cons)
    with False show ?thesis by (simp add: filter_empty_conv)
  qed (use Cons in \<open>simp add: omap_ok_Cons\<close>)
qed simp

text \<open>C13. The CFI rules in force at an address are those of the initial record that covers it, amended in
  ascending order by exactly the delta records from the start of that record up to and including the address.\<close>

theorem FindCFIFrameInfo_rules:
  assumes "module_inv m"
  shows "Module_FindCFIFrameInfo m frame =
    (case RangeMap_RetrieveRange (cfi_initial_rules m) (instruction frame - module_base frame) of
       None \<Rightarrow> None
     | Some (initial_rules, base, _) \<Rightarrow>
         if fst (ParseCFIRuleSet initial_rules CFIFrameInfo_empty)
         then Some (foldl (\<lambda>r d. snd (ParseCFIRuleSet (snd d) r)) (snd (ParseCFIRuleSet initial_rules CFIFrameInfo_empty))
           (filter (\<lambda>d. base \<le> fst d \<and> fst d \<le> instruction frame - module_base frame) (cfi_delta_rules m)))
         else None)"
proof -
  have ok: "omap_ok (cfi_delta_rules m)" using assms by (simp add: module_inv_def)
  have drop: "drop (lower_bound (cfi_delta_rules m) k) (cfi_delta_rules m) = filter (\<lambda>d. k \<le> fst d) (cfi_delta_rules m)" for k
    using ok by (simp add: lower_bound_def drop_length_takeWhile dropWhile_lt_filter)
  show ?thesis
    by (simp add: Module_FindCFIFrameInfo_def drop apply_delta_rules_fold omap_ok_filter ok case_prod_beta Let_def
        conj_commute split: option.split)
qed

text \<open>Windows frame data for an address is the innermost FRAME_DATA record around it, else the innermost
  FPO record, else the parameter size of the function that covers it; an address with neither has none.\<close>

theorem FindWindowsFrameInfo_sources:
  assumes "module_inv m"
  shows "case Module_FindWindowsFrameInfo m frame of
      Some w \<Rightarrow>
        (\<exists>b h. smallest_around (crm_ranges (windows_frame_info m ! 4)) (instruction frame - module_base frame) (b, h, w)) \<or>
        (\<exists>b h. smallest_around (crm_ranges (windows_frame_info m ! 0)) (instruction frame - module_base frame) (b, h, w) \<and>
           ContainedRangeMap_RetrieveRange (windows_frame_info m ! 4) (instruction frame - module_base frame) = None) \<or>
        (\<exists>(b, h, p)\<in>RangeMap_ranges (function_map m).
           b \<le> instruction frame - module_base frame \<and> instruction frame - module_base frame \<le> h \<and>
           valid w = VALID_PARAMETER_SIZE \<and> parameter_size w = word_of_int (fparameter_size (func_heap m ! p)))
    | None \<Rightarrow>
        ContainedRangeMap_RetrieveRange (windows_frame_info m ! 4) (instruction frame - module_base frame) = None \<and>
        ContainedRangeMap_RetrieveRange (windows_frame_info m ! 0) (instruction frame - module_base frame) = None \<and>
        (\<forall>(b, h, p)\<in>RangeMap_ranges (function_map m).
           \<not> (b \<le> instruction frame - module_base frame \<and> instruction frame - module_base frame \<le> h))"
proof -
  let ?a = "instruction frame - module_base frame"
  let ?r = "\<lambda>i. ContainedRangeMap_RetrieveRange (windows_frame_info m ! i) ?a"
  have crm: "crm_inv (windows_frame_info m ! 4)" "crm_inv (windows_frame_info m ! 0)"
    using assms by (auto simp: module_inv_def STACK_INFO_LAST_def)
  note hit = crm.retrieve_smallest [OF crm(1), of ?a] crm.retrieve_smallest [OF crm(2), of ?a]
  have inv: "RangeMap_inv (function_map m)" using assms by (simp add: module_inv_def)
  have copy: "WindowsFrameInfo_CopyFrom WindowsFrameInfo_default w = w" for w
    by (simp add: WindowsFrameInfo_CopyFrom_def)
  have def4: "nat STACK_INFO_FRAME_DATA = 4" "nat STACK_INFO_FPO = 0"
    by (simp_all add: STACK_INFO_FRAME_DATA_def STACK_INFO_FPO_def)
  show ?thesis
  proof (cases "?r 4 = None \<and> ?r 0 = None")
    case False
    then show ?thesis
      using hit by (auto simp: Module_FindWindowsFrameInfo_def Let_def def4 copy split: option.split)
  next
    case True
    show ?thesis
    proof (cases "RangeMap_RetrieveNearestRange (function_map m) ?a")
      case None
      with nearest_function [OF assms, of ?a] True show ?thesis
        by (auto simp: Module_FindWindowsFrameInfo_def Let_def def4)
    next
      case (Some n)
      obtain q b s where n: "n = (q, b, s)" by (cases n)
      have near: "b \<le> ?a" "(b, b + s - 1, q) \<in> RangeMap_ranges (function_map m)" "?a - b < s \<longleftrightarrow> ?a \<le> b + s - 1"
        "\<forall>(b', h', p')\<in>RangeMap_ranges (function_map m). b' \<le> ?a \<longrightarrow> b' \<le> b"
        using nearest_function [OF assms, of ?a] by (simp_all add: Some n)
      have none: "\<not> (b' \<le> ?a \<and> ?a \<le> h')" if "\<not> ?a - b < s" "(b', h', p') \<in> RangeMap_ranges (function_map m)" for b' h' p'
        using rm.ranges_apart [OF inv near(2) that(2)] rm.ranges_nonempty [OF inv that(2)]
          rm.ranges_nonempty [OF inv near(2)] near that by fastforce
      show ?thesis
        using True near none
        by (fastforce simp: Module_FindWindowsFrameInfo_def Let_def def4 Some n WindowsFrameInfo_default_def VALID_NONE_def)
    qed
  qed
qed

section \<open>Witnesses\<close>

text \<open>A module with one function, one line and one PUBLIC symbol.\<close>

definition sample_module :: Module where
  "sample_module = Module_empty\<lparr>
     files := [(1, ''a.c'')],
     function_map := [(0x100F, \<lparr>rbase = 0x1000, rentry = 0\<rparr>)],
     func_heap := [\<lparr>fname = ''f'', faddress = 0x1000, fsize = 0x10, fparameter_size = 8,
       lines = [(0x1007, \<lparr>rbase = 0x1000, rentry = \<lparr>laddress = 0x1000, lsize = 8, source_file_id = 1, lline = 7\<rparr>\<rparr>)]\<rparr>],
     public_symbols := [(0x2000, \<lparr>pname = ''p'', paddress = 0x2000, pparameter_size = 0\<rparr>)],
     cfi_initial_rules := [(0x100F, \<lparr>rbase = 0x1000, rentry = ''.cfa: 4 .ra: 8''\<rparr>)]\<rparr>"

definition sample_frame :: "64 word \<Rightarrow> StackFrame" where
  "sample_frame pc = \<lparr>instruction = pc, module_base = 0, function_name = [], function_base = 0,
     source_file_name = [], source_line = 0, source_line_base = 0\<rparr>"

lemma sample_module_inv: "module_inv sample_module"
  by (auto simp: module_inv_def sample_module_def Module_empty_def RangeMap_inv_def RangeMap_ranges_def omap_ok_def
      func_ok_def)

text \<open>The module of a file with one FUNC record.\<close>

definition func_module :: Module where
  "func_module = Module_empty\<lparr>function_map := [(0x17, \<lparr>rbase = 0x10, rentry = 0\<rparr>)],
     func_heap := [\<lparr>fname = ''f'', faddress = 0x10, fsize = 8, fparameter_size = 0, lines = []\<rparr>]\<rparr>"

lemma func_record:
  "Module_ParseFunction ''FUNC 10 8 0 f'' =
    Some \<lparr>fname = ''f'', faddress = 0x10, fsize = 8, fparameter_size = 0, lines = []\<rparr>"
proof -
  have "Tokenize ''10 8 0 f'' kWhitespace 4 = Some [''10'', ''8'', ''0'', ''f'']"
    by (simp add: Tokenize_def strtok_r_def kWhitespace_def line_breaks_def eval_nat_numeral)
  moreover have "strtoull 16 ''10'' = (0x10, [])" "strtoull 16 ''8'' = (8, [])" "strtol 16 ''0'' = (0, [])"
    by (simp_all add: strtoull_def strtol_def strto_def strto_prefix_def c_digit_def is_space_def base_value_def
        LONG_MAX_def LONG_MIN_def)
  ultimately show ?thesis
    by (simp add: Module_ParseFunction_def SymbolParseHelper_ParseFunction_def IsValidAfterNumber_def LONG_MAX_def to_int32_def)
qed

lemma func_module_loaded:
  "Module_LoadMapFromMemory (''FUNC 10 8 0 f'' @ [CHR 0x00]) Module_empty = Returns (True, func_module)"
proof -
  have "strtok_r line_breaks ''FUNC 10 8 0 f'' = Some (''FUNC 10 8 0 f'', [])" "strtok_r line_breaks [] = None"
    by (simp_all add: strtok_r_def line_breaks_def)
  then show ?thesis
    by (simp add: Module_LoadMapFromMemory_def LoadMapFromMemory_loop.simps load_record_def func_record load_function_def
        func_module_def Module_empty_def RangeMap_StoreRange_def omap_insert_def omap_find_def lower_bound_def
        kMaxErrorsBeforeBailing_def)
qed

lemma LoadMapFromMemory_inv_witness:
  "\<exists>m. Module_LoadMapFromMemory (''FUNC 10 8 0 f'' @ [CHR 0x00]) Module_empty = Returns (True, m) \<and>
     function_map m \<noteq> [] \<and> module_inv m"
proof -
  have "module_inv func_module"
    using LoadMapFromMemory_inv [OF module_inv_empty func_module_loaded] by simp
  then show ?thesis using func_module_loaded by (simp add: func_module_def)
qed

lemma LookupAddress_function_witness:
  "function_name (Module_LookupAddress sample_module (sample_frame 0x1004)) = ''f'' \<and>
   source_file_name (Module_LookupAddress sample_module (sample_frame 0x1004)) = ''a.c'' \<and>
   source_line (Module_LookupAddress sample_module (sample_frame 0x1004)) = 7"
proof -
  have "Module_LookupAddress sample_module (sample_frame 0x1004) = function_info sample_module (sample_frame 0x1004) 0 0x1000"
    by (rule LookupAddress_function [OF sample_module_inv, of "0x1000" "0x100F" 0])
      (simp_all add: sample_module_def sample_frame_def RangeMap_ranges_def)
  then show ?thesis
    by (simp add: function_info_def sample_module_def sample_frame_def RangeMap_RetrieveRange_def lower_bound_def
        RangeMap_hit_def)
qed

lemma LookupAddress_public_witness:
  "function_name (Module_LookupAddress sample_module (sample_frame 0x2004)) = ''p''"
  using LookupAddress_public [OF sample_module_inv, of "sample_frame 0x2004"]
  by (simp add: sample_module_def sample_frame_def RangeMap_ranges_def AddressMap_Retrieve_def upper_bound_def)

lemma FindCFIFrameInfo_rules_witness:
  "Module_FindCFIFrameInfo sample_module (sample_frame 0x1004) =
    Some \<lparr>cfa_rule = ''4'', ra_rule = ''8'', register_rules = []\<rparr>"
  using FindCFIFrameInfo_rules [OF sample_module_inv, of "sample_frame 0x1004"]
  by (simp add: sample_module_def sample_frame_def RangeMap_RetrieveRange_def lower_bound_def RangeMap_hit_def
      Module_empty_def ParseCFIRuleSet_def CFIRuleParser_Parse_def c_str_def cfi_token_breaks_def strtok_all_eval
      CFIRuleParser_Report_def CFIFrameInfoParseHandler_def SetCFARule_def SetRARule_def CFIFrameInfo_empty_def)

lemma FindWindowsFrameInfo_sources_witness:
  "\<exists>w. Module_FindWindowsFrameInfo sample_module (sample_frame 0x1004) = Some w"
proof (rule ccontr)
  assume "\<nexists>w. Module_FindWindowsFrameInfo sample_module (sample_frame 0x1004) = Some w"
  then have "Module_FindWindowsFrameInfo sample_module (sample_frame 0x1004) = None" by auto
  with FindWindowsFrameInfo_sources [OF sample_module_inv, of "sample_frame 0x1004"]
  show False by (simp add: sample_module_def sample_frame_def RangeMap_ranges_def)
qed

end
