(* ===== verification/Symbol_File.thy ===== *)
theory Symbol_File
  imports Source_Line_Resolver
begin

text \<open>
  Whole symbol files: the records of the format as data, their printed form, and the proof that loading a
  printed file applies its records one after the other.
\<close>

section \<open>Records\<close>

datatype sym_record =
    FileRec nat string
  | FuncRec "64 word" "64 word" nat string
  | LineRec "64 word" "64 word" nat nat
  | PublicRec "64 word" nat string
  | WinRec "64 word" "64 word" WindowsFrameInfo
  | CfiInitRec "64 word" "64 word" string
  | CfiDeltaRec "64 word" string
  | ModuleRec string
  | InfoRec string

definition blank_fields :: "string list \<Rightarrow> string" where
  "blank_fields fs = concat (map (\<lambda>f. f @ '' '') fs)"

fun show_record :: "sym_record \<Rightarrow> string" where
  "show_record (FileRec i n) = ''FILE '' @ blank_fields [show_base 10 i] @ n"
| "show_record (FuncRec a s ps n) = ''FUNC '' @ blank_fields [show_hex a, show_hex s, show_base 16 ps] @ n"
| "show_record (LineRec a s ln f) = blank_fields [show_hex a, show_hex s, show_base 10 ln] @ show_base 10 f"
| "show_record (PublicRec a ps n) = ''PUBLIC '' @ blank_fields [show_hex a, show_base 16 ps] @ n"
| "show_record (WinRec a s w) = ''STACK WIN '' @ print_windows_frame_info a s w"
| "show_record (CfiInitRec a s rules) = ''STACK CFI '' @ blank_fields [''INIT'', show_hex a, show_hex s] @ rules"
| "show_record (CfiDeltaRec a rules) = ''STACK CFI '' @ blank_fields [show_hex a] @ rules"
| "show_record (ModuleRec s) = ''MODULE '' @ s"
| "show_record (InfoRec s) = ''INFO '' @ s"

definition long_ok :: "nat \<Rightarrow> bool" where
  "long_ok n \<longleftrightarrow> int n < LONG_MAX"

fun record_ok :: "sym_record \<Rightarrow> bool" where
  "record_ok (FileRec i n) \<longleftrightarrow> long_ok i \<and> free_of line_breaks n"
| "record_ok (FuncRec a s ps n) \<longleftrightarrow> a \<noteq> - 1 \<and> s \<noteq> - 1 \<and> long_ok ps \<and> free_of line_breaks n"
| "record_ok (LineRec a s ln f) \<longleftrightarrow> a \<noteq> - 1 \<and> s \<noteq> - 1 \<and> long_ok ln \<and> long_ok f"
| "record_ok (PublicRec a ps n) \<longleftrightarrow> a \<noteq> - 1 \<and> long_ok ps \<and> free_of line_breaks n"
| "record_ok (WinRec a s w) \<longleftrightarrow> printable_frame_info w"
| "record_ok (CfiInitRec a s rules) \<longleftrightarrow> free_of line_breaks rules"
| "record_ok (CfiDeltaRec a rules) \<longleftrightarrow> free_of line_breaks rules"
| "record_ok (ModuleRec s) \<longleftrightarrow> set s \<inter> set line_breaks = {}"
| "record_ok (InfoRec s) \<longleftrightarrow> set s \<inter> set line_breaks = {}"

text \<open>The meaning of a record: which table it enters.\<close>

fun apply_record :: "sym_record \<Rightarrow> loader \<Rightarrow> loader" where
  "apply_record (FileRec i n) l =
     l\<lparr>lmodule := (lmodule l)\<lparr>files := omap_insert (to_int32 (int i)) n (files (lmodule l))\<rparr>\<rparr>"
| "apply_record (FuncRec a s ps n) l =
     load_function \<lparr>fname = n, faddress = a, fsize = s, fparameter_size = to_int32 (int ps), lines = []\<rparr> l"
| "apply_record (LineRec a s ln f) l =
     (case cur_func l of
        None \<Rightarrow> LogParseError l
      | Some p \<Rightarrow>
          load_line p \<lparr>laddress = a, lsize = s, source_file_id = to_int32 (int f), lline = to_int32 (int ln)\<rparr> l)"
| "apply_record (PublicRec a ps n) l =
     (if a = 0 then l\<lparr>cur_func := None\<rparr>
      else
        let (ok, symbols) = AddressMap_Store (public_symbols (lmodule l)) a
              \<lparr>pname = n, paddress = a, pparameter_size = to_int32 (int ps)\<rparr>;
            l' = l\<lparr>lmodule := (lmodule l)\<lparr>public_symbols := symbols\<rparr>, cur_func := None\<rparr>
        in if ok then l' else LogParseError l')"
| "apply_record (WinRec a s w) l =
     l\<lparr>lmodule := (lmodule l)\<lparr>windows_frame_info := (windows_frame_info (lmodule l))[nat (type_of_info w) :=
       snd (ContainedRangeMap_StoreRange (windows_frame_info (lmodule l) ! nat (type_of_info w)) a s w)]\<rparr>\<rparr>"
| "apply_record (CfiInitRec a s rules) l =
     l\<lparr>lmodule := (lmodule l)\<lparr>cfi_initial_rules :=
       snd (RangeMap_StoreRange (cfi_initial_rules (lmodule l)) a s rules)\<rparr>\<rparr>"
| "apply_record (CfiDeltaRec a rules) l =
     l\<lparr>lmodule := (lmodule l)\<lparr>cfi_delta_rules := omap_assign a rules (cfi_delta_rules (lmodule l))\<rparr>\<rparr>"
| "apply_record (ModuleRec s) l = l"
| "apply_record (InfoRec s) l = l"

section \<open>One record\<close>

lemma blank_kWhitespace: "CHR '' '' \<in> set kWhitespace"
  by (simp add: kWhitespace_def)

lemma Tokenize_fields:
  "fs \<noteq> [] \<Longrightarrow> \<forall>f\<in>set fs. free_of kWhitespace f \<Longrightarrow> free_of line_breaks lst \<Longrightarrow> n = Suc (length fs) \<Longrightarrow>
    Tokenize (blank_fields fs @ lst) kWhitespace n = Some (fs @ [lst])"
  unfolding blank_fields_def using Tokenize_record [OF blank_kWhitespace, of fs lst] by blast

lemma free_of_line_breaks: "free_of kWhitespace t \<Longrightarrow> free_of line_breaks t"
  by (auto simp: free_of_def kWhitespace_def line_breaks_def)

lemma strtoull_hex64 [simp]: "strtoull 16 (show_hex (w :: 64 word)) = (w, [])"
  using strtoull_show_hex [of w] by simp

lemma strtoul_hex64 [simp]: "strtoul 16 (show_hex (w :: 64 word)) = w"
  by (simp add: strtoul_def)

lemma strtol_ok [simp]:
  "long_ok n \<Longrightarrow> strtol 16 (show_base 16 n) = (int n, [])" "long_ok n \<Longrightarrow> strtol 10 (show_base 10 n) = (int n, [])"
  by (simp_all add: long_ok_def strtol_show)

lemma long_ok_not_max: "long_ok n \<Longrightarrow> int n \<noteq> LONG_MAX"
  by (simp add: long_ok_def)

lemma valid_after_end [simp]: "IsValidAfterNumber []"
  by (simp add: IsValidAfterNumber_def)

lemmas field_words = show_hex_free show_base_free free_of_line_breaks


lemma parse_file:
  "record_ok (FileRec i n) \<Longrightarrow> SymbolParseHelper_ParseFile (show_record (FileRec i n)) = Some (int i, n)"
  using Tokenize_fields [of "[show_base 10 i]" n 2]
  by (simp add: SymbolParseHelper_ParseFile_def field_words long_ok_not_max)

lemma parse_function:
  "record_ok (FuncRec a s ps n) \<Longrightarrow>
    SymbolParseHelper_ParseFunction (show_record (FuncRec a s ps n)) = Some (a, s, int ps, n)"
  using Tokenize_fields [of "[show_hex a, show_hex s, show_base 16 ps]" n 4]
  by (simp add: SymbolParseHelper_ParseFunction_def field_words long_ok_not_max)

lemma parse_line:
  "record_ok (LineRec a s ln f) \<Longrightarrow>
    SymbolParseHelper_ParseLine (show_record (LineRec a s ln f)) = Some (a, s, int ln, int f)"
  using Tokenize_fields [of "[show_hex a, show_hex s, show_base 10 ln]" "show_base 10 f" 4]
  by (simp add: SymbolParseHelper_ParseLine_def field_words long_ok_not_max)

lemma parse_public:
  "record_ok (PublicRec a ps n) \<Longrightarrow>
    SymbolParseHelper_ParsePublicSymbol (show_record (PublicRec a ps n)) = Some (a, int ps, n)"
  using Tokenize_fields [of "[show_hex a, show_base 16 ps]" n 3]
  by (simp add: SymbolParseHelper_ParsePublicSymbol_def field_words long_ok_not_max)

lemma strtok_field:
  "free_of kWhitespace f \<Longrightarrow> strtok_r kWhitespace (f @ CHR '' '' # s) = Some (f, s)"
  using strtok_r_word [of kWhitespace f "CHR '' '' # s"] by (simp add: blank_kWhitespace)

lemma strtok_last: "free_of line_breaks s \<Longrightarrow> strtok_r line_breaks s = Some (s, [])"
  using strtok_r_word [of line_breaks s "[]"] by simp

lemma INIT_free: "free_of kWhitespace ''INIT''"
  by (simp add: free_of_def kWhitespace_def)

lemma hex_char: "c \<in> set (show_hex w) \<Longrightarrow> \<exists>d<16. c = digit_of d"
  unfolding show_hex_def by (rule show_base_digits) simp_all

lemma hex_not_upper: "c \<in> set (show_hex w) \<Longrightarrow> c \<notin> set ''FSPMI''"
proof
  assume "c \<in> set (show_hex w)" "c \<in> set ''FSPMI''"
  then obtain d where "d < 16" "digit_of d \<in> set ''FSPMI''" using hex_char by blast
  then have "of_char (digit_of d) \<in> {70, 83, 80, 77, 73 :: nat}" by auto
  with \<open>d < 16\<close> show False by (auto simp: digit_of_def of_char_of split: if_split_asm)
qed

lemma show_hex_Cons: obtains c s where "show_hex w = c # s" "c \<notin> set ''FSPMI''"
proof (cases "show_hex w")
  case Nil
  then show ?thesis by (simp add: show_hex_def)
next
  case (Cons c s)
  with hex_not_upper [of c w] that show ?thesis by simp
qed

lemma parse_cfi:
  "free_of line_breaks rules \<Longrightarrow>
    Module_ParseCFIFrameInfo (blank_fields [''INIT'', show_hex a, show_hex s] @ rules) m =
      (True, m\<lparr>cfi_initial_rules := snd (RangeMap_StoreRange (cfi_initial_rules m) a s rules)\<rparr>)"
  "free_of line_breaks rules \<Longrightarrow>
    Module_ParseCFIFrameInfo (blank_fields [show_hex a] @ rules) m =
      (True, m\<lparr>cfi_delta_rules := omap_assign a rules (cfi_delta_rules m)\<rparr>)"
proof -
  assume rules: "free_of line_breaks rules"
  show "Module_ParseCFIFrameInfo (blank_fields [''INIT'', show_hex a, show_hex s] @ rules) m =
      (True, m\<lparr>cfi_initial_rules := snd (RangeMap_StoreRange (cfi_initial_rules m) a s rules)\<rparr>)"
    using strtok_field [OF INIT_free, of "show_hex a @ CHR '' '' # show_hex s @ CHR '' '' # rules"]
    by (simp add: Module_ParseCFIFrameInfo_def blank_fields_def strtok_field show_hex_free strtok_last [OF rules])
  obtain c t where "show_hex a = c # t" "c \<notin> set ''FSPMI''" by (rule show_hex_Cons)
  then have "show_hex a \<noteq> ''INIT''" by auto
  then show "Module_ParseCFIFrameInfo (blank_fields [show_hex a] @ rules) m =
      (True, m\<lparr>cfi_delta_rules := omap_assign a rules (cfi_delta_rules m)\<rparr>)"
    by (simp add: Module_ParseCFIFrameInfo_def blank_fields_def strtok_field show_hex_free strtok_last [OF rules])
qed

lemma parse_stack:
  "Module_ParseStackInfo (''STACK WIN '' @ s) beyond cursor m =
    (case WindowsFrameInfo_ParseFromString s of
       None \<Rightarrow> Returns (False, m, cursor)
     | Some (t, rva, sz, w) \<Rightarrow>
         Returns (True, m\<lparr>windows_frame_info := (windows_frame_info m)[nat t :=
           snd (ContainedRangeMap_StoreRange (windows_frame_info m ! nat t) rva sz w)]\<rparr>, cursor))"
  "Module_ParseStackInfo (''STACK CFI '' @ s) beyond cursor m =
    Returns (fst (Module_ParseCFIFrameInfo s m), snd (Module_ParseCFIFrameInfo s m), cursor)"
  by (simp_all add: Module_ParseStackInfo_def kWhitespace_def case_prod_beta Let_def)

text \<open>Loading one printed record does what the record means and touches nothing of the rest of the file.\<close>

lemma load_show_record:
  assumes "record_ok r"
  shows "load_record (show_record r) beyond cursor l = Returns (apply_record r l, cursor)"
proof (cases r)
  case (FileRec i n)
  then show ?thesis using parse_file [of i n] assms
    by (simp add: load_record_def Module_ParseFile_def)
next
  case (FuncRec a s ps n)
  then show ?thesis using parse_function [of a s ps n] assms
    by (simp add: load_record_def Module_ParseFunction_def)
next
  case (LineRec a s ln f)
  obtain c t where ct: "show_hex a = c # t" "c \<notin> set ''FSPMI''" by (rule show_hex_Cons)
  with LineRec parse_line [of a s ln f] assms show ?thesis
    by (simp add: load_record_def blank_fields_def Module_ParseLine_def split: option.split)
next
  case (PublicRec a ps n)
  then show ?thesis using parse_public [of a ps n] assms
    by (simp add: load_record_def Module_ParsePublicSymbol_def case_prod_beta Let_def)
next
  case (WinRec a s w)
  then show ?thesis using assms parse_stack(1) [of "print_windows_frame_info a s w" beyond cursor "lmodule l"]
    by (simp add: load_record_def WindowsFrameInfo_print_parse)
next
  case (CfiInitRec a s rules)
  then show ?thesis
    using assms parse_stack(2) [of "blank_fields [''INIT'', show_hex a, show_hex s] @ rules" beyond cursor "lmodule l"]
    by (simp add: load_record_def parse_cfi(1))
next
  case (CfiDeltaRec a rules)
  then show ?thesis using assms parse_stack(2) [of "blank_fields [show_hex a] @ rules" beyond cursor "lmodule l"]
    by (simp add: load_record_def parse_cfi(2))
qed (simp_all add: load_record_def)

section \<open>Whole files\<close>

definition file_text :: "sym_record list \<Rightarrow> string" where
  "file_text rs = concat (map (\<lambda>r. show_record r @ [CHR 10]) rs)"

text \<open>The records in order; like the loader, stop when too many of them were in error.\<close>

fun apply_records :: "sym_record list \<Rightarrow> loader \<Rightarrow> loader" where
  "apply_records [] l = l"
| "apply_records (r # rs) l =
     (let l' = apply_record r l in if num_errors l' > kMaxErrorsBeforeBailing then l' else apply_records rs l')"

lemma free_of_append [simp]:
  "free_of breaks (s @ t) \<longleftrightarrow> (s \<noteq> [] \<or> t \<noteq> []) \<and> set s \<inter> set breaks = {} \<and> set t \<inter> set breaks = {}"
  by (auto simp: free_of_def)

lemma number_no_break [simp]:
  "CHR 13 \<notin> set (show_hex w)" "CHR 10 \<notin> set (show_hex w)"
  "CHR 13 \<notin> set (show_base 16 n)" "CHR 10 \<notin> set (show_base 16 n)"
  "CHR 13 \<notin> set (show_base 10 n)" "CHR 10 \<notin> set (show_base 10 n)"
  using show_base_free [of 16 n] show_base_free [of 10 n] show_hex_free [of w]
  by (simp_all add: free_of_def kWhitespace_def)

lemma print_windows_free: "printable_frame_info w \<Longrightarrow> set (print_windows_frame_info a s w) \<inter> set line_breaks = {}"
  by (auto simp: print_windows_frame_info_def printable_frame_info_def free_of_def line_breaks_def)

lemma show_record_free: "record_ok r \<Longrightarrow> free_of line_breaks (show_record r)"
  using print_windows_free
  by (cases r) (auto simp: blank_fields_def free_of_def line_breaks_def, (simp add: show_hex_def)?)

lemma loop_Some:
  "strtok_r line_breaks s = Some (buffer, cursor) \<Longrightarrow>
    LoadMapFromMemory_loop spare s l =
      exec_bind (load_record buffer (text_after_line spare s cursor) cursor l) (\<lambda>(l', cursor').
        if num_errors l' > kMaxErrorsBeforeBailing then Returns l' else LoadMapFromMemory_loop spare cursor' l')"
  by (subst LoadMapFromMemory_loop.simps) simp

lemma loop_None: "strtok_r line_breaks s = None \<Longrightarrow> LoadMapFromMemory_loop spare s l = Returns l"
  by (subst LoadMapFromMemory_loop.simps) simp

lemma load_file_loop:
  "\<forall>r\<in>set rs. record_ok r \<Longrightarrow> LoadMapFromMemory_loop spare (file_text rs) l = Returns (apply_records rs l)"
proof (induction rs arbitrary: l)
  case Nil
  then show ?case by (simp add: file_text_def loop_None strtok_r_def)
next
  case (Cons r rs)
  have "strtok_r line_breaks (file_text (r # rs)) = Some (show_record r, file_text rs)"
    using strtok_r_word [OF show_record_free, of r "CHR 10 # file_text rs"] Cons.prems
    by (simp add: file_text_def line_breaks_def)
  then show ?case using Cons by (simp add: loop_Some load_show_record Let_def)
qed

lemma load_file_text:
  assumes "\<forall>r\<in>set rs. record_ok r" "CHR 0x00 \<notin> set (file_text rs)"
  shows "Module_LoadMapFromMemory (file_text rs @ [CHR 0x00]) m =
    Returns (True, (lmodule (apply_records rs \<lparr>lmodule = m, cur_func = None, num_errors = 0\<rparr>))
      \<lparr>is_corrupt := 0 < num_errors (apply_records rs \<lparr>lmodule = m, cur_func = None, num_errors = 0\<rparr>)\<rparr>)"
proof -
  have keep: "rev (dropWhile (\<lambda>c. c = CHR 0x00) (rev (file_text rs))) = file_text rs"
    using assms(2) by (cases "rev (file_text rs)") (auto simp: rev_eq_Cons_iff)
  have same: "map (\<lambda>c. if c = CHR 0x00 then CHR ''_'' else c) (file_text rs) = file_text rs"
    using assms(2) by (intro map_idI) auto
  show ?thesis
    using assms(2) unfolding Module_LoadMapFromMemory_def Let_def butlast_snoc keep same load_file_loop [OF assms(1)]
    by simp
qed

text \<open>C8. Loading the text of a symbol file, printed from any list of well-formed records, applies the records in
  the order of the file: each enters its table, lines go to the function they follow, and the module is marked
  corrupt exactly when a record was in error.\<close>

theorem LoadMapFromMemory_records:
  assumes "\<forall>r\<in>set rs. record_ok r" "CHR 0x00 \<notin> set (file_text rs)"
  shows "Module_LoadMapFromMemory (file_text rs @ [CHR 0x00]) m =
    Returns (True, (lmodule (apply_records rs \<lparr>lmodule = m, cur_func = None, num_errors = 0\<rparr>))
      \<lparr>is_corrupt := 0 < num_errors (apply_records rs \<lparr>lmodule = m, cur_func = None, num_errors = 0\<rparr>)\<rparr>)"
  using assms by (rule load_file_text)

section \<open>When loading is defined\<close>

text \<open>Text that the STACK CFI case left behind: white space and at most one word.\<close>

definition one_word :: "string \<Rightarrow> bool" where
  "one_word s \<longleftrightarrow> (\<exists>ws w. s = ws @ w \<and> set ws \<subseteq> set kWhitespace \<and> set w \<inter> set kWhitespace = {})"

definition safe_text :: "string \<Rightarrow> bool" where
  "safe_text s \<longleftrightarrow> s = [] \<or> last s \<in> set line_breaks \<or> one_word s"

lemma one_word_clobbered: "one_word (clobbered s)"
  unfolding one_word_def clobbered_def by (blast dest: set_takeWhileD)

lemma one_word_suffix: "one_word (xs @ ys) \<Longrightarrow> one_word ys"
proof -
  assume "one_word (xs @ ys)"
  then obtain ws w where a: "xs @ ys = ws @ w" "set ws \<subseteq> set kWhitespace" "set w \<inter> set kWhitespace = {}"
    by (auto simp: one_word_def)
  then show ?thesis by (fastforce simp: one_word_def append_eq_append_conv2)
qed

lemma strtok_r_split:
  assumes "strtok_r breaks s = Some (token, cursor)"
  obtains pre sep where "s = pre @ token @ sep @ cursor" "set pre \<subseteq> set breaks" "length sep \<le> 1" "set sep \<subseteq> set breaks"
    "dropWhile (\<lambda>c. c \<notin> set breaks) (dropWhile (\<lambda>c. c \<in> set breaks) s) = sep @ cursor" "sep = [] \<longrightarrow> cursor = []"
proof -
  define s1 where "s1 = dropWhile (\<lambda>c. c \<in> set breaks) s"
  define s2 where "s2 = dropWhile (\<lambda>c. c \<notin> set breaks) s1"
  have token: "token = takeWhile (\<lambda>c. c \<notin> set breaks) s1" "cursor = tl s2"
    using assms by (auto simp: strtok_r_def s1_def s2_def Let_def split: if_split_asm)
  have e1: "takeWhile (\<lambda>c. c \<in> set breaks) s @ s1 = s" unfolding s1_def by (rule takeWhile_dropWhile_id)
  have e2: "token @ s2 = s1" unfolding token(1) s2_def by (rule takeWhile_dropWhile_id)
  have e3: "take 1 s2 @ cursor = s2" unfolding token(2) by (cases s2) simp_all
  have whole: "s = takeWhile (\<lambda>c. c \<in> set breaks) s @ token @ take 1 s2 @ cursor" by (simp only: e3 e2 e1)
  have sep: "set (take 1 s2) \<subseteq> set breaks"
    using hd_dropWhile [of "\<lambda>c. c \<notin> set breaks" s1] unfolding s2_def [symmetric] by (cases s2) simp_all
  have pre: "set (takeWhile (\<lambda>c. c \<in> set breaks) s) \<subseteq> set breaks" by (auto dest: set_takeWhileD)
  have rest: "dropWhile (\<lambda>c. c \<notin> set breaks) (dropWhile (\<lambda>c. c \<in> set breaks) s) = take 1 s2 @ cursor"
    unfolding s1_def [symmetric] s2_def [symmetric] e3 ..
  have nil: "take 1 s2 = [] \<longrightarrow> cursor = []" unfolding token(2) by (cases s2) simp_all
  have len: "length (take 1 s2) \<le> 1" by simp
  show ?thesis by (rule that [OF whole pre len sep rest nil])
qed

lemma load_record_total:
  assumes "beyond \<noteq> None \<or> take 6 buffer \<noteq> ''STACK ''"
  shows "\<exists>l' cursor'. load_record buffer beyond cursor l = Returns (l', cursor')"
  using assms
  by (auto simp: load_record_def Module_ParseStackInfo_def Let_def case_prod_beta split: option.split)

lemma safe_text_step:
  assumes "safe_text s" "strtok_r line_breaks s = Some (buffer, cursor)"
  shows "safe_text cursor \<and> (text_after_line spare s cursor \<noteq> None \<or> take 6 buffer \<noteq> ''STACK '')"
proof -
  obtain pre sep where sp: "s = pre @ buffer @ sep @ cursor" "set pre \<subseteq> set line_breaks" "length sep \<le> 1"
    "set sep \<subseteq> set line_breaks"
    "dropWhile (\<lambda>c. c \<notin> set line_breaks) (dropWhile (\<lambda>c. c \<in> set line_breaks) s) = sep @ cursor"
    "sep = [] \<longrightarrow> cursor = []" using strtok_r_split [OF assms(2)] by metis
  have buf: "free_of line_breaks buffer" by (rule strtok_r_token [OF assms(2)])
  have cur: "safe_text cursor"
    using assms(1) one_word_suffix [of "pre @ buffer @ sep" cursor]
    by (cases "cursor = []") (auto simp: safe_text_def sp(1))
  show ?thesis
  proof (cases "sep = []")
    case False
    with cur sp(5) show ?thesis by (simp add: text_after_line_def)
  next
    case True
    with sp(1,6) have s: "s = pre @ buffer" by simp
    have "last s = last buffer" "buffer \<noteq> []" using buf by (auto simp: s free_of_def)
    then have "last s \<notin> set line_breaks" using buf last_in_set [of buffer] unfolding free_of_def by (metis disjoint_iff)
    with assms(1) \<open>buffer \<noteq> []\<close> have "one_word buffer" using one_word_suffix [of pre buffer] by (simp add: safe_text_def s)
    then obtain ws w where w: "buffer = ws @ w" "set ws \<subseteq> set kWhitespace" "set w \<inter> set kWhitespace = {}"
      by (auto simp: one_word_def)
    have "take 6 buffer \<noteq> ''STACK ''"
    proof
      assume "take 6 buffer = ''STACK ''"
      then have "CHR ''S'' \<in> set kWhitespace \<or> CHR '' '' \<notin> set kWhitespace"
        using w by (cases ws) (auto dest!: arg_cong [of _ _ set] in_set_takeD simp: subset_iff disjoint_iff)
      then show False by (simp add: kWhitespace_def)
    qed
    with cur show ?thesis by simp
  qed
qed

lemma loop_defined: "safe_text s \<Longrightarrow> \<exists>l'. LoadMapFromMemory_loop spare s l = Returns l'"
proof (induction spare s l rule: LoadMapFromMemory_loop.induct)
  case (1 spare s l)
  show ?case
  proof (cases "strtok_r line_breaks s")
    case None
    then show ?thesis by (simp add: loop_None)
  next
    case (Some p)
    obtain buffer cursor where p: "p = (buffer, cursor)" by (cases p)
    note step = safe_text_step [OF 1(2) Some [unfolded p], of spare]
    then obtain l1 cursor1 where rec: "load_record buffer (text_after_line spare s cursor) cursor l = Returns (l1, cursor1)"
      using load_record_total by blast
    have "safe_text cursor1"
      using load_record_cursor [OF rec] step one_word_clobbered by (auto simp: safe_text_def)
    with 1(1) [OF Some p [symmetric] rec refl] show ?thesis
      by (auto simp: loop_Some [OF Some [unfolded p]] rec)
  qed
qed

text \<open>C10. Loading is defined, and so returns, for every buffer whose text, without trailing terminators, is empty or
  ends with a line break. (A last line that stops right after the platform of a STACK record is the one case in
  which the loader reads past the end of the buffer.)\<close>

theorem LoadMapFromMemory_defined:
  assumes "rev (dropWhile (\<lambda>c. c = CHR 0x00) (rev (butlast memory_buffer))) = content"
    and "content = [] \<or> last content \<in> set line_breaks"
  shows "\<exists>m'. Module_LoadMapFromMemory memory_buffer m = Returns (True, m')"
proof -
  let ?text = "map (\<lambda>c. if c = CHR 0x00 then CHR ''_'' else c) content"
  have "safe_text ?text"
    using assms(2) by (auto simp: safe_text_def last_map line_breaks_def)
  then show ?thesis
    using assms(1) loop_defined [of ?text]
    by (simp add: Module_LoadMapFromMemory_def Let_def exec_bind_Returns_iff)
qed

lemma LoadMapFromMemory_records_witness:
  "Module_LoadMapFromMemory (''INFO x'' @ [CHR 10, CHR 0x00]) Module_empty = Returns (True, Module_empty)"
  using LoadMapFromMemory_records [of "[InfoRec ''x'']" Module_empty]
  by (simp add: file_text_def line_breaks_def kMaxErrorsBeforeBailing_def Module_empty_def)

lemma LoadMapFromMemory_defined_witness:
  "\<exists>m'. Module_LoadMapFromMemory (''STACK CFI'' @ [CHR 10, CHR 0x00]) Module_empty = Returns (True, m')"
  using LoadMapFromMemory_defined [of "''STACK CFI'' @ [CHR 10, CHR 0x00]" "''STACK CFI'' @ [CHR 10]" Module_empty]
  by (simp add: line_breaks_def)

end
