(* ===== verification/Crash_Generation_Server.thy ===== *)
theory Crash_Generation_Server
  imports Text_Stream "HOL-Library.Multiset"
begin

text \<open>
  The out-of-process crash generation server (\<^verbatim>\<open>client/windows/crash_generation/crash_generation_server.cc\<close>,
  \<^verbatim>\<open>client_info.cc\<close>, \<^verbatim>\<open>client/windows/common/ipc_protocol.h\<close>).

  Callbacks of different threads interleave: the step relation \<open>server_step\<close> divides the addition of a client and the
  exit callback at their critical sections. The invariant \<open>activity_inv\<close> says who owns every handle and wait
  in between.

  The Windows API is a parameter: every callback gets a record \<open>api\<close> of the answers that the calls it makes
  receive. Kernel handles, thread-pool waits and \<open>ClientInfo\<close> objects are allocated from one counter; the
  state keeps the sets of those that are open, registered and alive. A dereference of a freed
  \<open>ClientInfo\<close> is the outcome \<open>Undefined\<close>.
\<close>

section \<open>Messages and client records\<close>

datatype HANDLE = NULL | INVALID | Handle nat

datatype MessageTag =
    MESSAGE_TAG_NONE | MESSAGE_TAG_REGISTRATION_REQUEST | MESSAGE_TAG_REGISTRATION_RESPONSE
  | MESSAGE_TAG_REGISTRATION_ACK | MESSAGE_TAG_UPLOAD_REQUEST

text \<open>Addresses in the client process are numbers, 0 being the null pointer.\<close>

record ProtocolMessage =
  tag :: MessageTag
  msg_id :: "32 word"
  dump_type :: "32 word"
  thread_id :: "64 word"
  exception_pointers :: "64 word"
  assert_info :: "64 word"
  custom_entries :: "64 word"
  custom_count :: "64 word"
  dump_request_handle :: HANDLE
  dump_generated_handle :: HANDLE
  alive_handle :: HANDLE

definition empty_message :: ProtocolMessage where
  "empty_message = \<lparr>tag = MESSAGE_TAG_NONE, msg_id = 0, dump_type = 0, thread_id = 0, exception_pointers = 0,
     assert_info = 0, custom_entries = 0, custom_count = 0, dump_request_handle = NULL,
     dump_generated_handle = NULL, alive_handle = NULL\<rparr>"

type_synonym CustomInfoEntry = "string \<times> string"

record ClientInfo =
  pid :: "32 word"
  ci_dump_type :: "32 word"
  ci_thread_id :: "64 word"
  ci_ex_info :: "64 word"
  ci_assert_info :: "64 word"
  ci_custom_count :: "64 word"
  custom_info_entries :: "CustomInfoEntry list option"
  process_handle :: HANDLE
  dump_requested :: HANDLE
  dump_generated :: HANDLE
  dump_request_wait :: HANDLE
  process_exit_wait :: HANDLE
  start_time :: "64 word"
  crash_id :: "32 word"

section \<open>The server and the world around it\<close>

datatype IPCServerState =
    IPC_SERVER_STATE_UNINITIALIZED | IPC_SERVER_STATE_ERROR | IPC_SERVER_STATE_INITIAL
  | IPC_SERVER_STATE_CONNECTING | IPC_SERVER_STATE_CONNECTED | IPC_SERVER_STATE_READING
  | IPC_SERVER_STATE_READ_DONE | IPC_SERVER_STATE_WRITING | IPC_SERVER_STATE_WRITE_DONE
  | IPC_SERVER_STATE_READING_ACK | IPC_SERVER_STATE_DISCONNECTING

datatype event =
    Connected nat | DumpRequested nat "string option" | Exited nat | UploadRequested "32 word"
  | ReplyWritten ProtocolMessage

record config =
  has_connect_callback :: bool
  has_dump_callback :: bool
  has_exit_callback :: bool
  has_upload_callback :: bool
  generate_dumps :: bool
  pre_fetch_custom_info :: bool
  dump_path :: string

record server =
  conf :: config
  server_state :: IPCServerState
  shutting_down :: bool
  pipe :: HANDLE
  pipe_wait_handle :: HANDLE
  server_alive_handle :: HANDLE
  event_handle :: HANDLE
  event_signalled :: bool
  msg :: ProtocolMessage
  client_info :: "nat option"
  clients :: "nat list"
  objects :: "nat \<rightharpoonup> ClientInfo"
  handles :: "nat set"
  remote_handles :: "nat \<rightharpoonup> HANDLE"
  waits :: "nat set"
  client_events :: "nat set"
  next_id :: nat
  trace :: "event list"

datatype io_result = IO_SUCCESS | IO_PENDING | IO_PIPE_CONNECTED | IO_INCOMPLETE | IO_OTHER

text \<open>The answers of the Windows calls that one callback makes. \<open>delivered\<close> is the message that a completed
  asynchronous read has put into \<open>msg_\<close>.\<close>

record api =
  ok_create_mutex :: bool
  ok_create_event :: bool
  ok_register_pipe_wait :: bool
  ok_create_pipe :: bool
  ok_set_event :: bool
  ok_reset_event :: bool
  ok_disconnect :: bool
  connect_result :: io_result
  overlapped_result :: io_result
  bytes_count :: nat
  delivered :: ProtocolMessage
  read_result :: io_result
  write_result :: io_result
  ok_open_process :: bool
  process_times :: "64 word option"
  system_time :: "64 word"
  ok_event_requested :: bool
  ok_event_generated :: bool
  ok_duplicate :: "bool \<times> bool \<times> bool"
  ok_register_request :: bool
  ok_register_exit :: bool
  current_pid :: "32 word"
  read_exception_info :: "(64 word \<times> nat) option"
  read_thread_id :: "(32 word \<times> nat) option"
  generated_file :: "string option"
  ok_write_minidump :: bool
  read_custom_info :: "(CustomInfoEntry list \<times> nat) option"

definition sizeof_ProtocolMessage :: nat where "sizeof_ProtocolMessage = 80"

definition sizeof_CustomInfoEntry :: nat where "sizeof_CustomInfoEntry = 256"

subsection \<open>Handles, waits and the event\<close>

definition create_handle :: "bool \<Rightarrow> server \<Rightarrow> HANDLE \<times> server" where
  "create_handle ok s =
     (if ok then (Handle (next_id s), s\<lparr>handles := insert (next_id s) (handles s), next_id := Suc (next_id s)\<rparr>)
      else (NULL, s))"

fun close_handle :: "HANDLE \<Rightarrow> server \<Rightarrow> server" where
  "close_handle (Handle h) s = s\<lparr>handles := handles s - {h}\<rparr>"
| "close_handle _ s = s"

definition register_wait :: "bool \<Rightarrow> server \<Rightarrow> HANDLE \<times> server" where
  "register_wait ok s =
     (if ok then (Handle (next_id s), s\<lparr>waits := insert (next_id s) (waits s), next_id := Suc (next_id s)\<rparr>)
      else (NULL, s))"

fun unregister_wait :: "HANDLE \<Rightarrow> server \<Rightarrow> server" where
  "unregister_wait (Handle h) s = s\<lparr>waits := waits s - {h}\<rparr>"
| "unregister_wait _ s = s"

text \<open>\<open>SetEvent\<close> and \<open>ResetEvent\<close> on \<open>overlapped_.hEvent\<close> fail when there is no event.\<close>

definition set_event :: "api \<Rightarrow> server \<Rightarrow> bool \<times> server" where
  "set_event a s =
     (if ok_set_event a \<and> event_handle s \<noteq> NULL then (True, s\<lparr>event_signalled := True\<rparr>) else (False, s))"

definition reset_event :: "api \<Rightarrow> server \<Rightarrow> bool \<times> server" where
  "reset_event a s =
     (if ok_reset_event a \<and> event_handle s \<noteq> NULL then (True, s\<lparr>event_signalled := False\<rparr>) else (False, s))"

text \<open>The events of the clients: the set of those that are signalled.\<close>

fun set_client_event :: "HANDLE \<Rightarrow> server \<Rightarrow> server" where
  "set_client_event (Handle h) s = s\<lparr>client_events := insert h (client_events s)\<rparr>"
| "set_client_event _ s = s"

fun reset_client_event :: "HANDLE \<Rightarrow> server \<Rightarrow> server" where
  "reset_client_event (Handle h) s = s\<lparr>client_events := client_events s - {h}\<rparr>"
| "reset_client_event _ s = s"

subsection \<open>Client records\<close>

definition new_ClientInfo :: "api \<Rightarrow> ProtocolMessage \<Rightarrow> ClientInfo" where
  "new_ClientInfo a m =
     \<lparr>pid = msg_id m, ci_dump_type = dump_type m, ci_thread_id = thread_id m, ci_ex_info = exception_pointers m,
      ci_assert_info = assert_info m, ci_custom_count = custom_count m, custom_info_entries = None,
      process_handle = NULL, dump_requested = NULL, dump_generated = NULL, dump_request_wait = NULL,
      process_exit_wait = NULL, start_time = system_time a, crash_id = 0\<rparr>"

definition ClientInfo_Initialize :: "api \<Rightarrow> ClientInfo \<Rightarrow> server \<Rightarrow> bool \<times> ClientInfo \<times> server" where
  "ClientInfo_Initialize a c s =
     (let (h, s) = create_handle (ok_open_process a) s; c = c\<lparr>process_handle := h\<rparr> in
      if h = NULL then (False, c, s)
      else
        let c = (case process_times a of Some t \<Rightarrow> c\<lparr>start_time := t\<rparr> | None \<Rightarrow> c);
            c = c\<lparr>crash_id := ucast (start_time c)\<rparr>;
            (h, s) = create_handle (ok_event_requested a) s; c = c\<lparr>dump_requested := h\<rparr> in
        if h = NULL then (False, c, s)
        else
          let (h, s) = create_handle (ok_event_generated a) s; c = c\<lparr>dump_generated := h\<rparr>
          in (h \<noteq> NULL, c, s))"

definition UnregisterDumpRequestWait :: "ClientInfo \<Rightarrow> server \<Rightarrow> ClientInfo \<times> server" where
  "UnregisterDumpRequestWait c s =
     (if dump_request_wait c \<noteq> NULL
      then (c\<lparr>dump_request_wait := NULL\<rparr>, unregister_wait (dump_request_wait c) s) else (c, s))"

definition UnregisterProcessExitWait :: "ClientInfo \<Rightarrow> server \<Rightarrow> ClientInfo \<times> server" where
  "UnregisterProcessExitWait c s =
     (if process_exit_wait c \<noteq> NULL
      then (c\<lparr>process_exit_wait := NULL\<rparr>, unregister_wait (process_exit_wait c) s) else (c, s))"

text \<open>The destructor, without the release of the memory itself.\<close>

definition ClientInfo_destroy :: "ClientInfo \<Rightarrow> server \<Rightarrow> server" where
  "ClientInfo_destroy c s =
     (let (c, s) = UnregisterDumpRequestWait c s;
          (c, s) = UnregisterProcessExitWait c s;
          s = close_handle (process_handle c) s;
          s = close_handle (dump_requested c) s
      in close_handle (dump_generated c) s)"

definition SetProcessUptime :: "api \<Rightarrow> ClientInfo \<Rightarrow> string" where
  "SetProcessUptime a c = insert_unsigned ((system_time a - start_time c) div 10 div 1000)"

text \<open>\<open>read_custom_info\<close> is what \<open>ReadProcessMemory\<close> copied: the entries it overwrote, and the byte count.\<close>

definition kMaxCustomInfoEntries :: nat where "kMaxCustomInfoEntries = 4096"

definition PopulateCustomInfo :: "api \<Rightarrow> ClientInfo \<Rightarrow> bool \<times> ClientInfo" where
  "PopulateCustomInfo a c =
     (let count = unat (ci_custom_count c) in
      if count > kMaxCustomInfoEntries then (False, c)
      else
        let read_count = sizeof_CustomInfoEntry * count;
            entries = (case custom_info_entries c of
                         None \<Rightarrow> replicate count ([], []) @ [(''ptime'', [])]
                       | Some es \<Rightarrow> es)
        in (case read_custom_info a of
              None \<Rightarrow> (False, c\<lparr>custom_info_entries := Some entries\<rparr>)
            | Some (es, n) \<Rightarrow>
                let entries = take count es @ drop (min count (length es)) entries;
                    entries = entries[count := (fst (entries ! count), SetProcessUptime a c)]
                in (n = read_count, c\<lparr>custom_info_entries := Some entries\<rparr>)))"

text \<open>Reads of the client's memory: the value and the number of bytes that \<open>ReadProcessMemory\<close> copied.\<close>

definition GetClientExceptionInfo :: "api \<Rightarrow> 64 word option" where
  "GetClientExceptionInfo a =
     (case read_exception_info a of None \<Rightarrow> None | Some (v, n) \<Rightarrow> if n = 8 then Some v else None)"

definition GetClientThreadId :: "api \<Rightarrow> 32 word option" where
  "GetClientThreadId a =
     (case read_thread_id a of None \<Rightarrow> None | Some (v, n) \<Rightarrow> if n = 4 then Some v else None)"

subsection \<open>State changes\<close>

definition EnterErrorState :: "api \<Rightarrow> server \<Rightarrow> server" where
  "EnterErrorState a s = (snd (set_event a s))\<lparr>server_state := IPC_SERVER_STATE_ERROR\<rparr>"

definition EnterStateWhenSignaled :: "IPCServerState \<Rightarrow> server \<Rightarrow> server" where
  "EnterStateWhenSignaled st s = s\<lparr>server_state := st\<rparr>"

definition EnterStateImmediately :: "api \<Rightarrow> IPCServerState \<Rightarrow> server \<Rightarrow> server" where
  "EnterStateImmediately a st s =
     (let (ok, s) = set_event a (s\<lparr>server_state := st\<rparr>)
      in if ok then s else s\<lparr>server_state := IPC_SERVER_STATE_ERROR\<rparr>)"

subsection \<open>Construction and start\<close>

definition CrashGenerationServer_new :: "config \<Rightarrow> server" where
  "CrashGenerationServer_new cf =
     \<lparr>conf = cf, server_state = IPC_SERVER_STATE_UNINITIALIZED, shutting_down = False, pipe = NULL,
      pipe_wait_handle = NULL, server_alive_handle = NULL, event_handle = NULL, event_signalled = False,
      msg = empty_message, client_info = None, clients = [], objects = Map.empty, handles = {},
      remote_handles = Map.empty, waits = {}, client_events = {}, next_id = 0, trace = []\<rparr>"

definition Start :: "api \<Rightarrow> server \<Rightarrow> bool \<times> server" where
  "Start a s =
     (if server_state s \<noteq> IPC_SERVER_STATE_UNINITIALIZED then (False, s)
      else
        let s = s\<lparr>server_state := IPC_SERVER_STATE_INITIAL\<rparr>;
            (h, s) = create_handle (ok_create_mutex a) s; s = s\<lparr>server_alive_handle := h\<rparr> in
        if h = NULL then (False, s)
        else
          let (h, s) = create_handle (ok_create_event a) s;
              s = s\<lparr>event_handle := h, event_signalled := False\<rparr> in
          if h = NULL then (False, s)
          else
            let (h, s) = register_wait (ok_register_pipe_wait a) s; s = s\<lparr>pipe_wait_handle := h\<rparr> in
            if h = NULL then (False, s)
            else
              let (h, s) = create_handle (ok_create_pipe a) s in
              if h = NULL then (False, s\<lparr>pipe := INVALID\<rparr>)
              else
                let (ok, s) = set_event a (s\<lparr>pipe := h\<rparr>)
                in if ok then (True, s) else (False, s\<lparr>server_state := IPC_SERVER_STATE_ERROR\<rparr>))"

section \<open>The pipe thread\<close>

definition IsClientRequestValid :: "ProtocolMessage \<Rightarrow> bool" where
  "IsClientRequestValid m \<longleftrightarrow>
     tag m = MESSAGE_TAG_UPLOAD_REQUEST \<or>
     (tag m = MESSAGE_TAG_REGISTRATION_REQUEST \<and> msg_id m \<noteq> 0 \<and> thread_id m \<noteq> 0 \<and>
      exception_pointers m \<noteq> 0 \<and> assert_info m \<noteq> 0)"

definition HandleErrorState :: "server \<Rightarrow> server" where
  "HandleErrorState s =
     (if shutting_down s then s
      else
        let s = (if pipe_wait_handle s \<noteq> NULL
                 then (unregister_wait (pipe_wait_handle s) s)\<lparr>pipe_wait_handle := NULL\<rparr> else s);
            s = (if pipe s \<noteq> NULL then (close_handle (pipe s) s)\<lparr>pipe := NULL\<rparr> else s)
        in if event_handle s \<noteq> NULL then (close_handle (event_handle s) s)\<lparr>event_handle := NULL\<rparr> else s)"

definition HandleInitialState :: "api \<Rightarrow> server \<Rightarrow> server" where
  "HandleInitialState a s =
     (let (ok, s) = reset_event a s in
      if \<not> ok then EnterErrorState a s
      else (case connect_result a of
              IO_PENDING \<Rightarrow> EnterStateWhenSignaled IPC_SERVER_STATE_CONNECTING s
            | IO_PIPE_CONNECTED \<Rightarrow> EnterStateImmediately a IPC_SERVER_STATE_CONNECTED s
            | _ \<Rightarrow> EnterErrorState a s))"

definition HandleConnectingState :: "api \<Rightarrow> server \<Rightarrow> server" where
  "HandleConnectingState a s =
     (if overlapped_result a = IO_SUCCESS then EnterStateImmediately a IPC_SERVER_STATE_CONNECTED s
      else if overlapped_result a \<noteq> IO_INCOMPLETE then EnterStateImmediately a IPC_SERVER_STATE_DISCONNECTING s
      else s)"

definition HandleConnectedState :: "api \<Rightarrow> server \<Rightarrow> server" where
  "HandleConnectedState a s =
     (let s = s\<lparr>msg := empty_message\<rparr> in
      if read_result a = IO_SUCCESS \<or> read_result a = IO_PENDING
      then EnterStateWhenSignaled IPC_SERVER_STATE_READING s
      else EnterStateImmediately a IPC_SERVER_STATE_DISCONNECTING s)"

definition HandleReadingState :: "api \<Rightarrow> server \<Rightarrow> server" where
  "HandleReadingState a s =
     (if overlapped_result a = IO_SUCCESS \<and> bytes_count a = sizeof_ProtocolMessage
      then EnterStateImmediately a IPC_SERVER_STATE_READ_DONE (s\<lparr>msg := delivered a\<rparr>)
      else EnterStateImmediately a IPC_SERVER_STATE_DISCONNECTING s)"

text \<open>\<open>DuplicateHandle\<close> into the client process, and the closing of such a handle. The state remembers which handle
  of the server each duplicate was made from.\<close>

definition duplicate_handle :: "bool \<Rightarrow> HANDLE \<Rightarrow> server \<Rightarrow> HANDLE \<times> server" where
  "duplicate_handle ok source s =
     (if ok then (Handle (next_id s),
        s\<lparr>remote_handles := (remote_handles s)(next_id s \<mapsto> source), next_id := Suc (next_id s)\<rparr>)
      else (NULL, s))"

fun close_remote :: "HANDLE \<Rightarrow> server \<Rightarrow> server" where
  "close_remote (Handle h) s = s\<lparr>remote_handles := (remote_handles s)(h := None)\<rparr>"
| "close_remote _ s = s"

definition CreateClientHandles ::
    "api \<Rightarrow> ClientInfo \<Rightarrow> ProtocolMessage \<Rightarrow> server \<Rightarrow> bool \<times> ProtocolMessage \<times> server" where
  "CreateClientHandles a c reply s =
     (let (ok1, ok2, ok3) = ok_duplicate a; (h, s) = duplicate_handle ok1 (dump_requested c) s in
      if \<not> ok1 then (False, reply, s)
      else
        let reply = reply\<lparr>dump_request_handle := h\<rparr>; (h, s) = duplicate_handle ok2 (dump_generated c) s in
        if \<not> ok2 then (False, reply, s)
        else
          let reply = reply\<lparr>dump_generated_handle := h\<rparr>; (h, s) = duplicate_handle ok3 (server_alive_handle s) s in
          if \<not> ok3 then (False, reply, s)
          else (True, reply\<lparr>alive_handle := h\<rparr>, s))"

definition PrepareReply :: "api \<Rightarrow> ClientInfo \<Rightarrow> server \<Rightarrow> bool \<times> ProtocolMessage \<times> server" where
  "PrepareReply a c s =
     (let reply = empty_message\<lparr>tag := MESSAGE_TAG_REGISTRATION_RESPONSE, msg_id := current_pid a\<rparr>;
          (ok, reply, s) = CreateClientHandles a c reply s in
      if ok then (True, reply, s)
      else
        let s = close_remote (dump_request_handle reply) s;
            s = close_remote (dump_generated_handle reply) s;
            s = close_remote (alive_handle reply) s
        in (False, reply\<lparr>dump_request_handle := NULL, dump_generated_handle := NULL, alive_handle := NULL\<rparr>, s))"

text \<open>\<open>AddClient\<close>, up to the critical section: the two waits, whose callbacks may run from then on.\<close>

definition AddClient_waits :: "api \<Rightarrow> ClientInfo \<Rightarrow> server \<Rightarrow> bool \<times> ClientInfo \<times> server" where
  "AddClient_waits a c s =
     (let (h, s) = register_wait (ok_register_request a) s in
      if h = NULL then (False, c, s)
      else
        let c = c\<lparr>dump_request_wait := h\<rparr>; (h, s) = register_wait (ok_register_exit a) s in
        if h = NULL then (False, c, s)
        else (True, c\<lparr>process_exit_wait := h\<rparr>, s))"

text \<open>The critical section of \<open>AddClient\<close>.\<close>

definition AddClient_push :: "nat \<Rightarrow> server \<Rightarrow> bool \<times> server" where
  "AddClient_push p s = (if shutting_down s then (False, s) else (True, s\<lparr>clients := clients s @ [p]\<rparr>))"

definition RespondToClient :: "api \<Rightarrow> ClientInfo \<Rightarrow> server \<Rightarrow> bool \<times> ClientInfo \<times> server" where
  "RespondToClient a c s =
     (let (ok, reply, s) = PrepareReply a c s in
      if \<not> ok then (False, c, s)
      else if write_result a \<noteq> IO_SUCCESS \<and> write_result a \<noteq> IO_PENDING then (False, c, s)
      else AddClient_waits a c (s\<lparr>trace := trace s @ [ReplyWritten reply]\<rparr>))"

text \<open>\<open>HandleReadDoneState\<close> up to the critical section of \<open>AddClient\<close>. The result is the new client's
  object, or \<open>None\<close> when the connection is given up. A client that is given up is destroyed.\<close>

definition ReadDone_prepare :: "api \<Rightarrow> server \<Rightarrow> nat option \<times> server" where
  "ReadDone_prepare a s =
     (if \<not> IsClientRequestValid (msg s) then (None, EnterStateImmediately a IPC_SERVER_STATE_DISCONNECTING s)
      else if tag (msg s) = MESSAGE_TAG_UPLOAD_REQUEST then
        (None, EnterStateImmediately a IPC_SERVER_STATE_DISCONNECTING
          (if has_upload_callback (conf s) then s\<lparr>trace := trace s @ [UploadRequested (msg_id (msg s))]\<rparr> else s))
      else
        let p = next_id s;
            (ok, c, s) = ClientInfo_Initialize a (new_ClientInfo a (msg s)) (s\<lparr>next_id := Suc p\<rparr>) in
        if \<not> ok then (None, EnterStateImmediately a IPC_SERVER_STATE_DISCONNECTING (ClientInfo_destroy c s))
        else
          let (ok, c, s) = RespondToClient a c s in
          if \<not> ok then (None, EnterStateImmediately a IPC_SERVER_STATE_DISCONNECTING (ClientInfo_destroy c s))
          else (Some p, s\<lparr>objects := (objects s)(p \<mapsto> c)\<rparr>))"

definition ReadDone_commit :: "api \<Rightarrow> nat \<Rightarrow> server \<Rightarrow> server exec" where
  "ReadDone_commit a p s =
     (let (ok, s) = AddClient_push p s in
      if ok then Returns (EnterStateWhenSignaled IPC_SERVER_STATE_WRITING (s\<lparr>client_info := Some p\<rparr>))
      else (case objects s p of
              None \<Rightarrow> Undefined
            | Some c \<Rightarrow>
                Returns (EnterStateImmediately a IPC_SERVER_STATE_DISCONNECTING
                  (ClientInfo_destroy c (s\<lparr>objects := (objects s)(p := None)\<rparr>)))))"

definition HandleReadDoneState :: "api \<Rightarrow> server \<Rightarrow> server exec" where
  "HandleReadDoneState a s =
     (case ReadDone_prepare a s of
        (None, s') \<Rightarrow> Returns s'
      | (Some p, s') \<Rightarrow> ReadDone_commit a p s')"

definition HandleWritingState :: "api \<Rightarrow> server \<Rightarrow> server" where
  "HandleWritingState a s =
     (if overlapped_result a = IO_SUCCESS then EnterStateImmediately a IPC_SERVER_STATE_WRITE_DONE s
      else EnterStateImmediately a IPC_SERVER_STATE_DISCONNECTING s)"

definition HandleWriteDoneState :: "api \<Rightarrow> server \<Rightarrow> server" where
  "HandleWriteDoneState a s =
     (if read_result a = IO_SUCCESS then EnterStateImmediately a IPC_SERVER_STATE_READING_ACK s
      else if read_result a = IO_PENDING then EnterStateWhenSignaled IPC_SERVER_STATE_READING_ACK s
      else EnterStateImmediately a IPC_SERVER_STATE_DISCONNECTING s)"

definition HandleReadingAckState :: "api \<Rightarrow> server \<Rightarrow> server" where
  "HandleReadingAckState a s =
     (let s = (if overlapped_result a = IO_SUCCESS \<and> has_connect_callback (conf s)
               then (case client_info s of
                       Some p \<Rightarrow> if p \<in> set (clients s) then s\<lparr>trace := trace s @ [Connected p]\<rparr> else s
                     | None \<Rightarrow> s)
               else s)
      in EnterStateImmediately a IPC_SERVER_STATE_DISCONNECTING s)"

definition HandleDisconnectingState :: "api \<Rightarrow> server \<Rightarrow> server" where
  "HandleDisconnectingState a s =
     (let (ok, s) = reset_event a (s\<lparr>client_info := None\<rparr>) in
      if \<not> ok then EnterErrorState a s
      else if \<not> ok_disconnect a then EnterErrorState a s
      else if shutting_down s then s
      else EnterStateImmediately a IPC_SERVER_STATE_INITIAL s)"

definition HandleConnectionRequest :: "api \<Rightarrow> server \<Rightarrow> server exec" where
  "HandleConnectionRequest a s =
     (if shutting_down s then Returns (snd (reset_event a (s\<lparr>server_state := IPC_SERVER_STATE_ERROR\<rparr>)))
      else (case server_state s of
              IPC_SERVER_STATE_ERROR \<Rightarrow> Returns (HandleErrorState s)
            | IPC_SERVER_STATE_INITIAL \<Rightarrow> Returns (HandleInitialState a s)
            | IPC_SERVER_STATE_CONNECTING \<Rightarrow> Returns (HandleConnectingState a s)
            | IPC_SERVER_STATE_CONNECTED \<Rightarrow> Returns (HandleConnectedState a s)
            | IPC_SERVER_STATE_READING \<Rightarrow> Returns (HandleReadingState a s)
            | IPC_SERVER_STATE_READ_DONE \<Rightarrow> HandleReadDoneState a s
            | IPC_SERVER_STATE_WRITING \<Rightarrow> Returns (HandleWritingState a s)
            | IPC_SERVER_STATE_WRITE_DONE \<Rightarrow> Returns (HandleWriteDoneState a s)
            | IPC_SERVER_STATE_READING_ACK \<Rightarrow> Returns (HandleReadingAckState a s)
            | IPC_SERVER_STATE_DISCONNECTING \<Rightarrow> Returns (HandleDisconnectingState a s)
            | IPC_SERVER_STATE_UNINITIALIZED \<Rightarrow> Returns (s\<lparr>server_state := IPC_SERVER_STATE_ERROR\<rparr>)))"

section \<open>Callbacks of registered clients\<close>

definition GenerateDump :: "api \<Rightarrow> string option" where
  "GenerateDump a =
     (case GetClientExceptionInfo a of
        None \<Rightarrow> None
      | Some client_ex_info \<Rightarrow>
          (case GetClientThreadId a of
             None \<Rightarrow> None
           | Some client_thread_id \<Rightarrow>
               (case generated_file a of
                  None \<Rightarrow> None
                | Some path \<Rightarrow> if ok_write_minidump a then Some path else None)))"

definition HandleDumpRequest :: "api \<Rightarrow> nat \<Rightarrow> ClientInfo \<Rightarrow> server \<Rightarrow> server" where
  "HandleDumpRequest a p c s =
     (let (execute_callback, path) =
        (if generate_dumps (conf s)
         then (case GenerateDump a of None \<Rightarrow> (False, []) | Some f \<Rightarrow> (True, f))
         else (True, []));
          s = (if has_dump_callback (conf s) \<and> execute_callback
               then s\<lparr>trace := trace s @ [DumpRequested p (if path = [] then None else Some path)]\<rparr>
               else s)
      in set_client_event (dump_generated c) s)"

definition OnDumpRequest :: "api \<Rightarrow> nat \<Rightarrow> server \<Rightarrow> server exec" where
  "OnDumpRequest a p s =
     (case objects s p of
        None \<Rightarrow> Undefined
      | Some c \<Rightarrow>
          let c' = (if pre_fetch_custom_info (conf s) then snd (PopulateCustomInfo a c) else c)
          in Returns (reset_client_event (dump_requested c')
               (HandleDumpRequest a p c' (s\<lparr>objects := (objects s)(p \<mapsto> c')\<rparr>))))"

text \<open>The callback for the end of a client, in its three parts: up to the critical section, the critical section
  (whether the callback goes on after it), and the release of the client. The exit callback of the application runs
  before the list of clients is touched.\<close>

definition ProcessExit_begin :: "nat \<Rightarrow> server \<Rightarrow> server exec" where
  "ProcessExit_begin p s =
     (case objects s p of
        None \<Rightarrow> Undefined
      | Some c \<Rightarrow>
          let (c, s) = UnregisterDumpRequestWait c s;
              s = s\<lparr>objects := (objects s)(p \<mapsto> c)\<rparr>
          in Returns (if has_exit_callback (conf s) then s\<lparr>trace := trace s @ [Exited p]\<rparr> else s))"

definition ProcessExit_remove :: "nat \<Rightarrow> server \<Rightarrow> bool \<times> server" where
  "ProcessExit_remove p s =
     (if shutting_down s then (False, s) else (True, s\<lparr>clients := removeAll p (clients s)\<rparr>))"

definition ProcessExit_delete :: "nat \<Rightarrow> server \<Rightarrow> server exec" where
  "ProcessExit_delete p s =
     (case objects s p of
        None \<Rightarrow> Undefined
      | Some c \<Rightarrow>
          let (c, s) = UnregisterProcessExitWait c s
          in Returns (ClientInfo_destroy c (s\<lparr>objects := (objects s)(p := None)\<rparr>)))"

definition HandleClientProcessExit :: "nat \<Rightarrow> server \<Rightarrow> server exec" where
  "HandleClientProcessExit p s =
     exec_bind (ProcessExit_begin p s) (\<lambda>s.
       let (go_on, s) = ProcessExit_remove p s in if go_on then ProcessExit_delete p s else Returns s)"

section \<open>Destruction\<close>

fun destroy_clients :: "nat list \<Rightarrow> server \<Rightarrow> server exec" where
  "destroy_clients [] s = Returns s"
| "destroy_clients (p # ps) s =
     (case objects s p of
        None \<Rightarrow> Undefined
      | Some c \<Rightarrow>
          let (c, s) = UnregisterProcessExitWait c s;
              (c, s) = UnregisterDumpRequestWait c s
          in destroy_clients ps (ClientInfo_destroy c (s\<lparr>objects := (objects s)(p := None)\<rparr>)))"

definition begin_shutdown :: "server \<Rightarrow> server" where
  "begin_shutdown s = s\<lparr>shutting_down := True\<rparr>"

text \<open>The destructor after its wait for the pipe thread.\<close>

definition finish_shutdown :: "server \<Rightarrow> server exec" where
  "finish_shutdown s =
     (let s = (if pipe_wait_handle s \<noteq> NULL then unregister_wait (pipe_wait_handle s) s else s);
          s = (if pipe s \<noteq> NULL then close_handle (pipe s) s else s)
      in exec_bind (destroy_clients (clients s) s) (\<lambda>s.
           let s = (if server_alive_handle s \<noteq> NULL then close_handle (server_alive_handle s) s else s)
           in Returns (if event_handle s \<noteq> NULL then close_handle (event_handle s) s else s)))"

section \<open>Ownership of handles and waits\<close>

text \<open>The identifiers that a handle stands for, and those that a client record and the server hold.\<close>

fun hid :: "HANDLE \<Rightarrow> nat multiset" where
  "hid (Handle h) = {#h#}"
| "hid _ = {#}"

definition client_handles :: "ClientInfo \<Rightarrow> nat multiset" where
  "client_handles c = hid (process_handle c) + hid (dump_requested c) + hid (dump_generated c)"

definition client_waits :: "ClientInfo \<Rightarrow> nat multiset" where
  "client_waits c = hid (dump_request_wait c) + hid (process_exit_wait c)"

text \<open>What \<open>Initialize\<close> sets up, and what later operations leave alone.\<close>

definition initialized :: "ClientInfo \<Rightarrow> bool" where
  "initialized c \<longleftrightarrow> (\<forall>h \<in> {process_handle c, dump_requested c, dump_generated c}. h \<noteq> NULL \<and> h \<noteq> INVALID)"

definition same_handles :: "ClientInfo \<Rightarrow> ClientInfo \<Rightarrow> bool" where
  "same_handles c c' \<longleftrightarrow> process_handle c' = process_handle c \<and> dump_requested c' = dump_requested c \<and>
     dump_generated c' = dump_generated c"

lemma same_handlesD:
  "same_handles c c' \<Longrightarrow> client_handles c' = client_handles c \<and> initialized c' = initialized c"
  by (simp add: same_handles_def client_handles_def initialized_def)

definition server_handles :: "server \<Rightarrow> nat multiset" where
  "server_handles s = hid (pipe s) + hid (server_alive_handle s) + hid (event_handle s)"

definition client_sum :: "(ClientInfo \<Rightarrow> nat multiset) \<Rightarrow> nat list \<Rightarrow> (nat \<rightharpoonup> ClientInfo) \<Rightarrow> nat multiset" where
  "client_sum g ps m = (\<Sum>p\<in>#mset ps. g (the (m p)))"

text \<open>A client may be alive outside the list: before it is appended and after it is removed. \<open>xs\<close> are those.\<close>

definition owned_handles :: "nat list \<Rightarrow> server \<Rightarrow> nat multiset" where
  "owned_handles xs s = server_handles s + client_sum client_handles (clients s @ xs) (objects s)"

definition owned_waits :: "nat list \<Rightarrow> server \<Rightarrow> nat multiset" where
  "owned_waits xs s = hid (pipe_wait_handle s) + client_sum client_waits (clients s @ xs) (objects s)"

text \<open>The sets of open handles and registered waits are finite and below the allocation counter.\<close>

definition ids_ok :: "server \<Rightarrow> bool" where
  "ids_ok s \<longleftrightarrow> finite (handles s) \<and> finite (waits s) \<and> 
     (\<forall>h\<in>handles s. h < next_id s) \<and> (\<forall>h\<in>waits s. h < next_id s)"

definition open_handles :: "server \<Rightarrow> nat multiset" where
  "open_handles s = mset_set (handles s)"

definition open_waits :: "server \<Rightarrow> nat multiset" where
  "open_waits s = mset_set (waits s)"

text \<open>The step to \<open>s'\<close> changes only the sets of handles and waits, the counter and the trace.\<close>

definition same_server :: "server \<Rightarrow> server \<Rightarrow> bool" where
  "same_server s s' \<longleftrightarrow> s' = s\<lparr>handles := handles s', remote_handles := remote_handles s', waits := waits s',
     next_id := next_id s', trace := trace s'\<rparr> \<and> next_id s \<le> next_id s'"

lemma same_server_refl [simp]: "same_server s s"
  by (simp add: same_server_def)

lemma same_server_trans: "same_server s s' \<Longrightarrow> same_server s' s'' \<Longrightarrow> same_server s s''"
  unfolding same_server_def by (cases s; cases s'; cases s'') simp

lemma mset_set_Diff1: "finite A \<Longrightarrow> a \<in> A \<Longrightarrow> mset_set (A - {a}) = mset_set A - {#a#}"
  by (simp add: mset_set_Diff)

lemma create_handle_spec:
  assumes "create_handle ok s = (h, s')" "ids_ok s"
  shows "ids_ok s' \<and> same_server s s' \<and> open_handles s' = open_handles s + hid h \<and> open_waits s' = open_waits s \<and>
    (h \<noteq> NULL \<longleftrightarrow> ok) \<and> h \<noteq> INVALID"
proof -
  have "next_id s \<notin> handles s" using assms(2) by (auto simp: ids_ok_def)
  then show ?thesis using assms
    by (auto simp: create_handle_def ids_ok_def same_server_def open_handles_def open_waits_def
        less_Suc_eq split: if_split_asm)
qed

lemma register_wait_spec:
  assumes "register_wait ok s = (h, s')" "ids_ok s"
  shows "ids_ok s' \<and> same_server s s' \<and> open_handles s' = open_handles s \<and> open_waits s' = open_waits s + hid h \<and>
    (h \<noteq> NULL \<longleftrightarrow> ok) \<and> h \<noteq> INVALID"
proof -
  have "next_id s \<notin> waits s" using assms(2) by (auto simp: ids_ok_def)
  then show ?thesis using assms
    by (auto simp: register_wait_def ids_ok_def same_server_def open_handles_def open_waits_def
        less_Suc_eq split: if_split_asm)
qed

lemma close_handle_spec:
  assumes "ids_ok s" "hid h \<subseteq># open_handles s"
  shows "ids_ok (close_handle h s) \<and> same_server s (close_handle h s) \<and>
    open_handles (close_handle h s) = open_handles s - hid h \<and> open_waits (close_handle h s) = open_waits s"
  using assms
  by (cases h) (auto simp: ids_ok_def same_server_def open_handles_def open_waits_def mset_set_Diff1)

lemma unregister_wait_spec:
  assumes "ids_ok s" "hid h \<subseteq># open_waits s"
  shows "ids_ok (unregister_wait h s) \<and> same_server s (unregister_wait h s) \<and>
    open_handles (unregister_wait h s) = open_handles s \<and> open_waits (unregister_wait h s) = open_waits s - hid h"
  using assms
  by (cases h) (auto simp: ids_ok_def same_server_def open_handles_def open_waits_def mset_set_Diff1)


lemma ClientInfo_wait_ident:
  "dump_request_wait c = NULL \<Longrightarrow> c\<lparr>dump_request_wait := NULL\<rparr> = c"
  "process_exit_wait c = NULL \<Longrightarrow> c\<lparr>process_exit_wait := NULL\<rparr> = c"
  by (cases c, simp)+

lemma UnregisterDumpRequestWait_spec:
  assumes "UnregisterDumpRequestWait c s = (c', s')" "ids_ok s" "hid (dump_request_wait c) \<subseteq># open_waits s"
  shows "ids_ok s' \<and> same_server s s' \<and> c' = c\<lparr>dump_request_wait := NULL\<rparr> \<and> handles s' = handles s \<and>
    open_waits s' = open_waits s - hid (dump_request_wait c)"
  using assms unregister_wait_spec [of s "dump_request_wait c"]
  by (cases "dump_request_wait c") (auto simp: UnregisterDumpRequestWait_def ClientInfo_wait_ident)

lemma UnregisterProcessExitWait_spec:
  assumes "UnregisterProcessExitWait c s = (c', s')" "ids_ok s" "hid (process_exit_wait c) \<subseteq># open_waits s"
  shows "ids_ok s' \<and> same_server s s' \<and> c' = c\<lparr>process_exit_wait := NULL\<rparr> \<and> handles s' = handles s \<and>
    open_waits s' = open_waits s - hid (process_exit_wait c)"
  using assms unregister_wait_spec [of s "process_exit_wait c"]
  by (cases "process_exit_wait c") (auto simp: UnregisterProcessExitWait_def ClientInfo_wait_ident)

lemma open_handles_cong: "handles s = handles s' \<Longrightarrow> open_handles s = open_handles s'"
  by (simp add: open_handles_def)

lemma subset_mset_addD:
  assumes "A + B \<subseteq># (C :: 'a multiset)"
  shows "A \<subseteq># C" "B \<subseteq># C - A"
proof -
  obtain D where "C = A + B + D" using assms by (auto simp: mset_subset_eq_exists_conv)
  then show "A \<subseteq># C" "B \<subseteq># C - A" by (auto simp: ac_simps)
qed

lemma ClientInfo_destroy_spec:
  assumes ids: "ids_ok s" and h: "client_handles c \<subseteq># open_handles s" and w: "client_waits c \<subseteq># open_waits s"
  shows "ids_ok (ClientInfo_destroy c s) \<and> same_server s (ClientInfo_destroy c s) \<and>
    open_handles (ClientInfo_destroy c s) = open_handles s - client_handles c \<and>
    open_waits (ClientInfo_destroy c s) = open_waits s - client_waits c"
proof -
  obtain c1 s1 where 1: "UnregisterDumpRequestWait c s = (c1, s1)" by fastforce
  obtain c2 s2 where 2: "UnregisterProcessExitWait c1 s1 = (c2, s2)" by fastforce
  define s3 where "s3 = close_handle (process_handle c) s2"
  define s4 where "s4 = close_handle (dump_requested c) s3"
  define s5 where "s5 = close_handle (dump_generated c) s4"
  note w1 = subset_mset_addD(1) [OF w [unfolded client_waits_def]]
    and w2 = subset_mset_addD(2) [OF w [unfolded client_waits_def]]
  note hh = subset_mset_addD [OF h [unfolded client_handles_def add.assoc]]
  note h1 = hh(1) and h2 = subset_mset_addD(1) [OF hh(2)] and h3 = subset_mset_addD(2) [OF hh(2)]
  note u1 = UnregisterDumpRequestWait_spec [OF 1 ids w1]
  have u2: "ids_ok s2 \<and> same_server s1 s2 \<and> c2 = c1\<lparr>process_exit_wait := NULL\<rparr> \<and> handles s2 = handles s1 \<and>
    open_waits s2 = open_waits s1 - hid (process_exit_wait c)"
    using UnregisterProcessExitWait_spec [OF 2] u1 w2 by simp
  have oh: "open_handles s2 = open_handles s" using u1 u2 by (simp add: open_handles_def)
  have u3: "ids_ok s3 \<and> same_server s2 s3 \<and> open_handles s3 = open_handles s - hid (process_handle c) \<and>
    open_waits s3 = open_waits s2"
    using close_handle_spec [of s2 "process_handle c"] u2 h1 oh by (simp add: s3_def)
  have u4: "ids_ok s4 \<and> same_server s3 s4 \<and> open_handles s4 = open_handles s3 - hid (dump_requested c) \<and>
    open_waits s4 = open_waits s3"
    using close_handle_spec [of s3 "dump_requested c"] u3 h2 by (simp add: s4_def)
  have u5: "ids_ok s5 \<and> same_server s4 s5 \<and> open_handles s5 = open_handles s4 - hid (dump_generated c) \<and>
    open_waits s5 = open_waits s4"
    using close_handle_spec [of s4 "dump_generated c"] u3 u4 h3 by (simp add: s5_def)
  have "ClientInfo_destroy c s = s5"
    using conjunct1 [OF conjunct2 [OF conjunct2 [OF u1]]] conjunct1 [OF conjunct2 [OF conjunct2 [OF u2]]] 2
    by (simp add: ClientInfo_destroy_def 1 s5_def s4_def s3_def)
  moreover have "same_server s s5" using u1 u2 u3 u4 u5 by (meson same_server_trans)
  ultimately show ?thesis using u1 u2 u3 u4 u5 by (simp add: client_handles_def client_waits_def)
qed

lemma ClientInfo_Initialize_spec:
  assumes "ClientInfo_Initialize a c s = (ok, c', s')" "ids_ok s" "client_handles c = {#}" "client_waits c = {#}"
  shows "ids_ok s' \<and> same_server s s' \<and> open_handles s' = open_handles s + client_handles c' \<and>
    open_waits s' = open_waits s \<and> client_waits c' = {#} \<and>
    (ok \<longrightarrow> initialized c')"
proof -
  obtain h1 s1 where 1: "create_handle (ok_open_process a) s = (h1, s1)" by fastforce
  obtain h2 s2 where 2: "create_handle (ok_event_requested a) s1 = (h2, s2)" by fastforce
  obtain h3 s3 where 3: "create_handle (ok_event_generated a) s2 = (h3, s3)" by fastforce
  have i1: "ids_ok s1" using create_handle_spec [OF 1 assms(2)] by simp
  have i2: "ids_ok s2" using create_handle_spec [OF 2 i1] by simp
  note r = create_handle_spec [OF 1 assms(2)] create_handle_spec [OF 2 i1] create_handle_spec [OF 3 i2]
  have e: "hid (process_handle c) = {#}" "hid (dump_requested c) = {#}" "hid (dump_generated c) = {#}"
    "hid (dump_request_wait c) = {#}" "hid (process_exit_wait c) = {#}"
    using assms(3,4) by (auto simp: client_handles_def client_waits_def)
  have t: "same_server s s2" "same_server s s3" using r by (meson same_server_trans)+
  show ?thesis
    using assms(1) r t e
    by (auto simp: ClientInfo_Initialize_def 1 2 3 Let_def client_handles_def client_waits_def initialized_def
        split: if_split_asm option.split_asm)
qed


text \<open>A step that touches neither the server's own handles nor its waits.\<close>

definition keeps_ids :: "server \<Rightarrow> server \<Rightarrow> bool" where
  "keeps_ids s s' \<longleftrightarrow> same_server s s' \<and> handles s' = handles s \<and> waits s' = waits s"

lemma keeps_ids_trans: "keeps_ids s s' \<Longrightarrow> keeps_ids s' s'' \<Longrightarrow> keeps_ids s s''"
  by (auto simp: keeps_ids_def intro: same_server_trans)

lemma keeps_idsD:
  assumes "keeps_ids s s'" "ids_ok s"
  shows "ids_ok s' \<and> same_server s s' \<and> open_handles s' = open_handles s \<and> open_waits s' = open_waits s"
proof -
  have "next_id s \<le> next_id s'" using assms(1) by (simp add: keeps_ids_def same_server_def)
  then show ?thesis
    using assms by (auto simp: keeps_ids_def ids_ok_def open_handles_def open_waits_def intro: less_le_trans)
qed

lemma duplicate_handle_keeps: "duplicate_handle ok src s = (h, s') \<Longrightarrow> keeps_ids s s'"
  by (auto simp: duplicate_handle_def keeps_ids_def same_server_def split: if_split_asm)

lemma close_remote_keeps: "keeps_ids s (close_remote h s)"
  by (cases h) (auto simp: keeps_ids_def same_server_def)

lemma CreateClientHandles_keeps:
  assumes "CreateClientHandles a c r s = (ok, r', s')"
  shows "keeps_ids s s'"
proof -
  obtain k1 k2 k3 where k: "ok_duplicate a = (k1, k2, k3)" by (metis prod_cases3)
  obtain h1 s1 where 1: "duplicate_handle k1 (dump_requested c) s = (h1, s1)" by fastforce
  obtain h2 s2 where 2: "duplicate_handle k2 (dump_generated c) s1 = (h2, s2)" by fastforce
  obtain h3 s3 where 3: "duplicate_handle k3 (server_alive_handle s2) s2 = (h3, s3)" by fastforce
  note d = duplicate_handle_keeps [OF 1] duplicate_handle_keeps [OF 2] duplicate_handle_keeps [OF 3]
  have "keeps_ids s s2" "keeps_ids s s3" using d by (meson keeps_ids_trans)+
  then show ?thesis
    using assms d by (auto simp: CreateClientHandles_def k 1 2 3 Let_def split: if_split_asm)
qed

lemma PrepareReply_keeps:
  assumes "PrepareReply a c s = (ok, r, s')"
  shows "keeps_ids s s'"
proof -
  obtain k r1 s1 where 1:
    "CreateClientHandles a c (empty_message\<lparr>tag := MESSAGE_TAG_REGISTRATION_RESPONSE, msg_id := current_pid a\<rparr>) s
       = (k, r1, s1)"
    by (metis prod_cases3)
  have "keeps_ids s1 (close_remote x (close_remote y (close_remote z s1)))" for x y z
    by (meson close_remote_keeps keeps_ids_trans)
  then show ?thesis
    using assms CreateClientHandles_keeps [OF 1] keeps_ids_trans
    by (auto simp: PrepareReply_def 1 split: if_split_asm)
qed

lemma keeps_ids_trace: "keeps_ids s (s\<lparr>trace := t\<rparr>)"
  by (simp add: keeps_ids_def same_server_def)

lemma AddClient_waits_spec:
  assumes "AddClient_waits a c s = (ok, c', s')" "ids_ok s" "client_waits c = {#}"
  shows "ids_ok s' \<and> same_server s s' \<and> open_handles s' = open_handles s \<and>
    open_waits s' = open_waits s + client_waits c' \<and> same_handles c c'"
proof -
  obtain h1 s1 where 1: "register_wait (ok_register_request a) s = (h1, s1)" by fastforce
  obtain h2 s2 where 2: "register_wait (ok_register_exit a) s1 = (h2, s2)" by fastforce
  have i1: "ids_ok s1" using register_wait_spec [OF 1 assms(2)] by simp
  note r = register_wait_spec [OF 1 assms(2)] register_wait_spec [OF 2 i1]
  have "same_server s s2" using r by (meson same_server_trans)
  moreover have "hid (dump_request_wait c) = {#}" "hid (process_exit_wait c) = {#}"
    using assms(3) by (auto simp: client_waits_def)
  ultimately show ?thesis
    using assms(1) r
    by (auto simp: AddClient_waits_def 1 2 Let_def same_handles_def client_waits_def split: if_split_asm)
qed

lemma RespondToClient_spec:
  assumes "RespondToClient a c s = (ok, c', s')" "ids_ok s" "client_waits c = {#}"
  shows "ids_ok s' \<and> same_server s s' \<and> open_handles s' = open_handles s \<and>
    open_waits s' = open_waits s + client_waits c' \<and> same_handles c c'"
proof -
  obtain k r s1 where p: "PrepareReply a c s = (k, r, s1)" by (metis prod_cases3)
  let ?s2 = "s1\<lparr>trace := trace s1 @ [ReplyWritten r]\<rparr>"
  obtain k3 c3 s3 where w: "AddClient_waits a c ?s2 = (k3, c3, s3)" by (metis prod_cases3)
  have k2: "keeps_ids s ?s2" using PrepareReply_keeps [OF p] keeps_ids_trace keeps_ids_trans by blast
  have i2: "ids_ok ?s2" using keeps_idsD [OF k2 assms(2)] by simp
  have t: "same_server s s3"
    using keeps_idsD [OF k2 assms(2)] AddClient_waits_spec [OF w i2 assms(3)] by (meson same_server_trans)
  show ?thesis
    using assms(1,3) t keeps_idsD [OF k2 assms(2)] keeps_idsD [OF PrepareReply_keeps [OF p] assms(2)]
      AddClient_waits_spec [OF w i2 assms(3)]
    by (auto simp: RespondToClient_def p w same_handles_def split: if_split_asm)
qed


subsection \<open>The invariant\<close>

text \<open>Every open handle and every registered wait has exactly one owner, and the objects that are alive are exactly
  the clients of the list and those of \<open>xs\<close>.\<close>

definition server_inv :: "nat list \<Rightarrow> server \<Rightarrow> bool" where
  "server_inv xs s \<longleftrightarrow> ids_ok s \<and> distinct (clients s @ xs) \<and> dom (objects s) = set (clients s @ xs) \<and>
     (\<forall>p \<in> set (clients s @ xs). p < next_id s) \<and> (\<forall>c \<in> ran (objects s). initialized c) \<and>
     open_handles s = owned_handles xs s \<and> open_waits s = owned_waits xs s"

lemma client_sum_cong: "(\<And>p. p \<in> set ps \<Longrightarrow> m p = m' p) \<Longrightarrow> client_sum g ps m = client_sum g ps m'"
  by (induction ps) (auto simp: client_sum_def)

lemma client_sum_perm: "mset ps = mset qs \<Longrightarrow> client_sum g ps m = client_sum g qs m"
  by (simp add: client_sum_def)

lemma client_sum_append: "client_sum g (ps @ qs) m = client_sum g ps m + client_sum g qs m"
  by (simp add: client_sum_def)

lemma client_sum_add:
  assumes "p \<notin> set (ps @ qs)"
  shows "client_sum g (ps @ p # qs) (m(p \<mapsto> c)) = client_sum g (ps @ qs) m + g c"
proof -
  have "client_sum g (ps @ qs) (m(p \<mapsto> c)) = client_sum g (ps @ qs) m"
    using assms by (intro client_sum_cong) auto
  then show ?thesis by (simp add: client_sum_def ac_simps)
qed

lemma client_sum_remove:
  assumes "distinct ps" "p \<in> set ps"
  shows "client_sum g ps m = g (the (m p)) + client_sum g (removeAll p ps) (m(p := x))"
proof -
  have "client_sum g ps m = g (the (m p)) + client_sum g (removeAll p ps) m"
    using assms by (induction ps) (auto simp: client_sum_def)
  also have "client_sum g (removeAll p ps) m = client_sum g (removeAll p ps) (m(p := x))"
    by (rule client_sum_cong) auto
  finally show ?thesis .
qed

lemma client_sum_update:
  assumes "distinct ps" "p \<in> set ps"
  shows "client_sum g ps (m(p \<mapsto> c)) = g c + client_sum g (removeAll p ps) (m(p := None))"
  using client_sum_remove [OF assms, of g "m(p \<mapsto> c)" None] by simp

text \<open>The invariant reads these fields only.\<close>

definition resources where
  "resources s = (handles s, waits s, next_id s, pipe s, server_alive_handle s, event_handle s, pipe_wait_handle s,
     clients s, objects s)"

lemma server_inv_cong: "resources s = resources s' \<Longrightarrow> server_inv xs s = server_inv xs s'"
  by (simp add: server_inv_def resources_def ids_ok_def open_handles_def open_waits_def owned_handles_def
      owned_waits_def server_handles_def)

lemma resources_simps [simp]:
  "resources (snd (set_event a s)) = resources s"
  "resources (snd (reset_event a s)) = resources s"
  "resources (EnterErrorState a s) = resources s"
  "resources (EnterStateWhenSignaled st s) = resources s"
  "resources (EnterStateImmediately a st s) = resources s"
  "resources (s\<lparr>server_state := st\<rparr>) = resources s"
  "resources (s\<lparr>trace := t\<rparr>) = resources s"
  "resources (s\<lparr>msg := m\<rparr>) = resources s"
  "resources (s\<lparr>client_info := i\<rparr>) = resources s"
  "resources (s\<lparr>event_signalled := b\<rparr>) = resources s"
  "resources (s\<lparr>shutting_down := b\<rparr>) = resources s"
  "resources (s\<lparr>client_events := e\<rparr>) = resources s"
  "resources (set_client_event h s) = resources s"
  "resources (reset_client_event h s) = resources s"
  by (cases h; simp add: resources_def set_event_def reset_event_def EnterErrorState_def EnterStateWhenSignaled_def
      EnterStateImmediately_def)+

lemma same_serverD:
  assumes "same_server s s'"
  shows "conf s' = conf s" "server_state s' = server_state s" "shutting_down s' = shutting_down s" "pipe s' = pipe s"
    "pipe_wait_handle s' = pipe_wait_handle s" "server_alive_handle s' = server_alive_handle s"
    "event_handle s' = event_handle s" "clients s' = clients s" "objects s' = objects s" "next_id s \<le> next_id s'"
    "event_signalled s' = event_signalled s" "msg s' = msg s" "client_info s' = client_info s"
    "client_events s' = client_events s"
  using assms unfolding same_server_def by (cases s; cases s'; simp)+

text \<open>Only which clients there are matters, not whether they are in the list.\<close>

lemma server_inv_move:
  assumes "server_inv xs s" "mset (clients s @ xs) = mset (ys @ zs)"
  shows "server_inv zs (s\<lparr>clients := ys\<rparr>)"
proof -
  have "set (clients s @ xs) = set (ys @ zs)" "distinct (clients s @ xs) = distinct (ys @ zs)"
    using assms(2) mset_eq_setD mset_eq_imp_distinct_iff by blast+
  moreover have "client_sum g (clients s @ xs) m = client_sum g (ys @ zs) m" for g m
    by (rule client_sum_perm [OF assms(2)])
  ultimately show ?thesis
    using assms(1)
    by (simp add: server_inv_def ids_ok_def open_handles_def open_waits_def owned_handles_def owned_waits_def
        server_handles_def del: set_append distinct_append)
qed

text \<open>A client is added, changed or removed together with the handles and waits that it owns.\<close>

lemma add_client_inv:
  assumes inv: "server_inv xs s" and step: "same_server s s'" "ids_ok s'"
    and h: "open_handles s' = open_handles s + client_handles c"
    and w: "open_waits s' = open_waits s + client_waits c"
    and p: "p \<notin> set (clients s @ xs)" "p < next_id s'" and c: "initialized c"
  shows "server_inv (p # xs) (s'\<lparr>objects := (objects s')(p \<mapsto> c)\<rparr>)"
proof -
  let ?s = "s'\<lparr>objects := (objects s')(p \<mapsto> c)\<rparr>"
  note f = same_serverD [OF step(1)]
  have "open_handles ?s = owned_handles (p # xs) ?s" "open_waits ?s = owned_waits (p # xs) ?s"
    using h w inv client_sum_add [OF p(1), of _ "objects s" c] f
    by (simp_all add: server_inv_def open_handles_def open_waits_def owned_handles_def owned_waits_def
        server_handles_def add.assoc)
  moreover have "\<forall>c\<in>ran (objects ?s). initialized c"
    using inv c f(9) by (auto simp: server_inv_def ran_def)
  moreover have "dom (objects ?s) = set (clients ?s @ p # xs)" using inv f(8,9) by (auto simp: server_inv_def)
  moreover have "\<forall>q\<in>set (clients ?s @ p # xs). q < next_id ?s"
    using inv p(2) f(8,10) by (auto simp: server_inv_def intro: less_le_trans)
  moreover have "ids_ok ?s" using step(2) by (simp add: ids_ok_def)
  ultimately show ?thesis using inv p(1) f(8) by (simp add: server_inv_def)
qed

lemma update_client_inv:
  assumes inv: "server_inv xs s" and step: "same_server s s'" "ids_ok s'" and p: "objects s p = Some c0"
    and h: "open_handles s' + client_handles c0 = open_handles s + client_handles c"
    and w: "open_waits s' + client_waits c0 = open_waits s + client_waits c"
    and c: "initialized c"
  shows "server_inv xs (s'\<lparr>objects := (objects s')(p \<mapsto> c)\<rparr>)"
proof -
  have d: "distinct (clients s @ xs)" "p \<in> set (clients s @ xs)" using inv p by (auto simp: server_inv_def)
  have swap: "client_sum g (clients s @ xs) ((objects s)(p \<mapsto> c)) + g c0 =
      client_sum g (clients s @ xs) (objects s) + g c" for g
    unfolding client_sum_update [OF d] client_sum_remove [OF d, of g "objects s" None] using p by (simp add: ac_simps)
  let ?s = "s'\<lparr>objects := (objects s')(p \<mapsto> c)\<rparr>"
  have "open_handles ?s + client_handles c0 = owned_handles xs ?s + client_handles c0"
    using h inv swap [of client_handles] same_serverD [OF step(1)]
    by (simp add: server_inv_def open_handles_def owned_handles_def server_handles_def add.assoc)
  moreover have "open_waits ?s + client_waits c0 = owned_waits xs ?s + client_waits c0"
    using w inv swap [of client_waits] same_serverD [OF step(1)]
    by (simp add: server_inv_def open_waits_def owned_waits_def add.assoc)
  moreover have "\<forall>c\<in>ran (objects ?s). initialized c"
    using inv c same_serverD(9) [OF step(1)] by (auto simp: server_inv_def ran_def)
  moreover have "dom (objects ?s) = set (clients ?s @ xs)"
    using inv d same_serverD(8,9) [OF step(1)] by (auto simp: server_inv_def)
  moreover have "\<forall>q\<in>set (clients ?s @ xs). q < next_id ?s"
    using inv same_serverD(8,10) [OF step(1)] by (auto simp: server_inv_def intro: less_le_trans)
  moreover have "ids_ok ?s" using step(2) by (simp add: ids_ok_def)
  ultimately show ?thesis using d(1) same_serverD(8) [OF step(1)] by (simp add: server_inv_def)
qed

lemma remove_client_inv:
  assumes inv: "server_inv (p # xs) s" and p: "objects s p = Some c" and ids: "ids_ok s'"
    and f: "clients s' = clients s" "objects s' = (objects s)(p := None)"
      "server_handles s' = server_handles s" "pipe_wait_handle s' = pipe_wait_handle s" "next_id s \<le> next_id s'"
    and h: "open_handles s' = open_handles s - client_handles c"
    and w: "open_waits s' = open_waits s - client_waits c"
  shows "server_inv xs s'"
proof -
  have d: "p \<notin> set (clients s @ xs)" using inv by (simp add: server_inv_def)
  have sum: "client_sum g (clients s @ p # xs) (objects s) = client_sum g (clients s' @ xs) (objects s') + g c" for g
    using client_sum_add [OF d, of g "(objects s)(p := None)" c] p f(1,2) by (simp add: fun_upd_idem)
  have "open_handles s' = owned_handles xs s'" "open_waits s' = owned_waits xs s'"
    using h w inv f(3,4) sum by (simp_all add: server_inv_def owned_handles_def owned_waits_def add.assoc [symmetric])
  moreover have "\<forall>c\<in>ran (objects s'). initialized c"
    using inv f(2) by (auto simp: server_inv_def ran_def split: if_split_asm)
  moreover have "dom (objects s') = set (clients s' @ xs)"
    using inv f(1,2) d by (auto simp: server_inv_def)
  moreover have "\<forall>q\<in>set (clients s' @ xs). q < next_id s'"
    using inv f(1,5) by (auto simp: server_inv_def intro: less_le_trans)
  ultimately show ?thesis using ids inv f(1) by (simp add: server_inv_def)
qed


subsection \<open>Every callback keeps the invariant\<close>

lemma server_inv_resources [simp]:
  "server_inv xs (snd (set_event a s)) = server_inv xs s"
  "server_inv xs (snd (reset_event a s)) = server_inv xs s"
  "server_inv xs (EnterErrorState a s) = server_inv xs s"
  "server_inv xs (EnterStateWhenSignaled st s) = server_inv xs s"
  "server_inv xs (EnterStateImmediately a st s) = server_inv xs s"
  "server_inv xs (s\<lparr>server_state := st\<rparr>) = server_inv xs s"
  "server_inv xs (s\<lparr>trace := t\<rparr>) = server_inv xs s"
  "server_inv xs (s\<lparr>msg := m\<rparr>) = server_inv xs s"
  "server_inv xs (s\<lparr>client_info := i\<rparr>) = server_inv xs s"
  "server_inv xs (s\<lparr>event_signalled := b\<rparr>) = server_inv xs s"
  "server_inv xs (s\<lparr>shutting_down := b\<rparr>) = server_inv xs s"
  "server_inv xs (s\<lparr>client_events := e\<rparr>) = server_inv xs s"
  "server_inv xs (set_client_event h s) = server_inv xs s"
  "server_inv xs (reset_client_event h s) = server_inv xs s"
  by (rule server_inv_cong; simp)+

lemma set_event_inv: "set_event a s = (ok, s') \<Longrightarrow> server_inv xs s' = server_inv xs s"
  using server_inv_resources(1) [of xs a s] by simp

lemma reset_event_inv: "reset_event a s = (ok, s') \<Longrightarrow> server_inv xs s' = server_inv xs s"
  using server_inv_resources(2) [of xs a s] by simp

text \<open>Operations that leave every object alone: the invariant survives when what they close was theirs.\<close>

lemma server_inv_step:
  assumes "server_inv xs s" "ids_ok s'" "clients s' = clients s" "objects s' = objects s" "next_id s \<le> next_id s'"
    and "open_handles s' + server_handles s = open_handles s + server_handles s'"
    and "open_waits s' + hid (pipe_wait_handle s) = open_waits s + hid (pipe_wait_handle s')"
  shows "server_inv xs s'"
proof -
  have "open_handles s' = owned_handles xs s'"
    using assms(1,3,4,6) by (simp add: server_inv_def owned_handles_def ac_simps)
  moreover have "open_waits s' = owned_waits xs s'"
    using assms(1,3,4,7) by (simp add: server_inv_def owned_waits_def ac_simps)
  ultimately show ?thesis using assms(1-5) by (auto simp: server_inv_def intro: less_le_trans)
qed

lemma HandleErrorState_inv:
  assumes "server_inv xs s"
  shows "server_inv xs (HandleErrorState s)"
proof -
  have ids: "ids_ok s" and o: "open_handles s = owned_handles xs s" "open_waits s = owned_waits xs s"
    using assms by (auto simp: server_inv_def)
  define s1 where "s1 = (unregister_wait (pipe_wait_handle s) s)\<lparr>pipe_wait_handle := NULL\<rparr>"
  define s2 where "s2 = (close_handle (pipe s1) s1)\<lparr>pipe := NULL\<rparr>"
  define s3 where "s3 = (close_handle (event_handle s2) s2)\<lparr>event_handle := NULL\<rparr>"
  have own1: "hid (pipe_wait_handle s) \<subseteq># open_waits s" by (simp add: o owned_waits_def)
  note u = unregister_wait_spec [OF ids own1]
  have i1: "server_inv xs s1"
    using assms u own1 same_serverD [of s "unregister_wait (pipe_wait_handle s) s"]
    by (intro server_inv_step [OF assms])
      (auto simp: s1_def ids_ok_def server_handles_def open_handles_def open_waits_def)
  have own2: "hid (pipe s1) \<subseteq># open_handles s1"
    using i1 by (simp add: server_inv_def owned_handles_def server_handles_def)
  have i2: "server_inv xs s2"
    using i1 own2 close_handle_spec [of s1 "pipe s1"] same_serverD [of s1 "close_handle (pipe s1) s1"]
    by (intro server_inv_step [OF i1])
      (auto simp: s2_def ids_ok_def server_inv_def server_handles_def open_handles_def open_waits_def)
  have own3: "hid (event_handle s2) \<subseteq># open_handles s2"
    using i2 by (simp add: server_inv_def owned_handles_def server_handles_def)
  have i3: "server_inv xs s3"
    using i2 own3 close_handle_spec [of s2 "event_handle s2"] same_serverD [of s2 "close_handle (event_handle s2) s2"]
    by (intro server_inv_step [OF i2])
      (auto simp: s3_def ids_ok_def server_inv_def server_handles_def open_handles_def open_waits_def)
  have n: "s\<lparr>pipe_wait_handle := NULL\<rparr> = s" if "pipe_wait_handle s = NULL" for s using that by (cases s) simp
  have n2: "s\<lparr>pipe := NULL\<rparr> = s" if "pipe s = NULL" for s using that by (cases s) simp
  have n3: "s\<lparr>event_handle := NULL\<rparr> = s" if "event_handle s = NULL" for s using that by (cases s) simp
  have "HandleErrorState s = s3" if "\<not> shutting_down s"
    using that by (auto simp: HandleErrorState_def Let_def s3_def s2_def s1_def n n2 n3)
  then show ?thesis using assms i3 by (cases "shutting_down s") (auto simp: HandleErrorState_def)
qed

lemma new_ClientInfo_empty: "client_handles (new_ClientInfo a m) = {#}" "client_waits (new_ClientInfo a m) = {#}"
  by (simp_all add: new_ClientInfo_def client_handles_def client_waits_def)

text \<open>A client that is given up takes its handles and waits with it.\<close>

lemma destroy_unregistered_inv:
  assumes inv: "server_inv xs s" and step: "same_server s s'" "ids_ok s'"
    and h: "open_handles s' = open_handles s + client_handles c"
    and w: "open_waits s' = open_waits s + client_waits c"
  shows "server_inv xs (ClientInfo_destroy c s')"
proof -
  note d = ClientInfo_destroy_spec [OF step(2), of c]
  have t: "same_server s (ClientInfo_destroy c s')" using d h w same_server_trans [OF step(1)] by simp
  show ?thesis
    using d h w same_serverD [OF t] by (intro server_inv_step [OF inv]) (auto simp: server_handles_def)
qed


lemma ReadDone_prepare_cases:
  assumes "server_inv xs s"
  obtains s' where "ReadDone_prepare a s = (None, s')" "server_inv xs s'"
  | p c s' where "ReadDone_prepare a s = (Some p, s'\<lparr>objects := (objects s')(p \<mapsto> c)\<rparr>)"
    "server_inv (p # xs) (s'\<lparr>objects := (objects s')(p \<mapsto> c)\<rparr>)"
proof -
  define p where "p = next_id s"
  have ids: "ids_ok (s\<lparr>next_id := Suc p\<rparr>)" and new: "p \<notin> set (clients s @ xs)"
    using assms by (auto simp: server_inv_def ids_ok_def p_def less_Suc_eq)
  have e0: "same_server s (s\<lparr>next_id := Suc p\<rparr>)" by (simp add: same_server_def p_def)
  obtain k1 c1 s1 where 1: "ClientInfo_Initialize a (new_ClientInfo a (msg s)) (s\<lparr>next_id := Suc p\<rparr>) = (k1, c1, s1)"
    by (metis prod_cases3)
  note I = ClientInfo_Initialize_spec [OF 1 ids new_ClientInfo_empty]
  have e1: "same_server s s1" using I same_server_trans [OF e0] by blast
  have o1: "open_handles s1 = open_handles s + client_handles c1" "open_waits s1 = open_waits s + client_waits c1"
    using I by (simp_all add: open_handles_def open_waits_def)
  obtain k2 c2 s2 where 2: "RespondToClient a c1 s1 = (k2, c2, s2)" by (metis prod_cases3)
  have R: "ids_ok s2 \<and> same_server s1 s2 \<and> open_handles s2 = open_handles s1 \<and>
    open_waits s2 = open_waits s1 + client_waits c2 \<and> same_handles c1 c2"
    using RespondToClient_spec [OF 2] I by blast
  have e2: "same_server s s2" using R same_server_trans [OF e1] by blast
  have o2: "open_handles s2 = open_handles s + client_handles c2" "open_waits s2 = open_waits s + client_waits c2"
    using R o1 conjunct1 [OF conjunct2 [OF conjunct2 [OF conjunct2 [OF conjunct2 [OF I]]]]] same_handlesD [of c1 c2]
    by simp_all
  have d1: "server_inv xs (ClientInfo_destroy c1 s1)"
    using destroy_unregistered_inv [OF assms e1 _ o1] I by blast
  have d2: "server_inv xs (ClientInfo_destroy c2 s2)"
    using destroy_unregistered_inv [OF assms e2 _ o2] R by blast
  have p2: "p < next_id s2"
    using same_serverD(10) [of s1 s2] same_serverD(10) [of "s\<lparr>next_id := Suc p\<rparr>" s1] R I by simp
  consider "fst (ReadDone_prepare a s) = None" "server_inv xs (snd (ReadDone_prepare a s))"
    | "k1" "k2" "ReadDone_prepare a s = (Some p, s2\<lparr>objects := (objects s2)(p \<mapsto> c2)\<rparr>)"
    using assms d1 d2
    by (cases "IsClientRequestValid (msg s)"; cases "tag (msg s) = MESSAGE_TAG_UPLOAD_REQUEST"; cases k1; cases k2)
      (simp_all add: ReadDone_prepare_def 1 2 p_def [symmetric] Let_def)
  then show ?thesis
  proof cases
    case 1
    then show ?thesis using that(1) by (cases "ReadDone_prepare a s") auto
  next
    case 2
    then have "initialized c2" using I R same_handlesD [of c1 c2] by blast
    then show ?thesis using that(2) [OF 2(3) add_client_inv [OF assms e2 _ o2 new p2]] R by blast
  qed
qed

text \<open>What a client owns is open.\<close>

lemma client_subset_open:
  assumes "server_inv xs s" "objects s p = Some c"
  shows "client_handles c \<subseteq># open_handles s" "client_waits c \<subseteq># open_waits s"
proof -
  have d: "distinct (clients s @ xs)" "p \<in> set (clients s @ xs)" using assms by (auto simp: server_inv_def)
  have "client_sum g (clients s @ xs) (objects s) =
      g c + client_sum g (removeAll p (clients s @ xs)) ((objects s)(p := None))" for g
    using client_sum_remove [OF d, of g "objects s" None] assms(2) by simp
  then have sub: "g c \<subseteq># client_sum g (clients s @ xs) (objects s)" for g by simp
  have "client_sum client_handles (clients s @ xs) (objects s) \<subseteq># open_handles s"
    "client_sum client_waits (clients s @ xs) (objects s) \<subseteq># open_waits s"
    using assms(1) by (simp_all add: server_inv_def owned_handles_def owned_waits_def)
  with sub show "client_handles c \<subseteq># open_handles s" "client_waits c \<subseteq># open_waits s"
    by (blast intro: subset_mset.order_trans)+
qed

text \<open>The release of a client that is not in the list.\<close>

lemma destroy_client_inv:
  assumes inv: "server_inv (p # xs) s" and c: "objects s p = Some c"
  shows "server_inv xs (ClientInfo_destroy c (s\<lparr>objects := (objects s)(p := None)\<rparr>))"
proof -
  let ?s = "s\<lparr>objects := (objects s)(p := None)\<rparr>"
  have ids: "ids_ok ?s" using inv by (simp add: server_inv_def ids_ok_def)
  have oo: "open_handles ?s = open_handles s" "open_waits ?s = open_waits s"
    by (simp_all add: open_handles_def open_waits_def)
  note d = ClientInfo_destroy_spec [OF ids, of c, unfolded oo, OF client_subset_open [OF inv c]]
  note f = same_serverD [OF conjunct1 [OF conjunct2 [OF d]]]
  show ?thesis
    using d f by (intro remove_client_inv [OF inv c]) (simp_all add: server_handles_def)
qed

lemma ReadDone_commit_inv:
  assumes inv: "server_inv (p # xs) s"
  shows "\<exists>s'. ReadDone_commit a p s = Returns s' \<and> server_inv xs s'"
proof (cases "shutting_down s")
  case False
  then show ?thesis
    using server_inv_move [OF inv, of "clients s @ [p]" xs] by (simp add: ReadDone_commit_def AddClient_push_def)
next
  case True
  have "p \<in> dom (objects s)" using inv by (simp add: server_inv_def)
  then obtain c where c: "objects s p = Some c" by blast
  then show ?thesis using True destroy_client_inv [OF inv c] by (simp add: ReadDone_commit_def AddClient_push_def)
qed

lemma HandleReadDoneState_inv:
  assumes "server_inv xs s"
  shows "\<exists>s'. HandleReadDoneState a s = Returns s' \<and> server_inv xs s'"
proof (rule ReadDone_prepare_cases [OF assms, of a])
  fix s' assume "ReadDone_prepare a s = (None, s')" "server_inv xs s'"
  then show ?thesis by (simp add: HandleReadDoneState_def)
next
  fix p c s'
  assume "ReadDone_prepare a s = (Some p, s'\<lparr>objects := (objects s')(p \<mapsto> c)\<rparr>)"
    and "server_inv (p # xs) (s'\<lparr>objects := (objects s')(p \<mapsto> c)\<rparr>)"
  then show ?thesis using ReadDone_commit_inv by (simp add: HandleReadDoneState_def)
qed

lemma HandleConnectionRequest_inv:
  assumes "server_inv xs s"
  shows "\<exists>s'. HandleConnectionRequest a s = Returns s' \<and> server_inv xs s'"
proof (cases "shutting_down s")
  case True
  then show ?thesis using assms by (simp add: HandleConnectionRequest_def)
next
  case False
  show ?thesis
    using False assms HandleReadDoneState_inv [OF assms, of a] HandleErrorState_inv [OF assms]
    by (cases "server_state s")
      (auto simp: HandleConnectionRequest_def HandleInitialState_def HandleConnectingState_def HandleConnectedState_def
        HandleReadingState_def HandleWritingState_def HandleWriteDoneState_def HandleReadingAckState_def
        HandleDisconnectingState_def Let_def reset_event_inv split: prod.split io_result.split option.split)
qed


lemma PopulateCustomInfo_same:
  "PopulateCustomInfo a c = (ok, c') \<Longrightarrow> same_handles c c' \<and> client_waits c' = client_waits c"
  by (auto simp: PopulateCustomInfo_def Let_def same_handles_def client_waits_def split: if_split_asm option.split_asm)

lemma client_objectE:
  assumes "server_inv xs s" "p \<in> set (clients s @ xs)"
  obtains c where "objects s p = Some c" "initialized c"
proof -
  have "p \<in> dom (objects s)" using assms by (simp add: server_inv_def)
  then obtain c where c: "objects s p = Some c" by blast
  then have "initialized c" using assms(1) ranI [of "objects s" p c] by (simp add: server_inv_def)
  with c show ?thesis by (rule that)
qed

lemma OnDumpRequest_inv:
  assumes "server_inv xs s" "p \<in> set (clients s @ xs)"
  shows "\<exists>s'. OnDumpRequest a p s = Returns s' \<and> server_inv xs s'"
proof -
  obtain c where c: "objects s p = Some c" "initialized c" using client_objectE [OF assms] .
  define c' where "c' = (if pre_fetch_custom_info (conf s) then snd (PopulateCustomInfo a c) else c)"
  have "same_handles c c' \<and> client_waits c' = client_waits c"
    using PopulateCustomInfo_same [of a c] by (cases "PopulateCustomInfo a c") (auto simp: c'_def same_handles_def)
  then have "server_inv xs (s\<lparr>objects := (objects s)(p \<mapsto> c')\<rparr>)"
    using assms(1) c same_handlesD [of c c']
    by (intro update_client_inv [OF assms(1) same_server_refl _ c(1)]) (simp_all add: server_inv_def)
  then show ?thesis
    using c by (simp add: OnDumpRequest_def Let_def c'_def [symmetric] HandleDumpRequest_def split: prod.split)
qed

lemma exit_unregister_inv:
  assumes inv: "server_inv xs s" and c: "objects s p = Some c" and 1: "UnregisterDumpRequestWait c s = (c1, s1)"
  shows "server_inv xs (s1\<lparr>objects := (objects s1)(p \<mapsto> c1)\<rparr>)" "same_server s s1" "dump_request_wait c1 = NULL"
proof -
  have ids: "ids_ok s" and ini: "initialized c" using inv ranI [of "objects s" p c] c by (auto simp: server_inv_def)
  note w1 = subset_mset_addD [OF client_subset_open(2) [OF inv c, unfolded client_waits_def]]
  note u = UnregisterDumpRequestWait_spec [OF 1 ids w1(1)]
  have c1: "same_handles c c1" "client_waits c1 = hid (process_exit_wait c)"
    using u by (auto simp: same_handles_def client_waits_def)
  show "server_inv xs (s1\<lparr>objects := (objects s1)(p \<mapsto> c1)\<rparr>)"
  proof (rule update_client_inv [OF inv _ _ c])
    show "open_handles s1 + client_handles c = open_handles s + client_handles c1"
      using u c1 same_handlesD [of c c1] by (simp add: open_handles_def)
    have "open_waits s1 = open_waits s - hid (dump_request_wait c)" using u by blast
    then have "open_waits s1 + hid (dump_request_wait c) = open_waits s"
      using w1(1) by (simp add: subset_mset.diff_add)
    then show "open_waits s1 + client_waits c = open_waits s + client_waits c1"
      unfolding c1(2) unfolding client_waits_def by (simp add: add.assoc [symmetric])
    show "same_server s s1" "ids_ok s1" using u by simp_all
    show "initialized c1" using ini same_handlesD [OF c1(1)] by simp
  qed
  show "same_server s s1" "dump_request_wait c1 = NULL" using u by simp_all
qed

lemma ProcessExit_begin_inv:
  assumes "server_inv xs s" "p \<in> set (clients s @ xs)"
  shows "\<exists>s'. ProcessExit_begin p s = Returns s' \<and> server_inv xs s' \<and> clients s' = clients s \<and>
    shutting_down s' = shutting_down s"
proof -
  obtain c where c: "objects s p = Some c" "initialized c" using client_objectE [OF assms] .
  obtain c1 s1 where 1: "UnregisterDumpRequestWait c s = (c1, s1)" by fastforce
  note u = exit_unregister_inv [OF assms(1) c(1) 1]
  show ?thesis using u same_serverD(3,8) [OF u(2)] by (simp add: ProcessExit_begin_def c(1) 1 Let_def)
qed

lemma ProcessExit_remove_inv:
  assumes "server_inv xs s" "ProcessExit_remove p s = (True, s')" "p \<in> set (clients s)"
  shows "server_inv (p # xs) s'"
proof -
  have "distinct (clients s)" using assms(1) by (simp add: server_inv_def)
  then have "mset (clients s) = add_mset p (mset (removeAll p (clients s)))"
    using assms(3) by (simp add: distinct_remove1_removeAll [symmetric])
  then show ?thesis
    using assms(2) server_inv_move [OF assms(1), of "removeAll p (clients s)" "p # xs"]
    by (auto simp: ProcessExit_remove_def split: if_split_asm)
qed

lemma ProcessExit_delete_inv:
  assumes inv: "server_inv (p # xs) s"
  shows "\<exists>s'. ProcessExit_delete p s = Returns s' \<and> server_inv xs s' \<and> clients s' = clients s"
proof -
  have "p \<in> set (clients s @ p # xs)" by simp
  then obtain c where c: "objects s p = Some c" "initialized c" using client_objectE [OF inv] by blast
  obtain c1 s1 where 1: "UnregisterProcessExitWait c s = (c1, s1)" by fastforce
  have ids: "ids_ok s" using inv by (simp add: server_inv_def)
  note sub = client_subset_open [OF inv c(1)]
  note w = subset_mset_addD [OF sub(2) [unfolded client_waits_def add.commute [of "hid (dump_request_wait c)"]]]
  note u = UnregisterProcessExitWait_spec [OF 1 ids w(1)]
  let ?s = "s1\<lparr>objects := (objects s1)(p := None)\<rparr>" and ?d = "ClientInfo_destroy c1 (s1\<lparr>objects := (objects s1)(p := None)\<rparr>)"
  have c1: "client_handles c1 = client_handles c" "client_waits c1 = hid (dump_request_wait c)"
    using u by (simp_all add: client_handles_def client_waits_def)
  have i1: "ids_ok ?s" using conjunct1 [OF u] by (simp add: ids_ok_def)
  have o1: "open_handles ?s = open_handles s" "open_waits ?s = open_waits s - hid (process_exit_wait c)"
    using u by (simp_all add: open_handles_def open_waits_def)
  note d = ClientInfo_destroy_spec [OF i1, of c1, unfolded c1 o1, OF sub(1) w(2)]
  note f = same_serverD [OF conjunct1 [OF conjunct2 [OF d]]] same_serverD [OF conjunct1 [OF conjunct2 [OF u]]]
  have "server_inv xs ?d"
    using d f by (intro remove_client_inv [OF inv c(1)]) (simp_all add: server_handles_def client_waits_def ac_simps)
  then show ?thesis using f by (simp add: ProcessExit_delete_def c(1) 1)
qed

lemma HandleClientProcessExit_inv:
  assumes "server_inv xs s" "p \<in> set (clients s)"
  shows "\<exists>s'. HandleClientProcessExit p s = Returns s' \<and> server_inv xs s' \<and>
    (\<not> shutting_down s \<longrightarrow> clients s' = removeAll p (clients s))"
proof -
  obtain s1 where 1: "ProcessExit_begin p s = Returns s1" "server_inv xs s1" "clients s1 = clients s"
    "shutting_down s1 = shutting_down s"
    using ProcessExit_begin_inv [OF assms(1), of p] assms(2) by auto
  let ?s2 = "s1\<lparr>clients := removeAll p (clients s1)\<rparr>"
  have "\<not> shutting_down s1 \<Longrightarrow> server_inv (p # xs) ?s2"
    using ProcessExit_remove_inv [OF 1(2), of p ?s2] assms(2) 1(3) by (simp add: ProcessExit_remove_def)
  then show ?thesis
    using ProcessExit_delete_inv [of p xs ?s2] 1
    by (cases "shutting_down s1") (auto simp: HandleClientProcessExit_def ProcessExit_remove_def)
qed

subsection \<open>What the callbacks leave alone\<close>

lemma EnterStateImmediately_state:
  "server_state (EnterStateImmediately a st s) =
     (if ok_set_event a \<and> event_handle s \<noteq> NULL then st else IPC_SERVER_STATE_ERROR)"
  by (simp add: EnterStateImmediately_def set_event_def)

lemma EnterErrorState_state [simp]: "server_state (EnterErrorState a s) = IPC_SERVER_STATE_ERROR"
  by (simp add: EnterErrorState_def)

lemma reset_event_frame:
  "reset_event a s = (ok, s') \<Longrightarrow> event_handle s' = event_handle s \<and> server_state s' = server_state s \<and>
     shutting_down s' = shutting_down s \<and> (ok \<longrightarrow> event_handle s \<noteq> NULL)"
  by (auto simp: reset_event_def split: if_split_asm)

text \<open>What handles, waits and client records have no part in.\<close>

definition core where
  "core s = (conf s, server_state s, shutting_down s, event_handle s, clients s, msg s, client_info s)"

lemma core_close [simp]:
  "core (close_handle h s) = core s" "core (unregister_wait h s) = core s" "core (close_remote h s) = core s"
  by (cases h; simp add: core_def)+

lemma core_update [simp]:
  "core (s\<lparr>objects := m\<rparr>) = core s" "core (s\<lparr>next_id := n\<rparr>) = core s" "core (s\<lparr>trace := t\<rparr>) = core s"
  by (simp_all add: core_def)

lemma core_create:
  "create_handle ok s = (h, s') \<Longrightarrow> core s' = core s" "register_wait ok s = (h, s') \<Longrightarrow> core s' = core s"
  "duplicate_handle ok src s = (h, s') \<Longrightarrow> core s' = core s"
  by (auto simp: create_handle_def register_wait_def duplicate_handle_def core_def split: if_split_asm)

lemma core_Unregister:
  "UnregisterDumpRequestWait c s = (c', s') \<Longrightarrow> core s' = core s"
  "UnregisterProcessExitWait c s = (c', s') \<Longrightarrow> core s' = core s"
  by (auto simp: UnregisterDumpRequestWait_def UnregisterProcessExitWait_def split: if_split_asm)

lemma core_destroy [simp]: "core (ClientInfo_destroy c s) = core s"
  by (auto simp: ClientInfo_destroy_def Let_def core_Unregister split: prod.split)

lemma core_Initialize: "ClientInfo_Initialize a c s = (ok, c', s') \<Longrightarrow> core s' = core s"
  by (auto simp: ClientInfo_Initialize_def Let_def split: if_split_asm prod.split_asm dest!: core_create)

lemma core_CreateClientHandles: "CreateClientHandles a c r s = (ok, r', s') \<Longrightarrow> core s' = core s"
  by (auto simp: CreateClientHandles_def Let_def split: if_split_asm prod.split_asm dest!: core_create)

lemma core_PrepareReply: "PrepareReply a c s = (ok, r, s') \<Longrightarrow> core s' = core s"
  by (auto simp: PrepareReply_def Let_def split: if_split_asm prod.split_asm dest!: core_CreateClientHandles)

lemma core_AddClient_waits: "AddClient_waits a c s = (ok, c', s') \<Longrightarrow> core s' = core s"
  by (auto simp: AddClient_waits_def Let_def split: if_split_asm prod.split_asm dest!: core_create)

lemma core_RespondToClient: "RespondToClient a c s = (ok, c', s') \<Longrightarrow> core s' = core s"
  by (auto simp: RespondToClient_def Let_def split: if_split_asm prod.split_asm
      dest!: core_PrepareReply core_AddClient_waits)

lemma core_HandleErrorState [simp]:
  "server_state (HandleErrorState s) = server_state s" "clients (HandleErrorState s) = clients s"
proof -
  have "server_state (unregister_wait h s) = server_state s" "server_state (close_handle h s) = server_state s"
    "clients (unregister_wait h s) = clients s" "clients (close_handle h s) = clients s" for h s
    by (cases h; simp)+
  then show "server_state (HandleErrorState s) = server_state s" "clients (HandleErrorState s) = clients s"
    by (simp_all add: HandleErrorState_def Let_def)
qed

lemma core_event_handle:
  "core s = core s' \<Longrightarrow> event_handle s = event_handle s'" "core s = core s' \<Longrightarrow> clients s = clients s'"
  by (simp_all add: core_def)

lemma ReadDone_prepare_core:
  assumes "ReadDone_prepare a s = (r, s')"
  shows "event_handle s' = event_handle s \<and> clients s' = clients s \<and>
    (r = None \<longrightarrow> server_state s' =
       (if ok_set_event a \<and> event_handle s \<noteq> NULL then IPC_SERVER_STATE_DISCONNECTING else IPC_SERVER_STATE_ERROR)) \<and>
    (r \<noteq> None \<longrightarrow> core s' = core s)"
proof -
  have e: "event_handle (EnterStateImmediately a st s) = event_handle s"
    "clients (EnterStateImmediately a st s) = clients s" for st s
    using resources_simps(5) [of a st s] by (simp_all add: resources_def)
  show ?thesis
    using assms
    by (auto simp: ReadDone_prepare_def Let_def EnterStateImmediately_state e core_event_handle [OF core_destroy] core_def
        split: if_split_asm prod.split_asm dest!: core_Initialize core_RespondToClient)
qed


subsection \<open>Reachable states\<close>

lemma clients_frames [simp]:
  "clients (EnterErrorState a s) = clients s" "clients (EnterStateWhenSignaled st s) = clients s"
  "clients (EnterStateImmediately a st s) = clients s" "clients (snd (reset_event a s)) = clients s"
  "clients (set_client_event h s) = clients s" "clients (reset_client_event h s) = clients s"
  by (cases h; simp add: EnterErrorState_def EnterStateWhenSignaled_def EnterStateImmediately_def set_event_def
      reset_event_def)+

lemma clients_reset_event: "reset_event a s = (ok, s') \<Longrightarrow> clients s' = clients s"
  using clients_frames(4) [of a s] by simp

lemma HandleConnectionRequest_clients:
  assumes "HandleConnectionRequest a s = Returns s'"
    "shutting_down s \<or> server_state s \<noteq> IPC_SERVER_STATE_READ_DONE"
  shows "clients s' = clients s"
  using assms
  by (cases "server_state s")
    (auto simp: HandleConnectionRequest_def HandleInitialState_def HandleConnectingState_def HandleConnectedState_def
      HandleReadingState_def HandleWritingState_def HandleWriteDoneState_def HandleReadingAckState_def
      HandleDisconnectingState_def Let_def clients_reset_event
      split: if_split_asm prod.split io_result.split option.split)

lemma ReadDone_commit_clients:
  assumes "ReadDone_commit a p s = Returns s'"
  shows "clients s' = (if shutting_down s then clients s else clients s @ [p])"
  using assms core_event_handle(2) [OF core_destroy]
  by (auto simp: ReadDone_commit_def AddClient_push_def split: if_split_asm option.split_asm)

lemma OnDumpRequest_clients: "OnDumpRequest a p s = Returns s' \<Longrightarrow> clients s' = clients s"
  by (auto simp: OnDumpRequest_def HandleDumpRequest_def Let_def split: option.split_asm prod.split_asm)

lemma Start_inv: "Start a (CrashGenerationServer_new cf) = (ok, s) \<Longrightarrow> server_inv [] s"
  by (auto simp: Start_def CrashGenerationServer_new_def create_handle_def register_wait_def Let_def set_event_def
      server_inv_def ids_ok_def open_handles_def open_waits_def owned_handles_def owned_waits_def server_handles_def
      client_sum_def split: if_split_asm)

text \<open>The callbacks run on different threads, and two of them give the others a chance to run in between. The server
  together with what is under way: the client that the pipe thread is adding and has not appended yet, the clients
  whose exit callback has not reached its critical section, and those that it has removed and not released yet.\<close>

record activity =
  srv :: server
  adding :: "nat option"
  exiting :: "nat set"
  removed :: "nat list"

text \<open>Callbacks of the pipe thread run one after another, while the pipe wait is registered and the event is signalled;
  those of a client while their wait is. A callback of the pipe thread is one step, except for the addition of a client;
  so \<open>HandleErrorState\<close>, which the source does not protect against the destructor, runs as a whole. A blocking \<open>UnregisterWaitEx\<close> is a guard: a client whose addition fails is
  released after its exit callback has ended. An exit callback reaches its critical section when its client is in the list, or
  when the server is shutting down and the callback returns there: the excluded case, a client that exits while
  it is being added, is the one of \<open>AddClient_exit_race\<close>. The destructor may start at any moment, and a pending
  operation may complete.\<close>

inductive server_step :: "activity \<Rightarrow> activity \<Rightarrow> bool" where
  io_done: "event_handle (srv w) \<noteq> NULL \<Longrightarrow> server_step w (w\<lparr>srv := (srv w)\<lparr>event_signalled := True\<rparr>\<rparr>)"
| pipe_callback: "adding w = None \<Longrightarrow> pipe_wait_handle (srv w) \<noteq> NULL \<Longrightarrow> event_signalled (srv w) \<Longrightarrow>
    shutting_down (srv w) \<or> server_state (srv w) \<noteq> IPC_SERVER_STATE_READ_DONE \<Longrightarrow>
    HandleConnectionRequest a (srv w) = Returns s' \<Longrightarrow> server_step w (w\<lparr>srv := s'\<rparr>)"
| read_done: "adding w = None \<Longrightarrow> pipe_wait_handle (srv w) \<noteq> NULL \<Longrightarrow> event_signalled (srv w) \<Longrightarrow>
    \<not> shutting_down (srv w) \<Longrightarrow> server_state (srv w) = IPC_SERVER_STATE_READ_DONE \<Longrightarrow>
    ReadDone_prepare a (srv w) = (r, s') \<Longrightarrow> server_step w (w\<lparr>srv := s', adding := r\<rparr>)"
| add_client: "adding w = Some p \<Longrightarrow> (shutting_down (srv w) \<Longrightarrow> p \<notin> exiting w) \<Longrightarrow>
    ReadDone_commit a p (srv w) = Returns s' \<Longrightarrow> server_step w (w\<lparr>srv := s', adding := None\<rparr>)"
| dump_callback: "objects (srv w) p = Some c \<Longrightarrow> dump_request_wait c \<noteq> NULL \<Longrightarrow>
    OnDumpRequest a p (srv w) = Returns s' \<Longrightarrow> server_step w (w\<lparr>srv := s'\<rparr>)"
| exit_begin: "objects (srv w) p = Some c \<Longrightarrow> process_exit_wait c \<noteq> NULL \<Longrightarrow> p \<notin> exiting w \<Longrightarrow>
    p \<notin> set (removed w) \<Longrightarrow> ProcessExit_begin p (srv w) = Returns s' \<Longrightarrow>
    server_step w (w\<lparr>srv := s', exiting := insert p (exiting w)\<rparr>)"
| exit_remove: "p \<in> exiting w \<Longrightarrow> p \<in> set (clients (srv w)) \<or> shutting_down (srv w) \<Longrightarrow>
    ProcessExit_remove p (srv w) = (go_on, s') \<Longrightarrow>
    server_step w (w\<lparr>srv := s', exiting := exiting w - {p}, removed := (if go_on then p # removed w else removed w)\<rparr>)"
| exit_delete: "p \<in> set (removed w) \<Longrightarrow> ProcessExit_delete p (srv w) = Returns s' \<Longrightarrow>
    server_step w (w\<lparr>srv := s', removed := removeAll p (removed w)\<rparr>)"
| shut_down: "server_step w (w\<lparr>srv := begin_shutdown (srv w)\<rparr>)"

inductive reachable :: "config \<Rightarrow> activity \<Rightarrow> bool" for cf where
  started: "Start a (CrashGenerationServer_new cf) = (ok, s) \<Longrightarrow>
    reachable cf \<lparr>srv = s, adding = None, exiting = {}, removed = []\<rparr>"
| stepped: "reachable cf w \<Longrightarrow> server_step w w' \<Longrightarrow> reachable cf w'"

text \<open>The clients that are alive and not in the list.\<close>

definition outside :: "activity \<Rightarrow> nat list" where
  "outside w = (case adding w of None \<Rightarrow> removed w | Some p \<Rightarrow> p # removed w)"

definition activity_inv :: "activity \<Rightarrow> bool" where
  "activity_inv w \<longleftrightarrow> server_inv (outside w) (srv w) \<and>
     exiting w \<subseteq> set (clients (srv w)) \<union> set_option (adding w)"

lemma alive_member: "server_inv xs s \<Longrightarrow> objects s p = Some c \<Longrightarrow> p \<in> set (clients s @ xs)"
  by (auto simp: server_inv_def)

lemma clients_idem [simp]: "s\<lparr>clients := clients s\<rparr> = s"
  by (cases s) simp

lemma server_inv_front:
  assumes "server_inv xs s" "p \<in> set xs" shows "server_inv (p # removeAll p xs) s"
proof -
  have "distinct xs" using assms(1) by (simp add: server_inv_def)
  then have "mset xs = add_mset p (mset (removeAll p xs))"
    using assms(2) by (simp add: distinct_remove1_removeAll [symmetric])
  then show ?thesis using server_inv_move [OF assms(1), of "clients s" "p # removeAll p xs"] by simp
qed

lemma outside_frames [simp]:
  "outside (w\<lparr>srv := s\<rparr>) = outside w" "outside (w\<lparr>exiting := X\<rparr>) = outside w"
  "outside (w\<lparr>srv := s, exiting := X\<rparr>) = outside w"
  "outside (w\<lparr>srv := s, removed := ps\<rparr>) = outside (w\<lparr>removed := ps\<rparr>)"
  "outside (w\<lparr>srv := s, exiting := X, removed := ps\<rparr>) = outside (w\<lparr>removed := ps\<rparr>)"
  by (simp_all add: outside_def cong: option.case_cong)

lemma outside_member: "set (outside w) = set (removed w) \<union> set_option (adding w)"
  by (auto simp: outside_def split: option.split)

lemma outside_distinct: "activity_inv w \<Longrightarrow> adding w = Some p \<Longrightarrow> p \<notin> set (removed w)"
  by (simp add: activity_inv_def outside_def server_inv_def)

lemma removed_front:
  assumes "activity_inv w" "p \<in> set (removed w)"
  shows "server_inv (p # outside (w\<lparr>removed := removeAll p (removed w)\<rparr>)) (srv w)"
proof -
  have "removeAll p (outside w) = outside (w\<lparr>removed := removeAll p (removed w)\<rparr>)"
    using outside_distinct [OF assms(1)] assms(2) by (auto simp: outside_def split: option.split)
  then show ?thesis
    using server_inv_front [of "outside w" "srv w" p] assms by (simp add: activity_inv_def outside_member)
qed

lemma server_step_inv: "server_step w w' \<Longrightarrow> activity_inv w \<Longrightarrow> activity_inv w'"
proof (induction rule: server_step.induct)
  case (pipe_callback w a s')
  then show ?case
    using HandleConnectionRequest_inv [of "outside w" "srv w" a] HandleConnectionRequest_clients [of a "srv w" s']
    by (auto simp: activity_inv_def outside_def)
next
  case (read_done w a r s')
  have inv: "server_inv (removed w) (srv w)" using read_done by (simp add: activity_inv_def outside_def)
  have "clients s' = clients (srv w)" using ReadDone_prepare_core read_done.hyps by blast
  moreover have "server_inv (case r of None \<Rightarrow> removed w | Some p \<Rightarrow> p # removed w) s'"
    by (rule ReadDone_prepare_cases [OF inv, of a]) (use read_done.hyps in \<open>simp_all split: option.split\<close>)
  ultimately show ?case using read_done by (auto simp: activity_inv_def outside_def cong: option.case_cong)
next
  case (add_client w p a s')
  then have "server_inv (p # removed w) (srv w)" by (simp add: activity_inv_def outside_def)
  then show ?case
    using add_client ReadDone_commit_inv [of p "removed w" "srv w" a] ReadDone_commit_clients [of a p "srv w" s']
    by (auto simp: activity_inv_def outside_def split: if_split_asm)
next
  case (dump_callback w p c a s')
  then show ?case
    using OnDumpRequest_inv [of "outside w" "srv w" p a] OnDumpRequest_clients [of a p "srv w" s']
      alive_member [of "outside w" "srv w" p c]
    by (auto simp: activity_inv_def)
next
  case (exit_begin w p c s')
  have "p \<in> set (clients (srv w) @ outside w)"
    using exit_begin alive_member [of "outside w" "srv w" p c] by (simp add: activity_inv_def)
  then show ?case
    using exit_begin ProcessExit_begin_inv [of "outside w" "srv w" p]
    by (auto simp: activity_inv_def outside_member)
next
  case (exit_remove p w go_on s')
  show ?case
  proof (cases go_on)
    case True
    then have up: "\<not> shutting_down (srv w)" "s' = (srv w)\<lparr>clients := removeAll p (clients (srv w))\<rparr>"
      using exit_remove.hyps(3) by (auto simp: ProcessExit_remove_def split: if_split_asm)
    then have p: "p \<in> set (clients (srv w))" using exit_remove.hyps(2) by simp
    have "server_inv (p # outside w) s'"
      using ProcessExit_remove_inv [of "outside w" "srv w" p s'] exit_remove p True by (simp add: activity_inv_def)
    then have "server_inv (outside (w\<lparr>removed := p # removed w\<rparr>)) s'"
      using server_inv_move [of "p # outside w" s' "clients s'" "outside (w\<lparr>removed := p # removed w\<rparr>)"]
      by (simp add: outside_def split: option.split)
    then show ?thesis using True up exit_remove.prems by (auto simp: activity_inv_def)
  next
    case False
    then have "s' = srv w" using exit_remove.hyps(3) by (auto simp: ProcessExit_remove_def split: if_split_asm)
    then show ?thesis using False exit_remove.prems by (auto simp: activity_inv_def)
  qed
next
  case (exit_delete p w s')
  let ?w = "w\<lparr>removed := removeAll p (removed w)\<rparr>"
  have "server_inv (outside ?w) s'" "clients s' = clients (srv w)"
    using ProcessExit_delete_inv [OF removed_front [OF exit_delete(3,1)]] exit_delete(2) by auto
  then show ?case using exit_delete.prems by (auto simp: activity_inv_def)
qed (auto simp: begin_shutdown_def activity_inv_def)

lemma reachable_inv: "reachable cf w \<Longrightarrow> activity_inv w"
proof (induction rule: reachable.induct)
  case (started a ok s)
  then show ?case using Start_inv [of a cf ok s] by (simp add: activity_inv_def outside_def)
qed (rule server_step_inv)

lemma destroy_clients_spec:
  assumes "ids_ok s" "distinct ps" "set ps \<subseteq> dom (objects s)"
    and "client_sum client_handles ps (objects s) \<subseteq># open_handles s"
    and "client_sum client_waits ps (objects s) \<subseteq># open_waits s"
  shows "\<exists>s'. destroy_clients ps s = Returns s' \<and> ids_ok s' \<and> objects s' = objects s |` (- set ps) \<and>
    server_alive_handle s' = server_alive_handle s \<and> event_handle s' = event_handle s \<and>
    open_handles s' = open_handles s - client_sum client_handles ps (objects s) \<and>
    open_waits s' = open_waits s - client_sum client_waits ps (objects s)"
  using assms
proof (induction ps arbitrary: s)
  case Nil
  then show ?case by (simp add: client_sum_def)
next
  case (Cons p ps)
  obtain c where c: "objects s p = Some c" using Cons.prems(3) by auto
  have sum: "client_sum g (p # ps) (objects s) = g c + client_sum g ps ((objects s)(p := None))" for g
    using client_sum_remove [OF Cons.prems(2), of p g "objects s" None] c Cons.prems(2) by (simp add: removeAll_id)
  note h = subset_mset_addD [OF Cons.prems(4) [unfolded sum]]
  note w = subset_mset_addD [OF Cons.prems(5) [unfolded sum]]
  obtain c1 s1 where 1: "UnregisterProcessExitWait c s = (c1, s1)" by fastforce
  obtain c2 s2 where 2: "UnregisterDumpRequestWait c1 s1 = (c2, s2)" by fastforce
  note w1 = subset_mset_addD [OF w(1) [unfolded client_waits_def add.commute [of "hid (dump_request_wait c)"]]]
  note u = UnregisterProcessExitWait_spec [OF 1 Cons.prems(1) w1(1)]
  have w2: "hid (dump_request_wait c1) \<subseteq># open_waits s1" using u w1(2) by simp
  note v = UnregisterDumpRequestWait_spec [OF 2 conjunct1 [OF u] w2]
  let ?s3 = "s2\<lparr>objects := (objects s2)(p := None)\<rparr>"
  have c2: "client_waits c2 = {#}" "client_handles c2 = client_handles c"
    using u v by (auto simp: client_waits_def client_handles_def)
  have i3: "ids_ok ?s3" using conjunct1 [OF v] by (simp add: ids_ok_def)
  have o3: "open_handles ?s3 = open_handles s" using u v by (simp add: open_handles_def)
  have ow: "open_waits ?s3 = open_waits s2" by (simp add: open_waits_def)
  have w3: "open_waits ?s3 = open_waits s - client_waits c"
    unfolding ow using u v by (simp add: client_waits_def add.commute)
  have "client_handles c2 \<subseteq># open_handles ?s3" "client_waits c2 \<subseteq># open_waits ?s3"
    unfolding c2 o3 using h(1) by simp_all
  note d = ClientInfo_destroy_spec [OF i3 this, unfolded c2 o3 w3 diff_empty]
  let ?d = "ClientInfo_destroy c2 ?s3"
  have same: "same_server s s2" using u v same_server_trans by blast
  have f: "objects ?d = (objects s)(p := None)" "server_alive_handle ?d = server_alive_handle s"
    "event_handle ?d = event_handle s"
    using same_serverD(6,7,9) [OF same] same_serverD(6,7,9) [of ?s3 ?d] d by simp_all
  have "\<exists>s'. destroy_clients ps ?d = Returns s' \<and> ids_ok s' \<and> objects s' = objects ?d |` (- set ps) \<and>
    server_alive_handle s' = server_alive_handle ?d \<and> event_handle s' = event_handle ?d \<and>
    open_handles s' = open_handles ?d - client_sum client_handles ps (objects ?d) \<and>
    open_waits s' = open_waits ?d - client_sum client_waits ps (objects ?d)"
  proof (rule Cons.IH)
    show "ids_ok ?d" using d by simp
    show "distinct ps" using Cons.prems(2) by simp
    show "set ps \<subseteq> dom (objects ?d)" unfolding f using Cons.prems(2,3) by auto
    show "client_sum client_handles ps (objects ?d) \<subseteq># open_handles ?d" unfolding f using d h(2) by simp
    show "client_sum client_waits ps (objects ?d) \<subseteq># open_waits ?d" unfolding f using d w(2) by simp
  qed
  moreover have "(objects s)(p := None) |` (- set ps) = objects s |` (- set (p # ps))"
    by (auto simp: restrict_map_def)
  ultimately show ?case
    unfolding f sum using d by (simp only: destroy_clients.simps c option.case 1 2 Let_def prod.case) auto
qed


lemma finish_shutdown_spec:
  assumes inv: "server_inv xs s"
  shows "\<exists>s'. finish_shutdown s = Returns s' \<and> ids_ok s' \<and> objects s' = objects s |` set xs \<and>
    open_handles s' = client_sum client_handles xs (objects s) \<and> open_waits s' = client_sum client_waits xs (objects s)"
proof -
  define s1 where "s1 = unregister_wait (pipe_wait_handle s) s"
  define s2 where "s2 = close_handle (pipe s1) s1"
  have ids: "ids_ok s" using inv by (simp add: server_inv_def)
  let ?H = "client_sum client_handles (clients s) (objects s)" and ?W = "client_sum client_waits (clients s) (objects s)"
  let ?X = "client_sum client_handles xs (objects s)" and ?Y = "client_sum client_waits xs (objects s)"
  have o: "open_handles s = hid (pipe s) + (hid (server_alive_handle s) + (hid (event_handle s) + (?X + ?H)))"
    "open_waits s = hid (pipe_wait_handle s) + (?Y + ?W)"
    using inv by (simp_all add: server_inv_def owned_handles_def owned_waits_def server_handles_def client_sum_append ac_simps)
  note u1 = unregister_wait_spec [OF ids, of "pipe_wait_handle s", folded s1_def, unfolded o, simplified]
  note f1 = same_serverD [OF conjunct1 [OF conjunct2 [OF u1]]]
  have "hid (pipe s1) \<subseteq># open_handles s1" using u1 f1(4) by simp
  note u2 = close_handle_spec [OF conjunct1 [OF u1] this, folded s2_def]
  note f2 = same_serverD [OF conjunct1 [OF conjunct2 [OF u2]]]
  have o2: "open_handles s2 = hid (server_alive_handle s) + (hid (event_handle s) + (?X + ?H))" "open_waits s2 = ?Y + ?W"
    using u1 u2 f1(4) by simp_all
  have "\<exists>s3. destroy_clients (clients s2) s2 = Returns s3 \<and> ids_ok s3 \<and>
    objects s3 = objects s2 |` (- set (clients s2)) \<and>
    server_alive_handle s3 = server_alive_handle s2 \<and> event_handle s3 = event_handle s2 \<and>
    open_handles s3 = open_handles s2 - client_sum client_handles (clients s2) (objects s2) \<and>
    open_waits s3 = open_waits s2 - client_sum client_waits (clients s2) (objects s2)"
  proof (rule destroy_clients_spec)
    show "client_sum client_handles (clients s2) (objects s2) \<subseteq># open_handles s2"
      "client_sum client_waits (clients s2) (objects s2) \<subseteq># open_waits s2"
      unfolding o2 f2(8,9) f1(8,9) by (simp_all add: add.assoc [symmetric])
  qed (use inv u2 f1(8,9) f2(8,9) in \<open>simp_all add: server_inv_def\<close>)
  then obtain s3 where 3: "destroy_clients (clients s2) s2 = Returns s3" "ids_ok s3"
    "objects s3 = objects s |` (- set (clients s))" "server_alive_handle s3 = server_alive_handle s"
    "event_handle s3 = event_handle s" "open_handles s3 = hid (server_alive_handle s) + (hid (event_handle s) + ?X)"
    "open_waits s3 = ?Y"
    using f1(6-9) f2(6-9) o2 by (auto simp: add.assoc [symmetric])
  define s4 where "s4 = close_handle (server_alive_handle s3) s3"
  define s5 where "s5 = close_handle (event_handle s4) s4"
  note u4 = close_handle_spec [OF 3(2), of "server_alive_handle s3", folded s4_def, unfolded 3(4,6), simplified]
  note f4 = same_serverD [OF conjunct1 [OF conjunct2 [OF u4]]]
  have "hid (event_handle s4) \<subseteq># open_handles s4" using u4 f4(7) 3(5) by simp
  note u5 = close_handle_spec [OF conjunct1 [OF u4] this, folded s5_def]
  have e: "(if p \<noteq> NULL then unregister_wait p s else s) = unregister_wait p s"
    "(if p \<noteq> NULL then close_handle p s else s) = close_handle p s" for p s
    by simp_all
  have "finish_shutdown s = Returns s5"
    unfolding finish_shutdown_def Let_def e
    by (simp only: s1_def [symmetric] s2_def [symmetric] 3(1) exec_bind.simps s4_def [symmetric] s5_def [symmetric])
  moreover have "open_handles s5 = ?X" "open_waits s5 = ?Y" using u5 u4 f4(7) 3(5,7) by simp_all
  moreover have "ids_ok s5" using u5 by simp
  moreover have "objects s5 = objects s |` set xs"
    using same_serverD(9) [of s4 s5] u5 f4(9) 3(3) inv
    by (auto simp: server_inv_def restrict_map_def fun_eq_iff)
  ultimately show ?thesis by blast
qed

text \<open>The exit callbacks that have removed their client from the list and have yet to release it.\<close>

fun finish_exits :: "nat list \<Rightarrow> server \<Rightarrow> server exec" where
  "finish_exits [] s = Returns s"
| "finish_exits (p # ps) s = exec_bind (ProcessExit_delete p s) (finish_exits ps)"

lemma ProcessExit_delete_destroy: "ProcessExit_delete p s = destroy_clients [p] s"
proof (cases "objects s p")
  case (Some c)
  have u: "unregister_wait h (s\<lparr>objects := m\<rparr>) = (unregister_wait h s)\<lparr>objects := m\<rparr>" for h s m
    by (cases h) simp_all
  have o: "objects (unregister_wait h s) = objects s" for h s by (cases h) simp_all
  show ?thesis
    by (cases "process_exit_wait c = NULL"; cases "dump_request_wait c = NULL")
      (simp_all add: ProcessExit_delete_def Some UnregisterProcessExitWait_def UnregisterDumpRequestWait_def
        ClientInfo_destroy_def Let_def u o)
qed (simp add: ProcessExit_delete_def)

lemma destroy_clients_Cons: "destroy_clients (p # ps) s = exec_bind (destroy_clients [p] s) (destroy_clients ps)"
  by (cases "objects s p") (simp_all split: prod.split)

lemma finish_exits_destroy: "finish_exits ps s = destroy_clients ps s"
proof (induction ps arbitrary: s)
  case (Cons p ps)
  then have "finish_exits ps = destroy_clients ps" by blast
  then show ?case by (simp only: finish_exits.simps ProcessExit_delete_destroy destroy_clients_Cons [of p ps])
qed simp

lemma finish_exits_spec:
  assumes "ids_ok s" "distinct ps" "dom (objects s) = set ps" "open_handles s = client_sum client_handles ps (objects s)"
    "open_waits s = client_sum client_waits ps (objects s)"
  shows "\<exists>s'. finish_exits ps s = Returns s' \<and> handles s' = {} \<and> waits s' = {} \<and> objects s' = Map.empty"
proof -
  obtain s' where s': "destroy_clients ps s = Returns s'" "ids_ok s'" "objects s' = objects s |` (- set ps)"
    "open_handles s' = {#}" "open_waits s' = {#}"
    using destroy_clients_spec [of s ps] assms by auto
  then have "handles s' = {}" "waits s' = {}"
    by (simp_all add: ids_ok_def open_handles_def open_waits_def mset_set_empty_iff)
  moreover have "objects s' = Map.empty"
    using s'(3) assms(3) by (auto simp: restrict_map_def fun_eq_iff domIff)
  ultimately show ?thesis using s'(1) finish_exits_destroy by auto
qed


section \<open>Properties of the server\<close>

text \<open>C14. In every state that the callbacks of the pipe thread, of the clients' dump requests and of the clients' ends
  reach in any interleaving of their critical sections, except that a client ends while it is being added: the
  objects that are alive are exactly the clients of the list, the one being added and those that an exit callback has
  taken from the list and not released yet, without repetition. Every open handle and every registered wait belongs
  to exactly one owner. No callback that can run touches freed memory: the pipe callback and its second half, the
  dump and exit callbacks of every client alive, and the last part of an exit callback return.\<close>

theorem server_resources_owned:
  assumes "reachable cf w"
  shows "distinct (clients (srv w) @ outside w) \<and> dom (objects (srv w)) = set (clients (srv w) @ outside w) \<and>
    open_handles (srv w) = owned_handles (outside w) (srv w) \<and> open_waits (srv w) = owned_waits (outside w) (srv w) \<and>
    (\<exists>s'. HandleConnectionRequest a (srv w) = Returns s') \<and>
    (\<forall>p. adding w = Some p \<longrightarrow> (\<exists>s'. ReadDone_commit a p (srv w) = Returns s')) \<and>
    (\<forall>p\<in>dom (objects (srv w)). (\<exists>s'. OnDumpRequest a p (srv w) = Returns s') \<and>
       (\<exists>s'. ProcessExit_begin p (srv w) = Returns s')) \<and>
    (\<forall>p\<in>set (removed w). \<exists>s'. ProcessExit_delete p (srv w) = Returns s')"
proof -
  note act = reachable_inv [OF assms]
  have inv: "server_inv (outside w) (srv w)" using act by (simp add: activity_inv_def)
  have dom: "dom (objects (srv w)) = set (clients (srv w) @ outside w)" using inv by (simp add: server_inv_def)
  have "adding w = Some p \<longrightarrow> (\<exists>s'. ReadDone_commit a p (srv w) = Returns s')" for p
    using ReadDone_commit_inv [of p "removed w" "srv w" a] inv by (auto simp: outside_def)
  moreover have "\<exists>s'. ProcessExit_delete p (srv w) = Returns s'" if "p \<in> set (removed w)" for p
    using ProcessExit_delete_inv [OF removed_front [OF act that]] by blast
  moreover have "(\<exists>s'. OnDumpRequest a p (srv w) = Returns s') \<and> (\<exists>s'. ProcessExit_begin p (srv w) = Returns s')"
    if "p \<in> dom (objects (srv w))" for p
    using OnDumpRequest_inv [OF inv] ProcessExit_begin_inv [OF inv] that unfolding dom by blast
  moreover have "\<exists>s'. HandleConnectionRequest a (srv w) = Returns s'" using HandleConnectionRequest_inv [OF inv] by blast
  ultimately show ?thesis using inv dom by (simp add: server_inv_def)
qed

text \<open>C15. The destructor, run on any such state in which no callback of the pipe thread is under way (it waits for
  one), and with \<open>HandleErrorState\<close> not cut in two by it, ends. It frees every client of the list; what is left are the clients that an exit callback had already taken
  from the list. When those callbacks have ended too, no object is alive, no handle is open and no wait is
  registered.\<close>

theorem shutdown_releases_everything:
  assumes "reachable cf w" "adding w = None"
  shows "\<exists>s' s''. finish_shutdown (begin_shutdown (srv w)) = Returns s' \<and> dom (objects s') = set (removed w) \<and>
    finish_exits (removed w) s' = Returns s'' \<and> handles s'' = {} \<and> waits s'' = {} \<and> objects s'' = Map.empty"
proof -
  have "outside w = removed w" using assms(2) by (simp add: outside_def)
  then have inv: "server_inv (removed w) (begin_shutdown (srv w))"
    using reachable_inv [OF assms(1)] by (simp add: activity_inv_def begin_shutdown_def)
  let ?m = "objects (begin_shutdown (srv w))"
  obtain s' where s': "finish_shutdown (begin_shutdown (srv w)) = Returns s'" "ids_ok s'"
    "objects s' = ?m |` set (removed w)" "open_handles s' = client_sum client_handles (removed w) ?m"
    "open_waits s' = client_sum client_waits (removed w) ?m"
    using finish_shutdown_spec [OF inv] by blast
  have "client_sum g (removed w) ?m = client_sum g (removed w) (objects s')" for g
    unfolding s'(3) by (rule client_sum_cong) simp
  moreover have d: "dom (objects s') = set (removed w)" "distinct (removed w)"
    using inv s'(3) by (auto simp: server_inv_def)
  ultimately show ?thesis using finish_exits_spec [OF s'(2) d(2,1)] s'(1,4,5) d(1) by simp
qed

subsection \<open>The documented state table\<close>

text \<open>A valid registration request, for which the client can be registered and the reply prepared and queued.\<close>

definition registration_served :: "api \<Rightarrow> server \<Rightarrow> bool" where
  "registration_served a s \<longleftrightarrow>
     tag (msg s) = MESSAGE_TAG_REGISTRATION_REQUEST \<and> IsClientRequestValid (msg s) \<and>
     ok_open_process a \<and> ok_event_requested a \<and> ok_event_generated a \<and> ok_duplicate a = (True, True, True) \<and>
     write_result a \<in> {IO_SUCCESS, IO_PENDING} \<and> ok_register_request a \<and> ok_register_exit a"

text \<open>The table of \<^verbatim>\<open>client/windows/crash_generation/ReadMe.txt\<close>: the state that follows and its conditions. Resetting the
  event is part of the actions of INITIAL and DISCONNECTING.\<close>

definition documented :: "api \<Rightarrow> server \<Rightarrow> IPCServerState" where
  "documented a s =
     (let event_reset = ok_reset_event a \<and> event_handle s \<noteq> NULL in
      case server_state s of
        IPC_SERVER_STATE_ERROR \<Rightarrow> IPC_SERVER_STATE_ERROR
      | IPC_SERVER_STATE_INITIAL \<Rightarrow>
          if event_reset \<and> connect_result a = IO_PENDING then IPC_SERVER_STATE_CONNECTING
          else if event_reset \<and> connect_result a = IO_PIPE_CONNECTED then IPC_SERVER_STATE_CONNECTED
          else IPC_SERVER_STATE_ERROR
      | IPC_SERVER_STATE_CONNECTING \<Rightarrow>
          if overlapped_result a = IO_INCOMPLETE then IPC_SERVER_STATE_CONNECTING
          else if overlapped_result a = IO_SUCCESS then IPC_SERVER_STATE_CONNECTED
          else IPC_SERVER_STATE_DISCONNECTING
      | IPC_SERVER_STATE_CONNECTED \<Rightarrow>
          if read_result a \<in> {IO_SUCCESS, IO_PENDING} then IPC_SERVER_STATE_READING
          else IPC_SERVER_STATE_DISCONNECTING
      | IPC_SERVER_STATE_READING \<Rightarrow>
          if overlapped_result a = IO_SUCCESS \<and> bytes_count a = sizeof_ProtocolMessage then IPC_SERVER_STATE_READ_DONE
          else IPC_SERVER_STATE_DISCONNECTING
      | IPC_SERVER_STATE_READ_DONE \<Rightarrow>
          if registration_served a s then IPC_SERVER_STATE_WRITING else IPC_SERVER_STATE_DISCONNECTING
      | IPC_SERVER_STATE_WRITING \<Rightarrow>
          if overlapped_result a = IO_SUCCESS then IPC_SERVER_STATE_WRITE_DONE else IPC_SERVER_STATE_DISCONNECTING
      | IPC_SERVER_STATE_WRITE_DONE \<Rightarrow>
          if read_result a \<in> {IO_SUCCESS, IO_PENDING} then IPC_SERVER_STATE_READING_ACK
          else IPC_SERVER_STATE_DISCONNECTING
      | IPC_SERVER_STATE_READING_ACK \<Rightarrow> IPC_SERVER_STATE_DISCONNECTING
      | IPC_SERVER_STATE_DISCONNECTING \<Rightarrow>
          if event_reset \<and> ok_disconnect a then IPC_SERVER_STATE_INITIAL else IPC_SERVER_STATE_ERROR
      | IPC_SERVER_STATE_UNINITIALIZED \<Rightarrow> IPC_SERVER_STATE_ERROR)"

lemma ClientInfo_Initialize_ok:
  "fst (ClientInfo_Initialize a c s) \<longleftrightarrow> ok_open_process a \<and> ok_event_requested a \<and> ok_event_generated a"
  by (simp add: ClientInfo_Initialize_def create_handle_def Let_def)

lemma RespondToClient_ok:
  "fst (RespondToClient a c s) \<longleftrightarrow> ok_duplicate a = (True, True, True) \<and> write_result a \<in> {IO_SUCCESS, IO_PENDING} \<and>
     ok_register_request a \<and> ok_register_exit a"
proof -
  obtain k1 k2 k3 where k: "ok_duplicate a = (k1, k2, k3)" by (metis prod_cases3)
  have "fst (PrepareReply a c s) \<longleftrightarrow> k1 \<and> k2 \<and> k3"
    by (simp add: PrepareReply_def CreateClientHandles_def duplicate_handle_def k Let_def)
  moreover have "fst (AddClient_waits a c s) \<longleftrightarrow> ok_register_request a \<and> ok_register_exit a" for s
    by (simp add: AddClient_waits_def register_wait_def Let_def)
  ultimately show ?thesis
    by (cases "PrepareReply a c s") (auto simp: RespondToClient_def k)
qed

lemma ReadDone_prepare_served: "fst (ReadDone_prepare a s) \<noteq> None \<longleftrightarrow> registration_served a s"
proof (cases "IsClientRequestValid (msg s) \<and> tag (msg s) \<noteq> MESSAGE_TAG_UPLOAD_REQUEST")
  case True
  obtain k1 c1 s1 where 1: "ClientInfo_Initialize a (new_ClientInfo a (msg s)) (s\<lparr>next_id := Suc (next_id s)\<rparr>) = (k1, c1, s1)"
    by (metis prod_cases3)
  obtain k2 c2 s2 where 2: "RespondToClient a c1 s1 = (k2, c2, s2)" by (metis prod_cases3)
  have "fst (ReadDone_prepare a s) \<noteq> None \<longleftrightarrow> k1 \<and> k2" using True by (simp add: ReadDone_prepare_def 1 2 Let_def)
  moreover have "tag (msg s) = MESSAGE_TAG_REGISTRATION_REQUEST" using True by (auto simp: IsClientRequestValid_def)
  ultimately show ?thesis
    using True ClientInfo_Initialize_ok [of a "new_ClientInfo a (msg s)" "s\<lparr>next_id := Suc (next_id s)\<rparr>"]
      RespondToClient_ok [of a c1 s1]
    by (auto simp: registration_served_def 1 2)
next
  case False
  then show ?thesis by (auto simp: ReadDone_prepare_def registration_served_def)
qed

lemma HandleReadDoneState_state:
  assumes "\<not> shutting_down s"
  shows "\<exists>s'. HandleReadDoneState a s = Returns s' \<and> server_state s' =
    (if registration_served a s then IPC_SERVER_STATE_WRITING
     else if ok_set_event a \<and> event_handle s \<noteq> NULL then IPC_SERVER_STATE_DISCONNECTING else IPC_SERVER_STATE_ERROR)"
proof (cases "ReadDone_prepare a s")
  case (Pair r s1)
  show ?thesis
  proof (cases r)
    case None
    then show ?thesis
      using Pair ReadDone_prepare_core [OF Pair] ReadDone_prepare_served [of a s] by (simp add: HandleReadDoneState_def)
  next
    case (Some p)
    then have "\<not> shutting_down s1" using ReadDone_prepare_core [OF Pair] assms by (simp add: core_def)
    then show ?thesis
      using Pair Some ReadDone_prepare_served [of a s]
      by (simp add: HandleReadDoneState_def ReadDone_commit_def AddClient_push_def EnterStateWhenSignaled_def)
  qed
qed

text \<open>C16. A callback of the pipe thread goes into the state that the documented table gives for the state it finds and
  for the results of the calls it makes. It goes into ERROR instead when the event cannot be signalled. A registration is
  served when the request is valid and every call for it succeeds; an upload request, which the table does not mention, ends
  the connection. While the server is shutting down, every callback goes into ERROR.\<close>

theorem state_machine_documented:
  assumes "server_state s \<noteq> IPC_SERVER_STATE_UNINITIALIZED"
  shows "\<exists>s'. HandleConnectionRequest a s = Returns s' \<and>
    (if shutting_down s then server_state s' = IPC_SERVER_STATE_ERROR
     else server_state s' = documented a s \<or>
       server_state s' = IPC_SERVER_STATE_ERROR \<and> (\<not> ok_set_event a \<or> event_handle s = NULL))"
proof (cases "shutting_down s")
  case True
  then show ?thesis by (simp add: HandleConnectionRequest_def reset_event_def)
next
  case False
  then show ?thesis
    using assms HandleReadDoneState_state [OF False, of a]
    by (cases "server_state s")
      (auto simp: HandleConnectionRequest_def HandleInitialState_def HandleConnectingState_def HandleConnectedState_def
        HandleReadingState_def HandleWritingState_def HandleWriteDoneState_def HandleReadingAckState_def
        HandleDisconnectingState_def EnterStateWhenSignaled_def EnterStateImmediately_state documented_def Let_def
        reset_event_def split: io_result.split option.split)
qed

subsection \<open>Dump requests\<close>

text \<open>A handle that two fields of the state share would be counted twice.\<close>

lemma owned_once:
  assumes "server_inv xs s" shows "count (owned_handles xs s) h \<le> 1"
proof -
  have "owned_handles xs s = mset_set (handles s)" using assms by (simp add: server_inv_def open_handles_def)
  then show ?thesis by (simp add: count_mset_set')
qed

lemma events_distinct:
  assumes "server_inv xs s" "objects s p = Some c"
  shows "\<exists>r g. dump_requested c = Handle r \<and> dump_generated c = Handle g \<and> r \<noteq> g"
proof -
  have "initialized c" using assms ranI [of "objects s" p c] by (simp add: server_inv_def)
  then obtain r g where rg: "dump_requested c = Handle r" "dump_generated c = Handle g"
    by (cases "dump_requested c"; cases "dump_generated c") (auto simp: initialized_def)
  have "client_handles c \<subseteq># owned_handles xs s"
    using client_subset_open(1) [OF assms] assms(1) by (simp add: server_inv_def)
  then have "count (client_handles c) r \<le> 1"
    using owned_once [OF assms(1), of r] by (meson le_trans mset_subset_eq_count)
  then show ?thesis using rg by (auto simp: client_handles_def split: if_split_asm)
qed

lemma OnDumpRequest_answer:
  assumes "objects s p = Some c" and rg: "dump_requested c = Handle r" "dump_generated c = Handle g" "r \<noteq> g"
  shows "\<exists>s'. OnDumpRequest a p s = Returns s' \<and> g \<in> client_events s' \<and> r \<notin> client_events s' \<and>
    trace s' = trace s @
      (if \<not> has_dump_callback (conf s) then []
       else if \<not> generate_dumps (conf s) then [DumpRequested p None]
       else case GenerateDump a of None \<Rightarrow> [] | Some f \<Rightarrow> [DumpRequested p (if f = [] then None else Some f)])"
proof -
  have "dump_requested (snd (PopulateCustomInfo a c)) = Handle r"
    "dump_generated (snd (PopulateCustomInfo a c)) = Handle g"
    using PopulateCustomInfo_same [of a c] rg by (cases "PopulateCustomInfo a c", simp add: same_handles_def)+
  then show ?thesis
    using assms(1) rg by (simp add: OnDumpRequest_def HandleDumpRequest_def Let_def split: option.split)
qed

text \<open>A dump request of a registered client always ends with the client's \<open>dump_generated\<close> event signalled and
  its \<open>dump_requested\<close> event reset; the application's callback runs once, with the file name, exactly when one is
  installed and the dump, if the server is to write it, was written.\<close>

theorem dump_request_answered:
  assumes "reachable cf w" "srv w = s" "objects s p = Some c"
  shows "\<exists>r g s'. dump_requested c = Handle r \<and> dump_generated c = Handle g \<and> OnDumpRequest a p s = Returns s' \<and>
    g \<in> client_events s' \<and> r \<notin> client_events s' \<and>
    trace s' = trace s @
      (if \<not> has_dump_callback (conf s) then []
       else if \<not> generate_dumps (conf s) then [DumpRequested p None]
       else case GenerateDump a of None \<Rightarrow> [] | Some f \<Rightarrow> [DumpRequested p (if f = [] then None else Some f)])"
  using events_distinct [of "outside w" s p c] reachable_inv [OF assms(1)] OnDumpRequest_answer [OF assms(3)] assms(2,3)
  by (auto simp: activity_inv_def)


subsection \<open>A complete registration\<close>

text \<open>Every call of the callback succeeds, and the client sends \<open>m\<close>.\<close>

definition cooperative :: "ProtocolMessage \<Rightarrow> api \<Rightarrow> bool" where
  "cooperative m a \<longleftrightarrow> ok_set_event a \<and> ok_reset_event a \<and> ok_disconnect a \<and> connect_result a = IO_PENDING \<and>
     overlapped_result a = IO_SUCCESS \<and> bytes_count a = sizeof_ProtocolMessage \<and> delivered a = m \<and>
     read_result a \<in> {IO_SUCCESS, IO_PENDING} \<and> write_result a \<in> {IO_SUCCESS, IO_PENDING} \<and> ok_open_process a \<and>
     ok_event_requested a \<and> ok_event_generated a \<and> ok_duplicate a = (True, True, True) \<and>
     ok_register_request a \<and> ok_register_exit a"

fun run_pipe :: "api list \<Rightarrow> server \<Rightarrow> server exec" where
  "run_pipe [] s = Returns s"
| "run_pipe (a # as) s = exec_bind (HandleConnectionRequest a s) (run_pipe as)"

text \<open>The reply that the client gets, and the client's record.\<close>

definition registered_reply :: "api \<Rightarrow> nat \<Rightarrow> ProtocolMessage" where
  "registered_reply a n =
     empty_message\<lparr>tag := MESSAGE_TAG_REGISTRATION_RESPONSE, msg_id := current_pid a, dump_request_handle := Handle n,
       dump_generated_handle := Handle (n + 1), alive_handle := Handle (n + 2)\<rparr>"

definition registered_client :: "api \<Rightarrow> ProtocolMessage \<Rightarrow> nat \<Rightarrow> ClientInfo" where
  "registered_client a m n =
     (let t = (case process_times a of Some t \<Rightarrow> t | None \<Rightarrow> system_time a) in
      (new_ClientInfo a m)\<lparr>start_time := t, crash_id := ucast t, process_handle := Handle n,
        dump_requested := Handle (n + 1), dump_generated := Handle (n + 2), dump_request_wait := Handle (n + 6),
        process_exit_wait := Handle (n + 7)\<rparr>)"

lemma ReadDone_cooperative:
  assumes "cooperative m a" "IsClientRequestValid m" "tag m = MESSAGE_TAG_REGISTRATION_REQUEST" "msg s = m"
  shows "ReadDone_prepare a s = (Some (next_id s), s\<lparr>
    objects := (objects s)(next_id s \<mapsto> registered_client a m (next_id s + 1)),
    handles := {next_id s + 1, next_id s + 2, next_id s + 3} \<union> handles s,
    remote_handles := (remote_handles s)(next_id s + 4 \<mapsto> Handle (next_id s + 2),
      next_id s + 5 \<mapsto> Handle (next_id s + 3), next_id s + 6 \<mapsto> server_alive_handle s),
    waits := {next_id s + 7, next_id s + 8} \<union> waits s, next_id := next_id s + 9,
    trace := trace s @ [ReplyWritten (registered_reply a (next_id s + 4))]\<rparr>)"
proof -
  have w: "write_result a \<noteq> IO_SUCCESS \<and> write_result a \<noteq> IO_PENDING \<longleftrightarrow> False"
    using assms(1) by (auto simp: cooperative_def)
  show ?thesis
    using assms unfolding cooperative_def
    by (cases "process_times a")
      (simp_all add: ReadDone_prepare_def ClientInfo_Initialize_def create_handle_def RespondToClient_def w
        PrepareReply_def CreateClientHandles_def duplicate_handle_def AddClient_waits_def register_wait_def
        registered_client_def registered_reply_def new_ClientInfo_def insert_commute Let_def numeral_eq_Suc)
qed

lemmas pipe_handlers = HandleConnectionRequest_def HandleInitialState_def HandleConnectingState_def
  HandleConnectedState_def HandleReadingState_def HandleWritingState_def HandleWriteDoneState_def
  HandleReadingAckState_def HandleDisconnectingState_def EnterStateWhenSignaled_def EnterStateImmediately_def
  set_event_def reset_event_def

lemma handshake_read:
  assumes "list_all (cooperative m) [a1, a2, a3, a4]" "server_state s = IPC_SERVER_STATE_INITIAL"
    "\<not> shutting_down s" "event_handle s \<noteq> NULL"
  shows "run_pipe [a1, a2, a3, a4] s =
    Returns (s\<lparr>server_state := IPC_SERVER_STATE_READ_DONE, event_signalled := True, msg := m\<rparr>)"
  using assms by (auto simp: cooperative_def pipe_handlers)

lemma handshake_register:
  assumes "cooperative m a" "IsClientRequestValid m" "tag m = MESSAGE_TAG_REGISTRATION_REQUEST" "msg s = m"
    "server_state s = IPC_SERVER_STATE_READ_DONE" "\<not> shutting_down s"
  shows "\<exists>s'. run_pipe [a] s = Returns s' \<and> server_state s' = IPC_SERVER_STATE_WRITING \<and> \<not> shutting_down s' \<and>
    event_handle s' = event_handle s \<and> conf s' = conf s \<and> clients s' = clients s @ [next_id s] \<and>
    client_info s' = Some (next_id s) \<and>
    objects s' = (objects s)(next_id s \<mapsto> registered_client a m (next_id s + 1)) \<and>
    trace s' = trace s @ [ReplyWritten (registered_reply a (next_id s + 4))] \<and>
    remote_handles s' = (remote_handles s)(next_id s + 4 \<mapsto> Handle (next_id s + 2),
      next_id s + 5 \<mapsto> Handle (next_id s + 3), next_id s + 6 \<mapsto> server_alive_handle s)"
  using assms(5,6) ReadDone_cooperative [OF assms(1-4)]
  by (simp add: HandleConnectionRequest_def HandleReadDoneState_def ReadDone_commit_def AddClient_push_def
      EnterStateWhenSignaled_def)

lemma handshake_finish:
  assumes coop: "list_all (cooperative m) [a1, a2, a3, a4]" and st: "server_state s = IPC_SERVER_STATE_WRITING"
    "\<not> shutting_down s" "event_handle s \<noteq> NULL" "client_info s = Some p" "p \<in> set (clients s)"
  shows "run_pipe [a1, a2, a3, a4] s =
    Returns (s\<lparr>server_state := IPC_SERVER_STATE_INITIAL, event_signalled := True, client_info := None,
      trace := trace s @ (if has_connect_callback (conf s) then [Connected p] else [])\<rparr>)"
proof -
  have r: "read_result a2 = IO_SUCCESS \<or> read_result a2 = IO_PENDING" using coop by (auto simp: cooperative_def)
  have c: "overlapped_result a1 = IO_SUCCESS" "overlapped_result a3 = IO_SUCCESS" "ok_set_event a1" "ok_set_event a2"
    "ok_set_event a3" "ok_set_event a4" "ok_reset_event a4" "ok_disconnect a4"
    using coop by (auto simp: cooperative_def)
  have t: "s\<lparr>server_state := x, event_signalled := y, client_info := z, trace := trace s\<rparr> =
      s\<lparr>server_state := x, event_signalled := y, client_info := z\<rparr>" for x y z
    by (cases s) simp
  show ?thesis
    using r by (elim disjE; cases "has_connect_callback (conf s)") (simp_all add: c st pipe_handlers t)
qed

lemma run_pipe_append: "run_pipe (as @ bs) s = exec_bind (run_pipe as s) (run_pipe bs)"
proof (induction as arbitrary: s)
  case (Cons a as)
  then show ?case by (cases "HandleConnectionRequest a s") simp_all
qed simp


lemma registration_run:
  assumes "server_state s = IPC_SERVER_STATE_INITIAL" "\<not> shutting_down s" "event_handle s \<noteq> NULL"
    and m: "IsClientRequestValid m" "tag m = MESSAGE_TAG_REGISTRATION_REQUEST"
    and as: "length as = 9" "list_all (cooperative m) as"
  shows "\<exists>s'. run_pipe as s = Returns s' \<and> server_state s' = IPC_SERVER_STATE_INITIAL \<and> event_signalled s' \<and>
    clients s' = clients s @ [next_id s] \<and>
    objects s' = (objects s)(next_id s \<mapsto> registered_client (as ! 4) m (next_id s + 1)) \<and>
    trace s' = trace s @ ReplyWritten (registered_reply (as ! 4) (next_id s + 4)) #
      (if has_connect_callback (conf s) then [Connected (next_id s)] else []) \<and>
    remote_handles s' = (remote_handles s)(next_id s + 4 \<mapsto> Handle (next_id s + 2),
      next_id s + 5 \<mapsto> Handle (next_id s + 3), next_id s + 6 \<mapsto> server_alive_handle s)"
proof -
  obtain a1 a2 a3 a4 a5 a6 a7 a8 a9 where e: "as = [a1, a2, a3, a4] @ [a5] @ [a6, a7, a8, a9]"
    using as(1) by (auto simp: numeral_eq_Suc length_Suc_conv)
  let ?s1 = "s\<lparr>server_state := IPC_SERVER_STATE_READ_DONE, event_signalled := True, msg := m\<rparr>"
  have 1: "run_pipe [a1, a2, a3, a4] s = Returns ?s1" using handshake_read assms(1-3) as(2) by (simp add: e)
  obtain s2 where 2: "run_pipe [a5] ?s1 = Returns s2" "server_state s2 = IPC_SERVER_STATE_WRITING" "\<not> shutting_down s2"
    "event_handle s2 = event_handle s" "conf s2 = conf s" "clients s2 = clients s @ [next_id s]"
    "client_info s2 = Some (next_id s)"
    "objects s2 = (objects s)(next_id s \<mapsto> registered_client a5 m (next_id s + 1))"
    "trace s2 = trace s @ [ReplyWritten (registered_reply a5 (next_id s + 4))]"
    "remote_handles s2 = (remote_handles s)(next_id s + 4 \<mapsto> Handle (next_id s + 2),
      next_id s + 5 \<mapsto> Handle (next_id s + 3), next_id s + 6 \<mapsto> server_alive_handle s)"
    using handshake_register [of m a5 ?s1] m as(2) assms(2) by (auto simp: e)
  note 3 = handshake_finish [of m a6 a7 a8 a9 s2 "next_id s"]
  have "run_pipe as s = run_pipe [a6, a7, a8, a9] s2"
    by (simp only: e run_pipe_append 1 2(1) exec_bind.simps)
  then show ?thesis using 3 2 as(2) assms(3) by (simp add: e)
qed

text \<open>C17. Liveness of the registration: from the INITIAL state, when the calls succeed and the client sends a valid
  registration request, nine callbacks of the pipe thread serve it. The server is back in the INITIAL state with its
  event signalled; the client is registered with the identifiers of its message, its reply has been written, and the
  application has been told of the connection once.\<close>

theorem registration_completes:
  assumes "server_state s = IPC_SERVER_STATE_INITIAL" "\<not> shutting_down s" "event_handle s \<noteq> NULL"
    and m: "IsClientRequestValid m" "tag m = MESSAGE_TAG_REGISTRATION_REQUEST"
    and as: "length as = 9" "list_all (cooperative m) as"
  shows "\<exists>s'. run_pipe as s = Returns s' \<and> server_state s' = IPC_SERVER_STATE_INITIAL \<and> event_signalled s' \<and>
    clients s' = clients s @ [next_id s] \<and>
    objects s' = (objects s)(next_id s \<mapsto> registered_client (as ! 4) m (next_id s + 1)) \<and>
    trace s' = trace s @ ReplyWritten (registered_reply (as ! 4) (next_id s + 4)) #
      (if has_connect_callback (conf s) then [Connected (next_id s)] else [])"
  using registration_run [OF assms] by blast

subsection \<open>A client that exits while it is being added\<close>

lemma destroy_clients_dangling: "p \<in> set ps \<Longrightarrow> objects s p = None \<Longrightarrow> destroy_clients ps s = Undefined"
proof (induction ps arbitrary: s)
  case (Cons q ps)
  have o: "objects (close_handle h s) = objects s" "objects (unregister_wait h s) = objects s" for h s
    by (cases h; simp)+
  then have "objects (ClientInfo_destroy c s) = objects s" for c s
    by (simp add: ClientInfo_destroy_def UnregisterDumpRequestWait_def UnregisterProcessExitWait_def)
  then show ?case
    using Cons o
    by (cases "objects s q") (auto simp: UnregisterDumpRequestWait_def UnregisterProcessExitWait_def Let_def)
qed simp

text \<open>C18. \<open>AddClient\<close> registers the wait on the client's exit before it enters the critical section that appends the
  client to the list. When the client's exit callback runs in between, it frees the client, which is then appended:
  the list holds a pointer to freed memory, and the destructor of the server dereferences it.\<close>

theorem AddClient_exit_race:
  assumes prep: "ReadDone_prepare a s = (Some p, s1)" and up: "\<not> shutting_down s"
    and exit: "HandleClientProcessExit p s1 = Returns s2" and commit: "ReadDone_commit a p s2 = Returns s3"
  shows "p \<in> set (clients s3) \<and> objects s3 p = None \<and> finish_shutdown (begin_shutdown s3) = Undefined"
proof -
  have up1: "\<not> shutting_down s1" using ReadDone_prepare_core [OF prep] up by (simp add: core_def)
  have o: "objects (close_handle h s) = objects s" "objects (unregister_wait h s) = objects s"
    "clients (close_handle h s) = clients s" "clients (unregister_wait h s) = clients s"
    "shutting_down (close_handle h s) = shutting_down s" "shutting_down (unregister_wait h s) = shutting_down s" for h s
    by (cases h; simp)+
  have s2: "objects s2 p = None" "\<not> shutting_down s2"
    using exit up1
    by (auto simp: HandleClientProcessExit_def ProcessExit_begin_def ProcessExit_remove_def ProcessExit_delete_def
        ClientInfo_destroy_def UnregisterDumpRequestWait_def UnregisterProcessExitWait_def Let_def o
        split: option.split_asm if_split_asm)
  then have s3: "p \<in> set (clients s3)" "objects s3 p = None"
    using commit by (auto simp: ReadDone_commit_def AddClient_push_def EnterStateWhenSignaled_def)
  then show ?thesis
    using destroy_clients_dangling [of p] by (simp add: finish_shutdown_def Let_def begin_shutdown_def o)
qed


subsection \<open>A concrete run\<close>

text \<open>The pipe thread with every operation completing: the event is signalled before each callback.\<close>

fun run_signalled :: "api list \<Rightarrow> server \<Rightarrow> server exec" where
  "run_signalled [] s = Returns s"
| "run_signalled (a # as) s =
     (if pipe_wait_handle s = NULL \<or> event_handle s = NULL then Undefined
      else exec_bind (HandleConnectionRequest a (s\<lparr>event_signalled := True\<rparr>)) (run_signalled as))"

text \<open>Nothing is under way.\<close>

definition idle :: "server \<Rightarrow> activity" where
  "idle s = \<lparr>srv = s, adding = None, exiting = {}, removed = []\<rparr>"

lemma reachable_pipe:
  assumes "reachable cf (idle s)" "pipe_wait_handle s \<noteq> NULL" "event_signalled s"
    "HandleConnectionRequest a s = Returns t"
  shows "reachable cf (idle t)"
proof (cases "shutting_down s \<or> server_state s \<noteq> IPC_SERVER_STATE_READ_DONE")
  case True
  then show ?thesis
    using reachable.stepped [OF assms(1) server_step.pipe_callback [of "idle s" a t]] assms(2-4) by (simp add: idle_def)
next
  case False
  obtain r s1 where p: "ReadDone_prepare a s = (r, s1)" by fastforce
  have 1: "reachable cf (idle s\<lparr>srv := s1, adding := r\<rparr>)"
    using reachable.stepped [OF assms(1) server_step.read_done [of "idle s" a r s1]] assms(2,3) False p
    by (simp add: idle_def)
  have h: "HandleReadDoneState a s = Returns t" using assms(4) False by (simp add: HandleConnectionRequest_def)
  show ?thesis
  proof (cases r)
    case None
    then show ?thesis using 1 h p by (simp add: HandleReadDoneState_def idle_def)
  next
    case (Some q)
    then have "ReadDone_commit a q s1 = Returns t" using h p by (simp add: HandleReadDoneState_def)
    then show ?thesis
      using reachable.stepped [OF 1 server_step.add_client [of "idle s\<lparr>srv := s1, adding := r\<rparr>" q a t]] Some
      by (simp add: idle_def)
  qed
qed

lemma reachable_run:
  assumes "run_signalled as s = Returns s'" "reachable cf (idle s)"
  shows "reachable cf (idle s')"
  using assms
proof (induction as arbitrary: s)
  case (Cons a as)
  then obtain t where t: "HandleConnectionRequest a (s\<lparr>event_signalled := True\<rparr>) = Returns t"
    "run_signalled as t = Returns s'" and h: "pipe_wait_handle s \<noteq> NULL" "event_handle s \<noteq> NULL"
    by (auto simp: exec_bind_Returns_iff split: if_split_asm)
  have "reachable cf (idle (s\<lparr>event_signalled := True\<rparr>))"
    using reachable.stepped [OF Cons.prems(2) server_step.io_done [of "idle s"]] h(2) by (simp add: idle_def)
  then have "reachable cf (idle t)" by (rule reachable_pipe [where a = a]) (simp_all add: h t)
  then show ?case using Cons.IH t(2) by blast
qed simp

definition sample_config :: config where
  "sample_config = \<lparr>has_connect_callback = True, has_dump_callback = True, has_exit_callback = True,
     has_upload_callback = True, generate_dumps = True, pre_fetch_custom_info = True, dump_path = []\<rparr>"

definition sample_request :: ProtocolMessage where
  "sample_request = empty_message\<lparr>tag := MESSAGE_TAG_REGISTRATION_REQUEST, msg_id := 7, thread_id := 16,
     exception_pointers := 32, assert_info := 48\<rparr>"

definition sample_api :: api where
  "sample_api = \<lparr>ok_create_mutex = True, ok_create_event = True, ok_register_pipe_wait = True, ok_create_pipe = True,
     ok_set_event = True, ok_reset_event = True, ok_disconnect = True, connect_result = IO_PENDING,
     overlapped_result = IO_SUCCESS, bytes_count = sizeof_ProtocolMessage, delivered = sample_request,
     read_result = IO_PENDING, write_result = IO_SUCCESS, ok_open_process = True, process_times = Some 5,
     system_time = 9, ok_event_requested = True, ok_event_generated = True, ok_duplicate = (True, True, True),
     ok_register_request = True, ok_register_exit = True, current_pid = 3, read_exception_info = Some (64, 8),
     read_thread_id = Some (2, 4), generated_file = Some ''d'', ok_write_minidump = True,
     read_custom_info = Some ([], 0)\<rparr>"

definition sample_started :: server where
  "sample_started = snd (Start sample_api (CrashGenerationServer_new sample_config))"

lemma sample_started_reachable: "reachable sample_config (idle sample_started)"
  unfolding sample_started_def idle_def
  by (rule reachable.started [of sample_api _ "fst (Start sample_api (CrashGenerationServer_new sample_config))"]) simp

lemma sample_started_eq:
  "sample_started = (CrashGenerationServer_new sample_config)\<lparr>server_state := IPC_SERVER_STATE_INITIAL,
     server_alive_handle := Handle 0, event_handle := Handle 1, event_signalled := True, pipe_wait_handle := Handle 2,
     pipe := Handle 3, handles := {0, 1, 3}, waits := {2}, next_id := 4\<rparr>"
  by (simp add: sample_started_def Start_def CrashGenerationServer_new_def sample_api_def create_handle_def
      register_wait_def set_event_def Let_def insert_commute numeral_eq_Suc)

lemma sample_cooperative: "cooperative sample_request sample_api"
  by (simp add: cooperative_def sample_api_def)

definition sample_served :: server where
  "sample_served = sample_started\<lparr>event_signalled := True, msg := sample_request,
     objects := [4 \<mapsto> registered_client sample_api sample_request 5], clients := [4], handles := {0, 1, 3, 5, 6, 7},
     remote_handles := [8 \<mapsto> Handle 6, 9 \<mapsto> Handle 7, 10 \<mapsto> Handle 0], waits := {2, 11, 12}, next_id := 13,
     trace := [ReplyWritten (registered_reply sample_api 8), Connected 4]\<rparr>"

lemma sample_request_valid: "IsClientRequestValid sample_request" "tag sample_request = MESSAGE_TAG_REGISTRATION_REQUEST"
  by (simp_all add: IsClientRequestValid_def sample_request_def)

lemma sample_run: "run_signalled (replicate 9 sample_api) sample_started = Returns sample_served"
proof -
  note c = sample_cooperative [unfolded cooperative_def]
  have r: "read_result sample_api = IO_PENDING" by (simp add: sample_api_def)
  show ?thesis
    by (simp add: numeral_eq_Suc sample_started_eq CrashGenerationServer_new_def pipe_handlers c r
        HandleReadDoneState_def ReadDone_cooperative [OF sample_cooperative sample_request_valid] ReadDone_commit_def
        AddClient_push_def sample_served_def sample_config_def insert_commute)
qed


lemma sample_served_reachable: "reachable sample_config (idle sample_served)"
  by (rule reachable_run [OF sample_run sample_started_reachable])

text \<open>The client has ended: its exit callback has taken it from the list and not released it yet.\<close>

definition sample_exited :: server where
  "sample_exited = sample_served\<lparr>
     objects := [4 \<mapsto> (registered_client sample_api sample_request 5)\<lparr>dump_request_wait := NULL\<rparr>], waits := {2, 12},
     trace := trace sample_served @ [Exited 4]\<rparr>"

definition sample_activity :: activity where
  "sample_activity = \<lparr>srv = sample_exited\<lparr>clients := []\<rparr>, adding = None, exiting = {}, removed = [4]\<rparr>"

lemma sample_activity_reachable: "reachable sample_config sample_activity"
proof -
  have o: "objects sample_served 4 = Some (registered_client sample_api sample_request 5)"
    "dump_request_wait (registered_client sample_api sample_request 5) = Handle 11"
    "process_exit_wait (registered_client sample_api sample_request 5) = Handle 12"
    "conf sample_served = sample_config" "clients sample_served = [4]" "\<not> shutting_down sample_served"
    by (simp_all add: sample_served_def sample_started_eq CrashGenerationServer_new_def registered_client_def Let_def)
  have "ProcessExit_begin 4 sample_served = Returns sample_exited"
    by (simp add: ProcessExit_begin_def o UnregisterDumpRequestWait_def sample_config_def sample_exited_def)
      (simp add: sample_served_def insert_Diff_if)
  then have "reachable sample_config ((idle sample_served)\<lparr>srv := sample_exited, exiting := {4}\<rparr>)"
    using reachable.stepped [OF sample_served_reachable server_step.exit_begin [of "idle sample_served" 4]] o
    by (simp add: idle_def)
  from reachable.stepped [OF this server_step.exit_remove [of 4]] show ?thesis
    by (simp add: idle_def ProcessExit_remove_def sample_exited_def o sample_activity_def)
qed

theorem server_resources_owned_witness:
  "clients (srv sample_activity) = [] \<and> dom (objects (srv sample_activity)) = {4} \<and>
   open_waits (srv sample_activity) = {#2, 12#} \<and> owned_waits [4] (srv sample_activity) = {#2, 12#} \<and>
   (\<exists>s'. ProcessExit_delete 4 (srv sample_activity) = Returns s')"
  using server_resources_owned [OF sample_activity_reachable, of sample_api]
  by (simp add: sample_activity_def sample_exited_def outside_def open_waits_def)

theorem shutdown_releases_everything_witness:
  "\<exists>s' s''. finish_shutdown (begin_shutdown (srv sample_activity)) = Returns s' \<and> dom (objects s') = {4} \<and>
     finish_exits [4] s' = Returns s'' \<and> handles s'' = {} \<and> waits s'' = {} \<and> objects s'' = Map.empty"
  using shutdown_releases_everything [OF sample_activity_reachable] by (simp add: sample_activity_def)

theorem state_machine_documented_witness:
  "HandleConnectionRequest sample_api sample_started =
     Returns (sample_started\<lparr>server_state := IPC_SERVER_STATE_CONNECTING, event_signalled := False\<rparr>) \<and>
   documented sample_api sample_started = IPC_SERVER_STATE_CONNECTING"
proof -
  have r: "HandleConnectionRequest sample_api sample_started =
      Returns (sample_started\<lparr>server_state := IPC_SERVER_STATE_CONNECTING, event_signalled := False\<rparr>)"
    using sample_cooperative
    by (simp add: sample_started_eq CrashGenerationServer_new_def pipe_handlers cooperative_def)
  have u: "server_state sample_started \<noteq> IPC_SERVER_STATE_UNINITIALIZED" "\<not> shutting_down sample_started"
    by (simp_all add: sample_started_eq CrashGenerationServer_new_def)
  from state_machine_documented [OF u(1), of sample_api] u(2) r show ?thesis by auto
qed

theorem dump_request_answered_witness:
  "\<exists>s'. OnDumpRequest sample_api 4 sample_served = Returns s' \<and> 7 \<in> client_events s' \<and> 6 \<notin> client_events s' \<and>
     trace s' = trace sample_served @ [DumpRequested 4 (Some ''d'')]"
proof -
  have o: "objects sample_served 4 = Some (registered_client sample_api sample_request 5)"
    and c: "conf sample_served = sample_config"
    by (simp_all add: sample_served_def sample_started_eq CrashGenerationServer_new_def)
  have g: "GenerateDump sample_api = Some ''d''"
    by (simp add: GenerateDump_def GetClientExceptionInfo_def GetClientThreadId_def sample_api_def)
  from dump_request_answered [OF sample_served_reachable _ o, of sample_api] show ?thesis
    by (auto simp: registered_client_def c g sample_config_def Let_def idle_def)
qed

theorem registration_completes_witness:
  "\<exists>s'. run_pipe (replicate 9 sample_api) sample_started = Returns s' \<and> server_state s' = IPC_SERVER_STATE_INITIAL \<and>
     clients s' = [4] \<and> trace s' = [ReplyWritten (registered_reply sample_api 8), Connected 4]"
proof -
  have c: "list_all (cooperative sample_request) (replicate 9 sample_api)"
    using sample_cooperative by (simp add: list_all_length)
  have "server_state sample_started = IPC_SERVER_STATE_INITIAL" "\<not> shutting_down sample_started"
    "event_handle sample_started \<noteq> NULL"
    by (simp_all add: sample_started_eq CrashGenerationServer_new_def)
  from registration_completes [OF this sample_request_valid _ c] show ?thesis
    by (auto simp: sample_started_eq CrashGenerationServer_new_def sample_config_def)
qed

theorem AddClient_exit_race_witness:
  "\<exists>s1 s2 s3. ReadDone_prepare sample_api (sample_started\<lparr>msg := sample_request\<rparr>) = (Some 4, s1) \<and>
     HandleClientProcessExit 4 s1 = Returns s2 \<and> ReadDone_commit sample_api 4 s2 = Returns s3 \<and>
     finish_shutdown (begin_shutdown s3) = Undefined"
proof -
  let ?s = "sample_started\<lparr>msg := sample_request\<rparr>"
  define s1 where "s1 = snd (ReadDone_prepare sample_api ?s)"
  have p: "ReadDone_prepare sample_api ?s = (Some 4, s1)" and up: "\<not> shutting_down ?s"
    by (simp_all add: s1_def ReadDone_cooperative [OF sample_cooperative sample_request_valid] sample_started_eq
        CrashGenerationServer_new_def)
  have "\<exists>s2. HandleClientProcessExit 4 s1 = Returns s2 \<and> \<not> shutting_down s2"
    by (simp add: s1_def ReadDone_cooperative [OF sample_cooperative sample_request_valid] sample_started_eq
        CrashGenerationServer_new_def HandleClientProcessExit_def ProcessExit_begin_def ProcessExit_remove_def
        ProcessExit_delete_def UnregisterDumpRequestWait_def
        UnregisterProcessExitWait_def ClientInfo_destroy_def registered_client_def Let_def new_ClientInfo_def)
  then obtain s2 where e: "HandleClientProcessExit 4 s1 = Returns s2" "\<not> shutting_down s2" by blast
  then obtain s3 where c: "ReadDone_commit sample_api 4 s2 = Returns s3"
    by (simp add: ReadDone_commit_def AddClient_push_def)
  from AddClient_exit_race [OF p up e(1) c] show ?thesis using p e c by blast
qed

end
