(* ===== verification/Crash_Generation_Client.thy ===== *)
theory Crash_Generation_Client
  imports Crash_Generation_Server
begin

text \<open>
  The client of the crash generation server (\<^verbatim>\<open>client/windows/crash_generation/crash_generation_client.cc\<close>), which a
  process uses to register with the server and to ask it for a dump.

  The Windows calls are a parameter, a record of their answers. The state keeps the handles that are open in
  the process, the messages written to pipes and the kernel events that are signalled. A handle names a
  kernel object (\<open>referent\<close>); while the client waits, the server may signal events (\<open>meanwhile\<close>).
\<close>

section \<open>State and Windows calls\<close>

text \<open>One attempt to open the pipe: \<open>CreateFile\<close> gives a handle, or fails because the pipe is busy and
  \<open>WaitNamedPipe\<close> returns, or fails for another reason.\<close>

datatype pipe_attempt = Opened nat | PipeBusy bool | OtherError

text \<open>The mutex that the server holds while it runs.\<close>

datatype mutex_state = Held | Released | Abandoned

record client_api =
  open_pipe :: "nat \<Rightarrow> pipe_attempt"
  ok_pipe_mode :: bool
  current_process_id :: "32 word"
  current_thread_id :: "32 word"
  transact :: "ProtocolMessage \<Rightarrow> ProtocolMessage option"
  ok_write :: bool
  ok_duplicate_pipe :: bool
  remote_pipe :: nat
  ok_reset_generated :: bool
  ok_set_crash :: bool
  referent :: "nat \<Rightarrow> nat"
  meanwhile :: "nat set \<Rightarrow> nat set"
  mutex :: mutex_state

text \<open>The object; \<open>thread_id_address\<close>, \<open>exception_pointers_address\<close> and \<open>assert_info_address\<close> are the places of the
  fields that the server reads.\<close>

record client =
  pipe_name_field :: string
  pipe_handle_field :: HANDLE
  custom_info_field :: "64 word \<times> 64 word"
  dump_type_field :: "32 word"
  crash_event :: HANDLE
  crash_generated :: HANDLE
  server_alive :: HANDLE
  server_process_id :: "32 word"
  thread_id_field :: "32 word"
  exception_pointers_field :: "64 word"
  assert_info_field :: "8 word list"
  thread_id_address :: "64 word"
  exception_pointers_address :: "64 word"
  assert_info_address :: "64 word"
  process_handles :: "nat set"
  written :: "ProtocolMessage list"
  signalled :: "nat set"

fun handle_set :: "HANDLE \<Rightarrow> nat set" where
  "handle_set (Handle h) = {h}"
| "handle_set _ = {}"

definition CloseHandle :: "HANDLE \<Rightarrow> client \<Rightarrow> client" where
  "CloseHandle h c = c\<lparr>process_handles := process_handles c - handle_set h\<rparr>"

definition sizeof_assert_info :: nat where "sizeof_assert_info = 776"

section \<open>Operations\<close>

definition CrashGenerationClient_init ::
    "64 word \<times> 64 word \<times> 64 word \<Rightarrow> string \<Rightarrow> HANDLE \<Rightarrow> 32 word \<Rightarrow> (64 word \<times> 64 word) option \<Rightarrow> nat set \<Rightarrow> client" where
  "CrashGenerationClient_init addresses pipe_name pipe_handle minidump_type custom_info opened =
     \<lparr>pipe_name_field = pipe_name, pipe_handle_field = pipe_handle,
      custom_info_field = (case custom_info of Some i \<Rightarrow> i | None \<Rightarrow> (0, 0)), dump_type_field = minidump_type,
      crash_event = NULL, crash_generated = NULL, server_alive = NULL, server_process_id = 0, thread_id_field = 0,
      exception_pointers_field = 0, assert_info_field = replicate sizeof_assert_info 0,
      thread_id_address = fst addresses, exception_pointers_address = fst (snd addresses),
      assert_info_address = snd (snd addresses), process_handles = opened, written = [], signalled = {}\<rparr>"

text \<open>The two constructors.\<close>

definition CrashGenerationClient_named where
  "CrashGenerationClient_named addresses pipe_name = CrashGenerationClient_init addresses pipe_name NULL"

definition CrashGenerationClient_handle where
  "CrashGenerationClient_handle addresses pipe_handle = CrashGenerationClient_init addresses [] pipe_handle"

definition CrashGenerationClient_destroy :: "client \<Rightarrow> client" where
  "CrashGenerationClient_destroy c =
     (let c = (if crash_event c \<noteq> NULL then CloseHandle (crash_event c) c else c);
          c = (if crash_generated c \<noteq> NULL then CloseHandle (crash_generated c) c else c)
      in if server_alive c \<noteq> NULL then CloseHandle (server_alive c) c else c)"

definition kPipeConnectMaxAttempts :: nat where "kPipeConnectMaxAttempts = 2"

text \<open>The loop of \<open>ConnectToPipe\<close> from attempt \<open>i\<close> on.\<close>

function pipe_attempts :: "client_api \<Rightarrow> nat \<Rightarrow> HANDLE" where
  "pipe_attempts a i =
     (if i < kPipeConnectMaxAttempts
      then (case open_pipe a i of
              Opened h \<Rightarrow> Handle h
            | OtherError \<Rightarrow> NULL
            | PipeBusy wait_ok \<Rightarrow> if wait_ok then pipe_attempts a (Suc i) else NULL)
      else NULL)"
  by pat_completeness auto
termination by (relation "measure (\<lambda>(a, i). kPipeConnectMaxAttempts - i)") auto

declare pipe_attempts.simps [simp del]

definition ConnectToPipe :: "client_api \<Rightarrow> client \<Rightarrow> HANDLE \<times> client" where
  "ConnectToPipe a c =
     (if pipe_handle_field c \<noteq> NULL then (pipe_handle_field c, c\<lparr>pipe_handle_field := NULL\<rparr>)
      else let h = pipe_attempts a 0 in (h, c\<lparr>process_handles := process_handles c \<union> handle_set h\<rparr>))"

definition ConnectToServer :: "client_api \<Rightarrow> client \<Rightarrow> HANDLE \<times> client" where
  "ConnectToServer a c =
     (let (p, c) = ConnectToPipe a c in
      if p = NULL then (NULL, c)
      else if \<not> ok_pipe_mode a then (NULL, CloseHandle p c)
      else (p, c))"

definition ValidateResponse :: "ProtocolMessage \<Rightarrow> bool" where
  "ValidateResponse m \<longleftrightarrow> tag m = MESSAGE_TAG_REGISTRATION_RESPONSE \<and> msg_id m \<noteq> 0 \<and>
     dump_request_handle m \<noteq> NULL \<and> dump_generated_handle m \<noteq> NULL \<and> alive_handle m \<noteq> NULL"

definition IsRegistered :: "client \<Rightarrow> bool" where
  "IsRegistered c \<longleftrightarrow> crash_event c \<noteq> NULL"

definition registration_request :: "client_api \<Rightarrow> client \<Rightarrow> ProtocolMessage" where
  "registration_request a c =
     \<lparr>tag = MESSAGE_TAG_REGISTRATION_REQUEST, msg_id = current_process_id a, dump_type = dump_type_field c,
      thread_id = thread_id_address c, exception_pointers = exception_pointers_address c,
      assert_info = assert_info_address c, custom_entries = fst (custom_info_field c),
      custom_count = snd (custom_info_field c), dump_request_handle = NULL, dump_generated_handle = NULL,
      alive_handle = NULL\<rparr>"

text \<open>The handles of a reply are open in this process: the server has duplicated them into it.\<close>

definition reply_handles :: "ProtocolMessage \<Rightarrow> nat set" where
  "reply_handles m = handle_set (dump_request_handle m) \<union> handle_set (dump_generated_handle m) \<union>
     handle_set (alive_handle m)"

definition RegisterClient :: "client_api \<Rightarrow> client \<Rightarrow> bool \<times> client" where
  "RegisterClient a c =
     (let m = registration_request a c in
      case transact a m of
        None \<Rightarrow> (False, c)
      | Some reply \<Rightarrow>
          let c = c\<lparr>written := written c @ [m], process_handles := process_handles c \<union> reply_handles reply\<rparr> in
          if \<not> ValidateResponse reply then (False, c)
          else
            let ack_msg = empty_message\<lparr>tag := MESSAGE_TAG_REGISTRATION_ACK\<rparr> in
            if \<not> ok_write a then (False, c)
            else (True, c\<lparr>written := written c @ [ack_msg], crash_event := dump_request_handle reply,
              crash_generated := dump_generated_handle reply, server_alive := alive_handle reply,
              server_process_id := msg_id reply\<rparr>))"

definition Register :: "client_api \<Rightarrow> client \<Rightarrow> bool \<times> client" where
  "Register a c =
     (if IsRegistered c then (True, c)
      else
        let (p, c) = ConnectToServer a c in
        if p = NULL then (False, c)
        else let (success, c) = RegisterClient a c in (success, CloseHandle p c))"

definition RequestUpload :: "client_api \<Rightarrow> 32 word \<Rightarrow> client \<Rightarrow> bool \<times> client" where
  "RequestUpload a upload_id c =
     (let (p, c) = ConnectToServer a c in
      if p = NULL then (False, c)
      else
        let m = empty_message\<lparr>tag := MESSAGE_TAG_UPLOAD_REQUEST, msg_id := upload_id\<rparr>;
            c = (if ok_write a then c\<lparr>written := written c @ [m]\<rparr> else c)
        in (ok_write a, CloseHandle p c))"

text \<open>The kernel object of a handle, and whether a wait on it would return at once.\<close>

fun object_of :: "client_api \<Rightarrow> HANDLE \<Rightarrow> nat set" where
  "object_of a (Handle h) = {referent a h}"
| "object_of a _ = {}"

datatype wait_result = WAIT_OBJECT nat | WAIT_ABANDONED nat | WAIT_TIMEOUT

text \<open>\<open>WaitForMultipleObjects\<close> for any of an event and a mutex whose owner may be gone: the lowest index counts.\<close>

definition WaitForServer :: "client_api \<Rightarrow> client \<Rightarrow> wait_result \<times> client" where
  "WaitForServer a c =
     (let c = c\<lparr>signalled := meanwhile a (signalled c)\<rparr> in
      if object_of a (crash_generated c) \<inter> signalled c \<noteq> {} then (WAIT_OBJECT 0, c)
      else (case mutex a of Held \<Rightarrow> WAIT_TIMEOUT | Released \<Rightarrow> WAIT_OBJECT 1 | Abandoned \<Rightarrow> WAIT_ABANDONED 1, c))"

definition SignalCrashEventAndWait :: "client_api \<Rightarrow> client \<Rightarrow> (bool \<times> client) exec" where
  "SignalCrashEventAndWait a c =
     (if crash_event c = NULL \<or> crash_generated c = NULL \<or> server_alive c = NULL then Undefined
      else if \<not> ok_reset_generated a then Returns (False, c)
      else
        let c = c\<lparr>signalled := signalled c - object_of a (crash_generated c)\<rparr> in
        if \<not> ok_set_crash a then Returns (False, c)
        else
          let c = c\<lparr>signalled := signalled c \<union> object_of a (crash_event c)\<rparr>;
              (result, c) = WaitForServer a c
          in Returns (result = WAIT_OBJECT 0, c))"

definition RequestDump :: "client_api \<Rightarrow> 64 word \<Rightarrow> 8 word list option \<Rightarrow> client \<Rightarrow> (bool \<times> client) exec" where
  "RequestDump a ex_info assertion c =
     (if \<not> IsRegistered c then Returns (False, c)
      else
        SignalCrashEventAndWait a
          (c\<lparr>exception_pointers_field := ex_info, thread_id_field := current_thread_id a,
             assert_info_field := (case assertion of Some i \<Rightarrow> i | None \<Rightarrow> replicate sizeof_assert_info 0)\<rparr>))"

definition RequestDump_exception where
  "RequestDump_exception a ex_info = RequestDump a ex_info None"

definition RequestDump_assertion where
  "RequestDump_assertion a assertion = RequestDump a 0 assertion"

text \<open>\<open>DuplicatePipeToClientProcess\<close>, called in the server process: the handle in the client process. The source of the
  duplicate is closed in every case.\<close>

function duplicate_pipe_attempts :: "client_api \<Rightarrow> nat \<Rightarrow> HANDLE" where
  "duplicate_pipe_attempts a i =
     (if i < kPipeConnectMaxAttempts
      then (case open_pipe a i of
              Opened h \<Rightarrow> if ok_duplicate_pipe a then Handle (remote_pipe a) else INVALID
            | OtherError \<Rightarrow> INVALID
            | PipeBusy wait_ok \<Rightarrow> if wait_ok then duplicate_pipe_attempts a (Suc i) else INVALID)
      else INVALID)"
  by pat_completeness auto
termination by (relation "measure (\<lambda>(a, i). kPipeConnectMaxAttempts - i)") auto

declare duplicate_pipe_attempts.simps [simp del]

definition DuplicatePipeToClientProcess :: "client_api \<Rightarrow> HANDLE" where
  "DuplicatePipeToClientProcess a = duplicate_pipe_attempts a 0"

section \<open>Handles\<close>

lemma handle_set_NULL: "handle_set h = {} \<longleftrightarrow> h = NULL \<or> h = INVALID"
  by (cases h) auto

lemma process_handles_CloseHandle [simp]: "process_handles (CloseHandle h c) = process_handles c - handle_set h"
  by (simp add: CloseHandle_def)

lemma CloseHandle_sel [simp]:
  "crash_event (CloseHandle h c) = crash_event c" "crash_generated (CloseHandle h c) = crash_generated c"
  "server_alive (CloseHandle h c) = server_alive c" "pipe_handle_field (CloseHandle h c) = pipe_handle_field c"
  "IsRegistered (CloseHandle h c) = IsRegistered c" "server_process_id (CloseHandle h c) = server_process_id c"
  "signalled (CloseHandle h c) = signalled c" "written (CloseHandle h c) = written c"
  by (simp_all add: CloseHandle_def IsRegistered_def)

lemma process_handles_destroy [simp]:
  "process_handles (CrashGenerationClient_destroy c) =
     process_handles c - handle_set (crash_event c) - handle_set (crash_generated c) - handle_set (server_alive c)"
  by (auto simp: CrashGenerationClient_destroy_def Let_def)

text \<open>The attempts give the handle that the first successful one opened.\<close>

lemma pipe_attempts_cases:
  "pipe_attempts a i = NULL \<or> (\<exists>j h. i \<le> j \<and> j < kPipeConnectMaxAttempts \<and> open_pipe a j = Opened h \<and>
     pipe_attempts a i = Handle h)"
proof (induction a i rule: pipe_attempts.induct)
  case (1 a i)
  show ?case
  proof (cases "open_pipe a i")
    case (PipeBusy b)
    with 1 show ?thesis
      by (cases "i < kPipeConnectMaxAttempts \<and> b") (auto simp: pipe_attempts.simps [of a i] dest: Suc_leD)
  qed (auto simp: pipe_attempts.simps [of a i])
qed

text \<open>Handles that the process gets are new to it.\<close>

definition fresh_handles :: "client_api \<Rightarrow> client \<Rightarrow> bool" where
  "fresh_handles a c \<longleftrightarrow>
     (\<forall>i h. open_pipe a i = Opened h \<longrightarrow> h \<notin> process_handles c) \<and>
     (\<forall>m r. transact a m = Some r \<longrightarrow> reply_handles r \<inter> process_handles c = {} \<and>
        (\<forall>i h. open_pipe a i = Opened h \<longrightarrow> h \<notin> reply_handles r))"

lemma ConnectToServer_handles:
  assumes "fresh_handles a c" "ConnectToServer a c = (p, c')"
  shows "process_handles c' - handle_set p = process_handles c - handle_set (pipe_handle_field c)"
    "c' = c\<lparr>pipe_handle_field := NULL, process_handles := process_handles c'\<rparr>"
    "transact a m = Some r \<Longrightarrow> handle_set (pipe_handle_field c) \<subseteq> process_handles c \<Longrightarrow>
       reply_handles r \<inter> handle_set p = {} \<and> reply_handles r \<inter> process_handles c = {}"
proof -
  have "(process_handles c' - handle_set p = process_handles c - handle_set (pipe_handle_field c)) \<and>
    c' = c\<lparr>pipe_handle_field := NULL, process_handles := process_handles c'\<rparr> \<and>
    (transact a m = Some r \<longrightarrow> handle_set (pipe_handle_field c) \<subseteq> process_handles c \<longrightarrow>
       reply_handles r \<inter> handle_set p = {} \<and> reply_handles r \<inter> process_handles c = {})"
  proof (cases "pipe_handle_field c = NULL")
    case True
    consider "pipe_attempts a 0 = NULL" | j h where "open_pipe a j = Opened h" "pipe_attempts a 0 = Handle h"
      using pipe_attempts_cases [of a 0] by blast
    then show ?thesis
    proof cases
      case 1
      with assms True show ?thesis by (auto simp: ConnectToServer_def ConnectToPipe_def fresh_handles_def)
    next
      case 2
      have "ConnectToServer a c = (if ok_pipe_mode a then Handle h else NULL,
          c\<lparr>process_handles := process_handles c \<union> (if ok_pipe_mode a then {h} else {})\<rparr>)"
        using 2 True assms(1) by (simp add: ConnectToServer_def ConnectToPipe_def CloseHandle_def fresh_handles_def)
      with assms True 2(1) show ?thesis by (auto simp: fresh_handles_def split: if_split_asm)
    qed
  next
    case False
    then show ?thesis
      using assms
      by (auto simp: ConnectToServer_def ConnectToPipe_def CloseHandle_def fresh_handles_def split: if_split_asm) blast
  qed
  then show "process_handles c' - handle_set p = process_handles c - handle_set (pipe_handle_field c)"
    "c' = c\<lparr>pipe_handle_field := NULL, process_handles := process_handles c'\<rparr>"
    "transact a m = Some r \<Longrightarrow> handle_set (pipe_handle_field c) \<subseteq> process_handles c \<Longrightarrow>
       reply_handles r \<inter> handle_set p = {} \<and> reply_handles r \<inter> process_handles c = {}"
    by blast+
qed

text \<open>What the reply of the server has brought into the process by the end of \<open>Register\<close>.\<close>

definition received :: "client_api \<Rightarrow> client \<Rightarrow> nat set" where
  "received a c = (if IsRegistered c \<or> fst (ConnectToServer a c) = NULL then {}
     else case transact a (registration_request a c) of None \<Rightarrow> {} | Some r \<Rightarrow> reply_handles r)"

lemma RegisterClient_cases:
  assumes "RegisterClient a c = (success, c')"
  obtains (failed) "transact a (registration_request a c) = None" "\<not> success" "c' = c"
  | (refused) r where "transact a (registration_request a c) = Some r" "\<not> success" "\<not> (ValidateResponse r \<and> ok_write a)"
      "c' = c\<lparr>written := written c @ [registration_request a c], process_handles := process_handles c \<union> reply_handles r\<rparr>"
  | (accepted) r where "transact a (registration_request a c) = Some r" success "ValidateResponse r" "ok_write a"
      "c' = c\<lparr>written := written c @ [registration_request a c, empty_message\<lparr>tag := MESSAGE_TAG_REGISTRATION_ACK\<rparr>],
         process_handles := process_handles c \<union> reply_handles r, crash_event := dump_request_handle r,
         crash_generated := dump_generated_handle r, server_alive := alive_handle r, server_process_id := msg_id r\<rparr>"
  using assms unfolding RegisterClient_def Let_def by (fastforce split: option.split_asm if_split_asm)

lemma registration_request_connected [simp]:
  "registration_request a (c\<lparr>pipe_handle_field := h, process_handles := hs\<rparr>) = registration_request a c"
  by (simp add: registration_request_def)

lemma Register_handles_lemma:
  assumes fresh: "fresh_handles a c" and own: "handle_set (pipe_handle_field c) \<subseteq> process_handles c"
    and start: "\<not> IsRegistered c" "crash_generated c = NULL" "server_alive c = NULL"
    and reg: "Register a c = (success, c')"
  shows "process_handles c' = process_handles c - handle_set (pipe_handle_field c) \<union> received a c \<and>
    success = IsRegistered c' \<and>
    process_handles (CrashGenerationClient_destroy c') =
      process_handles c - handle_set (pipe_handle_field c) \<union> (if success then {} else received a c)"
proof -
  obtain p c1 where con: "ConnectToServer a c = (p, c1)" by (metis surj_pair)
  note h = ConnectToServer_handles [OF fresh con]
  have null: "crash_event c = NULL" using start(1) by (simp add: IsRegistered_def)
  show ?thesis
  proof (cases "p = NULL")
    case True
    then have "success = False" "c' = c1" "received a c = {}"
      using reg con start(1) by (simp_all add: Register_def received_def)
    moreover have "process_handles c1 = process_handles c - handle_set (pipe_handle_field c)" using h(1) True by simp
    moreover have "crash_event c1 = NULL" "crash_generated c1 = NULL" "server_alive c1 = NULL"
      by (subst h(2), simp add: start null)+
    ultimately show ?thesis by (simp add: IsRegistered_def)
  next
    case False
    obtain c2 where r: "RegisterClient a c1 = (success, c2)" and c': "c' = CloseHandle p c2"
      using reg con start(1) False by (auto simp: Register_def split: prod.split_asm)
    have q: "registration_request a c1 = registration_request a c" by (subst h(2)) simp
    have f: "crash_event c1 = NULL" "crash_generated c1 = NULL" "server_alive c1 = NULL"
      by (subst h(2), simp add: start null)+
    show ?thesis using r
    proof (cases rule: RegisterClient_cases)
      case failed
      then have "received a c = {}" by (simp add: received_def q)
      then show ?thesis using failed h(1) f by (simp add: c' IsRegistered_def)
    next
      case (refused r)
      then have "received a c = reply_handles r" using con False start(1) by (simp add: received_def q)
      moreover have "reply_handles r \<inter> handle_set p = {}" using h(3) refused(1) own by blast
      ultimately show ?thesis using refused h(1) f by (auto simp: c' IsRegistered_def)
    next
      case (accepted r)
      then have "received a c = reply_handles r" using con False start(1) by (simp add: received_def q)
      moreover have "reply_handles r \<inter> handle_set p = {}" "reply_handles r \<inter> process_handles c = {}"
        using h(3) accepted(1) own by blast+
      ultimately show ?thesis
        using accepted h(1) by (auto simp: c' IsRegistered_def ValidateResponse_def reply_handles_def)
    qed
  qed
qed

text \<open>The handles of a registration: when the process registers for the first time, the pipe is closed again on every
  path, whether it was opened here or passed in. The process keeps the three handles that the server's reply
  brought into it, and \<open>IsRegistered\<close> holds exactly on success. After a success the destructor closes the three; after a
  reply that is not valid, or an acknowledgement that cannot be written, they stay open for the rest of the process.\<close>

theorem Register_handles:
  assumes "fresh_handles a c" "handle_set (pipe_handle_field c) \<subseteq> process_handles c"
    "\<not> IsRegistered c" "crash_generated c = NULL" "server_alive c = NULL" "Register a c = (success, c')"
  shows "process_handles c' = process_handles c - handle_set (pipe_handle_field c) \<union> received a c \<and>
    success = IsRegistered c' \<and>
    process_handles (CrashGenerationClient_destroy c') =
      process_handles c - handle_set (pipe_handle_field c) \<union> (if success then {} else received a c)"
  by (rule Register_handles_lemma [OF assms])

section \<open>The client and the server together\<close>

text \<open>The reply that a run of the server's pipe thread writes first.\<close>

definition reply_of :: "api list \<Rightarrow> server \<Rightarrow> ProtocolMessage option" where
  "reply_of as s =
     (case run_pipe as s of
        Undefined \<Rightarrow> None
      | Returns s' \<Rightarrow> (case drop (length (trace s)) (trace s') of ReplyWritten r # _ \<Rightarrow> Some r | _ \<Rightarrow> None))"

text \<open>\<open>DuplicateHandle\<close>: the duplicate refers to the object of its source. The kernel objects are numbered by the
  server's own handles to them.\<close>

definition duplicates_refer :: "client_api \<Rightarrow> server \<Rightarrow> bool" where
  "duplicates_refer a s \<longleftrightarrow> (\<forall>h x. remote_handles s h = Some (Handle x) \<longrightarrow> referent a h = x)"

text \<open>The events after the server has served the dump request of client \<open>p\<close>.\<close>

definition events_served :: "api \<Rightarrow> nat \<Rightarrow> server \<Rightarrow> nat set \<Rightarrow> nat set" where
  "events_served a p s E =
     (case OnDumpRequest a p (s\<lparr>client_events := E\<rparr>) of Returns s' \<Rightarrow> client_events s' | Undefined \<Rightarrow> E)"

lemma Register_accepted:
  assumes "\<not> IsRegistered c" "fst (ConnectToServer a c) \<noteq> NULL" "fresh_handles a c"
    "transact a (registration_request a c) = Some r" "ValidateResponse r" "ok_write a"
  shows "\<exists>c'. Register a c = (True, c') \<and> crash_event c' = dump_request_handle r \<and>
    crash_generated c' = dump_generated_handle r \<and> server_alive c' = alive_handle r"
proof -
  obtain p c1 where con: "ConnectToServer a c = (p, c1)" by (metis surj_pair)
  have "registration_request a c1 = registration_request a c"
    by (subst ConnectToServer_handles(2) [OF assms(3) con]) simp
  then show ?thesis using assms con by (simp add: Register_def RegisterClient_def Let_def)
qed

lemma RequestDump_signalled:
  assumes "crash_event c = Handle x" "crash_generated c = Handle y" "server_alive c \<noteq> NULL" "ok_reset_generated a"
    "ok_set_crash a" "referent a y \<in> meanwhile a (insert (referent a x) (signalled c - {referent a y}))"
  shows "\<exists>c'. RequestDump a ex_info assertion c = Returns (True, c')"
  using assms by (simp add: RequestDump_def SignalCrashEventAndWait_def WaitForServer_def IsRegistered_def Let_def)

text \<open>C27. A whole session of a client and the server: the server is idle and its calls succeed, the client connects
  and sends its registration request, and the server's reply comes back. Then the client is registered: its crash
  event is the server's event for dump requests, its second event is the one that the server signals when the dump is
  done, and its mutex is the server's. The server has recorded where the client's crash data will be, and a later request for
  a dump returns \<open>true\<close> once the server has served it. This holds whether or not the server could write the dump: the
  application is told of a dump only if one was generated, but the client is told \<open>true\<close> in both cases. Of
  \<open>DuplicateHandle\<close> it is assumed that a duplicate refers to the object of its source.\<close>

theorem client_server_session:
  assumes server: "server_state s = IPC_SERVER_STATE_INITIAL" "\<not> shutting_down s" "event_handle s \<noteq> NULL"
      "server_alive_handle s = Handle al"
    and calls: "length as = 9" "list_all (cooperative (registration_request ca c)) as" "current_pid (as ! 4) \<noteq> 0"
    and client: "\<not> IsRegistered c" "fresh_handles ca c" "fst (ConnectToServer ca c) \<noteq> NULL" "ok_write ca"
      "ok_reset_generated ca" "ok_set_crash ca" "current_process_id ca \<noteq> 0" "thread_id_address c \<noteq> 0"
      "exception_pointers_address c \<noteq> 0" "assert_info_address c \<noteq> 0"
    and pipe: "transact ca (registration_request ca c) = reply_of as s"
    and run: "run_pipe as s = Returns s'" "objects s' (next_id s) = Some ci" "duplicates_refer ca s'"
    and dump: "meanwhile ca = events_served a (next_id s) s'"
  shows "(\<exists>c'. Register ca c = (True, c') \<and> object_of ca (crash_event c') = handle_set (dump_requested ci) \<and>
      object_of ca (crash_generated c') = handle_set (dump_generated ci) \<and> object_of ca (server_alive c') = {al} \<and>
      (\<exists>c''. RequestDump ca ex_info assertion c' = Returns (True, c''))) \<and>
    next_id s \<in> set (clients s') \<and> ci_thread_id ci = thread_id_address c \<and>
    ci_ex_info ci = exception_pointers_address c \<and> ci_assert_info ci = assert_info_address c \<and>
    (GenerateDump a = None \<and> generate_dumps (conf s') \<longrightarrow>
       (\<exists>s''. OnDumpRequest a (next_id s) s' = Returns s'' \<and> trace s'' = trace s'))"
proof -
  let ?m = "registration_request ca c" and ?n = "next_id s"
  have m: "IsClientRequestValid ?m" "tag ?m = MESSAGE_TAG_REGISTRATION_REQUEST"
    using client by (simp_all add: IsClientRequestValid_def registration_request_def)
  have s': "clients s' = clients s @ [?n]" "objects s' = (objects s)(?n \<mapsto> registered_client (as ! 4) ?m (?n + 1))"
    "\<exists>es. trace s' = trace s @ ReplyWritten (registered_reply (as ! 4) (?n + 4)) # es"
    "remote_handles s' = (remote_handles s)(?n + 4 \<mapsto> Handle (?n + 2), ?n + 5 \<mapsto> Handle (?n + 3),
      ?n + 6 \<mapsto> server_alive_handle s)"
    using registration_run [OF server(1-3) m calls(1,2)] run(1) by auto
  have r: "reply_of as s = Some (registered_reply (as ! 4) (?n + 4))" using s'(3) run(1) by (auto simp: reply_of_def)
  have ci: "ci = registered_client (as ! 4) ?m (?n + 1)" using s'(2) run(2) by simp
  have h: "dump_requested ci = Handle (?n + 2)" "dump_generated ci = Handle (?n + 3)"
    by (simp_all add: ci registered_client_def Let_def)
  have ref: "referent ca (?n + 4) = ?n + 2" "referent ca (?n + 5) = ?n + 3" "referent ca (?n + 6) = al"
    using run(3) server(4) by (simp_all add: duplicates_refer_def s'(4))
  have "ValidateResponse (registered_reply (as ! 4) (?n + 4))"
    using calls(3) by (simp add: ValidateResponse_def registered_reply_def)
  then obtain c' where c': "Register ca c = (True, c')" "crash_event c' = Handle (?n + 4)"
    "crash_generated c' = Handle (?n + 5)" "server_alive c' = Handle (?n + 6)"
    using Register_accepted [OF client(1,3,2) _ _ client(4)] pipe r by (auto simp: registered_reply_def)
  have "?n + 3 \<in> meanwhile ca E" for E
    using OnDumpRequest_answer [of "s'\<lparr>client_events := E\<rparr>" ?n ci "?n + 2" "?n + 3" a] run(2) h
    by (auto simp: dump events_served_def)
  then have d: "\<exists>c''. RequestDump ca ex_info assertion c' = Returns (True, c'')"
    using RequestDump_signalled [OF c'(2,3) _ client(5,6)] c'(4) by (simp add: ref)
  have "ci_thread_id ci = thread_id_address c" "ci_ex_info ci = exception_pointers_address c"
    "ci_assert_info ci = assert_info_address c"
    by (simp_all add: ci registered_client_def new_ClientInfo_def registration_request_def Let_def)
  moreover have "object_of ca (crash_event c') = handle_set (dump_requested ci)"
    "object_of ca (crash_generated c') = handle_set (dump_generated ci)" "object_of ca (server_alive c') = {al}"
    by (simp_all add: c' h ref)
  ultimately show ?thesis
    using c'(1) d s'(1) OnDumpRequest_answer [OF run(2) h, of a] by (auto split: if_split_asm)
qed

section \<open>Concrete sessions\<close>

definition sample_client :: client where
  "sample_client = CrashGenerationClient_named (16, 32, 48) ''p'' 0 None {1}"

definition sample_client_api :: client_api where
  "sample_client_api = \<lparr>open_pipe = (\<lambda>i. if i = 0 then PipeBusy True else Opened 2), ok_pipe_mode = True,
     current_process_id = 7, current_thread_id = 5, transact = (\<lambda>m. Some (registered_reply sample_api 8)),
     ok_write = True, ok_duplicate_pipe = True, remote_pipe = 3, ok_reset_generated = True, ok_set_crash = True,
     referent = (\<lambda>h. if h = 10 then 0 else h - 2), meanwhile = (\<lambda>E. E), mutex = Held\<rparr>"

lemmas sample_client_defs = sample_client_def sample_client_api_def CrashGenerationClient_named_def
  CrashGenerationClient_init_def

lemma sample_client_fresh: "fresh_handles sample_client_api sample_client" "\<not> IsRegistered sample_client"
  by (auto simp: fresh_handles_def sample_client_defs reply_handles_def registered_reply_def IsRegistered_def
      split: if_split_asm)

lemma sample_client_connects: "ConnectToServer (sample_client_api\<lparr>meanwhile := f\<rparr>) sample_client =
    (Handle 2, sample_client\<lparr>process_handles := {1, 2}\<rparr>)"
  by (simp add: ConnectToServer_def ConnectToPipe_def pipe_attempts.simps kPipeConnectMaxAttempts_def sample_client_defs)

lemma sample_client_request: "registration_request (sample_client_api\<lparr>meanwhile := f\<rparr>) sample_client = sample_request"
  by (simp add: registration_request_def sample_request_def empty_message_def sample_client_defs)

theorem Register_handles_witness:
  "\<exists>c'. Register (sample_client_api\<lparr>ok_write := False\<rparr>) sample_client = (False, c') \<and>
     process_handles (CrashGenerationClient_destroy c') = {1, 8, 9, 10}"
proof -
  let ?a = "sample_client_api\<lparr>ok_write := False\<rparr>"
  obtain c' where r: "Register ?a sample_client = (False, c')"
    by (simp add: Register_def IsRegistered_def ConnectToServer_def ConnectToPipe_def RegisterClient_def Let_def
        pipe_attempts.simps kPipeConnectMaxAttempts_def sample_client_defs ValidateResponse_def registered_reply_def
        sample_api_def)
  have f: "fresh_handles ?a sample_client" using sample_client_fresh(1) by (simp add: fresh_handles_def)
  have n: "fst (ConnectToServer ?a sample_client) \<noteq> NULL"
    by (simp add: ConnectToServer_def ConnectToPipe_def pipe_attempts.simps kPipeConnectMaxAttempts_def sample_client_defs)
  have "received ?a sample_client = {8, 9, 10}"
    using n sample_client_fresh(2)
    by (auto simp: received_def reply_handles_def registered_reply_def sample_client_api_def)
  then show ?thesis
    using Register_handles [OF f _ sample_client_fresh(2) _ _ r] r by (auto simp: sample_client_defs)
qed

theorem client_server_session_witness:
  "\<exists>ca s' c' c''. run_pipe (replicate 9 sample_api) sample_started = Returns s' \<and>
     Register ca sample_client = (True, c') \<and> object_of ca (crash_event c') = {6} \<and>
     RequestDump ca 0 None c' = Returns (True, c'')"
proof -
  have c: "list_all (cooperative sample_request) (replicate 9 sample_api)"
    using sample_cooperative by (simp add: list_all_length)
  have s: "server_state sample_started = IPC_SERVER_STATE_INITIAL" "\<not> shutting_down sample_started"
    "event_handle sample_started \<noteq> NULL" "server_alive_handle sample_started = Handle 0" "next_id sample_started = 4"
    "trace sample_started = []" "remote_handles sample_started = Map.empty"
    by (simp_all add: sample_started_eq CrashGenerationServer_new_def)
  obtain s' es where s': "run_pipe (replicate 9 sample_api) sample_started = Returns s'"
    "objects s' 4 = Some (registered_client sample_api sample_request 5)"
    "trace s' = ReplyWritten (registered_reply sample_api 8) # es"
    "remote_handles s' = [8 \<mapsto> Handle 6, 9 \<mapsto> Handle 7, 10 \<mapsto> Handle 0]"
    using registration_run [OF s(1-3) sample_request_valid _ c] by (auto simp: s(4-7))
  define ca where "ca = sample_client_api\<lparr>meanwhile := events_served sample_api 4 s'\<rparr>"
  have r: "reply_of (replicate 9 sample_api) sample_started = Some (registered_reply sample_api 8)"
    by (simp add: reply_of_def s'(1,3) s(6))
  have q: "registration_request ca sample_client = sample_request"
    by (simp add: ca_def sample_client_request)
  have k: "fst (ConnectToServer ca sample_client) \<noteq> NULL"
    by (simp add: ca_def sample_client_connects)
  have f: "fresh_handles ca sample_client"
    using sample_client_fresh(1) by (simp add: ca_def fresh_handles_def)
  have d: "duplicates_refer ca s'"
    by (simp add: duplicates_refer_def ca_def sample_client_api_def s'(4))
  have h: "dump_requested (registered_client sample_api sample_request 5) = Handle 6"
    by (simp add: registered_client_def Let_def)
  have "\<exists>c'. Register ca sample_client = (True, c') \<and>
      object_of ca (crash_event c') = handle_set (dump_requested (registered_client sample_api sample_request 5)) \<and>
      object_of ca (crash_generated c') = handle_set (dump_generated (registered_client sample_api sample_request 5)) \<and>
      object_of ca (server_alive c') = {0} \<and> (\<exists>c''. RequestDump ca 0 None c' = Returns (True, c''))"
    by (rule conjunct1 [OF client_server_session [OF s(1-4) _ _ _ sample_client_fresh(2) f k _ _ _ _ _ _ _ _ s'(1) _ d,
        where a = sample_api]])
      (simp_all add: q c r s(5) s'(2), simp_all add: ca_def sample_client_defs sample_api_def)
  then show ?thesis using s'(1) unfolding h by auto
qed

end
