(* ===== verification/Exception_Handler.thy ===== *)
theory Exception_Handler
  imports Crash_Generation_Client C_Numbers
begin

unbundle bit_operations_syntax

text \<open>
  The exception handler of a client process (\<^verbatim>\<open>client/windows/handler/exception_handler.cc\<close>): the stack of
  handlers, the three hooks of the process (the unhandled exception filter and the two hooks of the C
  runtime), the delivery of exceptions, and the writing of a dump in the process or through the server.

  The state is split as the code uses it: \<open>core\<close> is what a handler touches while it writes a dump (its own fields,
  the dump files, the log of what it did); \<open>process\<close> adds the static members and the hooks. Wide strings
  are strings, handlers are numbered, and the Windows calls are a record of their answers. Assertions whose
  condition the code tests again after them have no effect, as in a release build. A callback of the user is
  a function of its arguments.
\<close>

section \<open>Data\<close>

record exinfo =
  exception_code :: "32 word"
  instruction_pointer :: "64 word"

record assertion =
  as_expression :: string
  as_function :: string
  as_file :: string
  as_line :: "32 word"
  as_type :: "32 word"

record AppMemory =
  am_ptr :: "64 word"
  am_length :: "32 word"

record guid =
  data1 :: "32 word"
  data2 :: "16 word"
  data3 :: "16 word"
  data4 :: "8 word list"

text \<open>What can be installed in a hook: the static function of this class, or a function of someone else. A hook that is
  not set is \<open>None\<close>.\<close>

datatype hook = Breakpad | Foreign nat

definition HANDLER_NONE :: "32 word" where "HANDLER_NONE = 0"
definition HANDLER_EXCEPTION :: "32 word" where "HANDLER_EXCEPTION = 1"
definition HANDLER_INVALID_PARAMETER :: "32 word" where "HANDLER_INVALID_PARAMETER = 2"
definition HANDLER_PURECALL :: "32 word" where "HANDLER_PURECALL = 4"
definition HANDLER_ALL :: "32 word" where
  "HANDLER_ALL = (HANDLER_EXCEPTION OR HANDLER_INVALID_PARAMETER) OR HANDLER_PURECALL"

type_synonym FilterCallback = "exinfo option \<Rightarrow> assertion option \<Rightarrow> bool"
type_synonym MinidumpCallback =
  "string option \<Rightarrow> string option \<Rightarrow> exinfo option \<Rightarrow> assertion option \<Rightarrow> bool \<Rightarrow> bool"

record handler =
  eh_filter :: "FilterCallback option"
  eh_callback :: "MinidumpCallback option"
  eh_client :: "client option"
  eh_dump_path :: "string option"
  eh_next_minidump_id :: "string option"
  eh_next_minidump_path :: "string option"
  eh_dbghelp_module :: bool
  eh_minidump_write_dump :: bool
  eh_dump_type :: "32 word"
  eh_rpcrt4_module :: bool
  eh_uuid_create :: bool
  eh_handler_types :: "32 word"
  eh_previous_filter :: "hook option"
  eh_previous_iph :: "hook option"
  eh_previous_pch :: "hook option"
  eh_handler_thread :: bool
  eh_start_semaphore :: bool
  eh_finish_semaphore :: bool
  eh_requesting_thread_id :: "32 word"
  eh_exception_info :: "exinfo option"
  eh_assertion :: "assertion option"
  eh_handle_debug_exceptions :: bool
  eh_consume_invalid_handle_exceptions :: bool
  eh_app_memory_info :: "AppMemory list"

text \<open>What a handler has done: the file, the requesting thread, the exception, the kinds of the user streams and the
  memory regions of a dump.\<close>

datatype stream = BreakpadInfo "32 word" "32 word" | AssertionInfo assertion

datatype action = DumpFile string "32 word" "exinfo option" "stream list" "AppMemory list" bool

record core =
  live_handlers :: "nat \<rightharpoonup> handler"
  uuid_calls :: nat
  files :: "string set"
  dumps :: "action list"

record process =
  handler_stack :: "nat list option"
  handler_stack_index :: nat
  instance_count :: nat
  next_handler :: nat
  uef :: "hook option"
  iph :: "hook option"
  pch :: "hook option"
  critical_section :: bool
  libraries :: nat
  kernel_objects :: int
  core_state :: core

record windows =
  client_calls :: client_api
  address_of :: "exinfo option \<Rightarrow> 64 word"
  bytes_of :: "assertion \<Rightarrow> 8 word list"
  ok_start_semaphore :: bool
  ok_finish_semaphore :: bool
  ok_create_thread :: bool
  dbghelp_loads :: bool
  has_MiniDumpWriteDump :: bool
  rpcrt4_loads :: bool
  has_UuidCreate :: bool
  new_uuid :: "nat \<Rightarrow> guid"
  ok_create_file :: "string \<Rightarrow> bool"
  virtual_query :: "64 word \<Rightarrow> (64 word \<times> 64 word \<times> bool) option"
  write_dump_result :: bool
  handler_thread_id :: "32 word"
  foreign_filter :: "nat \<Rightarrow> exinfo \<Rightarrow> int"
  suspended_child :: "32 word \<Rightarrow> exinfo option"

section \<open>Identifiers of dumps\<close>

text \<open>The conversion \<open>%0nx\<close>.\<close>

definition hex_field :: "nat \<Rightarrow> nat \<Rightarrow> string" where
  "hex_field n k = (let d = show_base 16 k in replicate (n - length d) CHR ''0'' @ d)"

definition GUIDToWString :: "guid \<Rightarrow> string" where
  "GUIDToWString g =
     take 36 (hex_field 8 (unat (data1 g)) @ ''-'' @ hex_field 4 (unat (data2 g)) @ ''-'' @
       hex_field 4 (unat (data3 g)) @ ''-'' @ concat (map (\<lambda>b. hex_field 2 (unat b)) (take 2 (data4 g))) @ ''-'' @
       concat (map (\<lambda>b. hex_field 2 (unat b)) (drop 2 (data4 g))))"

definition zero_guid :: guid where
  "zero_guid = \<lparr>data1 = 0, data2 = 0, data3 = 0, data4 = replicate 8 0\<rparr>"

definition MAX_PATH :: nat where "MAX_PATH = 260"

text \<open>The text of a C string that may be null, as \<open>%s\<close> prints it.\<close>

definition c_text :: "string option \<Rightarrow> string" where
  "c_text s = (case s of Some t \<Rightarrow> t | None \<Rightarrow> ''(null)'')"

definition UpdateNextID :: "windows \<Rightarrow> handler \<Rightarrow> core \<Rightarrow> handler \<times> core" where
  "UpdateNextID w h k =
     (let (g, k) = (if eh_uuid_create h then (new_uuid w (uuid_calls k), k\<lparr>uuid_calls := Suc (uuid_calls k)\<rparr>)
                    else (zero_guid, k));
          i = GUIDToWString g;
          path = take (MAX_PATH - 1) (c_text (eh_dump_path h) @ [CHR 0x5C] @ i @ ''.dmp'')
      in (h\<lparr>eh_next_minidump_id := Some i, eh_next_minidump_path := Some path\<rparr>, k))"

definition set_dump_path :: "windows \<Rightarrow> string \<Rightarrow> handler \<Rightarrow> core \<Rightarrow> handler \<times> core" where
  "set_dump_path w path h k = UpdateNextID w (h\<lparr>eh_dump_path := Some path\<rparr>) k"

section \<open>Memory for the dump\<close>

definition RegisterAppMemory :: "64 word \<Rightarrow> 64 word \<Rightarrow> handler \<Rightarrow> handler" where
  "RegisterAppMemory p len h =
     (if \<exists>m\<in>set (eh_app_memory_info h). am_ptr m = p then h
      else h\<lparr>eh_app_memory_info := eh_app_memory_info h @ [\<lparr>am_ptr = p, am_length = ucast len\<rparr>]\<rparr>)"

text \<open>The first element with the pointer is erased.\<close>

fun erase_memory :: "64 word \<Rightarrow> AppMemory list \<Rightarrow> AppMemory list" where
  "erase_memory p [] = []"
| "erase_memory p (m # ms) = (if am_ptr m = p then ms else m # erase_memory p ms)"

definition UnregisterAppMemory :: "64 word \<Rightarrow> handler \<Rightarrow> handler" where
  "UnregisterAppMemory p h = h\<lparr>eh_app_memory_info := erase_memory p (eh_app_memory_info h)\<rparr>"

datatype callback_type = MemoryCallback | IncludeModuleCallback | ModuleCallback | IncludeThreadCallback | ThreadCallback
  | CancelCallback | OtherCallback

text \<open>\<open>MinidumpWriteDumpCallback\<close>: the answer, the memory region put out, and the rest of the regions.\<close>

definition MinidumpWriteDumpCallback ::
    "callback_type \<Rightarrow> AppMemory list \<Rightarrow> bool \<times> AppMemory option \<times> AppMemory list" where
  "MinidumpWriteDumpCallback t iter =
     (case t of
        MemoryCallback \<Rightarrow> (case iter of [] \<Rightarrow> (False, None, []) | m # ms \<Rightarrow> (True, Some m, ms))
      | IncludeModuleCallback \<Rightarrow> (True, None, iter)
      | ModuleCallback \<Rightarrow> (True, None, iter)
      | IncludeThreadCallback \<Rightarrow> (True, None, iter)
      | ThreadCallback \<Rightarrow> (True, None, iter)
      | CancelCallback \<Rightarrow> (True, None, iter)
      | OtherCallback \<Rightarrow> (False, None, iter))"

text \<open>\<open>MiniDumpWriteDump\<close> asks for memory regions until the callback says no.\<close>

function requested_regions :: "AppMemory list \<Rightarrow> AppMemory list" where
  "requested_regions iter =
     (case MinidumpWriteDumpCallback MemoryCallback iter of
        (True, Some m, rest) \<Rightarrow> m # requested_regions rest
      | _ \<Rightarrow> [])"
  by pat_completeness auto
termination
  by (relation "measure length") (auto simp: MinidumpWriteDumpCallback_def split: list.split_asm)

declare requested_regions.simps [simp del]

text \<open>The 256 bytes around the instruction pointer, within the region of memory that holds it.\<close>

definition instruction_memory :: "windows \<Rightarrow> 64 word \<Rightarrow> AppMemory option" where
  "instruction_memory w ip =
     (case virtual_query w ip of
        Some (region, region_size, True) \<Rightarrow>
          let base = max region (ip - 128);
              end_of_range = min (ip + 128) (region + region_size)
          in Some \<lparr>am_ptr = base, am_length = ucast (end_of_range - base)\<rparr>
      | _ \<Rightarrow> None)"

section \<open>Writing a dump\<close>

definition WriteMinidumpWithExceptionForProcess ::
    "windows \<Rightarrow> 32 word \<Rightarrow> exinfo option \<Rightarrow> assertion option \<Rightarrow> bool \<Rightarrow> handler \<Rightarrow> core \<Rightarrow> (bool \<times> handler \<times> core) exec"
  where
  "WriteMinidumpWithExceptionForProcess w thread ex assertion write_requester_stream h k =
     (if \<not> eh_minidump_write_dump h then Returns (False, h, k)
      else
        let path = c_text (eh_next_minidump_path h) in
        if \<not> ok_create_file w path \<or> path \<in> files k then Returns (False, h, k)
        else
          let k = k\<lparr>files := insert path (files k)\<rparr>;
              streams = (if write_requester_stream then [BreakpadInfo (handler_thread_id w) thread] else []) @
                (case assertion of Some a \<Rightarrow> [AssertionInfo a] | None \<Rightarrow> []);
              memory = (case ex of None \<Rightarrow> None | Some e \<Rightarrow> instruction_memory w (instruction_pointer e)) in
          case eh_app_memory_info h of
            [] \<Rightarrow> Undefined
          | m # ms \<Rightarrow>
              let m = (case memory of Some m' \<Rightarrow> m' | None \<Rightarrow> m);
                  h = h\<lparr>eh_app_memory_info := m # ms\<rparr>;
                  iter = (if am_ptr m = 0 then ms else m # ms);
                  ok = write_dump_result w
              in Returns (ok, h, k\<lparr>dumps := dumps k @ [DumpFile path thread ex streams (requested_regions iter) ok]\<rparr>))"

definition IsOutOfProcess :: "handler \<Rightarrow> bool" where
  "IsOutOfProcess h \<longleftrightarrow> eh_client h \<noteq> None"

definition WriteMinidumpWithException ::
    "windows \<Rightarrow> 32 word \<Rightarrow> exinfo option \<Rightarrow> assertion option \<Rightarrow> handler \<Rightarrow> core \<Rightarrow> (bool \<times> handler \<times> core) exec" where
  "WriteMinidumpWithException w thread ex assertion h k =
     (if (case eh_filter h of Some f \<Rightarrow> \<not> f ex assertion | None \<Rightarrow> False) then Returns (False, h, k)
      else
        exec_bind
          (case eh_client h of
             Some c \<Rightarrow>
               exec_bind (RequestDump (client_calls w) (address_of w ex) (map_option (bytes_of w) assertion) c)
                 (\<lambda>(success, c). Returns (success, h\<lparr>eh_client := Some c\<rparr>, k))
           | None \<Rightarrow> WriteMinidumpWithExceptionForProcess w thread ex assertion True h k)
          (\<lambda>(success, h, k).
             Returns
               (case eh_callback h of
                  Some f \<Rightarrow> f (eh_dump_path h) (eh_next_minidump_id h) ex assertion success
                | None \<Rightarrow> success, h, k)))"

text \<open>The request goes to the handler thread, which runs \<open>WriteMinidumpWithException\<close> with the fields that the
  requesting thread has set, and the requesting thread waits for it.\<close>

definition WriteMinidumpOnHandlerThread ::
    "windows \<Rightarrow> exinfo option \<Rightarrow> assertion option \<Rightarrow> handler \<Rightarrow> core \<Rightarrow> (bool \<times> handler \<times> core) exec" where
  "WriteMinidumpOnHandlerThread w ex assertion h k =
     (if \<not> eh_handler_thread h then Returns (False, h, k)
      else
        let h = h\<lparr>eh_requesting_thread_id := current_thread_id (client_calls w), eh_exception_info := ex,
                  eh_assertion := assertion\<rparr> in
        exec_bind (WriteMinidumpWithException w (eh_requesting_thread_id h) (eh_exception_info h) (eh_assertion h) h k)
          (\<lambda>(status, h, k).
             Returns (status, h\<lparr>eh_requesting_thread_id := 0, eh_exception_info := None, eh_assertion := None\<rparr>, k)))"

definition WriteMinidumpForException :: "windows \<Rightarrow> exinfo option \<Rightarrow> handler \<Rightarrow> core \<Rightarrow> (bool \<times> handler \<times> core) exec" where
  "WriteMinidumpForException w ex h k =
     (if IsOutOfProcess h then WriteMinidumpWithException w (current_thread_id (client_calls w)) ex None h k
      else
        exec_bind (WriteMinidumpOnHandlerThread w ex None h k)
          (\<lambda>(success, h, k). let (h, k) = UpdateNextID w h k in Returns (success, h, k)))"

definition STATUS_NONCONTINUABLE_EXCEPTION :: "32 word" where "STATUS_NONCONTINUABLE_EXCEPTION = 0xC0000025"
definition STATUS_INVALID_PARAMETER :: "32 word" where "STATUS_INVALID_PARAMETER = 0xC000000D"
definition EXCEPTION_BREAKPOINT :: "32 word" where "EXCEPTION_BREAKPOINT = 0x80000003"
definition EXCEPTION_SINGLE_STEP :: "32 word" where "EXCEPTION_SINGLE_STEP = 0x80000004"
definition EXCEPTION_INVALID_HANDLE :: "32 word" where "EXCEPTION_INVALID_HANDLE = 0xC0000008"

text \<open>\<open>WriteMinidump\<close>, called at the instruction \<open>ip\<close>.\<close>

definition WriteMinidump :: "windows \<Rightarrow> 64 word \<Rightarrow> handler \<Rightarrow> core \<Rightarrow> (bool \<times> handler \<times> core) exec" where
  "WriteMinidump w ip h k =
     WriteMinidumpForException w
       (Some \<lparr>exception_code = STATUS_NONCONTINUABLE_EXCEPTION, instruction_pointer = ip\<rparr>) h k"

text \<open>A request to upload an earlier dump only makes sense with a server.\<close>

definition ExceptionHandler_RequestUpload :: "windows \<Rightarrow> 32 word \<Rightarrow> handler \<Rightarrow> (bool \<times> handler) exec" where
  "ExceptionHandler_RequestUpload w upload_id h =
     (case eh_client h of
        None \<Rightarrow> Undefined
      | Some c \<Rightarrow> let (ok, c) = RequestUpload (client_calls w) upload_id c in Returns (ok, h\<lparr>eh_client := Some c\<rparr>))"

text \<open>The attempt of a handler on an exception or a failure of the C runtime: in the process of the server, or on the
  handler thread.\<close>

definition write_dump :: "windows \<Rightarrow> exinfo option \<Rightarrow> assertion option \<Rightarrow> nat \<Rightarrow> core \<Rightarrow> (bool \<times> core) exec" where
  "write_dump w ex assertion i k =
     (case live_handlers k i of
        None \<Rightarrow> Undefined
      | Some h \<Rightarrow>
          exec_bind
            (if IsOutOfProcess h
             then WriteMinidumpWithException w (current_thread_id (client_calls w)) ex assertion h k
             else WriteMinidumpOnHandlerThread w ex assertion h k)
            (\<lambda>(success, h, k). Returns (success, k\<lparr>live_handlers := (live_handlers k)(i \<mapsto> h)\<rparr>)))"

section \<open>Construction and destruction\<close>

text \<open>How a handler is asked to reach a server.\<close>

datatype server_option = InProcess | PipeName string | PipeHandle HANDLE | GivenClient client

record request =
  rq_dump_path :: string
  rq_filter :: "FilterCallback option"
  rq_callback :: "MinidumpCallback option"
  rq_handler_types :: "32 word"
  rq_dump_type :: "32 word"
  rq_server :: server_option
  rq_custom_info :: "(64 word \<times> 64 word) option"
  rq_addresses :: "64 word \<times> 64 word \<times> 64 word"

definition blank_handler :: "request \<Rightarrow> handler" where
  "blank_handler r =
     \<lparr>eh_filter = rq_filter r, eh_callback = rq_callback r, eh_client = None, eh_dump_path = None,
      eh_next_minidump_id = None, eh_next_minidump_path = None, eh_dbghelp_module = False,
      eh_minidump_write_dump = False, eh_dump_type = rq_dump_type r, eh_rpcrt4_module = False, eh_uuid_create = False,
      eh_handler_types = rq_handler_types r, eh_previous_filter = None, eh_previous_iph = None, eh_previous_pch = None,
      eh_handler_thread = False, eh_start_semaphore = False, eh_finish_semaphore = False, eh_requesting_thread_id = 0,
      eh_exception_info = None, eh_assertion = None, eh_handle_debug_exceptions = False,
      eh_consume_invalid_handle_exceptions = False, eh_app_memory_info = []\<rparr>"

text \<open>The client that \<open>Initialize\<close> tries to register. A pipe handle that is null asks for no server.\<close>

definition requested_client :: "request \<Rightarrow> client option" where
  "requested_client r =
     (case rq_server r of
        GivenClient c \<Rightarrow> Some c
      | PipeName n \<Rightarrow> Some (CrashGenerationClient_named (rq_addresses r) n (rq_dump_type r) (rq_custom_info r) {})
      | PipeHandle p \<Rightarrow>
          if p = NULL then None
          else Some (CrashGenerationClient_handle (rq_addresses r) p (rq_dump_type r) (rq_custom_info r) (handle_set p))
      | InProcess \<Rightarrow> None)"

definition registered :: "windows \<Rightarrow> request \<Rightarrow> client option" where
  "registered w r =
     (case requested_client r of
        None \<Rightarrow> None
      | Some c \<Rightarrow> let (ok, c) = Register (client_calls w) c in if ok then Some c else None)"

text \<open>By how many the open handles of the process grow in a registration. A client that could not register is destroyed
  before \<open>Initialize\<close> returns.\<close>

definition registration_handles :: "windows \<Rightarrow> request \<Rightarrow> int" where
  "registration_handles w r =
     (case requested_client r of
        None \<Rightarrow> 0
      | Some c \<Rightarrow>
          let (ok, c') = Register (client_calls w) c;
              c' = (if ok then c' else CrashGenerationClient_destroy c')
          in int (card (process_handles c')) - int (card (process_handles c)))"

text \<open>The handles that the member \<open>crash_generation_client_\<close> closes when it is destroyed.\<close>

definition client_handles_closed :: "handler \<Rightarrow> int" where
  "client_handles_closed h =
     (case eh_client h of
        None \<Rightarrow> 0
      | Some c \<Rightarrow> int (card (process_handles c)) - int (card (process_handles (CrashGenerationClient_destroy c))))"

text \<open>The set-up of in-process dumps: the semaphores and the handler thread, the two libraries, the first identifier.\<close>

definition in_process_setup :: "windows \<Rightarrow> request \<Rightarrow> handler \<Rightarrow> core \<Rightarrow> handler \<times> core" where
  "in_process_setup w r h k =
     set_dump_path w (rq_dump_path r)
       (h\<lparr>eh_start_semaphore := ok_start_semaphore w, eh_finish_semaphore := ok_finish_semaphore w,
          eh_handler_thread := ok_finish_semaphore w \<and> ok_start_semaphore w \<and> ok_create_thread w,
          eh_dbghelp_module := dbghelp_loads w, eh_minidump_write_dump := dbghelp_loads w \<and> has_MiniDumpWriteDump w,
          eh_rpcrt4_module := rpcrt4_loads w, eh_uuid_create := rpcrt4_loads w \<and> has_UuidCreate w\<rparr>) k"

text \<open>The fields of a new object: the registration with the server, or else the set-up for in-process dumps, and the element
  reserved for the instruction memory.\<close>

definition set_up :: "windows \<Rightarrow> request \<Rightarrow> core \<Rightarrow> handler \<times> core" where
  "set_up w r k =
     (let h = (blank_handler r)\<lparr>eh_client := registered w r\<rparr>;
          (h, k) = (if IsOutOfProcess h then (h, k) else in_process_setup w r h k)
      in (h\<lparr>eh_app_memory_info := [\<lparr>am_ptr = 0, am_length = 0\<rparr>]\<rparr>, k))"

text \<open>Kernel objects and libraries that a handler holds.\<close>

definition held_objects :: "handler \<Rightarrow> nat" where
  "held_objects h = of_bool (eh_start_semaphore h) + of_bool (eh_finish_semaphore h) + of_bool (eh_handler_thread h)"

definition held_libraries :: "handler \<Rightarrow> nat" where
  "held_libraries h = of_bool (eh_dbghelp_module h) + of_bool (eh_rpcrt4_module h)"

text \<open>Pushing a handler on the stack and taking over the hooks that it asks for.\<close>

definition install_hooks :: "32 word \<Rightarrow> nat \<Rightarrow> handler \<Rightarrow> process \<Rightarrow> handler \<times> process" where
  "install_hooks t i h s =
     (let s = s\<lparr>handler_stack := Some ((case handler_stack s of Some st \<Rightarrow> st | None \<Rightarrow> []) @ [i])\<rparr>;
          (h, s) = (if t AND HANDLER_EXCEPTION \<noteq> 0
                    then (h\<lparr>eh_previous_filter := uef s\<rparr>, s\<lparr>uef := Some Breakpad\<rparr>) else (h, s));
          (h, s) = (if t AND HANDLER_INVALID_PARAMETER \<noteq> 0
                    then (h\<lparr>eh_previous_iph := iph s\<rparr>, s\<lparr>iph := Some Breakpad\<rparr>) else (h, s))
      in if t AND HANDLER_PURECALL \<noteq> 0 then (h\<lparr>eh_previous_pch := pch s\<rparr>, s\<lparr>pch := Some Breakpad\<rparr>) else (h, s))"

definition Initialize :: "windows \<Rightarrow> request \<Rightarrow> process \<Rightarrow> (nat \<times> process) exec" where
  "Initialize w r s =
     (let i = next_handler s;
          s = s\<lparr>instance_count := Suc (instance_count s), next_handler := Suc i\<rparr>;
          (h, k) = set_up w r (core_state s);
          s = s\<lparr>libraries := libraries s + held_libraries h,
                kernel_objects := kernel_objects s + registration_handles w r + int (held_objects h)\<rparr>;
          s = (if instance_count s = 1 then s\<lparr>critical_section := True\<rparr> else s) in
      if rq_handler_types r = HANDLER_NONE
      then Returns (i, s\<lparr>core_state := k\<lparr>live_handlers := (live_handlers k)(i \<mapsto> h)\<rparr>\<rparr>)
      else if \<not> critical_section s then Undefined
      else
        let (h, s) = install_hooks (rq_handler_types r) i h s
        in Returns (i, s\<lparr>core_state := k\<lparr>live_handlers := (live_handlers k)(i \<mapsto> h)\<rparr>\<rparr>))"

text \<open>The four constructors only differ in the options they leave out.\<close>

definition ExceptionHandler_pipe_name where
  "ExceptionHandler_pipe_name w dir filt cb types mdtype pipe_name custom_info addresses =
     Initialize w \<lparr>rq_dump_path = dir, rq_filter = filt, rq_callback = cb, rq_handler_types = types,
       rq_dump_type = mdtype, rq_server = (case pipe_name of Some n \<Rightarrow> PipeName n | None \<Rightarrow> InProcess),
       rq_custom_info = custom_info, rq_addresses = addresses\<rparr>"

definition ExceptionHandler_pipe_handle where
  "ExceptionHandler_pipe_handle w dir filt cb types mdtype pipe_handle custom_info addresses =
     Initialize w \<lparr>rq_dump_path = dir, rq_filter = filt, rq_callback = cb, rq_handler_types = types,
       rq_dump_type = mdtype, rq_server = PipeHandle pipe_handle, rq_custom_info = custom_info, rq_addresses = addresses\<rparr>"

definition ExceptionHandler_client where
  "ExceptionHandler_client w dir filt cb types crash_client =
     Initialize w \<lparr>rq_dump_path = dir, rq_filter = filt, rq_callback = cb, rq_handler_types = types,
       rq_dump_type = 0, rq_server = GivenClient crash_client, rq_custom_info = None, rq_addresses = (0, 0, 0)\<rparr>"

definition ExceptionHandler_in_process where
  "ExceptionHandler_in_process w dir filt cb types =
     Initialize w \<lparr>rq_dump_path = dir, rq_filter = filt, rq_callback = cb, rq_handler_types = types,
       rq_dump_type = 0, rq_server = InProcess, rq_custom_info = None, rq_addresses = (0, 0, 0)\<rparr>"

text \<open>Removing a handler from the stack: the last entry when it is this one, and every entry that is this one
  otherwise.\<close>

definition remove_from_stack :: "nat \<Rightarrow> nat list \<Rightarrow> nat list" where
  "remove_from_stack i st = (if last st = i then butlast st else filter (\<lambda>j. j \<noteq> i) st)"

text \<open>The destructor, and then the destruction of the member that holds the client of the server.\<close>

definition ExceptionHandler_destroy :: "nat \<Rightarrow> process \<Rightarrow> process exec" where
  "ExceptionHandler_destroy i s =
     (case live_handlers (core_state s) i of
        None \<Rightarrow> Undefined
      | Some h \<Rightarrow>
          exec_bind
            (let s = s\<lparr>libraries := libraries s - held_libraries h\<rparr> in
             if eh_handler_types h = HANDLER_NONE then Returns s
             else
               let s = (if eh_handler_types h AND HANDLER_EXCEPTION \<noteq> 0 then s\<lparr>uef := eh_previous_filter h\<rparr> else s);
                   s = (if eh_handler_types h AND HANDLER_INVALID_PARAMETER \<noteq> 0 then s\<lparr>iph := eh_previous_iph h\<rparr> else s);
                   s = (if eh_handler_types h AND HANDLER_PURECALL \<noteq> 0 then s\<lparr>pch := eh_previous_pch h\<rparr> else s) in
               case handler_stack s of
                 None \<Rightarrow> Undefined
               | Some st \<Rightarrow>
                   let st = remove_from_stack i st
                   in Returns (s\<lparr>handler_stack := (if st = [] then None else Some st)\<rparr>))
            (\<lambda>s.
               let s = (if IsOutOfProcess h then s else s\<lparr>kernel_objects := kernel_objects s - int (held_objects h)\<rparr>);
                   s = s\<lparr>instance_count := instance_count s - 1,
                         core_state := (core_state s)\<lparr>live_handlers := (live_handlers (core_state s))(i := None)\<rparr>\<rparr>;
                   s = (if instance_count s = 0 then s\<lparr>critical_section := False\<rparr> else s)
               in Returns (s\<lparr>kernel_objects := kernel_objects s - client_handles_closed h\<rparr>)))"

section \<open>Delivery\<close>

text \<open>The constructor and the destructor of \<open>AutoExceptionHandler\<close>. The index counts from the end of the stack; an
  index past the stack makes \<open>at\<close> throw, which nobody catches.\<close>

definition AutoExceptionHandler_enter :: "process \<Rightarrow> (nat \<times> handler \<times> process) exec" where
  "AutoExceptionHandler_enter s =
     (case handler_stack s of
        None \<Rightarrow> Undefined
      | Some st \<Rightarrow>
          let s = s\<lparr>handler_stack_index := Suc (handler_stack_index s)\<rparr> in
          if length st < handler_stack_index s then Undefined
          else
            let i = st ! (length st - handler_stack_index s) in
            case live_handlers (core_state s) i of
              None \<Rightarrow> Undefined
            | Some h \<Rightarrow> Returns (i, h, s\<lparr>uef := eh_previous_filter h, iph := eh_previous_iph h, pch := eh_previous_pch h\<rparr>))"

definition AutoExceptionHandler_leave :: "process \<Rightarrow> process" where
  "AutoExceptionHandler_leave s =
     s\<lparr>uef := Some Breakpad, iph := Some Breakpad, pch := Some Breakpad, handler_stack_index := handler_stack_index s - 1\<rparr>"

definition EXCEPTION_CONTINUE_SEARCH :: int where "EXCEPTION_CONTINUE_SEARCH = 0"
definition EXCEPTION_EXECUTE_HANDLER :: int where "EXCEPTION_EXECUTE_HANDLER = 1"
definition EXCEPTION_CONTINUE_EXECUTION :: int where "EXCEPTION_CONTINUE_EXECUTION = - 1"

text \<open>One handler's turn at an exception: \<open>Some\<close> action, or \<open>None\<close> to go on to the previous filter.\<close>

definition handler_turn :: "windows \<Rightarrow> exinfo \<Rightarrow> nat \<Rightarrow> handler \<Rightarrow> core \<Rightarrow> (int option \<times> core) exec" where
  "handler_turn w ex i h k =
     (let code = exception_code ex;
          is_debug_exception = (code = EXCEPTION_BREAKPOINT \<or> code = EXCEPTION_SINGLE_STEP) in
      if code = EXCEPTION_INVALID_HANDLE \<and> eh_consume_invalid_handle_exceptions h
      then Returns (Some EXCEPTION_CONTINUE_EXECUTION, k)
      else
        exec_bind
          (if \<not> is_debug_exception \<or> eh_handle_debug_exceptions h then write_dump w (Some ex) None i k
           else Returns (False, k))
          (\<lambda>(success, k). Returns (if success then Some EXCEPTION_EXECUTE_HANDLER else None, k)))"

text \<open>The part of the stack that has not had its turn shrinks.\<close>

definition pending :: "process \<Rightarrow> nat" where
  "pending s = (case handler_stack s of None \<Rightarrow> 0 | Some st \<Rightarrow> Suc (length st) - handler_stack_index s)"

lemma AutoExceptionHandler_enter_pending:
  "AutoExceptionHandler_enter s = Returns (i, h, s1) \<Longrightarrow> pending s1 < pending s"
  by (auto simp: AutoExceptionHandler_enter_def pending_def Let_def split: option.split_asm if_split_asm)

lemma pending_core [simp]: "pending (s\<lparr>core_state := k\<rparr>) = pending s"
  by (simp add: pending_def split: option.split)

function HandleException :: "windows \<Rightarrow> exinfo \<Rightarrow> process \<Rightarrow> (int \<times> process) exec" where
  "HandleException w ex s =
     exec_bind (AutoExceptionHandler_enter s)
       (\<lambda>(i, h, s1).
          exec_bind (handler_turn w ex i h (core_state s1))
            (\<lambda>(action, k).
               let s2 = s1\<lparr>core_state := k\<rparr> in
               case action of
                 Some a \<Rightarrow> Returns (a, AutoExceptionHandler_leave s2)
               | None \<Rightarrow>
                   (case eh_previous_filter h of
                      None \<Rightarrow> Returns (EXCEPTION_CONTINUE_SEARCH, AutoExceptionHandler_leave s2)
                    | Some (Foreign f) \<Rightarrow> Returns (foreign_filter w f ex, AutoExceptionHandler_leave s2)
                    | Some Breakpad \<Rightarrow>
                        exec_bind (HandleException w ex s2)
                          (\<lambda>(a, s3). Returns (a, AutoExceptionHandler_leave s3)))))"
  by pat_completeness auto
termination
  by (relation "measure (\<lambda>(w, ex, s). pending s)") (auto dest!: AutoExceptionHandler_enter_pending)

declare HandleException.simps [simp del]

subsection \<open>Failures that the C runtime reports\<close>

text \<open>How a report ends: with \<open>exit(0)\<close>, in the default treatment of the runtime, which ends the process too, or (for pure
  virtual calls) with a return to the runtime.\<close>

datatype crt_end = ExitCalled | DefaultTreatment | ReturnedToCaller

definition MD_ASSERTION_INFO_TYPE_INVALID_PARAMETER :: "32 word" where "MD_ASSERTION_INFO_TYPE_INVALID_PARAMETER = 1"
definition MD_ASSERTION_INFO_TYPE_PURE_VIRTUAL_CALL :: "32 word" where "MD_ASSERTION_INFO_TYPE_PURE_VIRTUAL_CALL = 2"

definition invalid_parameter_assertion ::
    "string option \<Rightarrow> string option \<Rightarrow> string option \<Rightarrow> 32 word \<Rightarrow> assertion" where
  "invalid_parameter_assertion expr func fname ln =
     \<lparr>as_expression = take 127 (c_text expr), as_function = take 127 (c_text func), as_file = take 127 (c_text fname),
      as_line = ln, as_type = MD_ASSERTION_INFO_TYPE_INVALID_PARAMETER\<rparr>"

definition purecall_assertion :: assertion where
  "purecall_assertion = \<lparr>as_expression = [], as_function = [], as_file = [], as_line = 0,
     as_type = MD_ASSERTION_INFO_TYPE_PURE_VIRTUAL_CALL\<rparr>"

text \<open>The record that is made up for the report, at the captured instruction pointer.\<close>

definition made_up_exception :: "32 word \<Rightarrow> 64 word \<Rightarrow> exinfo" where
  "made_up_exception code ip = \<lparr>exception_code = code, instruction_pointer = ip\<rparr>"

function HandleInvalidParameter :: "windows \<Rightarrow> 64 word \<Rightarrow> assertion \<Rightarrow> process \<Rightarrow> (crt_end \<times> process) exec" where
  "HandleInvalidParameter w ip a s =
     exec_bind (AutoExceptionHandler_enter s)
       (\<lambda>(i, h, s1).
          exec_bind (write_dump w (Some (made_up_exception STATUS_INVALID_PARAMETER ip)) (Some a) i (core_state s1))
            (\<lambda>(success, k).
               let s2 = s1\<lparr>core_state := k\<rparr> in
               if success then Returns (ExitCalled, s2)
               else
                 (case eh_previous_iph h of
                    None \<Rightarrow> Returns (DefaultTreatment, s2)
                  | Some (Foreign f) \<Rightarrow> Returns (ExitCalled, s2)
                  | Some Breakpad \<Rightarrow> HandleInvalidParameter w ip a s2)))"
  by pat_completeness auto
termination
  by (relation "measure (\<lambda>(w, ip, a, s). pending s)") (auto dest!: AutoExceptionHandler_enter_pending)

declare HandleInvalidParameter.simps [simp del]

function HandlePureVirtualCall :: "windows \<Rightarrow> 64 word \<Rightarrow> process \<Rightarrow> (crt_end \<times> process) exec" where
  "HandlePureVirtualCall w ip s =
     exec_bind (AutoExceptionHandler_enter s)
       (\<lambda>(i, h, s1).
          exec_bind
            (write_dump w (Some (made_up_exception STATUS_NONCONTINUABLE_EXCEPTION ip)) (Some purecall_assertion) i
               (core_state s1))
            (\<lambda>(success, k).
               let s2 = s1\<lparr>core_state := k\<rparr> in
               if success then Returns (ExitCalled, s2)
               else
                 (case eh_previous_pch h of
                    None \<Rightarrow> Returns (ReturnedToCaller, AutoExceptionHandler_leave s2)
                  | Some (Foreign f) \<Rightarrow> Returns (ExitCalled, s2)
                  | Some Breakpad \<Rightarrow>
                      exec_bind (HandlePureVirtualCall w ip s2) (\<lambda>(e, s3). Returns (ExitCalled, s3)))))"
  by pat_completeness auto
termination
  by (relation "measure (\<lambda>(w, ip, s). pending s)") (auto dest!: AutoExceptionHandler_enter_pending)

declare HandlePureVirtualCall.simps [simp del]

subsection \<open>Dumps without an exception\<close>

text \<open>The static \<open>WriteMinidump\<close>: a handler that lives for the call and installs nothing.\<close>

definition WriteMinidump_static ::
    "windows \<Rightarrow> string \<Rightarrow> MinidumpCallback option \<Rightarrow> 64 word \<Rightarrow> process \<Rightarrow> (bool \<times> process) exec" where
  "WriteMinidump_static w path callback ip s =
     exec_bind (ExceptionHandler_in_process w path None callback HANDLER_NONE s)
       (\<lambda>(i, s).
          case live_handlers (core_state s) i of
            None \<Rightarrow> Undefined
          | Some h \<Rightarrow>
              exec_bind (WriteMinidump w ip h (core_state s))
                (\<lambda>(success, h, k).
                   exec_bind
                     (ExceptionHandler_destroy i
                        (s\<lparr>core_state := k\<lparr>live_handlers := (live_handlers k)(i \<mapsto> h)\<rparr>\<rparr>))
                     (\<lambda>s. Returns (success, s))))"

text \<open>The dump of another process. \<open>suspended_child\<close> is the made-up exception of the blamed thread when it could be
  suspended and its context could be read; the thread is resumed and its handle closed in every case.\<close>

definition WriteMinidumpForChild ::
    "windows \<Rightarrow> 32 word \<Rightarrow> string \<Rightarrow> MinidumpCallback option \<Rightarrow> process \<Rightarrow> (bool \<times> process) exec" where
  "WriteMinidumpForChild w child_blamed_thread path callback s =
     exec_bind (ExceptionHandler_in_process w path None callback HANDLER_NONE s)
       (\<lambda>(i, s).
          case live_handlers (core_state s) i of
            None \<Rightarrow> Undefined
          | Some h \<Rightarrow>
              exec_bind
                (WriteMinidumpWithExceptionForProcess w child_blamed_thread (suspended_child w child_blamed_thread) None
                   False h (core_state s))
                (\<lambda>(success, h, k).
                   let success = (case callback of
                         Some f \<Rightarrow> f (eh_dump_path h) (eh_next_minidump_id h) None None success
                       | None \<Rightarrow> success)
                   in exec_bind
                        (ExceptionHandler_destroy i
                           (s\<lparr>core_state := k\<lparr>live_handlers := (live_handlers k)(i \<mapsto> h)\<rparr>\<rparr>))
                        (\<lambda>s. Returns (success, s))))"

end
