(* ===== verification/Handler_Lifetimes.thy ===== *)
theory Handler_Lifetimes
  imports Exception_Handler
begin

unbundle bit_operations_syntax

text \<open>
  What the exception handlers of a process promise: the delivery of an exception to the innermost willing handler, the
  restoration of the process by nested lifetimes, what goes wrong when lifetimes are not nested or when handlers of
  different kinds share the stack, and the contents of a dump.
\<close>

section \<open>What a dump leaves alone\<close>

text \<open>The fields of a handler that are set when it is created and read when it is destroyed or when an exception
  passes it.\<close>

definition client_fields where
  "client_fields c = (process_handles c, crash_event c, crash_generated c, server_alive c)"

definition fixed_fields where
  "fixed_fields h = (eh_handler_types h, eh_previous_filter h, eh_previous_iph h, eh_previous_pch h, IsOutOfProcess h,
     held_objects h, held_libraries h, eh_consume_invalid_handle_exceptions h, eh_handle_debug_exceptions h,
     map_option client_fields (eh_client h))"

lemma RequestDump_client_fields:
  "RequestDump a e i c = Returns (ok, c') \<Longrightarrow> client_fields c' = client_fields c"
  by (auto simp: RequestDump_def SignalCrashEventAndWait_def WaitForServer_def client_fields_def Let_def
      split: if_split_asm mutex_state.split_asm)


named_theorems fixed "operations that keep the fixed fields of a handler"

lemma fixed_fields_updates [fixed]:
  "fixed_fields (h\<lparr>eh_app_memory_info := m\<rparr>) = fixed_fields h"
  "fixed_fields (h\<lparr>eh_requesting_thread_id := t, eh_exception_info := e, eh_assertion := a\<rparr>) = fixed_fields h"
  "fixed_fields (h\<lparr>eh_next_minidump_id := n, eh_next_minidump_path := p\<rparr>) = fixed_fields h"
  "eh_client h = Some c \<Longrightarrow> client_fields c' = client_fields c \<Longrightarrow> fixed_fields (h\<lparr>eh_client := Some c'\<rparr>) = fixed_fields h"
  by (simp_all add: fixed_fields_def held_objects_def held_libraries_def IsOutOfProcess_def)

lemma WriteMinidumpWithExceptionForProcess_fixed [fixed]:
  assumes "WriteMinidumpWithExceptionForProcess w t ex a b h k = Returns (ok, h', k')"
  shows "fixed_fields h' = fixed_fields h \<and> live_handlers k' = live_handlers k"
  using assms
  by (auto simp: WriteMinidumpWithExceptionForProcess_def Let_def fixed split: if_split_asm list.split_asm)

lemma WriteMinidumpWithException_fixed [fixed]:
  assumes "WriteMinidumpWithException w t ex a h k = Returns (ok, h', k')"
  shows "fixed_fields h' = fixed_fields h \<and> live_handlers k' = live_handlers k"
proof (cases "eh_client h")
  case None
  then show ?thesis
    using assms WriteMinidumpWithExceptionForProcess_fixed
    by (fastforce simp: WriteMinidumpWithException_def exec_bind_Returns_iff split: if_split_asm)
next
  case (Some c)
  then show ?thesis
    using assms fixed_fields_updates(4) [OF Some]
    by (auto simp: WriteMinidumpWithException_def exec_bind_Returns_iff dest: RequestDump_client_fields
        split: if_split_asm)
qed

lemma WriteMinidumpOnHandlerThread_fixed [fixed]:
  assumes "WriteMinidumpOnHandlerThread w ex a h k = Returns (ok, h', k')"
  shows "fixed_fields h' = fixed_fields h \<and> live_handlers k' = live_handlers k"
proof (cases "eh_handler_thread h")
  case True
  then show ?thesis
    using assms WriteMinidumpWithException_fixed
    by (fastforce simp: WriteMinidumpOnHandlerThread_def exec_bind_Returns_iff Let_def fixed_fields_updates(2))
qed (use assms in \<open>simp add: WriteMinidumpOnHandlerThread_def\<close>)

text \<open>The live handlers of two states are the same up to the other fields.\<close>

definition same_handlers :: "core \<Rightarrow> core \<Rightarrow> bool" where
  "same_handlers k k' \<longleftrightarrow>
     (\<forall>i. map_option fixed_fields (live_handlers k' i) = map_option fixed_fields (live_handlers k i))"

lemma same_handlers_refl [simp]: "same_handlers k k"
  by (simp add: same_handlers_def)


lemma same_handlersE:
  assumes "same_handlers k k'" "live_handlers k i = Some h"
  obtains h' where "live_handlers k' i = Some h'" "fixed_fields h' = fixed_fields h"
  using assms by (metis (no_types, lifting) map_option_eq_Some same_handlers_def)

lemma write_dump_same:
  assumes "write_dump w ex a i k = Returns (ok, k')"
  shows "same_handlers k k'"
proof -
  obtain h h' k1 where h: "live_handlers k i = Some h" "k' = k1\<lparr>live_handlers := (live_handlers k1)(i \<mapsto> h')\<rparr>"
    and r: "(if IsOutOfProcess h then WriteMinidumpWithException w (current_thread_id (client_calls w)) ex a h k
       else WriteMinidumpOnHandlerThread w ex a h k) = Returns (ok, h', k1)"
    using assms by (auto simp: write_dump_def exec_bind_Returns_iff split: option.split_asm)
  then have "fixed_fields h' = fixed_fields h \<and> live_handlers k1 = live_handlers k"
    using WriteMinidumpWithException_fixed WriteMinidumpOnHandlerThread_fixed by (auto split: if_split_asm)
  then show ?thesis using h by (simp add: same_handlers_def)
qed



lemma handler_turn_same:
  "handler_turn w ex i h k = Returns (a, k') \<Longrightarrow> same_handlers k k'"
  by (auto simp: handler_turn_def Let_def exec_bind_Returns_iff dest: write_dump_same split: if_split_asm)

section \<open>Delivery to the innermost willing handler\<close>

text \<open>The specification: the handlers are tried from the innermost one outwards, and then the filter that was
  installed before all of them.\<close>

fun deliver :: "windows \<Rightarrow> exinfo \<Rightarrow> hook option \<Rightarrow> nat list \<Rightarrow> core \<Rightarrow> (int \<times> core) exec" where
  "deliver w ex base [] k =
     Returns (case base of Some (Foreign f) \<Rightarrow> foreign_filter w f ex | _ \<Rightarrow> EXCEPTION_CONTINUE_SEARCH, k)"
| "deliver w ex base (i # is) k =
     (case live_handlers k i of
        None \<Rightarrow> Undefined
      | Some h \<Rightarrow>
          exec_bind (handler_turn w ex i h k)
            (\<lambda>(a, k). case a of Some a \<Rightarrow> Returns (a, k) | None \<Rightarrow> deliver w ex base is k))"

text \<open>A stack in which every handler has taken over the exception filter from the one below it, and the lowest one
  from \<open>base\<close>.\<close>

definition chained :: "hook option \<Rightarrow> nat list \<Rightarrow> core \<Rightarrow> bool" where
  "chained base st k \<longleftrightarrow> base \<noteq> Some Breakpad \<and>
     (\<forall>j<length st. \<exists>h. live_handlers k (st ! j) = Some h \<and>
        eh_previous_filter h = (if j = 0 then base else Some Breakpad))"

lemma same_previous_filter:
  assumes "same_handlers k k'" "live_handlers k i = Some h"
  shows "\<exists>h'. live_handlers k' i = Some h' \<and> eh_previous_filter h' = eh_previous_filter h"
  using assms by (auto elim!: same_handlersE simp: fixed_fields_def)

lemma chained_same: "same_handlers k k' \<Longrightarrow> chained base st k \<Longrightarrow> chained base st k'"
  unfolding chained_def by (fastforce dest: same_previous_filter)

lemma AutoExceptionHandler_enter_chained:
  assumes "handler_stack s = Some st" "handler_stack_index s < length st" "chained base st (core_state s)"
  defines "j \<equiv> length st - Suc (handler_stack_index s)"
  obtains h where "live_handlers (core_state s) (st ! j) = Some h"
    "eh_previous_filter h = (if j = 0 then base else Some Breakpad)"
    "AutoExceptionHandler_enter s = Returns (st ! j, h,
       s\<lparr>handler_stack_index := Suc (handler_stack_index s), uef := eh_previous_filter h, iph := eh_previous_iph h,
         pch := eh_previous_pch h\<rparr>)"
proof -
  have "j < length st" using assms(2) by (simp add: j_def)
  then obtain h where h: "live_handlers (core_state s) (st ! j) = Some h"
    "eh_previous_filter h = (if j = 0 then base else Some Breakpad)"
    using assms(3) unfolding chained_def by blast
  show thesis
    by (rule that [OF h]) (use assms(1,2) h(1) in \<open>simp add: AutoExceptionHandler_enter_def j_def\<close>)
qed

lemma HandleException_chained:
  assumes "handler_stack s = Some st" "handler_stack_index s + n = length st" "0 < n"
    "chained base st (core_state s)"
  shows "HandleException w ex s =
    exec_bind (deliver w ex base (rev (take n st)) (core_state s))
      (\<lambda>(a, k). Returns (a, s\<lparr>uef := Some Breakpad, iph := Some Breakpad, pch := Some Breakpad, core_state := k\<rparr>))"
  using assms
proof (induction n arbitrary: s)
  case (Suc n)
  have j: "length st - Suc (handler_stack_index s) = n" using Suc.prems(2) by simp
  obtain h where h: "live_handlers (core_state s) (st ! n) = Some h"
    "eh_previous_filter h = (if n = 0 then base else Some Breakpad)"
    "AutoExceptionHandler_enter s = Returns (st ! n, h,
       s\<lparr>handler_stack_index := Suc (handler_stack_index s), uef := eh_previous_filter h, iph := eh_previous_iph h,
         pch := eh_previous_pch h\<rparr>)"
    using AutoExceptionHandler_enter_chained [OF Suc.prems(1) _ Suc.prems(4)] Suc.prems(2) j by auto
  define s1 where "s1 = s\<lparr>handler_stack_index := Suc (handler_stack_index s), uef := eh_previous_filter h,
    iph := eh_previous_iph h, pch := eh_previous_pch h\<rparr>"
  have l: "rev (take (Suc n) st) = st ! n # rev (take n st)"
    using Suc.prems(2) by (simp add: take_Suc_conv_app_nth)
  have base: "base \<noteq> Some Breakpad" using Suc.prems(4) by (simp add: chained_def)
  have leave: "AutoExceptionHandler_leave (s1\<lparr>core_state := k\<rparr>) =
      s\<lparr>uef := Some Breakpad, iph := Some Breakpad, pch := Some Breakpad, core_state := k\<rparr>" for k
    by (simp add: AutoExceptionHandler_leave_def s1_def)
  show ?case
  proof (cases "handler_turn w ex (st ! n) h (core_state s)")
    case Undefined
    then show ?thesis by (simp add: HandleException.simps [of w ex s] h(1,3) l s1_def)
  next
    case (Returns p)
    obtain a k where p: "p = (a, k)" by (cases p)
    have t: "handler_turn w ex (st ! n) h (core_state s1) = Returns (a, k)" using Returns p by (simp add: s1_def)
    note u = HandleException.simps [of w ex s] h(3) [folded s1_def] t
    show ?thesis
    proof (cases "a = None \<and> n \<noteq> 0")
      case True
      let ?s2 = "s1\<lparr>core_state := k\<rparr>"
      have "chained base st k"
        using chained_same [OF handler_turn_same] Suc.prems(4) Returns p by blast
      then have "HandleException w ex ?s2 = exec_bind (deliver w ex base (rev (take n st)) k)
        (\<lambda>(a, k). Returns (a, ?s2\<lparr>uef := Some Breakpad, iph := Some Breakpad, pch := Some Breakpad, core_state := k\<rparr>))"
        using Suc.IH [of ?s2] Suc.prems(1,2) True by (simp add: s1_def)
      then show ?thesis
        using True h(1,2) Returns p
        by (cases "deliver w ex base (rev (take n st)) k")
          (auto simp: u l Let_def AutoExceptionHandler_leave_def s1_def)
    next
      case False
      show ?thesis
      proof (cases a)
        case None
        then have e: "eh_previous_filter h = base" "rev (take n st) = []" using False h(2) by simp_all
        show ?thesis
          using None base h(1) Returns p by (simp add: u l e Let_def leave split: option.split hook.split)
      next
        case (Some b)
        then show ?thesis using h(1) Returns p by (simp add: u l Let_def leave)
      qed
    qed
  qed
qed simp

text \<open>C28. Delivery of an exception: with a stack of handlers that have all taken over the exception filter, \<open>HandleException\<close>
  gives the exception to the handlers from the innermost one outwards until one of them handles it, and then to
  the filter installed before them. The index of the stack is back at its value, but all three hooks
  point to Breakpad afterwards, also those that no handler had asked for.\<close>

theorem HandleException_delivers:
  assumes "handler_stack s = Some st" "st \<noteq> []" "handler_stack_index s = 0" "chained base st (core_state s)"
  shows "HandleException w ex s =
    exec_bind (deliver w ex base (rev st) (core_state s))
      (\<lambda>(a, k). Returns (a, s\<lparr>uef := Some Breakpad, iph := Some Breakpad, pch := Some Breakpad, core_state := k\<rparr>))"
  using HandleException_chained [OF assms(1) _ _ assms(4), of "length st"] assms(2,3) by simp

section \<open>Nested lifetimes\<close>

definition process_wf :: "process \<Rightarrow> bool" where
  "process_wf s \<longleftrightarrow> (\<forall>i\<in>dom (live_handlers (core_state s)). i < next_handler s) \<and> handler_stack s \<noteq> Some [] \<and>
     (critical_section s \<longleftrightarrow> 0 < instance_count s)"

text \<open>A handler before and after it has taken over the hooks.\<close>

definition hooked :: "32 word \<Rightarrow> process \<Rightarrow> handler \<Rightarrow> handler" where
  "hooked t s h = h\<lparr>eh_previous_filter := (if t AND HANDLER_EXCEPTION \<noteq> 0 then uef s else None),
     eh_previous_iph := (if t AND HANDLER_INVALID_PARAMETER \<noteq> 0 then iph s else None),
     eh_previous_pch := (if t AND HANDLER_PURECALL \<noteq> 0 then pch s else None)\<rparr>"

definition hooked_process :: "32 word \<Rightarrow> process \<Rightarrow> process" where
  "hooked_process t s = s\<lparr>uef := (if t AND HANDLER_EXCEPTION \<noteq> 0 then Some Breakpad else uef s),
     iph := (if t AND HANDLER_INVALID_PARAMETER \<noteq> 0 then Some Breakpad else iph s),
     pch := (if t AND HANDLER_PURECALL \<noteq> 0 then Some Breakpad else pch s)\<rparr>"

lemma install_hooks_eq:
  assumes "eh_previous_filter h = None" "eh_previous_iph h = None" "eh_previous_pch h = None"
  shows "install_hooks t i h s = (hooked t s h,
    (hooked_process t s)\<lparr>handler_stack := Some ((case handler_stack s of Some st \<Rightarrow> st | None \<Rightarrow> []) @ [i])\<rparr>)"
  using assms by (cases s, cases h) (simp add: install_hooks_def hooked_def hooked_process_def Let_def)

lemma HANDLER_NONE_and [simp]: "HANDLER_NONE AND t = 0"
  by (simp add: HANDLER_NONE_def)

lemma in_process_setup_fields:
  assumes "in_process_setup w r h k = (h', k')"
  shows "eh_handler_types h' = eh_handler_types h" "eh_previous_filter h' = eh_previous_filter h"
    "eh_previous_iph h' = eh_previous_iph h" "eh_previous_pch h' = eh_previous_pch h" "eh_client h' = eh_client h"
    "live_handlers k' = live_handlers k"
  using assms
  by (auto simp: in_process_setup_def set_dump_path_def UpdateNextID_def Let_def split: if_split_asm prod.split_asm)

lemma set_up_fields:
  assumes "set_up w r k = (h, k')"
  shows "eh_handler_types h = rq_handler_types r" "eh_previous_filter h = None" "eh_previous_iph h = None"
    "eh_previous_pch h = None" "live_handlers k' = live_handlers k" "IsOutOfProcess h \<Longrightarrow> held_objects h = 0"
    "eh_client h = registered w r"
proof -
  let ?h0 = "(blank_handler r)\<lparr>eh_client := registered w r\<rparr>"
  have b: "eh_handler_types ?h0 = rq_handler_types r" "eh_previous_filter ?h0 = None" "eh_previous_iph ?h0 = None"
    "eh_previous_pch ?h0 = None" "held_objects ?h0 = 0"
    by (simp_all add: blank_handler_def held_objects_def)
  obtain h1 where h1: "h = h1\<lparr>eh_app_memory_info := [\<lparr>am_ptr = 0, am_length = 0\<rparr>]\<rparr>"
    "IsOutOfProcess ?h0 \<and> h1 = ?h0 \<and> k' = k \<or> \<not> IsOutOfProcess ?h0 \<and> in_process_setup w r ?h0 k = (h1, k')"
    using assms by (auto simp: set_up_def Let_def split: if_split_asm prod.split_asm)
  have o: "held_objects h = held_objects h1" "IsOutOfProcess h = IsOutOfProcess h1"
    by (simp_all add: h1(1) held_objects_def IsOutOfProcess_def)
  show "eh_handler_types h = rq_handler_types r" "eh_previous_filter h = None" "eh_previous_iph h = None"
    "eh_previous_pch h = None" "live_handlers k' = live_handlers k" "eh_client h = registered w r"
    using h1(2) in_process_setup_fields [of w r ?h0 k h1 k'] b(1-4) by (auto simp: h1(1))
  have "IsOutOfProcess h1 \<Longrightarrow> h1 = ?h0"
    using h1(2) in_process_setup_fields(5) [of w r ?h0 k h1 k'] by (auto simp: IsOutOfProcess_def)
  then show "IsOutOfProcess h \<Longrightarrow> held_objects h = 0" unfolding o using b(5) by blast
qed

lemma Initialize_eq:
  assumes wf: "process_wf s" and u: "set_up w r (core_state s) = (h, k)"
  defines "t \<equiv> rq_handler_types r" and "i \<equiv> next_handler s"
  shows "Initialize w r s = Returns (i, (hooked_process t s)\<lparr>
      handler_stack := (if t = HANDLER_NONE then handler_stack s
        else Some ((case handler_stack s of Some st \<Rightarrow> st | None \<Rightarrow> []) @ [i])),
      instance_count := Suc (instance_count s), next_handler := Suc i, critical_section := True,
      libraries := libraries s + held_libraries h,
      kernel_objects := kernel_objects s + registration_handles w r + int (held_objects h),
      core_state := k\<lparr>live_handlers := (live_handlers k)(i \<mapsto> hooked t s h)\<rparr>\<rparr>)"
proof -
  have c: "(if instance_count s = 0 then s'\<lparr>critical_section := True\<rparr> else s') = s'\<lparr>critical_section := True\<rparr>"
    if "critical_section s' = critical_section s" for s' :: process
    using wf that by (cases s') (auto simp: process_wf_def)
  have n: "hooked HANDLER_NONE s' h = h" for s'
    using set_up_fields(2-4) [OF u] by (cases h) (simp add: hooked_def)
  define s1 where "s1 = s\<lparr>instance_count := Suc (instance_count s), next_handler := Suc i,
    libraries := libraries s + held_libraries h,
    kernel_objects := kernel_objects s + registration_handles w r + int (held_objects h),
    critical_section := True\<rparr>"
  have "Initialize w r s =
    (if t = HANDLER_NONE then Returns (i, s1\<lparr>core_state := k\<lparr>live_handlers := (live_handlers k)(i \<mapsto> h)\<rparr>\<rparr>)
     else let (h, s) = install_hooks t i h s1
       in Returns (i, s\<lparr>core_state := k\<lparr>live_handlers := (live_handlers k)(i \<mapsto> h)\<rparr>\<rparr>))"
    by (simp add: Initialize_def Let_def u c i_def t_def s1_def)
  moreover have "hooked t s1 h = hooked t s h" by (simp add: hooked_def s1_def)
  ultimately show ?thesis
    by (cases "t = HANDLER_NONE"; cases s)
      (simp_all add: n install_hooks_eq [OF set_up_fields(2-4) [OF u]] s1_def hooked_process_def)
qed





lemma finite_received [simp]: "finite (received a c)"
proof -
  have "finite (handle_set h)" for h by (cases h) simp_all
  then show ?thesis by (simp add: received_def reply_handles_def split: option.split)
qed







lemma fixed_hooked [simp]: "held_libraries (hooked t s h) = held_libraries h" "held_objects (hooked t s h) = held_objects h"
  "IsOutOfProcess (hooked t s h) = IsOutOfProcess h" "eh_handler_types (hooked t s h) = eh_handler_types h"
  "eh_client (hooked t s h) = eh_client h" "client_handles_closed (hooked t s h) = client_handles_closed h"
  by (simp_all add: hooked_def held_libraries_def held_objects_def IsOutOfProcess_def client_handles_closed_def)

lemma Initialize_wf:
  assumes wf: "process_wf s" and init: "Initialize w r s = Returns (i, s1)"
  shows "process_wf s1"
proof -
  obtain h k where u: "set_up w r (core_state s) = (h, k)" by (metis surj_pair)
  have "i = next_handler s" "live_handlers (core_state s1) = (live_handlers (core_state s))(i \<mapsto> hooked (rq_handler_types r) s h)"
    "next_handler s1 = Suc i" "handler_stack s1 = (if rq_handler_types r = HANDLER_NONE then handler_stack s
        else Some ((case handler_stack s of Some st \<Rightarrow> st | None \<Rightarrow> []) @ [i]))" "critical_section s1" "0 < instance_count s1"
    using init by (auto simp: Initialize_eq [OF wf u] set_up_fields(5) [OF u])
  then show ?thesis using wf by (auto simp: process_wf_def less_Suc_eq)
qed










section \<open>Handlers that are not nested\<close>

lemma Initialize_installs:
  assumes "process_wf s" "rq_handler_types r \<noteq> HANDLER_NONE" "Initialize w r s = Returns (i, s1)"
  shows "uef s1 = (if rq_handler_types r AND HANDLER_EXCEPTION \<noteq> 0 then Some Breakpad else uef s)"
    "i = next_handler s" "next_handler s1 = Suc i"
    "handler_stack s1 = Some ((case handler_stack s of Some st \<Rightarrow> st | None \<Rightarrow> []) @ [i])"
    "\<exists>h. live_handlers (core_state s1) i = Some h \<and> eh_handler_types h = rq_handler_types r \<and>
       eh_previous_filter h = (if rq_handler_types r AND HANDLER_EXCEPTION \<noteq> 0 then uef s else None)"
    "j \<noteq> i \<Longrightarrow> live_handlers (core_state s1) j = live_handlers (core_state s) j"
    "handler_stack_index s1 = handler_stack_index s"
proof -
  obtain h k where u: "set_up w r (core_state s) = (h, k)" by (metis surj_pair)
  note e = Initialize_eq [OF assms(1) u]
  show "uef s1 = (if rq_handler_types r AND HANDLER_EXCEPTION \<noteq> 0 then Some Breakpad else uef s)"
    "i = next_handler s" "next_handler s1 = Suc i"
    "handler_stack s1 = Some ((case handler_stack s of Some st \<Rightarrow> st | None \<Rightarrow> []) @ [i])"
    "\<exists>h. live_handlers (core_state s1) i = Some h \<and> eh_handler_types h = rq_handler_types r \<and>
       eh_previous_filter h = (if rq_handler_types r AND HANDLER_EXCEPTION \<noteq> 0 then uef s else None)"
    "j \<noteq> i \<Longrightarrow> live_handlers (core_state s1) j = live_handlers (core_state s) j"
    "handler_stack_index s1 = handler_stack_index s"
    using e assms(2,3) set_up_fields(1,5) [OF u] by (auto simp: hooked_process_def hooked_def)
qed

lemma exception_not_none: "t AND HANDLER_EXCEPTION \<noteq> 0 \<Longrightarrow> t \<noteq> HANDLER_NONE"
  by auto

lemma ExceptionHandler_destroy_exception:
  assumes "live_handlers (core_state s) i = Some h" "eh_handler_types h AND HANDLER_EXCEPTION \<noteq> 0"
    "handler_stack s = Some st"
  shows "\<exists>s'. ExceptionHandler_destroy i s = Returns s' \<and> uef s' = eh_previous_filter h \<and>
    handler_stack s' = (if remove_from_stack i st = [] then None else Some (remove_from_stack i st)) \<and>
    live_handlers (core_state s') = (live_handlers (core_state s))(i := None)"
proof -
  have n: "eh_handler_types h \<noteq> HANDLER_NONE" using assms(2) by auto
  show ?thesis using assms n by (simp add: ExceptionHandler_destroy_def Let_def)
qed

text \<open>C30. Two handlers for exceptions that are destroyed in the order of their creation: after the first one is gone, the
  filter of the process is the one from before both, although the second handler is still there. After the
  second one is gone, the filter is the static function of the class, with no handler left, and the next unhandled
  exception dereferences the null pointer to the stack.\<close>

theorem out_of_order_destruction:
  assumes "process_wf s" "handler_stack s = None" "uef s = base"
    "rq_handler_types ra AND HANDLER_EXCEPTION \<noteq> 0" "rq_handler_types rb AND HANDLER_EXCEPTION \<noteq> 0"
    and a: "Initialize w ra s = Returns (ia, s1)" and b: "Initialize w rb s1 = Returns (ib, s2)"
  shows "\<exists>s3 s4. ExceptionHandler_destroy ia s2 = Returns s3 \<and> uef s3 = base \<and> handler_stack s3 = Some [ib] \<and>
    ExceptionHandler_destroy ib s3 = Returns s4 \<and> uef s4 = Some Breakpad \<and> handler_stack s4 = None \<and>
    HandleException w ex s4 = Undefined"
proof -
  note A = Initialize_installs [OF assms(1) exception_not_none [OF assms(4)] a]
  note B = Initialize_installs [OF Initialize_wf [OF assms(1) a] exception_not_none [OF assms(5)] b]
  have d: "ia \<noteq> ib" using A(3) B(2) by simp
  obtain ha where ha: "live_handlers (core_state s2) ia = Some ha" "eh_previous_filter ha = base"
    "eh_handler_types ha = rq_handler_types ra"
    using A(5) B(6) d assms(3,4) by auto
  obtain hb where hb: "live_handlers (core_state s2) ib = Some hb" "eh_previous_filter hb = Some Breakpad"
    "eh_handler_types hb = rq_handler_types rb"
    using B(5) A(1) assms(4,5) by auto
  have st: "handler_stack s2 = Some [ia, ib]" using A(4) B(4) assms(2) by simp
  obtain s3 where s3: "ExceptionHandler_destroy ia s2 = Returns s3" "uef s3 = base" "handler_stack s3 = Some [ib]"
    "live_handlers (core_state s3) ib = Some hb"
    using ExceptionHandler_destroy_exception [OF ha(1) _ st] ha assms(4) hb(1) d
    by (auto simp: remove_from_stack_def)
  obtain s4 where s4: "ExceptionHandler_destroy ib s3 = Returns s4" "uef s4 = Some Breakpad" "handler_stack s4 = None"
    using ExceptionHandler_destroy_exception [OF s3(4) _ s3(3)] hb assms(5) by (auto simp: remove_from_stack_def)
  have "HandleException w ex s4 = Undefined"
    by (simp add: HandleException.simps [of w ex s4] AutoExceptionHandler_enter_def s4(3))
  then show ?thesis using s3 s4 by blast
qed

text \<open>A handler that asked only for failures of the C runtime is on the same stack as the handlers for exceptions. When
  it was created after a handler for exceptions, an exception goes to it, and to it alone: if it declines, the search
  for a handler goes on outside the process, and the handler that had installed the filter is never asked.\<close>

theorem HandleException_wrong_handler:
  assumes "process_wf s" "handler_stack s = None" "handler_stack_index s = 0"
    and exc: "rq_handler_types ra AND HANDLER_EXCEPTION \<noteq> 0"
    and crt: "rq_handler_types rb \<noteq> HANDLER_NONE" "rq_handler_types rb AND HANDLER_EXCEPTION = 0"
    and a: "Initialize w ra s = Returns (ia, s1)" and b: "Initialize w rb s1 = Returns (ib, s2)"
  shows "uef s2 = Some Breakpad \<and> handler_stack s2 = Some [ia, ib] \<and>
    (\<exists>hb. live_handlers (core_state s2) ib = Some hb \<and>
       HandleException w ex s2 =
         exec_bind (handler_turn w ex ib hb (core_state s2))
           (\<lambda>(action, k). Returns (case action of Some x \<Rightarrow> x | None \<Rightarrow> EXCEPTION_CONTINUE_SEARCH,
              s2\<lparr>uef := Some Breakpad, iph := Some Breakpad, pch := Some Breakpad, core_state := k\<rparr>)))"
proof -
  note A = Initialize_installs [OF assms(1) exception_not_none [OF exc] a]
  note B = Initialize_installs [OF Initialize_wf [OF assms(1) a] crt(1) b]
  have st: "handler_stack s2 = Some [ia, ib]" using A(4) B(4) assms(2) by simp
  have ix: "handler_stack_index s2 = 0" using A(7) B(7) assms(3) by simp
  obtain hb where hb: "live_handlers (core_state s2) ib = Some hb" "eh_previous_filter hb = None"
    using B(5) crt(2) by auto
  define s3 where "s3 = s2\<lparr>handler_stack_index := 1, uef := None, iph := eh_previous_iph hb, pch := eh_previous_pch hb\<rparr>"
  have e: "AutoExceptionHandler_enter s2 = Returns (ib, hb, s3)"
    by (simp add: AutoExceptionHandler_enter_def st ix hb s3_def)
  have l: "AutoExceptionHandler_leave (s3\<lparr>core_state := k\<rparr>) =
      s2\<lparr>uef := Some Breakpad, iph := Some Breakpad, pch := Some Breakpad, core_state := k\<rparr>" for k
    using ix by (cases s2) (simp add: AutoExceptionHandler_leave_def s3_def)
  have k: "core_state s3 = core_state s2" by (simp add: s3_def)
  have "HandleException w ex s2 = exec_bind (handler_turn w ex ib hb (core_state s2))
     (\<lambda>(action, k). Returns (case action of Some x \<Rightarrow> x | None \<Rightarrow> EXCEPTION_CONTINUE_SEARCH,
        s2\<lparr>uef := Some Breakpad, iph := Some Breakpad, pch := Some Breakpad, core_state := k\<rparr>))"
    by (cases "handler_turn w ex ib hb (core_state s2)")
      (auto simp: HandleException.simps [of w ex s2] e k hb(2) l Let_def split: option.split)
  then show ?thesis using A(1) B(1) exc crt(2) st hb(1) by auto
qed

section \<open>The contents of a dump\<close>

lemma requested_regions_all: "requested_regions iter = iter"
  by (induction iter) (simp_all add: requested_regions.simps MinidumpWriteDumpCallback_def)

text \<open>The memory around the faulting instruction: for an instruction pointer in a committed region of memory, away
  from the two ends of the address space, the region that goes into the dump contains the instruction pointer, lies in the
  committed region, and has the 128 bytes on each side as far as they are in it, at most 256 in all.\<close>

theorem instruction_memory_bounds:
  assumes "virtual_query w ip = Some (region, region_size, True)"
    and "unat region \<le> unat ip" "unat ip < unat region + unat region_size" "unat region + unat region_size < 2 ^ 64"
    and "128 \<le> unat ip" "unat ip + 128 < 2 ^ 64"
  shows "\<exists>m. instruction_memory w ip = Some m \<and>
    unat (am_ptr m) = max (unat region) (unat ip - 128) \<and>
    unat (am_ptr m) + unat (am_length m) = min (unat ip + 128) (unat region + unat region_size) \<and>
    unat (am_ptr m) \<le> unat ip \<and> unat ip < unat (am_ptr m) + unat (am_length m) \<and> unat (am_length m) \<le> 256"
proof -
  define lo hi where "lo = max region (ip - 128)" and "hi = min (ip + 128) (region + region_size)"
  have s: "unat (ip - 128) = unat ip - 128" "unat (ip + 128) = unat ip + 128"
    "unat (region + region_size) = unat region + unat region_size"
    using assms(4-6) by (simp_all add: unat_sub word_le_nat_alt unat_plus_if')
  have lo: "unat lo = max (unat region) (unat ip - 128)"
    and hi: "unat hi = min (unat ip + 128) (unat region + unat region_size)"
    using s by (simp_all add: lo_def hi_def max_def min_def word_le_nat_alt)
  have le: "unat lo \<le> unat ip" "unat ip < unat hi" "unat hi - unat lo \<le> 256" using lo hi assms(2,3,5) by linarith+
  have "unat (ucast (hi - lo) :: 32 word) = unat hi - unat lo"
    using le by (simp add: unsigned_ucast_eq take_bit_nat_eq_self unat_sub word_le_nat_alt)
  then have "unat lo + unat (ucast (hi - lo) :: 32 word) = unat hi" "unat (ucast (hi - lo) :: 32 word) \<le> 256"
    using le by linarith+
  moreover have "instruction_memory w ip = Some \<lparr>am_ptr = lo, am_length = ucast (hi - lo)\<rparr>"
    by (simp add: instruction_memory_def assms(1) lo_def hi_def Let_def)
  ultimately show ?thesis using lo hi le(1,2) by (auto simp del: lo hi)
qed

text \<open>The reserved element is found by \<open>UnregisterAppMemory\<close> with a null pointer; the next dump in the process then reads
  past the list.\<close>

theorem UnregisterAppMemory_null:
  assumes "eh_app_memory_info h = [\<lparr>am_ptr = 0, am_length = 0\<rparr>]" "eh_minidump_write_dump h"
    "eh_next_minidump_path h = Some path" "ok_create_file w path" "path \<notin> files k"
  shows "WriteMinidumpWithExceptionForProcess w t ex a b (UnregisterAppMemory 0 h) k = Undefined"
  using assms by (simp add: UnregisterAppMemory_def WriteMinidumpWithExceptionForProcess_def c_text_def Let_def)

subsection \<open>Identifiers\<close>

lemma unat_below: "unat (x :: 'a::len word) < 2 ^ LENGTH('a)"
  by (rule unsigned_less)

lemma length_show_base: "2 \<le> b \<Longrightarrow> n < b ^ Suc k \<Longrightarrow> length (show_base b n) \<le> Suc k"
proof (induction k arbitrary: n)
  case 0
  then show ?case by (subst show_base.simps) simp
next
  case (Suc k)
  show ?case
  proof (cases "n < b")
    case False
    have "n div b < b ^ Suc k" using Suc.prems by (simp add: less_mult_imp_div_less mult.commute)
    then show ?thesis using Suc False by (subst show_base.simps) simp
  qed (subst show_base.simps, simp)
qed

lemma length_hex_field [simp]: "0 < n \<Longrightarrow> k < 16 ^ n \<Longrightarrow> length (hex_field n k) = n"
  using length_show_base [of 16 k "n - 1"] by (simp add: hex_field_def Let_def)

lemma base_value_zeros: "base_value 16 (replicate n CHR ''0'' @ ds) = base_value 16 ds"
  by (induction n) (simp_all add: base_value_def c_digit_def)

lemma hex_field_inject: "hex_field n k = hex_field n k' \<Longrightarrow> k = k'"
  by (metis base_value_show base_value_zeros hex_field_def le_numeral_extra(4) numeral_le_iff semiring_norm(68,69,71))

lemma concat_hex_fields:
  assumes "concat (map (\<lambda>b. hex_field 2 (unat b)) bs) = concat (map (\<lambda>b. hex_field 2 (unat b)) bs')"
    "length bs = length bs'"
  shows "bs = (bs' :: 8 word list)"
  using assms(2,1)
proof (induction bs bs' rule: list_induct2)
  case (Cons b bs b' bs')
  have l: "length (hex_field 2 (unat x)) = 2" for x :: "8 word"
    using unat_below [of x] by simp
  have "hex_field 2 (unat b) = hex_field 2 (unat b')" "bs = bs'"
    using Cons by (simp_all add: append_eq_append_conv l)
  then show ?case using hex_field_inject [of 2 "unat b" "unat b'"] by (simp add: word_unat_eq_iff)
qed simp

lemma length_concat_hex: "length (concat (map (\<lambda>b. hex_field 2 (unat b)) bs)) = 2 * length (bs :: 8 word list)"
proof (induction bs)
  case (Cons b bs)
  then show ?case using length_hex_field [of 2 "unat b"] unat_below [of b] by simp
qed simp

text \<open>Different identifiers have different texts of 36 characters, so that the files of two dumps in the same directory
  differ when the system's identifiers do.\<close>

theorem GUIDToWString_inject:
  assumes "length (data4 g) = 8" "length (data4 g') = 8" "GUIDToWString g = GUIDToWString g'"
  shows "data1 g = data1 g' \<and> data2 g = data2 g' \<and> data3 g = data3 g' \<and> data4 g = data4 g'"
proof -
  let ?c = "\<lambda>bs :: 8 word list. concat (map (\<lambda>b. hex_field 2 (unat b)) bs)"
  have l: "length (hex_field 8 (unat (x :: 32 word))) = 8" "length (hex_field 4 (unat (y :: 16 word))) = 4" for x y
    using unat_below [of x] unat_below [of y] by simp_all
  let ?t = "\<lambda>g. hex_field 8 (unat (data1 g)) @ ''-'' @ hex_field 4 (unat (data2 g)) @ ''-'' @
      hex_field 4 (unat (data3 g)) @ ''-'' @ ?c (take 2 (data4 g)) @ ''-'' @ ?c (drop 2 (data4 g))"
  have "?t g = ?t g'"
    using assms by (simp add: GUIDToWString_def l length_concat_hex)
  then have "hex_field 8 (unat (data1 g)) = hex_field 8 (unat (data1 g')) \<and>
      hex_field 4 (unat (data2 g)) = hex_field 4 (unat (data2 g')) \<and>
      hex_field 4 (unat (data3 g)) = hex_field 4 (unat (data3 g')) \<and>
      ?c (take 2 (data4 g)) = ?c (take 2 (data4 g')) \<and> ?c (drop 2 (data4 g)) = ?c (drop 2 (data4 g'))"
    using assms(1,2) by (simp add: append_eq_append_conv l length_concat_hex)
  moreover have "take 2 (data4 g) = take 2 (data4 g')" "drop 2 (data4 g) = drop 2 (data4 g')"
    using calculation concat_hex_fields [of "take 2 (data4 g)" "take 2 (data4 g')"]
      concat_hex_fields [of "drop 2 (data4 g)" "drop 2 (data4 g')"] assms(1,2) by simp_all
  then have "data4 g = data4 g'" by (metis append_take_drop_id)
  ultimately show ?thesis using hex_field_inject by (metis word_unat_eq_iff)
qed

section \<open>Concrete processes\<close>

definition sample_windows :: windows where
  "sample_windows = \<lparr>client_calls = sample_client_api, address_of = (\<lambda>_. 0), bytes_of = (\<lambda>_. []),
     ok_start_semaphore = True, ok_finish_semaphore = True, ok_create_thread = True, dbghelp_loads = True,
     has_MiniDumpWriteDump = True, rpcrt4_loads = True, has_UuidCreate = True, new_uuid = (\<lambda>_. zero_guid),
     ok_create_file = (\<lambda>_. True), virtual_query = (\<lambda>_. Some (0x10000, 0x1000, True)), write_dump_result = True,
     handler_thread_id = 9, foreign_filter = (\<lambda>_ _. 0), suspended_child = (\<lambda>_. None)\<rparr>"

definition no_handlers :: process where
  "no_handlers = \<lparr>handler_stack = None, handler_stack_index = 0, instance_count = 0, next_handler = 0, uef = None,
     iph = None, pch = None, critical_section = False, libraries = 0, kernel_objects = 0,
     core_state = \<lparr>live_handlers = Map.empty, uuid_calls = 0, files = {}, dumps = []\<rparr>\<rparr>"

definition sample_request_for :: "32 word \<Rightarrow> request" where
  "sample_request_for types = \<lparr>rq_dump_path = ''d'', rq_filter = None, rq_callback = None, rq_handler_types = types,
     rq_dump_type = 0, rq_server = InProcess, rq_custom_info = None, rq_addresses = (0, 0, 0)\<rparr>"

lemma no_handlers_wf: "process_wf no_handlers"
  by (simp add: process_wf_def no_handlers_def)

lemma Initialize_exists: "process_wf s \<Longrightarrow> \<exists>i s1. Initialize w r s = Returns (i, s1) \<and> process_wf s1"
  by (metis Initialize_eq Initialize_wf surj_pair)

lemma handler_bits [simp]: "HANDLER_ALL AND HANDLER_EXCEPTION \<noteq> 0" "HANDLER_PURECALL AND HANDLER_EXCEPTION = 0"
  "HANDLER_PURECALL \<noteq> HANDLER_NONE" "HANDLER_ALL \<noteq> HANDLER_NONE"
  by (simp_all add: HANDLER_ALL_def HANDLER_EXCEPTION_def HANDLER_INVALID_PARAMETER_def HANDLER_PURECALL_def HANDLER_NONE_def)

text \<open>An exception that the inner of two handlers filters out, and the outer one handles.\<close>

definition sample_handler :: "FilterCallback option \<Rightarrow> hook option \<Rightarrow> handler" where
  "sample_handler f prev = (blank_handler (sample_request_for HANDLER_ALL))\<lparr>eh_filter := f, eh_previous_filter := prev,
     eh_minidump_write_dump := True, eh_handler_thread := True, eh_next_minidump_path := Some ''n'',
     eh_app_memory_info := [\<lparr>am_ptr = 0, am_length = 0\<rparr>]\<rparr>"

definition sample_exception :: exinfo where
  "sample_exception = \<lparr>exception_code = 0xC0000005, instruction_pointer = 0x10010\<rparr>"

definition two_handlers :: process where
  "two_handlers = no_handlers\<lparr>handler_stack := Some [0, 1], instance_count := 2, next_handler := 2, uef := Some Breakpad,
     core_state := (core_state no_handlers)\<lparr>live_handlers := [0 \<mapsto> sample_handler None None,
       1 \<mapsto> sample_handler (Some (\<lambda>_ _. False)) (Some Breakpad)]\<rparr>\<rparr>"

theorem HandleException_delivers_witness:
  "\<exists>s'. HandleException sample_windows sample_exception two_handlers = Returns (EXCEPTION_EXECUTE_HANDLER, s') \<and>
     handler_stack_index s' = 0 \<and> dumps (core_state s') = [DumpFile ''n'' 5 (Some sample_exception) [BreakpadInfo 9 5]
       [\<lparr>am_ptr = 0x10000, am_length = 0x90\<rparr>] True]"
proof -
  have c: "chained None [0, 1] (core_state two_handlers)"
    by (auto simp: chained_def two_handlers_def sample_handler_def less_Suc_eq numeral_2_eq_2)
  have st: "handler_stack two_handlers = Some [0, 1]" "handler_stack_index two_handlers = 0"
    by (simp_all add: two_handlers_def no_handlers_def)
  show ?thesis
    by (subst HandleException_delivers [OF st(1) _ st(2) c])
      (simp_all add: handler_turn_def write_dump_def WriteMinidumpOnHandlerThread_def WriteMinidumpWithException_def
        WriteMinidumpWithExceptionForProcess_def requested_regions_all c_text_def IsOutOfProcess_def Let_def
        two_handlers_def no_handlers_def sample_handler_def blank_handler_def sample_exception_def sample_windows_def
        sample_client_api_def instruction_memory_def EXCEPTION_BREAKPOINT_def EXCEPTION_SINGLE_STEP_def
        EXCEPTION_INVALID_HANDLE_def sample_request_for_def)
qed










theorem out_of_order_destruction_witness:
  "\<exists>ia ib s1 s2 s3 s4. Initialize sample_windows (sample_request_for HANDLER_ALL) no_handlers = Returns (ia, s1) \<and>
     Initialize sample_windows (sample_request_for HANDLER_ALL) s1 = Returns (ib, s2) \<and>
     ExceptionHandler_destroy ia s2 = Returns s3 \<and> ExceptionHandler_destroy ib s3 = Returns s4 \<and>
     HandleException sample_windows sample_exception s4 = Undefined"
proof -
  let ?r = "sample_request_for HANDLER_ALL"
  obtain ia s1 where a: "Initialize sample_windows ?r no_handlers = Returns (ia, s1)" "process_wf s1"
    using Initialize_exists [OF no_handlers_wf] by blast
  obtain ib s2 where b: "Initialize sample_windows ?r s1 = Returns (ib, s2)"
    using Initialize_exists [OF a(2)] by blast
  have n: "rq_handler_types ?r AND HANDLER_EXCEPTION \<noteq> 0" by (simp add: sample_request_for_def)
  have e: "handler_stack no_handlers = None" by (simp add: no_handlers_def)
  show ?thesis
    using a(1) b out_of_order_destruction [OF no_handlers_wf e refl n n a(1) b, of sample_exception] by blast
qed

theorem HandleException_wrong_handler_witness:
  "\<exists>ia ib s1 s2 hb. Initialize sample_windows (sample_request_for HANDLER_ALL) no_handlers = Returns (ia, s1) \<and>
     Initialize sample_windows (sample_request_for HANDLER_PURECALL) s1 = Returns (ib, s2) \<and>
     handler_stack s2 = Some [ia, ib] \<and> live_handlers (core_state s2) ib = Some hb \<and>
     eh_handler_types hb = HANDLER_PURECALL"
proof -
  let ?a = "sample_request_for HANDLER_ALL" and ?b = "sample_request_for HANDLER_PURECALL"
  obtain ia s1 where a: "Initialize sample_windows ?a no_handlers = Returns (ia, s1)" "process_wf s1"
    using Initialize_exists [OF no_handlers_wf] by blast
  obtain ib s2 where b: "Initialize sample_windows ?b s1 = Returns (ib, s2)"
    using Initialize_exists [OF a(2)] by blast
  have n: "rq_handler_types ?a AND HANDLER_EXCEPTION \<noteq> 0" "rq_handler_types ?b \<noteq> HANDLER_NONE"
    "rq_handler_types ?b AND HANDLER_EXCEPTION = 0" by (simp_all add: sample_request_for_def)
  have e: "handler_stack no_handlers = None" "handler_stack_index no_handlers = 0" by (simp_all add: no_handlers_def)
  have "handler_stack s2 = Some [ia, ib]"
    using HandleException_wrong_handler [OF no_handlers_wf e n a(1) b, of sample_exception] by blast
  then show ?thesis
    using a(1) b Initialize_installs(5) [OF a(2) n(2) b] by (auto simp: sample_request_for_def)
qed

theorem instruction_memory_bounds_witness:
  "\<exists>m. instruction_memory sample_windows 0x10010 = Some m \<and> unat (am_ptr m) = 0x10000 \<and> unat (am_length m) = 0x90"
  using instruction_memory_bounds [of sample_windows "0x10010" "0x10000" "0x1000"] by (auto simp: sample_windows_def)

end
