(* ===== verification/Handler_Thread.thy ===== *)
theory Handler_Thread
  imports Handler_Lifetimes
begin

text \<open>
  The hand-over of a request to the handler thread (\<open>WriteMinidumpOnHandlerThread\<close> and
  \<open>ExceptionHandlerThreadMain\<close> in \<^verbatim>\<open>client/windows/handler/exception_handler.cc\<close>), as steps of the requesting
  threads and of the handler thread that interleave in any order. The critical section and the two semaphores,
  which count to one, are explicit. The build is the one in which the destructor terminates the handler thread, so that
  \<open>is_shutdown_\<close> is never set. The sequential definition of \<open>WriteMinidumpOnHandlerThread\<close> in
  \<^verbatim>\<open>Exception_Handler\<close> is what every interleaving amounts to.
\<close>

section \<open>The two programs\<close>

text \<open>Where a requesting thread is: outside with the result of its last call, or between two statements.\<close>

datatype requester_pc = Outside "bool option" | Entered | Filled | Waiting | Woken | Collected bool

datatype handler_pc = HWait | HWoken | HDone

record hand_over =
  section_owner :: "nat option"
  start_count :: nat
  finish_count :: nat
  the_handler :: handler
  the_core :: core
  return_value :: bool
  handler_pc :: handler_pc
  requester :: "nat \<Rightarrow> requester_pc"
  at_entry :: "handler \<times> core"

text \<open>\<open>at_entry\<close> only remembers the state in which the present owner of the critical section entered it. What the
  threads ask for: the identifier of the thread, the exception and the assertion.\<close>

record asking =
  thread_number :: "nat \<Rightarrow> 32 word"
  asked_exinfo :: "nat \<Rightarrow> exinfo option"
  asked_assertion :: "nat \<Rightarrow> assertion option"

definition move :: "nat \<Rightarrow> requester_pc \<Rightarrow> hand_over \<Rightarrow> hand_over" where
  "move t pc s = s\<lparr>requester := (requester s)(t := pc)\<rparr>"

text \<open>\<open>ReleaseSemaphore\<close> on a semaphore at its maximum fails and leaves the count.\<close>

definition released :: "nat \<Rightarrow> nat" where "released n = min 1 (Suc n)"

inductive hand_step :: "windows \<Rightarrow> asking \<Rightarrow> hand_over \<Rightarrow> hand_over \<Rightarrow> bool" for w q where
  enter: "requester s t = Outside b \<Longrightarrow> section_owner s = None \<Longrightarrow>
    hand_step w q s (move t Entered (s\<lparr>section_owner := Some t, at_entry := (the_handler s, the_core s)\<rparr>))"
| no_thread: "requester s t = Entered \<Longrightarrow> \<not> eh_handler_thread (the_handler s) \<Longrightarrow>
    hand_step w q s (move t (Outside (Some False)) (s\<lparr>section_owner := None\<rparr>))"
| fill: "requester s t = Entered \<Longrightarrow> eh_handler_thread (the_handler s) \<Longrightarrow>
    hand_step w q s (move t Filled (s\<lparr>the_handler := (the_handler s)\<lparr>eh_requesting_thread_id := thread_number q t,
      eh_exception_info := asked_exinfo q t, eh_assertion := asked_assertion q t\<rparr>\<rparr>))"
| signal: "requester s t = Filled \<Longrightarrow>
    hand_step w q s (move t Waiting (s\<lparr>start_count := released (start_count s)\<rparr>))"
| handler_wakes: "handler_pc s = HWait \<Longrightarrow> 0 < start_count s \<Longrightarrow> eh_handler_thread (the_handler s) \<Longrightarrow>
    hand_step w q s (s\<lparr>start_count := start_count s - 1, handler_pc := HWoken\<rparr>)"
| handler_works: "handler_pc s = HWoken \<Longrightarrow>
    WriteMinidumpWithException w (eh_requesting_thread_id (the_handler s)) (eh_exception_info (the_handler s))
      (eh_assertion (the_handler s)) (the_handler s) (the_core s) = Returns (ok, h, k) \<Longrightarrow>
    hand_step w q s (s\<lparr>return_value := ok, the_handler := h, the_core := k, handler_pc := HDone\<rparr>)"
| handler_finishes: "handler_pc s = HDone \<Longrightarrow>
    hand_step w q s (s\<lparr>finish_count := released (finish_count s), handler_pc := HWait\<rparr>)"
| wake: "requester s t = Waiting \<Longrightarrow> 0 < finish_count s \<Longrightarrow>
    hand_step w q s (move t Woken (s\<lparr>finish_count := finish_count s - 1\<rparr>))"
| collect: "requester s t = Woken \<Longrightarrow> hand_step w q s (move t (Collected (return_value s)) s)"
| leave: "requester s t = Collected b \<Longrightarrow>
    hand_step w q s (move t (Outside (Some b)) (s\<lparr>section_owner := None, the_handler := (the_handler s)\<lparr>
      eh_requesting_thread_id := 0, eh_exception_info := None, eh_assertion := None\<rparr>\<rparr>))"

definition idle_hand_over :: "handler \<Rightarrow> core \<Rightarrow> hand_over" where
  "idle_hand_over h k = \<lparr>section_owner = None, start_count = 0, finish_count = 0, the_handler = h, the_core = k,
     return_value = False, handler_pc = HWait, requester = (\<lambda>_. Outside None), at_entry = (h, k)\<rparr>"

inductive hand_reachable :: "windows \<Rightarrow> asking \<Rightarrow> hand_over \<Rightarrow> bool" for w q where
  init: "eh_client h = None \<Longrightarrow> hand_reachable w q (idle_hand_over h k)"
| step: "hand_reachable w q s \<Longrightarrow> hand_step w q s s' \<Longrightarrow> hand_reachable w q s'"

text \<open>The call as the requesting thread sees it.\<close>

definition as_thread :: "windows \<Rightarrow> asking \<Rightarrow> nat \<Rightarrow> windows" where
  "as_thread w q t = w\<lparr>client_calls := (client_calls w)\<lparr>current_thread_id := thread_number q t\<rparr>\<rparr>"

definition sequential_call :: "windows \<Rightarrow> asking \<Rightarrow> nat \<Rightarrow> handler \<Rightarrow> core \<Rightarrow> (bool \<times> handler \<times> core) exec" where
  "sequential_call w q t h k = WriteMinidumpOnHandlerThread (as_thread w q t) (asked_exinfo q t) (asked_assertion q t) h k"

section \<open>Invariant\<close>

text \<open>The phase of the call that is under way: the owner's place, the handler thread's place and the two counts. In each
  phase the shared state is what the statements up to it make of the state at the entry.\<close>

definition filled :: "asking \<Rightarrow> nat \<Rightarrow> handler \<Rightarrow> handler" where
  "filled q t h = h\<lparr>eh_requesting_thread_id := thread_number q t, eh_exception_info := asked_exinfo q t,
     eh_assertion := asked_assertion q t\<rparr>"

definition worked :: "windows \<Rightarrow> asking \<Rightarrow> nat \<Rightarrow> handler \<times> core \<Rightarrow> bool \<Rightarrow> handler \<Rightarrow> core \<Rightarrow> bool" where
  "worked w q t e ok h k \<longleftrightarrow> eh_handler_thread (fst e) \<and>
     WriteMinidumpWithException w (thread_number q t) (asked_exinfo q t) (asked_assertion q t)
       (filled q t (fst e)) (snd e) = Returns (ok, h, k)"

fun phase :: "windows \<Rightarrow> asking \<Rightarrow> hand_over \<Rightarrow> nat \<Rightarrow> requester_pc \<Rightarrow> handler_pc \<Rightarrow> bool" where
  "phase w q s t Entered HWait \<longleftrightarrow> start_count s = 0 \<and> finish_count s = 0 \<and>
     the_handler s = fst (at_entry s) \<and> the_core s = snd (at_entry s)"
| "phase w q s t Filled HWait \<longleftrightarrow> start_count s = 0 \<and> finish_count s = 0 \<and> eh_handler_thread (fst (at_entry s)) \<and>
     the_handler s = filled q t (fst (at_entry s)) \<and> the_core s = snd (at_entry s)"
| "phase w q s t Waiting HWait \<longleftrightarrow>
     start_count s = 1 \<and> finish_count s = 0 \<and> eh_handler_thread (fst (at_entry s)) \<and>
       the_handler s = filled q t (fst (at_entry s)) \<and> the_core s = snd (at_entry s) \<or>
     start_count s = 0 \<and> finish_count s = 1 \<and> worked w q t (at_entry s) (return_value s) (the_handler s) (the_core s)"
| "phase w q s t Waiting HWoken \<longleftrightarrow> start_count s = 0 \<and> finish_count s = 0 \<and> eh_handler_thread (fst (at_entry s)) \<and>
     the_handler s = filled q t (fst (at_entry s)) \<and> the_core s = snd (at_entry s)"
| "phase w q s t Waiting HDone \<longleftrightarrow> start_count s = 0 \<and> finish_count s = 0 \<and>
     worked w q t (at_entry s) (return_value s) (the_handler s) (the_core s)"
| "phase w q s t Woken HWait \<longleftrightarrow> start_count s = 0 \<and> finish_count s = 0 \<and>
     worked w q t (at_entry s) (return_value s) (the_handler s) (the_core s)"
| "phase w q s t (Collected b) HWait \<longleftrightarrow> start_count s = 0 \<and> finish_count s = 0 \<and>
     worked w q t (at_entry s) b (the_handler s) (the_core s)"
| "phase w q s t _ _ \<longleftrightarrow> False"

definition is_outside :: "requester_pc \<Rightarrow> bool" where
  "is_outside pc \<longleftrightarrow> (\<exists>b. pc = Outside b)"

definition hand_inv :: "windows \<Rightarrow> asking \<Rightarrow> hand_over \<Rightarrow> bool" where
  "hand_inv w q s \<longleftrightarrow> eh_client (the_handler s) = None \<and> eh_client (fst (at_entry s)) = None \<and>
     (case section_owner s of
        None \<Rightarrow> (\<forall>t. is_outside (requester s t)) \<and> start_count s = 0 \<and> finish_count s = 0 \<and> handler_pc s = HWait
      | Some t \<Rightarrow> (\<forall>t'. t' \<noteq> t \<longrightarrow> is_outside (requester s t')) \<and> phase w q s t (requester s t) (handler_pc s))"

lemma WriteMinidumpWithException_client:
  assumes "WriteMinidumpWithException w t ex a h k = Returns (ok, h', k')" "eh_client h = None"
  shows "eh_client h' = None \<and> eh_handler_thread h' = eh_handler_thread h"
  using assms
  by (auto simp: WriteMinidumpWithException_def WriteMinidumpWithExceptionForProcess_def exec_bind_Returns_iff Let_def
      split: if_split_asm list.split_asm)

lemma filled_sel [simp]: "eh_client (filled q t h) = eh_client h" "eh_handler_thread (filled q t h) = eh_handler_thread h"
  "eh_requesting_thread_id (filled q t h) = thread_number q t" "eh_exception_info (filled q t h) = asked_exinfo q t"
  "eh_assertion (filled q t h) = asked_assertion q t"
  by (simp_all add: filled_def)

lemma hand_inv_inside:
  assumes "hand_inv w q s" "\<not> is_outside (requester s t)"
  shows "section_owner s = Some t \<and> phase w q s t (requester s t) (handler_pc s)"
proof (cases "section_owner s")
  case (Some t')
  then have "t = t'" using assms by (auto simp: hand_inv_def)
  then show ?thesis using assms(1) Some by (simp add: hand_inv_def)
qed (use assms in \<open>simp add: hand_inv_def\<close>)

lemma hand_inv_handler:
  assumes "hand_inv w q s" "handler_pc s \<noteq> HWait \<or> 0 < start_count s"
  obtains t where "section_owner s = Some t" "phase w q s t (requester s t) (handler_pc s)"
  using assms by (auto simp: hand_inv_def split: option.split_asm)

lemma is_outside_simps [simp]: "is_outside (Outside b)" "\<not> is_outside Entered" "\<not> is_outside Filled"
  "\<not> is_outside Waiting" "\<not> is_outside Woken" "\<not> is_outside (Collected c)"
  by (simp_all add: is_outside_def)

text \<open>The phases that a place of the owner or of the handler thread allows.\<close>

lemma phase_requester:
  "phase w q s t Entered p \<Longrightarrow> p = HWait" "phase w q s t Filled p \<Longrightarrow> p = HWait" "phase w q s t Woken p \<Longrightarrow> p = HWait"
  "phase w q s t (Collected b) p \<Longrightarrow> p = HWait" "phase w q s t Waiting p \<Longrightarrow> 0 < finish_count s \<Longrightarrow> p = HWait"
  by (cases p; simp)+

lemma phase_handler:
  "phase w q s t r HWoken \<Longrightarrow> r = Waiting" "phase w q s t r HDone \<Longrightarrow> r = Waiting"
  "phase w q s t r HWait \<Longrightarrow> 0 < start_count s \<Longrightarrow> r = Waiting"
  by (cases r; simp)+

lemma worked_client:
  "worked w q t e ok h k \<Longrightarrow> eh_client (fst e) = None \<Longrightarrow> eh_client h = None"
  using WriteMinidumpWithException_client by (fastforce simp: worked_def)

lemma hand_step_inv:
  assumes "hand_step w q s s'" "hand_inv w q s"
  shows "hand_inv w q s'"
  using assms
proof (cases rule: hand_step.cases)
  case (enter t b)
  then show ?thesis using assms(2) by (simp add: hand_inv_def move_def split: option.split_asm)
next
  case (no_thread t)
  then have "section_owner s = Some t \<and> phase w q s t Entered (handler_pc s)" using hand_inv_inside [OF assms(2), of t] by simp
  with no_thread show ?thesis using assms(2) phase_requester(1) by (fastforce simp: hand_inv_def move_def)
next
  case (fill t)
  then have p: "section_owner s = Some t \<and> phase w q s t Entered (handler_pc s)" using hand_inv_inside [OF assms(2), of t] by simp
  then have "handler_pc s = HWait" using phase_requester(1) by blast
  with p fill show ?thesis using assms(2) by (auto simp: hand_inv_def move_def filled_def)
next
  case (signal t)
  then have p: "section_owner s = Some t \<and> phase w q s t Filled (handler_pc s)" using hand_inv_inside [OF assms(2), of t] by simp
  then have "handler_pc s = HWait" using phase_requester(2) by blast
  with p signal show ?thesis using assms(2) by (auto simp: hand_inv_def move_def released_def)
next
  case handler_wakes
  then obtain t where p: "section_owner s = Some t" "phase w q s t (requester s t) HWait"
    using hand_inv_handler [OF assms(2)] by metis
  then have "requester s t = Waiting" using phase_handler(3) handler_wakes by blast
  with p handler_wakes show ?thesis using assms(2) by (auto simp: hand_inv_def)
next
  case (handler_works ok h k)
  then obtain t where p: "section_owner s = Some t" "phase w q s t (requester s t) HWoken"
    using hand_inv_handler [OF assms(2)] by (metis handler_pc.distinct(1))
  then have r: "requester s t = Waiting" using phase_handler(1) by blast
  then have wk: "worked w q t (at_entry s) ok h k" using p handler_works by (simp add: worked_def)
  then have "eh_client h = None" using worked_client assms(2) by (auto simp: hand_inv_def)
  with p r wk handler_works show ?thesis using assms(2) by (simp add: hand_inv_def)
next
  case handler_finishes
  then obtain t where p: "section_owner s = Some t" "phase w q s t (requester s t) HDone"
    using hand_inv_handler [OF assms(2)] by (metis handler_pc.distinct(3))
  then have "requester s t = Waiting" using phase_handler(2) by blast
  with p handler_finishes show ?thesis using assms(2) by (simp add: hand_inv_def released_def)
next
  case (wake t)
  then have p: "section_owner s = Some t \<and> phase w q s t Waiting (handler_pc s)" using hand_inv_inside [OF assms(2), of t] by simp
  then have "handler_pc s = HWait" using phase_requester(5) wake by blast
  with p wake show ?thesis using assms(2) by (auto simp: hand_inv_def move_def)
next
  case (collect t)
  then have p: "section_owner s = Some t \<and> phase w q s t Woken (handler_pc s)" using hand_inv_inside [OF assms(2), of t] by simp
  then have "handler_pc s = HWait" using phase_requester(3) by blast
  with p collect show ?thesis using assms(2) by (auto simp: hand_inv_def move_def)
next
  case (leave t b)
  then have p: "section_owner s = Some t \<and> phase w q s t (Collected b) (handler_pc s)" using hand_inv_inside [OF assms(2), of t] by simp
  then have "handler_pc s = HWait" using phase_requester(4) by blast
  with p leave show ?thesis using assms(2) by (auto simp: hand_inv_def move_def)
qed

lemma hand_reachable_inv: "hand_reachable w q s \<Longrightarrow> hand_inv w q s"
proof (induction rule: hand_reachable.induct)
  case (init h k)
  then show ?case by (simp add: hand_inv_def idle_hand_over_def)
qed (rule hand_step_inv)

section \<open>Every call is atomic and ends\<close>

lemma as_thread_sel [simp]: "handler_thread_id (as_thread w q t) = handler_thread_id w"
  "ok_create_file (as_thread w q t) = ok_create_file w" "write_dump_result (as_thread w q t) = write_dump_result w"
  "instruction_memory (as_thread w q t) = instruction_memory w"
  by (simp_all add: as_thread_def instruction_memory_def fun_eq_iff)

lemma WriteMinidumpWithExceptionForProcess_as_thread:
  "WriteMinidumpWithExceptionForProcess (as_thread w q t) = WriteMinidumpWithExceptionForProcess w"
  unfolding fun_eq_iff WriteMinidumpWithExceptionForProcess_def as_thread_sel by blast

lemma WriteMinidumpWithException_as_thread:
  "eh_client h = None \<Longrightarrow> WriteMinidumpWithException (as_thread w q t) n ex a h k = WriteMinidumpWithException w n ex a h k"
  by (simp add: WriteMinidumpWithException_def WriteMinidumpWithExceptionForProcess_as_thread)

lemma worked_sequential:
  assumes "worked w q t e b h k" "eh_client (fst e) = None"
  shows "sequential_call w q t (fst e) (snd e) =
    Returns (b, h\<lparr>eh_requesting_thread_id := 0, eh_exception_info := None, eh_assertion := None\<rparr>, k)"
proof -
  have "current_thread_id (client_calls (as_thread w q t)) = thread_number q t" by (simp add: as_thread_def)
  then show ?thesis
    using assms
    by (simp add: sequential_call_def WriteMinidumpOnHandlerThread_def worked_def filled_def Let_def
        WriteMinidumpWithException_as_thread)
qed

lemma leaving_step:
  assumes "hand_step w q s s'" "hand_inv w q s" "section_owner s = Some t" "section_owner s' = None"
  shows "\<exists>b. requester s' t = Outside (Some b) \<and>
    sequential_call w q t (fst (at_entry s)) (snd (at_entry s)) = Returns (b, the_handler s', the_core s')"
  using assms(1)
proof (cases rule: hand_step.cases)
  case (no_thread t')
  then have p: "section_owner s = Some t'" "phase w q s t' Entered (handler_pc s)"
    using hand_inv_inside [OF assms(2), of t'] by auto
  then have "handler_pc s = HWait" "t' = t" using phase_requester(1) assms(3) by auto
  then show ?thesis
    using no_thread p by (intro exI [of _ False]) (simp add: move_def sequential_call_def WriteMinidumpOnHandlerThread_def)
next
  case (leave t' b)
  then have p: "section_owner s = Some t'" "phase w q s t' (Collected b) (handler_pc s)"
    using hand_inv_inside [OF assms(2), of t'] by auto
  then have "handler_pc s = HWait" "t' = t" using phase_requester(4) assms(3) by auto
  then show ?thesis
    using leave p worked_sequential [of w q t "at_entry s" b] assms(2) by (simp add: move_def hand_inv_def)
qed (use assms(3,4) in \<open>simp_all add: move_def\<close>)

text \<open>C31. The hand-over to the handler thread is atomic: in every interleaving of any number of requesting threads with the
  handler thread, when a thread leaves the critical section, its call returns what
  \<open>WriteMinidumpOnHandlerThread\<close> returns for its own request in the state in which it had entered, and the handler and the
  dumps are as that call leaves them.\<close>

theorem handler_thread_atomic:
  assumes "hand_reachable w q s" "hand_step w q s s'" "section_owner s = Some t" "section_owner s' = None"
  shows "\<exists>b. requester s' t = Outside (Some b) \<and>
    sequential_call w q t (fst (at_entry s)) (snd (at_entry s)) = Returns (b, the_handler s', the_core s')"
  by (rule leaving_step [OF assms(2) hand_reachable_inv [OF assms(1)] assms(3,4)])

text \<open>How many steps the call that is under way still takes.\<close>

definition remaining :: "hand_over \<Rightarrow> nat" where
  "remaining s =
     (case section_owner s of
        None \<Rightarrow> 0
      | Some t \<Rightarrow>
          (case requester s t of
             Outside _ \<Rightarrow> 0 | Entered \<Rightarrow> 8 | Filled \<Rightarrow> 7
           | Waiting \<Rightarrow> (if 0 < start_count s then 6
                        else case handler_pc s of HWoken \<Rightarrow> 5 | HDone \<Rightarrow> 4 | HWait \<Rightarrow> 3)
           | Woken \<Rightarrow> 2 | Collected _ \<Rightarrow> 1))"

lemma WriteMinidumpWithException_defined:
  assumes "eh_client h = None" "eh_app_memory_info h \<noteq> []"
  shows "\<exists>r. WriteMinidumpWithException w n ex a h k = Returns r"
proof -
  have "\<exists>r. WriteMinidumpWithExceptionForProcess w n ex a True h k = Returns r"
    using assms(2) by (auto simp: WriteMinidumpWithExceptionForProcess_def Let_def neq_Nil_conv)
  then show ?thesis using assms(1) by (auto simp: WriteMinidumpWithException_def)
qed

lemma can_step:
  assumes inv: "hand_inv w q s" and o: "section_owner s = Some t" and m: "eh_app_memory_info (the_handler s) \<noteq> []"
  shows "\<exists>s'. hand_step w q s s'"
proof -
  have p: "phase w q s t (requester s t) (handler_pc s)" and c: "eh_client (the_handler s) = None"
    using inv o by (simp_all add: hand_inv_def)
  show ?thesis
  proof (cases "requester s t")
    case (Outside b)
    then show ?thesis using p by simp
  next
    case Entered
    then show ?thesis using hand_step.no_thread hand_step.fill by blast
  next
    case Filled
    then show ?thesis using hand_step.signal by blast
  next
    case Waiting
    show ?thesis
    proof (cases "handler_pc s")
      case HWait
      then have "0 < start_count s \<and> eh_handler_thread (the_handler s) \<or> 0 < finish_count s" using p Waiting by auto
      then show ?thesis using HWait Waiting hand_step.handler_wakes hand_step.wake by blast
    next
      case HWoken
      then show ?thesis
        using WriteMinidumpWithException_defined [OF c m] hand_step.handler_works by (metis prod_cases3)
    next
      case HDone
      then show ?thesis using hand_step.handler_finishes by blast
    qed
  next
    case Woken
    then show ?thesis using hand_step.collect by blast
  next
    case (Collected b)
    then show ?thesis using hand_step.leave by blast
  qed
qed

lemma step_decreases:
  assumes "hand_step w q s s'" "hand_inv w q s" "section_owner s = Some t"
  shows "remaining s' < remaining s"
proof -
  have own: "t' = t" if "\<not> is_outside (requester s t')" for t'
    using hand_inv_inside [OF assms(2) that] assms(3) by simp
  have p: "phase w q s t (requester s t) (handler_pc s)" using assms(2,3) by (simp add: hand_inv_def)
  note simps = remaining_def move_def released_def assms(3)
  show ?thesis
    using assms(1)
  proof (cases rule: hand_step.cases)
    case (no_thread t')
    then show ?thesis using own [of t'] by (simp add: simps)
  next
    case (fill t')
    then show ?thesis using own [of t'] by (simp add: simps)
  next
    case (signal t')
    then show ?thesis using own [of t'] by (simp add: simps)
  next
    case handler_wakes
    then have "requester s t = Waiting" using p phase_handler(3) by fastforce
    then show ?thesis using handler_wakes p by (auto simp: simps)
  next
    case (handler_works ok h k)
    then have "requester s t = Waiting" using p phase_handler(1) by fastforce
    then show ?thesis using handler_works p by (auto simp: simps)
  next
    case handler_finishes
    then have "requester s t = Waiting" using p phase_handler(2) by fastforce
    then show ?thesis using handler_finishes p by (auto simp: simps)
  next
    case (wake t')
    then show ?thesis using own [of t'] by (simp add: simps split: handler_pc.split)
  next
    case (collect t')
    then show ?thesis using own [of t'] by (simp add: simps)
  next
    case (leave t' b)
    then show ?thesis using own [of t'] by (simp add: simps)
  qed (use assms(3) in simp)
qed

text \<open>C32. No request waits for ever: while a thread is in the critical section, some step is always possible, every
  step that any thread can take brings that call nearer to its end, and it ends after at most eight of them. The only
  condition is that the list of memory regions still has its reserved element.\<close>

theorem handler_thread_progress:
  assumes "hand_reachable w q s" "section_owner s = Some t" "eh_app_memory_info (the_handler s) \<noteq> []"
  shows "(\<exists>s'. hand_step w q s s') \<and> (\<forall>s'. hand_step w q s s' \<longrightarrow> remaining s' < remaining s) \<and>
    remaining s \<le> 8"
proof -
  have inv: "hand_inv w q s" by (rule hand_reachable_inv [OF assms(1)])
  have "remaining s \<le> 8" by (auto simp: remaining_def split: option.split requester_pc.split handler_pc.split)
  then show ?thesis using can_step [OF inv assms(2,3)] step_decreases [OF _ inv assms(2)] by blast
qed

section \<open>A concrete call\<close>

definition sample_asking :: asking where
  "sample_asking = \<lparr>thread_number = of_nat, asked_exinfo = (\<lambda>_. Some sample_exception), asked_assertion = (\<lambda>_. None)\<rparr>"

definition declining_handler :: handler where
  "declining_handler = sample_handler (Some (\<lambda>_ _. False)) None"

lemma declining_handler_sel: "eh_client declining_handler = None" "eh_handler_thread declining_handler"
  "eh_filter declining_handler = Some (\<lambda>_ _. False)" "eh_app_memory_info declining_handler \<noteq> []"
  by (simp_all add: declining_handler_def sample_handler_def blank_handler_def)

abbreviation quiet_start :: hand_over where
  "quiet_start \<equiv> idle_hand_over declining_handler (core_state no_handlers)"

definition waiting_state :: hand_over where
  "waiting_state = quiet_start\<lparr>section_owner := Some 7, start_count := 1, requester := (requester quiet_start)(7 := Waiting),
     the_handler := filled sample_asking 7 declining_handler\<rparr>"

lemma waiting_state_reachable: "hand_reachable sample_windows sample_asking waiting_state"
proof -
  let ?R = "hand_reachable sample_windows sample_asking"
  define s1 where "s1 = move 7 Entered (quiet_start\<lparr>section_owner := Some 7,
    at_entry := (the_handler quiet_start, the_core quiet_start)\<rparr>)"
  define s2 where "s2 = move 7 Filled (s1\<lparr>the_handler := filled sample_asking 7 (the_handler s1)\<rparr>)"
  have "?R quiet_start" by (rule hand_reachable.init) (rule declining_handler_sel)
  then have 1: "?R s1"
    unfolding s1_def by (rule hand_reachable.step) (rule hand_step.enter, simp_all add: idle_hand_over_def)
  have 2: "?R s2"
    unfolding s2_def filled_def
    by (rule hand_reachable.step [OF 1], rule hand_step.fill)
      (simp_all add: s1_def move_def idle_hand_over_def declining_handler_sel)
  have "?R (move 7 Waiting (s2\<lparr>start_count := released (start_count s2)\<rparr>))"
    by (rule hand_reachable.step [OF 2], rule hand_step.signal) (simp add: s2_def move_def)
  moreover have "move 7 Waiting (s2\<lparr>start_count := released (start_count s2)\<rparr>) = waiting_state"
    by (simp add: s2_def s1_def move_def waiting_state_def idle_hand_over_def released_def)
  ultimately show ?thesis by simp
qed

theorem handler_thread_progress_witness:
  "\<exists>s'. hand_step sample_windows sample_asking waiting_state s' \<and> remaining s' < 6"
proof -
  have o: "section_owner waiting_state = Some 7" "eh_app_memory_info (the_handler waiting_state) \<noteq> []"
    "remaining waiting_state = 6"
    using declining_handler_sel by (simp_all add: waiting_state_def filled_def remaining_def)
  show ?thesis using handler_thread_progress [OF waiting_state_reachable o(1,2)] o(3) by auto
qed

definition collected_state :: hand_over where
  "collected_state = waiting_state\<lparr>start_count := 0, requester := (requester waiting_state)(7 := Collected False)\<rparr>"

lemma collected_state_reachable: "hand_reachable sample_windows sample_asking collected_state"
proof -
  let ?R = "hand_reachable sample_windows sample_asking"
  let ?h = "filled sample_asking 7 declining_handler"
  define s1 where "s1 = waiting_state\<lparr>start_count := 0, handler_pc := HWoken\<rparr>"
  define s2 where "s2 = s1\<lparr>return_value := False, the_handler := ?h, the_core := the_core s1, handler_pc := HDone\<rparr>"
  define s3 where "s3 = s2\<lparr>finish_count := 1, handler_pc := HWait\<rparr>"
  define s4 where "s4 = move 7 Woken (s3\<lparr>finish_count := 0\<rparr>)"
  have w: "the_handler waiting_state = ?h" "handler_pc waiting_state = HWait" "start_count waiting_state = 1"
    "requester waiting_state 7 = Waiting" "return_value waiting_state = False" "finish_count waiting_state = 0"
    by (simp_all add: waiting_state_def idle_hand_over_def)
  have f: "eh_filter ?h = Some (\<lambda>_ _. False)" by (simp add: filled_def declining_handler_sel)
  have 1: "?R s1"
    using hand_reachable.step [OF waiting_state_reachable hand_step.handler_wakes] w declining_handler_sel(2)
    by (simp add: s1_def)
  have "?R s2"
    unfolding s2_def
    by (rule hand_reachable.step [OF 1], rule hand_step.handler_works)
      (simp_all add: s1_def w WriteMinidumpWithException_def f)
  from hand_reachable.step [OF this hand_step.handler_finishes] have 3: "?R s3"
    by (simp add: s3_def s2_def s1_def w released_def)
  have 4: "?R s4"
    using hand_reachable.step [OF 3 hand_step.wake [of s3 7]] by (simp add: s4_def s3_def s2_def s1_def w)
  have "?R (move 7 (Collected (return_value s4)) s4)"
    by (rule hand_reachable.step [OF 4 hand_step.collect]) (simp add: s4_def move_def)
  moreover have "move 7 (Collected (return_value s4)) s4 = collected_state"
    using w by (cases waiting_state) (simp add: s4_def s3_def s2_def s1_def move_def collected_state_def)
  ultimately show ?thesis by simp
qed

theorem handler_thread_atomic_witness:
  "\<exists>s' b. hand_step sample_windows sample_asking collected_state s' \<and> requester s' 7 = Outside (Some b) \<and>
     sequential_call sample_windows sample_asking 7 declining_handler (core_state no_handlers) =
       Returns (b, the_handler s', the_core s')"
proof -
  have o: "section_owner collected_state = Some 7" "requester collected_state 7 = Collected False"
    "at_entry collected_state = (declining_handler, core_state no_handlers)"
    by (simp_all add: collected_state_def waiting_state_def idle_hand_over_def)
  obtain s' where st: "hand_step sample_windows sample_asking collected_state s'" "section_owner s' = None"
    by (rule that [OF hand_step.leave [OF o(2)]]) (simp add: move_def)
  show ?thesis
    using handler_thread_atomic [OF collected_state_reachable st(1) o(1) st(2)] st(1) unfolding o(3) fst_conv snd_conv
    by blast
qed

end
