(* ===== verification/Code_Modules.thy ===== *)
theory Code_Modules
  imports Range_Map
begin

text \<open>
  The list of code modules of a process (\<^verbatim>\<open>processor/basic_code_module.h\<close>,
  \<^verbatim>\<open>processor/basic_code_modules.cc\<close>): modules stored by address range in a \<open>RangeMap\<close>. A
  \<open>linked_ptr\<close> to a module is the module itself: two modules that are stored are different objects exactly when they
  have different bases.
\<close>

record CodeModule =
  base_address :: "64 word"
  size_of :: "64 word"
  code_file :: string
  code_id :: string
  debug_file :: string
  debug_identifier :: string
  version :: string

definition CodeModule_Copy :: "CodeModule \<Rightarrow> CodeModule" where
  "CodeModule_Copy that =
     \<lparr>base_address = base_address that, size_of = size_of that, code_file = code_file that,
      code_id = code_id that, debug_file = debug_file that,
      debug_identifier = debug_identifier that, version = version that\<rparr>"

lemma CodeModule_Copy_id [simp]: "CodeModule_Copy m = m"
  by (simp add: CodeModule_Copy_def)

record BasicCodeModules =
  main_address :: "64 word"
  range_map :: "(64, CodeModule) RangeMap"

definition BasicCodeModules_empty :: BasicCodeModules where
  "BasicCodeModules_empty = \<lparr>main_address = 0, range_map = []\<rparr>"

text \<open>The copying constructor, given the main module and the modules of the other object in the order of their
  index. A module that does not fit into the map is left out.\<close>

fun store_modules :: "CodeModule list \<Rightarrow> (64, CodeModule) RangeMap \<Rightarrow> (64, CodeModule) RangeMap" where
  "store_modules [] m = m"
| "store_modules (x # xs) m =
     (let module = CodeModule_Copy x
      in store_modules xs (snd (RangeMap_StoreRange m (base_address module) (size_of module) module)))"

definition BasicCodeModules_new :: "CodeModule option \<Rightarrow> CodeModule list \<Rightarrow> BasicCodeModules" where
  "BasicCodeModules_new main_module mods =
     \<lparr>main_address = (case main_module of Some m \<Rightarrow> base_address m | None \<Rightarrow> 0), range_map = store_modules mods []\<rparr>"

definition module_count :: "BasicCodeModules \<Rightarrow> int" where
  "module_count c = RangeMap_GetCount (range_map c)"

definition GetModuleForAddress :: "BasicCodeModules \<Rightarrow> 64 word \<Rightarrow> CodeModule option" where
  "GetModuleForAddress c address = map_option fst (RangeMap_RetrieveRange (range_map c) address)"

definition GetMainModule :: "BasicCodeModules \<Rightarrow> CodeModule option" where
  "GetMainModule c = GetModuleForAddress c (main_address c)"

text \<open>The unsigned sequence number becomes a signed index.\<close>

definition GetModuleAtSequence :: "BasicCodeModules \<Rightarrow> 32 word \<Rightarrow> CodeModule option exec" where
  "GetModuleAtSequence c sequence =
     exec_bind (RangeMap_RetrieveRangeAtIndex (range_map c) (sint sequence)) (\<lambda>r. Returns (map_option fst r))"

definition GetModuleAtIndex :: "BasicCodeModules \<Rightarrow> 32 word \<Rightarrow> CodeModule option exec" where
  "GetModuleAtIndex c index = GetModuleAtSequence c index"

text \<open>The modules that the constructor's loop reads from another \<open>BasicCodeModules\<close>. A null module would be
  dereferenced.\<close>

fun modules_from :: "BasicCodeModules \<Rightarrow> nat \<Rightarrow> nat \<Rightarrow> CodeModule list exec" where
  "modules_from c i 0 = Returns []"
| "modules_from c i (Suc n) =
     exec_bind (GetModuleAtIndex c (of_nat i)) (\<lambda>r.
       case r of
         None \<Rightarrow> Undefined
       | Some m \<Rightarrow> exec_bind (modules_from c (Suc i) n) (\<lambda>ms. Returns (m # ms)))"

definition BasicCodeModules_Copy :: "BasicCodeModules \<Rightarrow> BasicCodeModules exec" where
  "BasicCodeModules_Copy c =
     exec_bind (modules_from c 0 (unat (word_of_int (module_count c) :: 32 word)))
       (\<lambda>mods. Returns (BasicCodeModules_new (GetMainModule c) mods))"

section \<open>Well-formed module lists\<close>

text \<open>Every stored range is the range of its module.\<close>

definition entry_ok :: "64 word \<times> (64 word, CodeModule) Range \<Rightarrow> bool" where
  "entry_ok x \<longleftrightarrow> base_address (rentry (snd x)) = rbase (snd x) \<and> size_of (rentry (snd x)) \<noteq> 0 \<and>
     fst x = rbase (snd x) + size_of (rentry (snd x)) - 1"

definition modules_inv :: "BasicCodeModules \<Rightarrow> bool" where
  "modules_inv c \<longleftrightarrow> RangeMap_inv (range_map c) \<and> (\<forall>x\<in>set (range_map c). entry_ok x)"

lemma modules_inv_RangeMap: "modules_inv c \<Longrightarrow> RangeMap_inv (range_map c)"
  by (simp add: modules_inv_def)

lemma store_modules_inv:
  "RangeMap_inv m \<Longrightarrow> \<forall>x\<in>set m. entry_ok x \<Longrightarrow>
   RangeMap_inv (store_modules xs m) \<and> (\<forall>x\<in>set (store_modules xs m). entry_ok x)"
proof (induction xs arbitrary: m)
  case (Cons x xs)
  let ?m = "snd (RangeMap_StoreRange m (base_address x) (size_of x) x)"
  have "RangeMap_inv ?m" by (rule RangeMap_inv_StoreRange [OF Cons.prems(1)])
  moreover have "\<forall>y\<in>set ?m. entry_ok y"
    using Cons.prems RangeMap_StoreRange_list [OF Cons.prems(1), of "base_address x" "size_of x" x]
    by (cases "fst (RangeMap_StoreRange m (base_address x) (size_of x) x)")
      (auto simp: RangeMap_StoreRange_result RangeMap_StoreRange_success [OF Cons.prems(1)] entry_ok_def)
  ultimately show ?case using Cons.IH by (simp add: Let_def)
qed simp

lemma BasicCodeModules_new_inv [model_inv]: "modules_inv (BasicCodeModules_new main mods)"
  using store_modules_inv [of "[]" mods] by (simp add: modules_inv_def BasicCodeModules_new_def)

lemma GetModuleForAddress_iff:
  assumes "modules_inv c"
  shows "GetModuleForAddress c a = Some m \<longleftrightarrow>
    (\<exists>h. (base_address m, h, m) \<in> RangeMap_ranges (range_map c) \<and> base_address m \<le> a \<and> a \<le> h)"
proof -
  have "GetModuleForAddress c a = Some m \<longleftrightarrow>
      (\<exists>b h. (b, h, m) \<in> RangeMap_ranges (range_map c) \<and> b \<le> a \<and> a \<le> h)"
  proof
    assume "GetModuleForAddress c a = Some m"
    then obtain b s where r: "RangeMap_RetrieveRange (range_map c) a = Some (m, b, s)"
      by (auto simp: GetModuleForAddress_def)
    then show "\<exists>b h. (b, h, m) \<in> RangeMap_ranges (range_map c) \<and> b \<le> a \<and> a \<le> h"
      by (auto simp: rm.retrieve_some [OF modules_inv_RangeMap [OF assms]])
  next
    assume "\<exists>b h. (b, h, m) \<in> RangeMap_ranges (range_map c) \<and> b \<le> a \<and> a \<le> h"
    then obtain b h where "(b, h, m) \<in> RangeMap_ranges (range_map c)" "b \<le> a" "a \<le> h" by blast
    then show "GetModuleForAddress c a = Some m"
      using rm.retrieve_inside [OF modules_inv_RangeMap [OF assms]] by (auto simp: GetModuleForAddress_def)
  qed
  also have "\<dots> \<longleftrightarrow> (\<exists>h. (base_address m, h, m) \<in> RangeMap_ranges (range_map c) \<and> base_address m \<le> a \<and> a \<le> h)"
    using assms by (fastforce simp: RangeMap_ranges_def modules_inv_def entry_ok_def)
  finally show ?thesis .
qed

text \<open>Storing the modules of a map in ascending order rebuilds the map.\<close>

lemma store_modules_ascending:
  "RangeMap_inv (xs @ ys) \<Longrightarrow> \<forall>x\<in>set ys. entry_ok x \<Longrightarrow> store_modules (map (rentry \<circ> snd) ys) xs = xs @ ys"
proof (induction ys arbitrary: xs)
  case (Cons y ys)
  let ?e = "rentry (snd y)"
  have y: "base_address ?e = rbase (snd y)" "rbase (snd y) + size_of ?e - 1 = fst y" "rbase (snd y) \<le> fst y"
    and nz: "size_of ?e \<noteq> 0"
    using Cons.prems RangeMap_inv_base [OF Cons.prems(1), of y] by (auto simp: entry_ok_def)
  have xs: "RangeMap_inv xs" "\<forall>x\<in>set xs. fst x < rbase (snd y)"
    using Cons.prems(1) by (auto simp: RangeMap_inv_def sorted_wrt_append)
  have apart: "\<forall>x\<in>set xs. fst x < rbase (snd y) \<or> fst y < rbase (snd x)" using xs(2) by blast
  have "fst (RangeMap_StoreRange xs (rbase (snd y)) (size_of ?e) ?e)"
    unfolding RangeMap_StoreRange_success [OF xs(1)] using y apart nz by simp
  note l = RangeMap_StoreRange_list(1) [OF xs(1) this, unfolded y(2)]
  have "filter (\<lambda>x. fst x < fst y) xs = xs" "filter (\<lambda>x. fst y < fst x) xs = []"
    using xs(2) y(3) by (auto simp: filter_id_conv filter_empty_conv not_less intro: less_le_trans less_imp_le)
  then have "snd (RangeMap_StoreRange xs (base_address ?e) (size_of ?e) ?e) = xs @ [y]"
    unfolding y(1) l by (cases y; cases "snd y") simp
  then show ?case using Cons.IH [of "xs @ [y]"] Cons.prems by (simp add: Let_def)
qed simp


lemma GetModuleAtIndex_nth:
  assumes "length (range_map c) < 2 ^ 31" "i < length (range_map c)"
  shows "GetModuleAtIndex c (of_nat i) = Returns (Some (rentry (snd (range_map c ! i))))"
proof -
  have "RangeMap_GetCount (range_map c) = int (length (range_map c))" "sint (of_nat i :: 32 word) = int i"
    using assms by (simp_all add: RangeMap_GetCount_def signed_of_nat signed_take_bit_int_eq_self)
  then show ?thesis
    using assms(2)
    by (auto simp: GetModuleAtIndex_def GetModuleAtSequence_def RangeMap_RetrieveRangeAtIndex_def RangeMap_hit_def)
qed

lemma modules_from_drop:
  "length (range_map c) < 2 ^ 31 \<Longrightarrow> i + n = length (range_map c) \<Longrightarrow>
   modules_from c i n = Returns (map (rentry \<circ> snd) (drop i (range_map c)))"
proof (induction n arbitrary: i)
  case (Suc n)
  then have "i < length (range_map c)" by simp
  then show ?case using Suc by (simp add: GetModuleAtIndex_nth Cons_nth_drop_Suc [symmetric])
qed simp

text \<open>Copying a module list gives a list with the same modules at the same addresses, and with the same main
  module whenever the original has one.\<close>

theorem BasicCodeModules_Copy_same:
  assumes "modules_inv c" "length (range_map c) < 2 ^ 31"
  shows "\<exists>c'. BasicCodeModules_Copy c = Returns c' \<and> modules_inv c' \<and>
    GetModuleForAddress c' = GetModuleForAddress c \<and>
    (case GetMainModule c of None \<Rightarrow> main_address c' = 0 | Some m \<Rightarrow> GetMainModule c' = Some m)"
proof -
  have "unat (word_of_int (module_count c) :: 32 word) = length (range_map c)"
    using assms(2)
    by (simp add: module_count_def RangeMap_GetCount_def signed_of_nat signed_take_bit_int_eq_self unat_of_nat take_bit_nat_eq_self)
  then have copy: "BasicCodeModules_Copy c =
      Returns (BasicCodeModules_new (GetMainModule c) (map (rentry \<circ> snd) (range_map c)))"
    using modules_from_drop [OF assms(2), of 0] by (simp add: BasicCodeModules_Copy_def)
  let ?c' = "BasicCodeModules_new (GetMainModule c) (map (rentry \<circ> snd) (range_map c))"
  have same: "range_map ?c' = range_map c"
    using store_modules_ascending [of "[]" "range_map c"] assms(1) by (simp add: BasicCodeModules_new_def modules_inv_def)
  then have look: "GetModuleForAddress ?c' = GetModuleForAddress c" by (simp add: GetModuleForAddress_def fun_eq_iff)
  have "case GetMainModule c of None \<Rightarrow> main_address ?c' = 0 | Some m \<Rightarrow> GetMainModule ?c' = Some m"
  proof (cases "GetMainModule c")
    case None
    then show ?thesis by (simp add: BasicCodeModules_new_def)
  next
    case (Some m)
    then obtain h where h: "(base_address m, h, m) \<in> RangeMap_ranges (range_map c)" "base_address m \<le> h"
      unfolding GetMainModule_def GetModuleForAddress_iff [OF assms(1)] by (auto intro: order_trans)
    then have "GetModuleForAddress c (base_address m) = Some m"
      unfolding GetModuleForAddress_iff [OF assms(1)] by blast
    moreover have "main_address ?c' = base_address m" by (simp add: BasicCodeModules_new_def Some)
    ultimately have "GetMainModule ?c' = Some m" using look by (simp add: GetMainModule_def [of ?c'])
    then show ?thesis by (simp add: Some)
  qed
  then show ?thesis using copy look BasicCodeModules_new_inv by blast
qed

definition sample_code_module :: "64 word \<Rightarrow> string \<Rightarrow> CodeModule" where
  "sample_code_module b f = \<lparr>base_address = b, size_of = 16, code_file = f, code_id = [], debug_file = f,
     debug_identifier = [], version = []\<rparr>"

definition sample_modules :: BasicCodeModules where
  "sample_modules = BasicCodeModules_new (Some (sample_code_module 64 ''b''))
     [sample_code_module 64 ''b'', sample_code_module 32 ''a'']"

theorem BasicCodeModules_Copy_same_witness:
  "\<exists>c'. BasicCodeModules_Copy sample_modules = Returns c' \<and>
     GetModuleForAddress c' 40 = Some (sample_code_module 32 ''a'') \<and>
     GetMainModule c' = Some (sample_code_module 64 ''b'')"
proof -
  have m: "range_map sample_modules = [(47, \<lparr>rbase = 32, rentry = sample_code_module 32 ''a''\<rparr>),
      (79, \<lparr>rbase = 64, rentry = sample_code_module 64 ''b''\<rparr>)]" and main: "main_address sample_modules = 64"
    by (simp_all add: sample_modules_def BasicCodeModules_new_def sample_code_module_def RangeMap_StoreRange_def
        lower_bound_def omap_insert_def omap_find_def Let_def)
  have l: "GetModuleForAddress sample_modules 40 = Some (sample_code_module 32 ''a'')"
    "GetMainModule sample_modules = Some (sample_code_module 64 ''b'')"
    by (simp_all add: GetMainModule_def GetModuleForAddress_def main m RangeMap_RetrieveRange_def lower_bound_def
        RangeMap_hit_def Let_def)
  have "modules_inv sample_modules" by (simp add: sample_modules_def BasicCodeModules_new_inv)
  from BasicCodeModules_Copy_same [OF this] m l show ?thesis by auto
qed

end
