(* ===== verification/Symbolizer.thy ===== *)
theory Symbolizer
  imports Source_Line_Resolver Code_Modules
begin

text \<open>
  The modules of a source line resolver (\<^verbatim>\<open>processor/source_line_resolver_base.cc\<close>) and the symbolizer
  that loads them on demand (\<^verbatim>\<open>processor/stack_frame_symbolizer.cc\<close>). The symbol supplier and the
  file system are parameters. The maps of the resolver compare keys with \<open>strcmp\<close>, so a key is the C string of a file
  name.
\<close>

section \<open>Frames\<close>

datatype FrameTrust =
    FRAME_TRUST_NONE | FRAME_TRUST_SCAN | FRAME_TRUST_CFI_SCAN | FRAME_TRUST_FP | FRAME_TRUST_CFI
  | FRAME_TRUST_PREWALKED | FRAME_TRUST_CONTEXT

text \<open>\<open>module_base (sf f)\<close> is the base of \<open>fmodule f\<close> when there is one.\<close>

record Frame =
  sf :: StackFrame
  fmodule :: "CodeModule option"
  trust :: FrameTrust

definition StackFrame_new :: StackFrame where
  "StackFrame_new = \<lparr>instruction = 0, module_base = 0, function_name = [], function_base = 0, source_file_name = [],
     source_line = 0, source_line_base = 0\<rparr>"

section \<open>The resolver\<close>

record Resolver =
  modules :: "string \<rightharpoonup> Module"
  corrupt_modules :: "string set"
  memory_buffers :: "string set"

definition Resolver_new :: Resolver where
  "Resolver_new = \<lparr>modules = Map.empty, corrupt_modules = {}, memory_buffers = {}\<rparr>"

definition module_key :: "CodeModule \<Rightarrow> string" where
  "module_key m = c_str (code_file m)"

text \<open>\<open>fs\<close> gives the size that \<open>stat\<close> reports and what \<open>fopen\<close> and \<open>fread\<close> deliver.\<close>

definition ReadSymbolFile :: "(string \<Rightarrow> (nat \<times> string option) option) \<Rightarrow> string \<Rightarrow> string option" where
  "ReadSymbolFile fs map_file =
     (case fs map_file of
        None \<Rightarrow> None
      | Some (file_size, None) \<Rightarrow> None
      | Some (file_size, Some contents) \<Rightarrow>
          let data = take file_size contents in
          if length data \<noteq> file_size then None else Some (data @ [char_of (0 :: nat)]))"

definition HasModule :: "CodeModule option \<Rightarrow> Resolver \<Rightarrow> bool" where
  "HasModule module r = (case module of None \<Rightarrow> False | Some m \<Rightarrow> modules r (module_key m) \<noteq> None)"

definition IsModuleCorrupt :: "CodeModule option \<Rightarrow> Resolver \<Rightarrow> bool" where
  "IsModuleCorrupt module r = (case module of None \<Rightarrow> False | Some m \<Rightarrow> module_key m \<in> corrupt_modules r)"

definition LoadModuleUsingMemoryBuffer :: "CodeModule option \<Rightarrow> string \<Rightarrow> Resolver \<Rightarrow> (bool \<times> Resolver) exec" where
  "LoadModuleUsingMemoryBuffer module memory_buffer r =
     (case module of
        None \<Rightarrow> Returns (False, r)
      | Some m \<Rightarrow>
          if modules r (module_key m) \<noteq> None then Returns (False, r)
          else
            exec_bind (Module_LoadMapFromMemory memory_buffer Module_empty) (\<lambda>(ok, basic_module).
              let r = r\<lparr>modules := (modules r)(module_key m \<mapsto> basic_module)\<rparr>
              in Returns (True, if is_corrupt basic_module
                                then r\<lparr>corrupt_modules := insert (module_key m) (corrupt_modules r)\<rparr> else r)))"

text \<open>\<open>should_delete\<close> is the subclass's \<open>ShouldDeleteMemoryBufferAfterLoadModule\<close>.\<close>

definition keep_buffer :: "bool \<Rightarrow> bool \<Rightarrow> CodeModule \<Rightarrow> Resolver \<Rightarrow> Resolver" where
  "keep_buffer should_delete load_result m r =
     (if load_result \<and> \<not> should_delete then r\<lparr>memory_buffers := insert (module_key m) (memory_buffers r)\<rparr> else r)"

definition LoadModule ::
  "bool \<Rightarrow> (string \<Rightarrow> (nat \<times> string option) option) \<Rightarrow> CodeModule option \<Rightarrow> string \<Rightarrow> Resolver \<Rightarrow> (bool \<times> Resolver) exec" where
  "LoadModule should_delete fs module map_file r =
     (case module of
        None \<Rightarrow> Returns (False, r)
      | Some m \<Rightarrow>
          if modules r (module_key m) \<noteq> None then Returns (False, r)
          else (case ReadSymbolFile fs map_file of
                  None \<Rightarrow> Returns (False, r)
                | Some memory_buffer \<Rightarrow>
                    exec_bind (LoadModuleUsingMemoryBuffer module memory_buffer r) (\<lambda>(load_result, r).
                      Returns (load_result, keep_buffer should_delete load_result m r))))"

definition LoadModuleUsingMapBuffer ::
  "bool \<Rightarrow> CodeModule option \<Rightarrow> string \<Rightarrow> Resolver \<Rightarrow> (bool \<times> Resolver) exec" where
  "LoadModuleUsingMapBuffer should_delete module map_buffer r =
     (case module of
        None \<Rightarrow> Returns (False, r)
      | Some m \<Rightarrow>
          if modules r (module_key m) \<noteq> None then Returns (False, r)
          else
            exec_bind (LoadModuleUsingMemoryBuffer module (map_buffer @ [char_of (0 :: nat)]) r) (\<lambda>(load_result, r).
              Returns (load_result, keep_buffer should_delete load_result m r)))"

definition UnloadModule :: "bool \<Rightarrow> CodeModule option \<Rightarrow> Resolver \<Rightarrow> Resolver" where
  "UnloadModule should_delete code_module r =
     (case code_module of
        None \<Rightarrow> r
      | Some m \<Rightarrow>
          let r = (if modules r (module_key m) \<noteq> None
                   then r\<lparr>corrupt_modules := corrupt_modules r - {module_key m},
                          modules := (modules r)(module_key m := None)\<rparr>
                   else r)
          in if should_delete then r else r\<lparr>memory_buffers := memory_buffers r - {module_key m}\<rparr>)"

definition Resolver_FillSourceLineInfo :: "Resolver \<Rightarrow> 'z Frame_scheme \<Rightarrow> 'z Frame_scheme" where
  "Resolver_FillSourceLineInfo r frame =
     (case fmodule frame of
        None \<Rightarrow> frame
      | Some m \<Rightarrow>
          (case modules r (module_key m) of
             None \<Rightarrow> frame
           | Some symbols \<Rightarrow> frame\<lparr>sf := Module_LookupAddress symbols (sf frame)\<rparr>))"

definition Resolver_FindWindowsFrameInfo :: "Resolver \<Rightarrow> 'z Frame_scheme \<Rightarrow> WindowsFrameInfo option" where
  "Resolver_FindWindowsFrameInfo r frame =
     (case fmodule frame of
        None \<Rightarrow> None
      | Some m \<Rightarrow>
          (case modules r (module_key m) of
             None \<Rightarrow> None
           | Some symbols \<Rightarrow> Module_FindWindowsFrameInfo symbols (sf frame)))"

definition Resolver_FindCFIFrameInfo :: "Resolver \<Rightarrow> 'z Frame_scheme \<Rightarrow> CFIFrameInfo option" where
  "Resolver_FindCFIFrameInfo r frame =
     (case fmodule frame of
        None \<Rightarrow> None
      | Some m \<Rightarrow>
          (case modules r (module_key m) of
             None \<Rightarrow> None
           | Some symbols \<Rightarrow> Module_FindCFIFrameInfo symbols (sf frame)))"

section \<open>The symbolizer\<close>

datatype SymbolResult = FOUND string | NOT_FOUND | INTERRUPT

datatype SymbolizerResult = kNoError | kError | kInterrupt | kWarningCorruptSymbols

text \<open>The collaborators: \<open>GetModuleForAddress\<close> of the module list and \<open>GetCStringSymbolData\<close> of the supplier.\<close>

record process =
  module_at :: "(64 word \<Rightarrow> CodeModule option) option"
  supplier :: "(CodeModule \<Rightarrow> SymbolResult) option"
  os_short :: string

record Symbolizer =
  resolver :: "Resolver option"
  no_symbol_modules :: "string set"

definition HasImplementation :: "process \<Rightarrow> Symbolizer \<Rightarrow> bool" where
  "HasImplementation pr st \<longleftrightarrow> resolver st \<noteq> None \<and> supplier pr \<noteq> None"

definition Reset :: "Symbolizer \<Rightarrow> Symbolizer" where
  "Reset st = st\<lparr>no_symbol_modules := {}\<rparr>"

definition found_result :: "Resolver \<Rightarrow> CodeModule \<Rightarrow> SymbolizerResult" where
  "found_result r m = (if IsModuleCorrupt (Some m) r then kWarningCorruptSymbols else kNoError)"

definition FillSourceLineInfo ::
  "process \<Rightarrow> Symbolizer \<Rightarrow> 'z Frame_scheme \<Rightarrow> (SymbolizerResult \<times> 'z Frame_scheme \<times> Symbolizer) exec" where
  "FillSourceLineInfo pr st frame =
     (case module_at pr of
        None \<Rightarrow> Returns (kError, frame, st)
      | Some at \<Rightarrow>
          (case at (instruction (sf frame)) of
             None \<Rightarrow> Returns (kError, frame, st)
           | Some module \<Rightarrow>
               let frame = frame\<lparr>fmodule := Some module, sf := (sf frame)\<lparr>module_base := base_address module\<rparr>\<rparr> in
               (case resolver st of
                  None \<Rightarrow> Returns (kError, frame, st)
                | Some r \<Rightarrow>
                    if code_file module \<in> no_symbol_modules st then Returns (kError, frame, st)
                    else if HasModule (Some module) r
                    then Returns (found_result r module, Resolver_FillSourceLineInfo r frame, st)
                    else (case supplier pr of
                            None \<Rightarrow> Returns (kError, frame, st)
                          | Some get \<Rightarrow>
                              (case get module of
                                 FOUND symbol_data \<Rightarrow>
                                   exec_bind (LoadModuleUsingMemoryBuffer (Some module) symbol_data r)
                                     (\<lambda>(load_success, r).
                                       let st = st\<lparr>resolver := Some r\<rparr> in
                                       if load_success
                                       then Returns (found_result r module, Resolver_FillSourceLineInfo r frame, st)
                                       else Returns (kError, frame,
                                         st\<lparr>no_symbol_modules := insert (code_file module) (no_symbol_modules st)\<rparr>))
                               | NOT_FOUND \<Rightarrow>
                                   Returns (kError, frame,
                                     st\<lparr>no_symbol_modules := insert (code_file module) (no_symbol_modules st)\<rparr>)
                               | INTERRUPT \<Rightarrow> Returns (kInterrupt, frame, st))))))"

definition FindWindowsFrameInfo :: "Symbolizer \<Rightarrow> 'z Frame_scheme \<Rightarrow> WindowsFrameInfo option" where
  "FindWindowsFrameInfo st frame =
     (case resolver st of None \<Rightarrow> None | Some r \<Rightarrow> Resolver_FindWindowsFrameInfo r frame)"

definition FindCFIFrameInfo :: "Symbolizer \<Rightarrow> 'z Frame_scheme \<Rightarrow> CFIFrameInfo option" where
  "FindCFIFrameInfo st frame =
     (case resolver st of None \<Rightarrow> None | Some r \<Rightarrow> Resolver_FindCFIFrameInfo r frame)"

section \<open>What stays true of the loaded modules\<close>

text \<open>Every loaded module is well-formed, and the corrupt ones are recorded as such.\<close>

definition resolver_inv :: "Resolver \<Rightarrow> bool" where
  "resolver_inv r \<longleftrightarrow> (\<forall>m\<in>ran (modules r). module_inv m) \<and>
     corrupt_modules r = {k. \<exists>m. modules r k = Some m \<and> is_corrupt m}"


lemma LoadModuleUsingMemoryBuffer_inv [model_inv]:
  assumes "resolver_inv r" "LoadModuleUsingMemoryBuffer module buf r = Returns (ok, r')"
  shows "resolver_inv r'"
proof (cases "ok")
  case False
  then show ?thesis
    using assms by (auto simp: LoadModuleUsingMemoryBuffer_def Let_def split: option.split_asm if_split_asm elim!: exec_bind_pairE)
next
  case True
  then obtain m ok' bm where m: "module = Some m" "modules r (module_key m) = None"
    and load: "Module_LoadMapFromMemory buf Module_empty = Returns (ok', bm)"
    and r': "r' = (if is_corrupt bm
       then r\<lparr>modules := (modules r)(module_key m \<mapsto> bm), corrupt_modules := insert (module_key m) (corrupt_modules r)\<rparr>
       else r\<lparr>modules := (modules r)(module_key m \<mapsto> bm)\<rparr>)"
    using assms(2)
    by (auto simp: LoadModuleUsingMemoryBuffer_def Let_def split: option.split_asm if_split_asm elim!: exec_bind_pairE)
  have "module_inv bm" using load_module_inv [OF module_inv_empty load] by simp
  then show ?thesis using assms(1) m(2) by (auto simp: r' resolver_inv_def Let_def ran_def split: if_split_asm)
qed

lemma keep_buffer_inv: "resolver_inv r \<Longrightarrow> resolver_inv (keep_buffer d l m r)"
  by (simp add: keep_buffer_def resolver_inv_def)

lemma LoadModule_inv [model_inv]:
  "resolver_inv r \<Longrightarrow> LoadModule d fs module f r = Returns (ok, r') \<Longrightarrow> resolver_inv r'"
  by (auto simp: LoadModule_def keep_buffer_inv split: option.split_asm if_split_asm elim!: exec_bind_pairE
      dest: LoadModuleUsingMemoryBuffer_inv)

lemma LoadModuleUsingMapBuffer_inv [model_inv]:
  "resolver_inv r \<Longrightarrow> LoadModuleUsingMapBuffer d module f r = Returns (ok, r') \<Longrightarrow> resolver_inv r'"
  by (auto simp: LoadModuleUsingMapBuffer_def keep_buffer_inv split: option.split_asm if_split_asm elim!: exec_bind_pairE
      dest: LoadModuleUsingMemoryBuffer_inv)

lemma UnloadModule_inv [model_inv]: "resolver_inv r \<Longrightarrow> resolver_inv (UnloadModule d module r)"
  by (auto simp: UnloadModule_def resolver_inv_def Let_def ran_def split: option.split if_split_asm)

text \<open>A module is loaded at most once, and unloading it undoes the load.\<close>

lemma LoadModuleUsingMemoryBuffer_cases:
  assumes "LoadModuleUsingMemoryBuffer (Some m) buf r = Returns (ok, r')"
  obtains (old) "\<not> ok" "r' = r" "modules r (module_key m) \<noteq> None"
  | (new) bm where "ok" "modules r (module_key m) = None" "modules r' = (modules r)(module_key m \<mapsto> bm)"
    "memory_buffers r' = memory_buffers r"
    "corrupt_modules r' = (if is_corrupt bm then insert (module_key m) (corrupt_modules r) else corrupt_modules r)"
  using assms
  by (auto simp: LoadModuleUsingMemoryBuffer_def Let_def split: if_split_asm elim!: exec_bind_pairE)

text \<open>The outcome of a call by what is loaded afterwards.\<close>

lemma FillSourceLineInfo_cases:
  assumes "FillSourceLineInfo pr st frame = Returns (res, frame', st')"
  obtains (none) "res = kError" "st' = st" "fmodule frame' = fmodule frame"
      "case module_at pr of None \<Rightarrow> True | Some at \<Rightarrow> at (instruction (sf frame)) = None" "frame' = frame"
  | (unusable) at m where "module_at pr = Some at" "at (instruction (sf frame)) = Some m" "res = kError" "st' = st"
      "resolver st = None \<or> code_file m \<in> no_symbol_modules st \<or>
       supplier pr = None \<and> (\<forall>r. resolver st = Some r \<longrightarrow> modules r (module_key m) = None)" "fmodule frame' = Some m"
  | (loaded) at m r s where "module_at pr = Some at" "at (instruction (sf frame)) = Some m" "resolver st' = Some r"
      "modules r (module_key m) = Some s" "code_file m \<notin> no_symbol_modules st'" "res = found_result r m"
      "frame' = frame\<lparr>fmodule := Some m, sf := Module_LookupAddress s ((sf frame)\<lparr>module_base := base_address m\<rparr>)\<rparr>"
      "no_symbol_modules st' = no_symbol_modules st"
  | (missing) at m where "module_at pr = Some at" "at (instruction (sf frame)) = Some m" "res = kError"
      "st' = st\<lparr>no_symbol_modules := insert (code_file m) (no_symbol_modules st)\<rparr>" "fmodule frame' = Some m"
      "resolver st \<noteq> None"
  | (interrupted) "res = kInterrupt" "st' = st"
proof -
  show thesis
  proof (cases "module_at pr")
    case None
    then show ?thesis using assms by (intro none) (auto simp: FillSourceLineInfo_def)
  next
    case (Some at)
    show ?thesis
    proof (cases "at (instruction (sf frame))")
      case None
      then show ?thesis using assms Some by (intro none) (auto simp: FillSourceLineInfo_def)
    next
      case mod: (Some m)
      show ?thesis
      proof (cases "resolver st = None \<or> code_file m \<in> no_symbol_modules st")
        case True
        then show ?thesis
          using assms Some mod by (intro unusable [of at m]) (auto simp: FillSourceLineInfo_def Let_def split: option.split_asm)
      next
        case False
        then obtain r where r: "resolver st = Some r" "code_file m \<notin> no_symbol_modules st" by auto
        show ?thesis
        proof (cases "modules r (module_key m)")
          case s: (Some s)
          then show ?thesis
            using assms Some mod r
            by (intro loaded [of at m r s])
              (auto simp: FillSourceLineInfo_def Let_def HasModule_def Resolver_FillSourceLineInfo_def)
        next
          case None
          then have h: "\<not> HasModule (Some m) r" by (simp add: HasModule_def)
          show ?thesis
          proof (cases "supplier pr")
            case None
            then show ?thesis
              using assms Some mod r h \<open>modules r (module_key m) = None\<close>
              by (intro unusable [of at m]) (auto simp: FillSourceLineInfo_def Let_def)
          next
            case get: (Some get)
            show ?thesis
            proof (cases "get m")
              case (FOUND buf)
              then obtain ok r' where l: "LoadModuleUsingMemoryBuffer (Some m) buf r = Returns (ok, r')"
                using assms Some mod r h get by (auto simp: FillSourceLineInfo_def Let_def elim!: exec_bind_pairE)
              then show ?thesis
              proof (cases rule: LoadModuleUsingMemoryBuffer_cases)
                case old
                then show ?thesis using \<open>modules r (module_key m) = None\<close> by simp
              next
                case (new bm)
                then show ?thesis
                  using assms Some mod r h get FOUND l
                  by (intro loaded [of at m r' bm])
                    (auto simp: FillSourceLineInfo_def Let_def Resolver_FillSourceLineInfo_def)
              qed
            next
              case NOT_FOUND
              then show ?thesis
                using assms Some mod r h get by (intro missing [of at m]) (auto simp: FillSourceLineInfo_def Let_def)
            next
              case INTERRUPT
              then show ?thesis
                using assms Some mod r h get by (intro interrupted) (auto simp: FillSourceLineInfo_def Let_def)
            qed
          qed
        qed
      qed
    qed
  qed
qed



section \<open>Properties of the symbolizer\<close>







text \<open>The supplier is asked at most once per module: after a call that it did not interrupt, a call for any
  address of the same module has the same outcome and changes nothing more, whatever the supplier would answer.\<close>

theorem FillSourceLineInfo_cached:
  assumes first: "FillSourceLineInfo pr st frame = Returns (res, frame', st')" "res \<noteq> kInterrupt" "supplier pr \<noteq> None"
    and same: "module_at pr = Some at" "module_at pr' = Some at" "at (instruction (sf g)) = at (instruction (sf frame))"
  shows "\<exists>g'. FillSourceLineInfo pr' st' g = Returns (res, g', st')"
  using first(1)
proof (cases rule: FillSourceLineInfo_cases)
  case none
  then show ?thesis using same by (auto simp: FillSourceLineInfo_def)
next
  case (unusable at' m)
  then show ?thesis using same first(3) by (auto simp: FillSourceLineInfo_def Let_def split: option.split)
next
  case (loaded at' m r s)
  then show ?thesis using same by (auto simp: FillSourceLineInfo_def Let_def HasModule_def)
next
  case (missing at' m)
  then show ?thesis using same by (auto simp: FillSourceLineInfo_def Let_def)
next
  case interrupted
  then show ?thesis using first(2) by simp
qed

definition sample_process :: "SymbolResult \<Rightarrow> process" where
  "sample_process answer = \<lparr>module_at = Some (GetModuleForAddress sample_modules), supplier = Some (\<lambda>_. answer),
     os_short = ''windows''\<rparr>"

definition sample_symbolizer :: Symbolizer where
  "sample_symbolizer = \<lparr>resolver = Some Resolver_new, no_symbol_modules = {}\<rparr>"

definition sample_stack_frame :: "64 word \<Rightarrow> Frame" where
  "sample_stack_frame a = \<lparr>sf = StackFrame_new\<lparr>instruction := a\<rparr>, fmodule = None, trust = FRAME_TRUST_CONTEXT\<rparr>"

lemma sample_modules_lookup:
  "GetModuleForAddress sample_modules 40 = Some (sample_code_module 32 ''a'')"
  "GetModuleForAddress sample_modules 44 = Some (sample_code_module 32 ''a'')"
  by (simp_all add: sample_modules_def BasicCodeModules_new_def sample_code_module_def RangeMap_StoreRange_def
      GetModuleForAddress_def RangeMap_RetrieveRange_def RangeMap_hit_def lower_bound_def omap_insert_def
      omap_find_def Let_def)


theorem FillSourceLineInfo_cached_witness:
  "\<exists>f st g. FillSourceLineInfo (sample_process NOT_FOUND) sample_symbolizer (sample_stack_frame 40) =
       Returns (kError, f, st) \<and>
     FillSourceLineInfo (sample_process INTERRUPT) st (sample_stack_frame 44) = Returns (kError, g, st)"
proof -
  obtain f st where run: "FillSourceLineInfo (sample_process NOT_FOUND) sample_symbolizer (sample_stack_frame 40) =
       Returns (kError, f, st)"
    by (simp add: FillSourceLineInfo_def sample_process_def sample_symbolizer_def sample_stack_frame_def Let_def
        sample_modules_lookup HasModule_def Resolver_new_def)
  from FillSourceLineInfo_cached [OF run, of "GetModuleForAddress sample_modules" "sample_process INTERRUPT"
      "sample_stack_frame 44"] run
  show ?thesis by (auto simp: sample_process_def sample_stack_frame_def sample_modules_lookup)
qed

end
