(* ===== verification/Memory_Region.thy ===== *)
theory Memory_Region
  imports Prelude
begin

unbundle bit_operations_syntax

text \<open>
  The memory regions of a minidump that the stackwalkers read (\<open>MinidumpMemoryRegion\<close> in
  \<^verbatim>\<open>processor/minidump.cc\<close>). The host is little-endian, as every host the sources name; the file is a
  parameter that delivers the bytes at an offset.
\<close>

record MDMemoryDescriptor =
  start_of_memory_range :: "64 word"
  data_size :: "32 word"
  rva :: "32 word"

record MinidumpMemoryRegion =
  descriptor :: "MDMemoryDescriptor option"
  rvalid :: bool
  swapped :: bool

definition SetDescriptor :: "MDMemoryDescriptor option \<Rightarrow> MinidumpMemoryRegion \<Rightarrow> MinidumpMemoryRegion" where
  "SetDescriptor d r = r\<lparr>descriptor := d,
     rvalid := (case d of None \<Rightarrow> False | Some d \<Rightarrow> ucast (data_size d) \<le> (- 1 :: 64 word) - start_of_memory_range d)\<rparr>"

definition max_bytes :: "32 word" where "max_bytes = 1024 * 1024"

text \<open>\<open>dump offset n\<close> is what \<open>SeekSet\<close> and \<open>ReadBytes\<close> deliver. The descriptor of a valid region is not null.\<close>

definition GetMemory :: "(32 word \<Rightarrow> nat \<Rightarrow> 8 word list option) \<Rightarrow> MinidumpMemoryRegion \<Rightarrow> 8 word list option" where
  "GetMemory dump r =
     (if \<not> rvalid r then None
      else (case descriptor r of
              None \<Rightarrow> None
            | Some d \<Rightarrow>
                if data_size d = 0 then None
                else if data_size d > max_bytes then None
                else dump (rva d) (unat (data_size d))))"

definition GetBase :: "MinidumpMemoryRegion \<Rightarrow> 64 word" where
  "GetBase r = (if \<not> rvalid r then - 1 else start_of_memory_range (the (descriptor r)))"

definition GetSize :: "MinidumpMemoryRegion \<Rightarrow> 32 word" where
  "GetSize r = (if \<not> rvalid r then 0 else data_size (the (descriptor r)))"

text \<open>The value of a little-endian sequence of bytes.\<close>

definition word_of_bytes :: "8 word list \<Rightarrow> 'a::len word" where
  "word_of_bytes bs = word_rcat (rev bs)"

definition GetMemoryAtAddress ::
  "(32 word \<Rightarrow> nat \<Rightarrow> 8 word list option) \<Rightarrow> MinidumpMemoryRegion \<Rightarrow> 64 word \<Rightarrow> 'a::len word option" where
  "GetMemoryAtAddress dump r address =
     (let sz = LENGTH('a) div 8 in
      if \<not> rvalid r then None
      else (case descriptor r of
              None \<Rightarrow> None
            | Some d \<Rightarrow>
                if address < start_of_memory_range d \<or> of_nat sz > - 1 - address \<or>
                   address + of_nat sz > start_of_memory_range d + ucast (data_size d) then None
                else (case GetMemory dump r of
                        None \<Rightarrow> None
                      | Some bytes \<Rightarrow>
                          let value = take sz (drop (unat (address - start_of_memory_range d)) bytes)
                          in Some (word_of_bytes (if swapped r then rev value else value)))))"

section \<open>Bounds of a read\<close>

text \<open>What \<open>ReadBytes\<close> documents: it delivers the number of bytes asked for, or fails.\<close>

definition dump_ok :: "(32 word \<Rightarrow> nat \<Rightarrow> 8 word list option) \<Rightarrow> bool" where
  "dump_ok dump \<longleftrightarrow> (\<forall>a n bytes. dump a n = Some bytes \<longrightarrow> length bytes = n)"

lemma unat_ucast_64: "unat (ucast (n :: 32 word) :: 64 word) = unat n"
proof -
  have "unat n < 2 ^ 32" using unsigned_less [of n] by simp
  then have "unat n < 2 ^ 64" by simp
  then show ?thesis by (simp add: unsigned_ucast_eq take_bit_nat_eq_self)
qed

lemma unat_minus_one_minus: "unat (- 1 - (b :: 64 word)) = 2 ^ 64 - 1 - unat b"
proof -
  have "unat (- 1 - b) = unat (- 1 :: 64 word) - unat b" by (rule unat_sub) (simp add: word_order.extremum)
  also have "unat (- 1 :: 64 word) = 2 ^ 64 - 1" by (simp add: unsigned_minus_1_eq_mask mask_eq_exp_minus_1)
  finally show ?thesis .
qed

lemma region_end:
  fixes b :: "64 word" and n :: "32 word"
  assumes "ucast n \<le> - 1 - b"
  shows "unat (b + ucast n) = unat b + unat n" "unat b + unat n < 2 ^ 64"
proof -
  have top: "unat (- 1 - b) = 2 ^ 64 - 1 - unat b" by (rule unat_minus_one_minus)
  have "unat n \<le> 2 ^ 64 - 1 - unat b"
    using assms top by (simp add: word_le_nat_alt unat_ucast_64)
  moreover have "unat b < 2 ^ 64" using unsigned_less [of b] by simp
  ultimately show "unat b + unat n < 2 ^ 64" by linarith
  then show "unat (b + ucast n) = unat b + unat n"
    by (subst unat_add_lem [THEN iffD1]) (simp_all add: unat_ucast_64)
qed

lemma unat_add_no_overflow:
  fixes a :: "64 word"
  assumes "n < 2 ^ 64"
  shows "of_nat n > - 1 - a \<longleftrightarrow> 2 ^ 64 \<le> unat a + n"
    and "unat a + n < 2 ^ 64 \<Longrightarrow> unat (a + of_nat n) = unat a + n"
proof -
  have n: "unat (of_nat n :: 64 word) = n" using assms by (simp add: unat_of_nat take_bit_nat_eq_self)
  have "unat a < 2 ^ 64" using unsigned_less [of a] by simp
  then show "of_nat n > - 1 - a \<longleftrightarrow> 2 ^ 64 \<le> unat a + n"
    unfolding word_less_nat_alt unat_minus_one_minus n by linarith
  show "unat (a + of_nat n) = unat a + n" if "unat a + n < 2 ^ 64"
    using that by (subst unat_add_lem [THEN iffD1]) (simp_all add: n)
qed

text \<open>A read succeeds exactly when all of its bytes lie inside the region, whose bytes can be had.\<close>

lemma GetMemoryAtAddress_iff:
  fixes x :: "'a::len word"
  assumes r: "r = SetDescriptor (Some d) r0" and sz: "LENGTH('a) div 8 < 2 ^ 64"
  shows "GetMemoryAtAddress dump r address = Some x \<longleftrightarrow>
    rvalid r \<and> unat (start_of_memory_range d) \<le> unat address \<and>
    unat address + LENGTH('a) div 8 \<le> unat (start_of_memory_range d) + unat (data_size d) \<and>
    (\<exists>bytes. GetMemory dump r = Some bytes \<and>
      (let v = take (LENGTH('a) div 8) (drop (unat address - unat (start_of_memory_range d)) bytes)
       in x = word_of_bytes (if swapped r then rev v else v)))"
proof (cases "rvalid r")
  case True
  let ?n = "LENGTH('a) div 8" and ?b = "start_of_memory_range d"
  have d: "descriptor r = Some d" using r by (simp add: SetDescriptor_def)
  have "ucast (data_size d) \<le> - 1 - ?b" using True r by (simp add: SetDescriptor_def)
  note e = region_end [OF this]
  have *: "(address < ?b \<or> of_nat ?n > - 1 - address \<or> address + of_nat ?n > ?b + ucast (data_size d)) \<longleftrightarrow>
      \<not> (unat ?b \<le> unat address \<and> unat address + ?n \<le> unat ?b + unat (data_size d))"
  proof (cases "2 ^ 64 \<le> unat address + ?n")
    case True
    then show ?thesis using unat_add_no_overflow(1) [OF sz, of address] e(2) by auto
  next
    case False
    then have "unat (address + of_nat ?n) = unat address + ?n" using unat_add_no_overflow(2) [OF sz, of address] by simp
    then have "address + of_nat ?n > ?b + ucast (data_size d) \<longleftrightarrow>
        unat ?b + unat (data_size d) < unat address + ?n"
      by (simp add: word_less_nat_alt e(1))
    moreover have "\<not> of_nat ?n > - 1 - address" using False unat_add_no_overflow(1) [OF sz, of address] by blast
    moreover have "address < ?b \<longleftrightarrow> unat address < unat ?b" by (rule word_less_nat_alt)
    ultimately show ?thesis by linarith
  qed
  have off: "unat (address - ?b) = unat address - unat ?b" if "unat ?b \<le> unat address"
    using that by (intro unat_sub) (simp add: word_le_nat_alt)
  show ?thesis
    using True d off
    by (simp only: GetMemoryAtAddress_def Let_def option.case * if_False not_not simp_thms cong: if_cong)
      (auto split: option.split)
qed (simp add: GetMemoryAtAddress_def)


text \<open>A read of a region succeeds exactly when every byte it needs lies inside the region and the region's bytes
  can be read from the dump; it then returns those bytes as a little-endian number, or a big-endian one in a dump of
  the other byte order. No descriptor, however large its numbers, makes it look outside the bytes of the region.\<close>

theorem GetMemoryAtAddress_bounds:
  assumes "r = SetDescriptor (Some d) r0" "dump_ok dump" "start_of_memory_range d = b"
  shows "(GetMemoryAtAddress dump r a = Some (x :: 32 word)) =
    (\<exists>bytes. GetMemory dump r = Some bytes \<and> length bytes = unat (data_size d) \<and> unat b \<le> unat a \<and>
       unat a + 4 \<le> unat b + length bytes \<and>
       (let v = map (\<lambda>i. bytes ! (unat a - unat b + i)) [0..<4] in x = word_of_bytes (if swapped r then rev v else v)))"
proof -
  have len: "length bytes = unat (data_size d)" if "GetMemory dump r = Some bytes" for bytes
    using that assms(1,2) by (auto simp: GetMemory_def SetDescriptor_def dump_ok_def split: if_split_asm)
  have v: "take 4 (drop n bytes) = map (\<lambda>i. bytes ! (n + i)) [0..<4]" if "n + 4 \<le> length bytes"
    for n and bytes :: "8 word list"
    using that by (intro nth_equalityI) simp_all
  have valid: "rvalid r" if "GetMemory dump r = Some bytes" for bytes
    using that by (simp add: GetMemory_def split: if_split_asm)
  have n: "LENGTH(32) div 8 = (4 :: nat)" "LENGTH(32) div 8 < (2 ^ 64 :: nat)" by simp_all
  show ?thesis
    unfolding GetMemoryAtAddress_iff [OF assms(1) n(2), unfolded n(1) assms(3)]
    using len valid v by (fastforce simp: Let_def)
qed

theorem GetMemoryAtAddress_bounds_witness:
  "GetMemoryAtAddress (\<lambda>_ n. if n = 6 then Some [1, 2, 3, 4, 5, 6] else None)
     (SetDescriptor (Some \<lparr>start_of_memory_range = 16, data_size = 6, rva = 0\<rparr>)
       \<lparr>descriptor = None, rvalid = False, swapped = False\<rparr>) 18 = Some (0x06050403 :: 32 word)"
proof -
  let ?d = "\<lparr>start_of_memory_range = 16, data_size = 6, rva = 0\<rparr>"
  let ?r0 = "\<lparr>descriptor = None, rvalid = False, swapped = False\<rparr>"
  let ?dump = "\<lambda>(_ :: 32 word) (n :: nat). if n = 6 then Some [1, 2, 3, 4, 5, 6 :: 8 word] else None"
  have ok: "dump_ok ?dump" by (simp add: dump_ok_def)
  have "GetMemory ?dump (SetDescriptor (Some ?d) ?r0) = Some [1, 2, 3, 4, 5, 6]"
    by (simp add: GetMemory_def SetDescriptor_def max_bytes_def)
  moreover have "\<not> swapped (SetDescriptor (Some ?d) ?r0)" by (simp add: SetDescriptor_def)
  moreover have "[0..<4] = [0, 1, 2, 3 :: nat]" by (simp add: upt_rec)
  ultimately show ?thesis
    unfolding GetMemoryAtAddress_bounds [OF refl ok, of ?d 16 ?r0 18 "0x06050403", simplified]
    by (simp add: word_of_bytes_def word_rcat_def)
qed

end
