(* ===== verification/Stackwalker.thy ===== *)
theory Stackwalker
  imports Symbolizer Memory_Region
begin

text \<open>
  The part of the stackwalkers that all processors share (\<^verbatim>\<open>processor/stackwalker.cc\<close>,
  \<^verbatim>\<open>google_breakpad/processor/stackwalker.h\<close>): the main loop \<open>Walk\<close>, the test whether a number looks
  like a return address, and the scan of the stack for one. The virtual methods \<open>GetContextFrame\<close> and
  \<open>GetCallerFrame\<close> are arguments of \<open>Walk\<close>; the locales at the end say what their implementations promise, and each
  processor's theory interprets them.
\<close>

section \<open>Scanning the stack\<close>

definition InstructionAddressSeemsValid :: "process \<Rightarrow> 64 word \<Rightarrow> Symbolizer \<Rightarrow> (bool \<times> Symbolizer) exec" where
  "InstructionAddressSeemsValid pr address st =
     exec_bind (FillSourceLineInfo pr st
         \<lparr>sf = StackFrame_new\<lparr>instruction := address\<rparr>, fmodule = None, trust = FRAME_TRUST_NONE\<rparr>)
       (\<lambda>(symbolizer_result, frame, st).
         Returns (if fmodule frame = None then False
                  else if \<not> HasImplementation pr st then True
                  else if symbolizer_result \<noteq> kNoError \<and> symbolizer_result \<noteq> kWarningCorruptSymbols then True
                  else function_name (sf frame) \<noteq> [], st))"

definition kRASearchWords :: nat where "kRASearchWords = 30"

text \<open>\<open>final\<close> is \<open>location_start + searchwords * sizeof(InstructionType)\<close>, computed in 64 bits, while \<open>location\<close> wraps
  around at the width of the instruction type: the loop may pass the top of the address space. A loop that does not end
  has the value \<open>None\<close>.\<close>

partial_function (option) scan_loop ::
  "process \<Rightarrow> 'a::len memory \<Rightarrow> 64 word \<Rightarrow> 'a word \<Rightarrow> Symbolizer \<Rightarrow>
   (('a word \<times> 'a word) option \<times> Symbolizer) exec option" where
  "scan_loop pr mem final location st =
     (if \<not> ucast location \<le> final then Some (Returns (None, st))
      else (case mem location of
              None \<Rightarrow> Some (Returns (None, st))
            | Some ip \<Rightarrow>
                if (case module_at pr of None \<Rightarrow> False | Some at \<Rightarrow> at (ucast ip) \<noteq> None)
                then (case InstructionAddressSeemsValid pr (ucast ip) st of
                        Undefined \<Rightarrow> Some Undefined
                      | Returns r \<Rightarrow>
                          if fst r then Some (Returns (Some (location, ip), snd r))
                          else scan_loop pr mem final (location + of_nat (LENGTH('a) div 8)) (snd r))
                else scan_loop pr mem final (location + of_nat (LENGTH('a) div 8)) st))"

definition ScanForReturnAddress_words ::
  "process \<Rightarrow> 'a::len memory \<Rightarrow> 'a word \<Rightarrow> nat \<Rightarrow> Symbolizer \<Rightarrow> (('a word \<times> 'a word) option \<times> Symbolizer) exec" where
  "ScanForReturnAddress_words pr mem location_start searchwords st =
     (case scan_loop pr mem (ucast location_start + of_nat (searchwords * (LENGTH('a) div 8))) location_start st of
        None \<Rightarrow> Undefined
      | Some r \<Rightarrow> r)"

definition ScanForReturnAddress ::
  "process \<Rightarrow> 'a::len memory \<Rightarrow> 'a word \<Rightarrow> bool \<Rightarrow> Symbolizer \<Rightarrow> (('a word \<times> 'a word) option \<times> Symbolizer) exec" where
  "ScanForReturnAddress pr mem location_start is_context_frame st =
     ScanForReturnAddress_words pr mem location_start
       (if is_context_frame then kRASearchWords * 4 else kRASearchWords) st"

section \<open>The main loop\<close>

definition InsertSpecialAttentionModule :: "CodeModule option \<Rightarrow> CodeModule list \<Rightarrow> CodeModule list" where
  "InsertSpecialAttentionModule module ms =
     (case module of None \<Rightarrow> ms | Some m \<Rightarrow> if m \<in> set ms then ms else ms @ [m])"

record limits =
  max_frames :: "32 word"
  max_frames_scanned :: "32 word"

definition default_limits :: limits where
  "default_limits = \<lparr>max_frames = 1024, max_frames_scanned = 1024\<rparr>"

text \<open>\<open>GetCallerFrame\<close> gets the frames so far, and may write to the last one; it returns the caller, the last frame as
  it is afterwards, and the state of the symbolizer.\<close>

type_synonym 'f get_caller = "'f list \<Rightarrow> bool \<Rightarrow> Symbolizer \<Rightarrow> ('f option \<times> 'f \<times> Symbolizer) exec"

type_synonym 'f walk_result = "bool \<times> 'f list \<times> CodeModule list \<times> CodeModule list \<times> Symbolizer"

function Walk_loop ::
  "process \<Rightarrow> limits \<Rightarrow> 'z Frame_scheme get_caller \<Rightarrow> 'z Frame_scheme \<Rightarrow> 'z Frame_scheme list \<Rightarrow> 32 word \<Rightarrow>
   CodeModule list \<Rightarrow> CodeModule list \<Rightarrow> Symbolizer \<Rightarrow> 'z Frame_scheme walk_result exec" where
  "Walk_loop pr lim get_caller frame frames scanned_frames without corrupt st =
     exec_bind (FillSourceLineInfo pr st frame) (\<lambda>(symbolizer_result, frame, st).
       if symbolizer_result = kInterrupt then Returns (False, frames, without, corrupt, st)
       else
         let without = (if symbolizer_result = kError
                        then InsertSpecialAttentionModule (fmodule frame) without else without);
             corrupt = (if symbolizer_result = kWarningCorruptSymbols
                        then InsertSpecialAttentionModule (fmodule frame) corrupt else corrupt);
             scanned_frames = (if trust frame \<in> {FRAME_TRUST_NONE, FRAME_TRUST_SCAN, FRAME_TRUST_CFI_SCAN}
                               then scanned_frames + 1 else scanned_frames)
         in if Suc (length frames) > unat (max_frames lim)
            then Returns (True, frames @ [frame], without, corrupt, st)
            else
              exec_bind (get_caller (frames @ [frame]) (scanned_frames < max_frames_scanned lim) st)
                (\<lambda>(caller, frame, st).
                  case caller of
                    None \<Rightarrow> Returns (True, frames @ [frame], without, corrupt, st)
                  | Some next_frame \<Rightarrow>
                      Walk_loop pr lim get_caller next_frame (frames @ [frame]) scanned_frames without corrupt st))"
  by pat_completeness auto
termination
  by (relation "measure (\<lambda>(pr, lim, get_caller, frame, frames, scanned_frames, without, corrupt, st).
      Suc (unat (max_frames lim)) - length frames)") auto

definition Walk ::
  "process \<Rightarrow> limits \<Rightarrow> 'z Frame_scheme option \<Rightarrow> 'z Frame_scheme get_caller \<Rightarrow> CodeModule list \<Rightarrow> CodeModule list \<Rightarrow>
   Symbolizer \<Rightarrow> 'z Frame_scheme walk_result exec" where
  "Walk pr lim context_frame get_caller without corrupt st =
     (case context_frame of
        None \<Rightarrow> Returns (True, [], without, corrupt, st)
      | Some frame \<Rightarrow> Walk_loop pr lim get_caller frame [] 0 without corrupt st)"

declare Walk_loop.simps [simp del]

section \<open>What a scan finds\<close>

text \<open>The readable addresses of a stack do not reach over the top of the address space, nor do they touch both of its
  ends; the regions of a minidump are such (\<open>region_scan_ok\<close>).\<close>

definition scan_ok :: "'a::len memory \<Rightarrow> bool" where
  "scan_ok mem \<longleftrightarrow> 0 < LENGTH('a) div 8 \<and> (\<forall>a. mem a \<noteq> None \<longrightarrow> unat a + LENGTH('a) div 8 \<le> 2 ^ LENGTH('a)) \<and>
     (mem 0 = None \<or> mem (- of_nat (LENGTH('a) div 8)) = None)"

lemma next_location:
  fixes a :: "'a::len word"
  assumes "unat a + n \<le> 2 ^ LENGTH('a)"
  shows "a + of_nat n = 0 \<and> a = - of_nat n \<or> unat (a + of_nat n) = unat a + n"
proof (cases "unat a + n = 2 ^ LENGTH('a)")
  case True
  then have "of_nat (unat a + n) = (0 :: 'a word)" by simp
  then have "a + of_nat n = 0" by simp
  then show ?thesis by (simp add: eq_neg_iff_add_eq_0)
next
  case False
  then have lt: "unat a + n < 2 ^ LENGTH('a)" using assms by simp
  have "unat (of_nat (unat a + n) :: 'a word) = unat a + n"
    using lt by (simp only: unat_of_nat) simp
  then show ?thesis by simp
qed

lemma scan_loop_stops: "mem location = None \<Longrightarrow> scan_loop pr mem final location st \<noteq> None"
  by (subst scan_loop.simps) simp

lemma scan_loop_terminates:
  fixes mem :: "'a::len memory"
  assumes "scan_ok mem"
  shows "scan_loop pr mem final location st \<noteq> None"
proof (induction "2 ^ LENGTH('a) - unat location" arbitrary: location st rule: less_induct)
  case less
  let ?next = "location + of_nat (LENGTH('a) div 8)"
  show ?case
  proof (cases "mem location")
    case None
    then show ?thesis by (rule scan_loop_stops)
  next
    case (Some ip)
    have next_ok: "scan_loop pr mem final ?next st' \<noteq> None" for st'
    proof -
      have "unat location + LENGTH('a) div 8 \<le> 2 ^ LENGTH('a)" using assms Some by (simp add: scan_ok_def)
      from next_location [OF this] show ?thesis
      proof
        assume wrap: "?next = 0 \<and> location = - of_nat (LENGTH('a) div 8)"
        have "mem 0 = None" using assms Some wrap by (auto simp: scan_ok_def)
        then show ?thesis using wrap by (simp add: scan_loop_stops)
      next
        assume "unat ?next = unat location + LENGTH('a) div 8"
        moreover have "unat location < 2 ^ LENGTH('a)" using unsigned_less [of location] by simp
        moreover have "0 < LENGTH('a) div 8" using assms by (simp add: scan_ok_def)
        ultimately have "2 ^ LENGTH('a) - unat ?next < 2 ^ LENGTH('a) - unat location" by linarith
        then show ?thesis by (rule less)
      qed
    qed
    show ?thesis using Some next_ok by (subst scan_loop.simps) (auto split: exec.split)
  qed
qed

text \<open>A scan that finds something found it a number of words above the start, within the bound, and every word
  below it could be read.\<close>

definition scan_found :: "process \<Rightarrow> 'a::len memory \<Rightarrow> 64 word \<Rightarrow> 'a word \<Rightarrow> 'a word \<Rightarrow> 'a word \<Rightarrow> bool" where
  "scan_found pr mem final location found ip \<longleftrightarrow>
     (\<exists>k. found = location + of_nat (k * (LENGTH('a) div 8)) \<and> mem found = Some ip \<and> ucast found \<le> final \<and>
       (\<exists>at. module_at pr = Some at \<and> at (ucast ip) \<noteq> None) \<and>
       (\<forall>j<k. mem (location + of_nat (j * (LENGTH('a) div 8))) \<noteq> None))"

lemma scan_found_here:
  "mem location = Some ip \<Longrightarrow> ucast location \<le> final \<Longrightarrow> module_at pr = Some at \<Longrightarrow> at (ucast ip) \<noteq> None \<Longrightarrow>
   scan_found pr mem final location location ip"
  unfolding scan_found_def by (rule exI [of _ 0]) simp

lemma scan_found_later:
  fixes mem :: "'a::len memory"
  assumes "mem location \<noteq> None" "scan_found pr mem final (location + of_nat (LENGTH('a) div 8)) found ip"
  shows "scan_found pr mem final location found ip"
proof -
  let ?n = "LENGTH('a) div 8"
  obtain k where k: "found = location + of_nat ?n + of_nat (k * ?n)" "mem found = Some ip" "ucast found \<le> final"
    "\<exists>at. module_at pr = Some at \<and> at (ucast ip) \<noteq> None"
    "\<forall>j<k. mem (location + of_nat ?n + of_nat (j * ?n)) \<noteq> None"
    using assms(2) unfolding scan_found_def by blast
  have "found = location + of_nat (Suc k * ?n)" using k(1) by (simp add: algebra_simps)
  moreover have "mem (location + of_nat (j * ?n)) \<noteq> None" if "j < Suc k" for j
    using that assms(1) k(5) by (cases j) (auto simp: algebra_simps)
  ultimately show ?thesis unfolding scan_found_def using k(2-4) by blast
qed

lemma scan_loop_found:
  fixes mem :: "'a::len memory"
  assumes "scan_loop pr mem final location st = Some (Returns (Some (found, ip), st'))"
  shows "scan_found pr mem final location found ip"
proof -
  have "\<forall>found ip st'. r = Returns (Some (found, ip), st') \<longrightarrow> scan_found pr mem final location found ip"
    if "scan_loop pr mem final location st = Some r" for r
  proof (rule scan_loop.raw_induct [where P = "\<lambda>pr mem final location st r.
      \<forall>found ip st'. r = Returns (Some (found, ip), st') \<longrightarrow> scan_found pr mem final location found ip", OF _ that],
      intro allI impI)
    fix loop pr final location st r found ip st' and mem :: "'a memory"
    assume IH: "\<And>pr mem final location st r. loop pr mem final location st = Some r \<Longrightarrow>
        \<forall>found ip st'. r = Returns (Some (found, ip), st') \<longrightarrow> scan_found pr mem final location found ip"
      and r: "r = Returns (Some (found, ip), st')"
      and body: "(if \<not> ucast location \<le> final then Some (Returns (None, st))
        else case mem location of None \<Rightarrow> Some (Returns (None, st))
          | Some ip \<Rightarrow> if case module_at pr of None \<Rightarrow> False | Some at \<Rightarrow> at (ucast ip) \<noteq> None
              then case InstructionAddressSeemsValid pr (ucast ip) st of
                  Returns r \<Rightarrow> if fst r then Some (Returns (Some (location, ip), snd r))
                    else loop pr mem final (location + word_of_nat (LENGTH('a) div 8)) (snd r)
                | Undefined \<Rightarrow> Some Undefined
              else loop pr mem final (location + word_of_nat (LENGTH('a) div 8)) st) = Some r"
    have later: "scan_found pr mem final location found ip"
      if "loop pr mem final (location + word_of_nat (LENGTH('a) div 8)) s = Some r" "mem location = Some x" for s x
      using IH [OF that(1)] r that(2) scan_found_later [of mem location] by simp
    show "scan_found pr mem final location found ip"
    proof (cases "mem location")
      case (Some x)
      then show ?thesis
        using body r later [OF _ Some] scan_found_here [of mem location x final pr]
        by (auto split: if_split_asm option.split_asm exec.split_asm)
    qed (use body r in \<open>simp split: if_split_asm\<close>)
  qed
  with assms show ?thesis by blast
qed

lemma ScanForReturnAddress_found:
  assumes "ScanForReturnAddress_words pr mem start words st = Returns (Some (found, ip), st')"
  shows "scan_found pr mem (ucast start + of_nat (words * (LENGTH('a) div 8))) (start :: 'a::len word) found ip"
  using assms by (auto simp: ScanForReturnAddress_words_def simp del: of_nat_mult split: option.split_asm
      intro: scan_loop_found)

text \<open>The memory of a walker for 32-bit processors, backed by a region of the dump.\<close>

definition region_memory32 :: "(32 word \<Rightarrow> nat \<Rightarrow> 8 word list option) \<Rightarrow> MinidumpMemoryRegion \<Rightarrow> 32 memory" where
  "region_memory32 dump r a = GetMemoryAtAddress dump r (ucast a)"

definition region_memory64 :: "(32 word \<Rightarrow> nat \<Rightarrow> 8 word list option) \<Rightarrow> MinidumpMemoryRegion \<Rightarrow> 64 memory" where
  "region_memory64 dump r a = GetMemoryAtAddress dump r a"

text \<open>What the constructors of the 32-bit walkers test: a region that does not fit below 4 GB is no memory.\<close>

definition memory_below_4GB :: "(32 word \<Rightarrow> nat \<Rightarrow> 8 word list option) \<Rightarrow> MinidumpMemoryRegion \<Rightarrow> 32 memory option" where
  "memory_below_4GB dump r =
     (if GetBase r + ucast (GetSize r) - 1 > 0xffffffff then None else Some (region_memory32 dump r))"

lemma region_scan_ok64: "scan_ok (region_memory64 dump (SetDescriptor (Some d) r))"
proof -
  have n: "LENGTH(64) div 8 < (2 ^ 64 :: nat)" by simp
  have "unat a + 8 \<le> 2 ^ 64 \<and> a \<noteq> - 8" if "GetMemoryAtAddress dump (SetDescriptor (Some d) r) a = Some (x :: 64 word)" for a x
  proof -
    from that [unfolded GetMemoryAtAddress_iff [OF refl n]]
    have v: "rvalid (SetDescriptor (Some d) r)"
      "unat a + 8 \<le> unat (start_of_memory_range d) + unat (data_size d)" by simp_all
    then have "ucast (data_size d) \<le> - 1 - start_of_memory_range d" by (simp add: SetDescriptor_def)
    with v(2) have lt: "unat a + 8 < 2 ^ 64" using region_end(2) [of "data_size d" "start_of_memory_range d"] by linarith
    have "unat (- 8 :: 64 word) = 2 ^ 64 - 8" by simp
    with lt show ?thesis by auto
  qed
  then show ?thesis by (force simp: scan_ok_def region_memory64_def)
qed

lemma region_scan_ok32:
  assumes "memory_below_4GB dump (SetDescriptor (Some d) r) = Some mem"
  shows "scan_ok mem"
proof -
  let ?r = "SetDescriptor (Some d) r" and ?b = "unat (start_of_memory_range d)" and ?n = "unat (data_size d)"
  have mem: "mem = region_memory32 dump ?r" using assms by (simp add: memory_below_4GB_def split: if_split_asm)
  have n: "LENGTH(32) div 8 < (2 ^ 64 :: nat)" by simp
  have u: "unat (ucast (a :: 32 word) :: 64 word) = unat a" for a by (rule unat_ucast_64)
  have read: "rvalid ?r \<and> ?b \<le> unat a \<and> unat a + 4 \<le> ?b + ?n" if "mem a \<noteq> None" for a
    using that unfolding mem region_memory32_def not_None_eq GetMemoryAtAddress_iff [OF refl n] by (auto simp: u)
  have size: "?n < 2 ^ 32" using unsigned_less [of "data_size d"] by simp
  have top: "?b + ?n \<le> 2 ^ 32" if "rvalid ?r" "0 < ?n"
  proof -
    have v: "ucast (data_size d) \<le> - 1 - start_of_memory_range d" using that(1) by (simp add: SetDescriptor_def)
    have "start_of_memory_range d + ucast (data_size d) - 1 \<le> 0xffffffff"
      using assms that(1) by (simp add: memory_below_4GB_def GetBase_def GetSize_def SetDescriptor_def not_less split: if_split_asm)
    moreover have "unat (start_of_memory_range d + ucast (data_size d) - 1) = ?b + ?n - 1"
      using region_end(1) [OF v] that(2) by (subst unat_sub) (simp_all add: word_le_nat_alt)
    ultimately show ?thesis by (simp add: word_le_nat_alt)
  qed
  have "unat a + 4 \<le> 2 ^ 32" if "mem a \<noteq> None" for a using read [OF that] top by linarith
  moreover have "mem 0 = None \<or> mem (- 4) = None"
  proof (rule ccontr)
    assume "\<not> (mem 0 = None \<or> mem (- 4) = None)"
    then have "rvalid ?r" "?b = 0" "2 ^ 32 \<le> ?b + ?n" using read [of 0] read [of "- 4"] by simp_all
    with size show False by simp
  qed
  ultimately show ?thesis by (simp add: scan_ok_def)
qed


section \<open>What the main loop returns\<close>

lemma LookupAddress_instruction [simp]: "instruction (Module_LookupAddress m f) = instruction f"
  by (simp add: Module_LookupAddress_def Let_def split: option.split)

text \<open>The symbolizer writes the symbol part of a frame only, never its address.\<close>

lemma FillSourceLineInfo_frame:
  assumes "FillSourceLineInfo pr st frame = Returns (res, frame', st')"
  obtains m s where "frame' = frame\<lparr>fmodule := m, sf := s\<rparr>" "instruction s = instruction (sf frame)"
proof -
  have "\<exists>m s. frame' = frame\<lparr>fmodule := m, sf := s\<rparr> \<and> instruction s = instruction (sf frame)"
  proof -
    have id: "\<exists>m s. f = f\<lparr>fmodule := m, sf := s\<rparr> \<and> instruction s = instruction (sf f)" for f :: "'a Frame_scheme"
      by (intro exI [of _ "fmodule f"] exI [of _ "sf f"]) simp
    have c: "\<exists>m' s'. frame\<lparr>fmodule := m, sf := s\<rparr> = frame\<lparr>fmodule := m', sf := s'\<rparr> \<and>
        instruction s' = instruction (sf frame)" if "instruction s = instruction (sf frame)" for m s
      using that by blast
    show ?thesis
      using assms
      by (auto simp: FillSourceLineInfo_def Let_def Resolver_FillSourceLineInfo_def intro!: c id
          split: option.split_asm if_split_asm SymbolResult.split_asm elim!: exec_bind_pairE)
  qed
  then show ?thesis using that by blast
qed

text \<open>One round of the loop.\<close>

lemma Walk_loop_round:
  assumes "Walk_loop pr lim get_caller frame frames n w c st = Returns (b, stack, w', c', st')"
  obtains (interrupted) frame1 where "FillSourceLineInfo pr st frame = Returns (kInterrupt, frame1, st')"
      "\<not> b" "stack = frames" "w' = w" "c' = c"
  | (filled) res frame1 st1 w1 c1 n1 where "FillSourceLineInfo pr st frame = Returns (res, frame1, st1)"
      "res \<noteq> kInterrupt"
      "w1 = (if res = kError then InsertSpecialAttentionModule (fmodule frame1) w else w)"
      "c1 = (if res = kWarningCorruptSymbols then InsertSpecialAttentionModule (fmodule frame1) c else c)"
      "b \<and> stack = frames @ [frame1] \<and> w' = w1 \<and> c' = c1 \<and> st' = st1 \<and> unat (max_frames lim) \<le> length frames \<or>
       length frames < unat (max_frames lim) \<and>
       (\<exists>ok caller frame2 st2. get_caller (frames @ [frame1]) ok st1 = Returns (caller, frame2, st2) \<and>
         (case caller of
            None \<Rightarrow> b \<and> stack = frames @ [frame2] \<and> w' = w1 \<and> c' = c1 \<and> st' = st2
          | Some nf \<Rightarrow> Walk_loop pr lim get_caller nf (frames @ [frame2]) n1 w1 c1 st2 = Returns (b, stack, w', c', st')))"
proof -
  obtain res frame1 st1 where fl: "FillSourceLineInfo pr st frame = Returns (res, frame1, st1)"
    using assms by (subst (asm) Walk_loop.simps) (cases "FillSourceLineInfo pr st frame", auto)
  define w1 where "w1 = (if res = kError then InsertSpecialAttentionModule (fmodule frame1) w else w)"
  define c1 where "c1 = (if res = kWarningCorruptSymbols then InsertSpecialAttentionModule (fmodule frame1) c else c)"
  define n1 where "n1 = (if trust frame1 \<in> {FRAME_TRUST_NONE, FRAME_TRUST_SCAN, FRAME_TRUST_CFI_SCAN} then n + 1 else n)"
  show thesis
  proof (cases "res = kInterrupt")
    case True
    then show ?thesis
      using assms fl by (intro interrupted [of frame1]) (subst (asm) Walk_loop.simps, simp)+
  next
    case False
    have "b \<and> stack = frames @ [frame1] \<and> w' = w1 \<and> c' = c1 \<and> st' = st1 \<and> unat (max_frames lim) \<le> length frames \<or>
       length frames < unat (max_frames lim) \<and>
       (\<exists>ok caller frame2 st2. get_caller (frames @ [frame1]) ok st1 = Returns (caller, frame2, st2) \<and>
         (case caller of
            None \<Rightarrow> b \<and> stack = frames @ [frame2] \<and> w' = w1 \<and> c' = c1 \<and> st' = st2
          | Some nf \<Rightarrow> Walk_loop pr lim get_caller nf (frames @ [frame2]) n1 w1 c1 st2 = Returns (b, stack, w', c', st')))"
    proof (cases "unat (max_frames lim) \<le> length frames")
      case True
      then show ?thesis
        using assms fl False by (subst (asm) Walk_loop.simps) (simp add: w1_def c1_def less_Suc_eq_le)
    next
      case False': False
      let ?g = "get_caller (frames @ [frame1]) (n1 < max_frames_scanned lim) st1"
      have run: "exec_bind ?g (\<lambda>(caller, frame, st). case caller of
            None \<Rightarrow> Returns (True, frames @ [frame], w1, c1, st)
          | Some nf \<Rightarrow> Walk_loop pr lim get_caller nf (frames @ [frame]) n1 w1 c1 st) = Returns (b, stack, w', c', st')"
        using assms fl False False' unfolding w1_def c1_def n1_def
        by (subst (asm) Walk_loop.simps) (simp add: Let_def less_Suc_eq_le del: insert_iff split del: if_split)
      then obtain caller frame2 st2 where "?g = Returns (caller, frame2, st2)" by (cases ?g) auto
      moreover from this run have "case caller of
            None \<Rightarrow> b \<and> stack = frames @ [frame2] \<and> w' = w1 \<and> c' = c1 \<and> st' = st2
          | Some nf \<Rightarrow> Walk_loop pr lim get_caller nf (frames @ [frame2]) n1 w1 c1 st2 = Returns (b, stack, w', c', st')"
        by (auto split: option.split_asm)
      ultimately show ?thesis using False' by auto
    qed
    then show ?thesis using filled [OF fl False w1_def c1_def] by blast
  qed
qed


text \<open>The invariants of the loop, for any relation between the stack pointers of consecutive frames.\<close>

lemma sorted_wrt_snoc_same:
  "sorted_wrt R (map g xs @ [a]) \<Longrightarrow> transp R \<Longrightarrow> R a b \<Longrightarrow> sorted_wrt R (map g xs @ [a, b])"
  by (auto simp: sorted_wrt_append intro: transpD)

lemma Walk_loop_chain:
  assumes R: "transp R"
    and fill: "\<And>f m s. sp (f\<lparr>fmodule := m, sf := s\<rparr>) = sp f"
    and kept: "\<And>frames ok st c l st'. get_caller frames ok st = Returns (c, l, st') \<Longrightarrow> frames \<noteq> [] \<Longrightarrow> sp l = sp (last frames)"
    and step: "\<And>frames ok st f l st'. get_caller frames ok st = Returns (Some f, l, st') \<Longrightarrow> frames \<noteq> [] \<Longrightarrow>
      R (sp (last frames)) (sp f)"
  shows "Walk_loop pr lim get_caller frame frames n w c st = Returns (b, stack, w', c', st') \<Longrightarrow>
    sorted_wrt R (map sp frames @ [sp frame]) \<Longrightarrow> length frames \<le> unat (max_frames lim) \<Longrightarrow>
    sorted_wrt R (map sp stack) \<and> length stack \<le> Suc (unat (max_frames lim)) \<and>
    (\<exists>rest. map sp stack = map sp frames @ rest \<and> (b \<longrightarrow> rest \<noteq> [] \<and> hd rest = sp frame))"
proof (induction "Suc (unat (max_frames lim)) - length frames" arbitrary: frame frames n w c st rule: less_induct)
  case less
  from less.prems(1) show ?case
  proof (cases rule: Walk_loop_round)
    case (interrupted frame1)
    then show ?thesis using less.prems by (auto simp: sorted_wrt_append)
  next
    case (filled res frame1 st1 w1 c1 n1)
    have sp1: "sp frame1 = sp frame" using filled(1) by (rule FillSourceLineInfo_frame) (simp add: fill)
    from filled(5) show ?thesis
    proof
      assume "b \<and> stack = frames @ [frame1] \<and> w' = w1 \<and> c' = c1 \<and> st' = st1 \<and> unat (max_frames lim) \<le> length frames"
      then show ?thesis using less.prems by (auto simp: sp1)
    next
      assume "length frames < unat (max_frames lim) \<and>
       (\<exists>ok caller frame2 st2. get_caller (frames @ [frame1]) ok st1 = Returns (caller, frame2, st2) \<and>
         (case caller of
            None \<Rightarrow> b \<and> stack = frames @ [frame2] \<and> w' = w1 \<and> c' = c1 \<and> st' = st2
          | Some nf \<Rightarrow> Walk_loop pr lim get_caller nf (frames @ [frame2]) n1 w1 c1 st2 = Returns (b, stack, w', c', st')))"
      then obtain ok caller frame2 st2 where lt: "length frames < unat (max_frames lim)"
        and g: "get_caller (frames @ [frame1]) ok st1 = Returns (caller, frame2, st2)"
        and next': "case caller of
            None \<Rightarrow> b \<and> stack = frames @ [frame2] \<and> w' = w1 \<and> c' = c1 \<and> st' = st2
          | Some nf \<Rightarrow> Walk_loop pr lim get_caller nf (frames @ [frame2]) n1 w1 c1 st2 = Returns (b, stack, w', c', st')"
        by blast
      have sp2: "sp frame2 = sp frame" using kept [OF g] sp1 by simp
      show ?thesis
      proof (cases caller)
        case None
        then show ?thesis using next' less.prems(2) lt by (simp add: sp2)
      next
        case (Some nf)
        then have run: "Walk_loop pr lim get_caller nf (frames @ [frame2]) n1 w1 c1 st2 = Returns (b, stack, w', c', st')"
          using next' by simp
        have "R (sp frame) (sp nf)" using step [OF g [unfolded Some]] sp1 by simp
        then have "sorted_wrt R (map sp (frames @ [frame2]) @ [sp nf])"
          using sorted_wrt_snoc_same [OF less.prems(2) R] by (simp add: sp2)
        from less.hyps [OF _ run this] lt obtain rest where
          "sorted_wrt R (map sp stack)" "length stack \<le> Suc (unat (max_frames lim))"
          "map sp stack = map sp frames @ sp frame # rest"
          by (auto simp: sp2 Suc_diff_le)
        then show ?thesis by (intro conjI exI [of _ "sp frame # rest"]) simp_all
      qed
    qed
  qed
qed

lemma InsertSpecialAttentionModule_distinct: "distinct ms \<Longrightarrow> distinct (InsertSpecialAttentionModule m ms)"
  by (simp add: InsertSpecialAttentionModule_def split: option.split)

lemma Walk_loop_distinct:
  "Walk_loop pr lim get_caller frame frames n w c st = Returns (b, stack, w', c', st') \<Longrightarrow>
   distinct w \<and> distinct c \<Longrightarrow> distinct w' \<and> distinct c'"
proof (induction "Suc (unat (max_frames lim)) - length frames" arbitrary: frame frames n w c st rule: less_induct)
  case less
  from less.prems(1) show ?case
  proof (cases rule: Walk_loop_round)
    case (filled res frame1 st1 w1 c1 n1)
    have d: "distinct w1 \<and> distinct c1" using less.prems(2) filled(3,4) InsertSpecialAttentionModule_distinct by simp
    have "distinct w' \<and> distinct c'"
      if "Walk_loop pr lim get_caller nf (frames @ [frame2]) n1 w1 c1 st2 = Returns (b, stack, w', c', st')"
        "length frames < unat (max_frames lim)" for nf frame2 st2
      using less.hyps [OF _ that(1) d] that(2) by (simp add: Suc_diff_le)
    with filled(5) d show ?thesis by (auto split: option.split_asm)
  qed (use less.prems in simp)
qed

section \<open>The contract of a processor's walker\<close>

text \<open>A walker whose callers never have a smaller stack pointer than their callees.\<close>

locale stackwalker =
  fixes pr :: process and lim :: limits
    and get_caller :: "'z Frame_scheme get_caller"
    and sp :: "'z Frame_scheme \<Rightarrow> 'n::linorder"
  assumes sp_symbols: "sp (f\<lparr>fmodule := m, sf := s\<rparr>) = sp f"
    and last_kept: "get_caller frames ok st = Returns (c, l, st') \<Longrightarrow> frames \<noteq> [] \<Longrightarrow> sp l = sp (last frames)"
    and caller_not_below: "get_caller frames ok st = Returns (Some f, l, st') \<Longrightarrow> frames \<noteq> [] \<Longrightarrow> sp (last frames) \<le> sp f"
begin

lemma walk_sorted:
  assumes "Walk pr lim ctx get_caller w c st = Returns (b, stack, w', c', st')"
  shows "sorted (map sp stack)" "length stack \<le> Suc (unat (max_frames lim))"
    "b \<Longrightarrow> (case ctx of None \<Rightarrow> stack = [] | Some f \<Rightarrow> stack \<noteq> [] \<and> sp (hd stack) = sp f)"
proof -
  have "sorted (map sp stack) \<and> length stack \<le> Suc (unat (max_frames lim)) \<and>
      (b \<longrightarrow> (case ctx of None \<Rightarrow> stack = [] | Some f \<Rightarrow> stack \<noteq> [] \<and> sp (hd stack) = sp f))"
  proof (cases ctx)
    case None
    then show ?thesis using assms by (simp add: Walk_def)
  next
    case (Some f)
    then have "Walk_loop pr lim get_caller f [] 0 w c st = Returns (b, stack, w', c', st')"
      using assms by (simp add: Walk_def)
    from Walk_loop_chain [OF transp_on_le sp_symbols last_kept caller_not_below this] Some show ?thesis
      by (auto simp: hd_map [symmetric])
  qed
  then show "sorted (map sp stack)" "length stack \<le> Suc (unat (max_frames lim))"
    "b \<Longrightarrow> (case ctx of None \<Rightarrow> stack = [] | Some f \<Rightarrow> stack \<noteq> [] \<and> sp (hd stack) = sp f)"
    by blast+
qed

end

text \<open>A walker whose callers are strictly above their callees.\<close>

locale strict_stackwalker = stackwalker pr lim get_caller sp
  for pr :: process and lim :: limits
    and get_caller :: "'z Frame_scheme get_caller"
    and sp :: "'z Frame_scheme \<Rightarrow> 'n::linorder" +
  assumes caller_above: "get_caller frames ok st = Returns (Some f, l, st') \<Longrightarrow> frames \<noteq> [] \<Longrightarrow> sp (last frames) < sp f"
begin

lemma walk_strictly_sorted:
  assumes "Walk pr lim ctx get_caller w c st = Returns (b, stack, w', c', st')"
  shows "sorted_wrt (<) (map sp stack)"
proof (cases ctx)
  case None
  then show ?thesis using assms by (simp add: Walk_def)
next
  case (Some f)
  then have "Walk_loop pr lim get_caller f [] 0 w c st = Returns (b, stack, w', c', st')"
    using assms by (simp add: Walk_def)
  from Walk_loop_chain [OF transp_on_less sp_symbols last_kept caller_above this] show ?thesis by simp
qed

end


section \<open>Walks without symbols\<close>

text \<open>The reference for a walk that has no symbols to consult: follow \<open>nxt\<close> from the registers of one frame to those
  of its caller, at most \<open>n\<close> times.\<close>

primrec chain :: "nat \<Rightarrow> ('v \<Rightarrow> 'v option) \<Rightarrow> 'v \<Rightarrow> 'v list" where
  "chain 0 nxt v = [v]"
| "chain (Suc n) nxt v = v # (case nxt v of None \<Rightarrow> [] | Some v' \<Rightarrow> chain n nxt v')"

lemma chain_fixpoint: "nxt v = Some v \<Longrightarrow> chain n nxt v = replicate (Suc n) v"
  by (induction n) simp_all

lemma FillSourceLineInfo_no_resolver:
  assumes "resolver st = None"
  shows "\<exists>m s. FillSourceLineInfo pr st f = Returns (kError, f\<lparr>fmodule := m, sf := s\<rparr>, st)"
proof -
  have id: "\<exists>m s. f = f\<lparr>fmodule := m, sf := s\<rparr>" by (intro exI [of _ "fmodule f"] exI [of _ "sf f"]) simp
  show ?thesis using assms by (auto simp: FillSourceLineInfo_def Let_def split: option.split intro!: id)
qed

text \<open>A walker whose \<open>GetCallerFrame\<close>, without a resolver, depends on the registers \<open>view f\<close> of the last frame only.
  A scan of the stack is not such a function, so the scan is allowed only if the limit on scanned frames is not zero.\<close>

locale pointer_walker =
  fixes pr :: process and lim :: limits
    and get_caller :: "'z Frame_scheme get_caller"
    and view :: "'z Frame_scheme \<Rightarrow> 'v"
    and nxt :: "'v \<Rightarrow> 'v option"
  assumes view_symbols: "view (f\<lparr>fmodule := m, sf := s\<rparr>) = view f"
    and caller_next: "resolver st = None \<Longrightarrow> (ok \<Longrightarrow> max_frames_scanned lim \<noteq> 0) \<Longrightarrow>
      \<exists>c. get_caller (frames @ [f]) ok st = Returns (c, f, st) \<and> map_option view c = nxt (view f)"
begin

lemma walk_loop_chain:
  assumes "resolver st = None"
  shows "length frames + k = unat (max_frames lim) \<Longrightarrow>
    \<exists>stack w'. Walk_loop pr lim get_caller f frames n w c st = Returns (True, stack, w', c, st) \<and>
      map view stack = map view frames @ chain k nxt (view f)"
proof (induction k arbitrary: f frames n w)
  case 0
  obtain m s where fl: "FillSourceLineInfo pr st f = Returns (kError, f\<lparr>fmodule := m, sf := s\<rparr>, st)"
    using FillSourceLineInfo_no_resolver [OF assms] by blast
  show ?case using 0 by (subst Walk_loop.simps) (simp add: fl Let_def view_symbols)
next
  case (Suc k)
  obtain m s where fl: "FillSourceLineInfo pr st f = Returns (kError, f\<lparr>fmodule := m, sf := s\<rparr>, st)"
    using FillSourceLineInfo_no_resolver [OF assms] by blast
  let ?f = "f\<lparr>fmodule := m, sf := s\<rparr>" and ?w = "InsertSpecialAttentionModule m w"
  define n' where "n' = (if trust f \<in> {FRAME_TRUST_NONE, FRAME_TRUST_SCAN, FRAME_TRUST_CFI_SCAN} then n + 1 else n)"
  obtain c' where g: "get_caller (frames @ [?f]) (n' < max_frames_scanned lim) st = Returns (c', ?f, st)"
    "map_option view c' = nxt (view f)"
    using caller_next [OF assms, of "n' < max_frames_scanned lim" frames ?f]
    by (metis view_symbols word_zero_le not_le)
  have round: "Walk_loop pr lim get_caller f frames n w c st =
      (case c' of None \<Rightarrow> Returns (True, frames @ [?f], ?w, c, st)
       | Some nf \<Rightarrow> Walk_loop pr lim get_caller nf (frames @ [?f]) n' ?w c st)"
    using Suc.prems g(1) unfolding n'_def
    by (subst Walk_loop.simps, cases c') (simp_all add: fl Let_def del: insert_iff split del: if_split)
  show ?case
  proof (cases c')
    case None
    then show ?thesis using round g(2) by (simp add: view_symbols)
  next
    case (Some nf)
    obtain stack w' where "Walk_loop pr lim get_caller nf (frames @ [?f]) n' ?w c st = Returns (True, stack, w', c, st)"
      "map view stack = map view (frames @ [?f]) @ chain k nxt (view nf)"
      using Suc.IH [of "frames @ [?f]" nf n' ?w] Suc.prems by auto
    then show ?thesis using round g(2) [symmetric] Some by (simp add: view_symbols)
  qed
qed

lemma walk_chain:
  assumes "resolver st = None"
  shows "\<exists>stack w'. Walk pr lim (Some f) get_caller w c st = Returns (True, stack, w', c, st) \<and>
    map view stack = chain (unat (max_frames lim)) nxt (view f)"
  using walk_loop_chain [OF assms, of "[]" "unat (max_frames lim)" f 0 w c] by (simp add: Walk_def)

end

section \<open>Frames of a processor\<close>

text \<open>A raw context is a function from its registers. The processors' frames extend this record.\<close>

record (overloaded) ('m, 'a::len) CPUFrame = Frame +
  reg :: "'m \<Rightarrow> 'a word"
  context_validity :: "32 word"

definition CONTEXT_VALID_ALL :: "32 word" where "CONTEXT_VALID_ALL = - 1"

text \<open>The frame that \<open>GetContextFrame\<close> makes from the context of the thread.\<close>

definition frame_at :: "64 word \<Rightarrow> StackFrame" where
  "frame_at a = StackFrame_new\<lparr>instruction := a\<rparr>"


section \<open>Scanning a region of a dump\<close>

lemma scan_no_wrap:
  fixes mem :: "'a::len memory"
  assumes "scan_ok mem" "\<forall>j\<le>k. mem (start + of_nat (j * (LENGTH('a) div 8))) \<noteq> None"
  shows "unat (start + of_nat (k * (LENGTH('a) div 8))) = unat start + k * (LENGTH('a) div 8)"
  using assms(2)
proof (induction k)
  case (Suc k)
  let ?n = "LENGTH('a) div 8"
  let ?a = "start + of_nat (k * ?n)"
  have IH: "unat ?a = unat start + k * ?n" using Suc by simp
  have here: "mem ?a \<noteq> None" using Suc.prems by (meson le_SucI le_refl)
  have there: "mem (?a + of_nat ?n) \<noteq> None" using Suc.prems [rule_format, of "Suc k"] by (simp add: algebra_simps)
  have "unat ?a + ?n \<le> 2 ^ LENGTH('a)" using assms(1) here by (simp add: scan_ok_def)
  from next_location [OF this] have "unat (?a + of_nat ?n) = unat ?a + ?n"
    using assms(1) here there by (auto simp: scan_ok_def)
  then show ?case using IH by (simp add: algebra_simps)
qed simp

lemma scan_loop_defined:
  fixes mem :: "'a::len memory"
  assumes "\<And>a st. InstructionAddressSeemsValid pr a st \<noteq> Undefined"
    and "scan_loop pr mem final location st = Some r"
  shows "r \<noteq> Undefined"
proof (rule scan_loop.raw_induct [where P = "\<lambda>pr' mem final location st r. pr' = pr \<longrightarrow> r \<noteq> Undefined", OF _ assms(2),
      rule_format, OF _ refl])
  fix loop pr' final location st r and mem :: "'a memory"
  assume IH: "\<And>pr' mem final location st r. loop pr' mem final location st = Some r \<Longrightarrow> pr' = pr \<Longrightarrow> r \<noteq> Undefined"
    and body: "(if \<not> ucast location \<le> final then Some (Returns (None, st))
        else case mem location of None \<Rightarrow> Some (Returns (None, st))
          | Some ip \<Rightarrow> if case module_at pr' of None \<Rightarrow> False | Some at \<Rightarrow> at (ucast ip) \<noteq> None
              then case InstructionAddressSeemsValid pr' (ucast ip) st of
                  Returns r \<Rightarrow> if fst r then Some (Returns (Some (location, ip), snd r))
                    else loop pr' mem final (location + word_of_nat (LENGTH('a) div 8)) (snd r)
                | Undefined \<Rightarrow> Some Undefined
              else loop pr' mem final (location + word_of_nat (LENGTH('a) div 8)) st) = Some r"
    and pr: "pr' = pr"
  show "r \<noteq> Undefined"
    using body pr assms(1) IH
    by (cases "InstructionAddressSeemsValid pr (ucast (the (mem location))) st") (auto split: if_split_asm option.split_asm)
qed

text \<open>A scan of the stack region of a dump of a 32-bit process for a return address ends. What it finds is the
  content of one of the words from the start up to the search limit, all the words up to it lie in the region, and it
  is an address inside a loaded module; the scan never runs over the top of the address space.\<close>

theorem ScanForReturnAddress_region:
  assumes mem: "memory_below_4GB dump (SetDescriptor (Some d) r) = Some mem"
    and defined: "\<And>a st. InstructionAddressSeemsValid pr a st \<noteq> Undefined"
    and words: "words < 2 ^ 31"
  shows "\<exists>res st'. ScanForReturnAddress_words pr mem start words st = Returns (res, st') \<and>
    (case res of
       None \<Rightarrow> True
     | Some (found, ip) \<Rightarrow>
         (\<exists>k\<le>words. unat found = unat start + 4 * k \<and> mem found = Some ip \<and>
           (\<forall>j\<le>k. mem (start + of_nat (j * 4)) \<noteq> None) \<and> (\<exists>at. module_at pr = Some at \<and> at (ucast ip) \<noteq> None)))"
proof -
  note ok = region_scan_ok32 [OF mem]
  let ?final = "ucast start + of_nat (words * 4) :: 64 word"
  obtain res st' where run: "scan_loop pr mem ?final start st = Some (Returns (res, st'))"
    using scan_loop_terminates [OF ok, of pr ?final start st] scan_loop_defined [OF defined, of mem ?final start st]
    by (metis exec.exhaust option.exhaust surj_pair)
  have "\<exists>k\<le>words. unat found = unat start + 4 * k \<and> mem found = Some ip \<and>
      (\<forall>j\<le>k. mem (start + of_nat (j * 4)) \<noteq> None) \<and> (\<exists>at. module_at pr = Some at \<and> at (ucast ip) \<noteq> None)"
    if "res = Some (found, ip)" for found ip
  proof -
    from scan_loop_found [OF run [unfolded that]] obtain k where k: "found = start + of_nat (k * 4)" "mem found = Some ip"
      "ucast found \<le> ?final" "\<exists>at. module_at pr = Some at \<and> at (ucast ip) \<noteq> None"
      "\<forall>j<k. mem (start + of_nat (j * 4)) \<noteq> None"
      unfolding scan_found_def by auto
    have all: "\<forall>j\<le>k. mem (start + of_nat (j * 4)) \<noteq> None" using k(1,2,5) by (metis le_neq_implies_less option.distinct(1))
    then have u: "unat found = unat start + 4 * k" using scan_no_wrap [OF ok, of k start] k(1) by simp
    have "unat start < 2 ^ 32" using unsigned_less [of start] by simp
    then have "unat ?final = unat start + words * 4"
      using words unat_add_no_overflow(2) [of "words * 4" "ucast start"] by (simp add: unat_ucast_64)
    then have "unat found \<le> unat start + words * 4" using k(3) by (simp add: word_le_nat_alt unat_ucast_64)
    then have "k \<le> words" using u by simp
    then show ?thesis using u k(2,4) all by blast
  qed
  then show ?thesis using run by (auto simp: ScanForReturnAddress_words_def split: option.split)
qed

lemma sample_scan_defined: "InstructionAddressSeemsValid (sample_process NOT_FOUND) a \<lparr>resolver = x, no_symbol_modules = y\<rparr> \<noteq> Undefined"
  by (auto simp: InstructionAddressSeemsValid_def FillSourceLineInfo_def sample_process_def Let_def split: option.split)

theorem ScanForReturnAddress_region_witness:
  "\<exists>mem res st'. memory_below_4GB (\<lambda>_ n. Some (replicate n 40))
       (SetDescriptor (Some \<lparr>start_of_memory_range = 16, data_size = 8, rva = 0\<rparr>)
         \<lparr>descriptor = None, rvalid = False, swapped = False\<rparr>) = Some mem \<and>
     ScanForReturnAddress_words (sample_process NOT_FOUND) mem 16 3 sample_symbolizer = Returns (res, st')"
proof -
  let ?r = "SetDescriptor (Some \<lparr>start_of_memory_range = 16, data_size = 8, rva = 0\<rparr>)
         \<lparr>descriptor = None, rvalid = False, swapped = False\<rparr>"
  let ?dump = "\<lambda>(_ :: 32 word) n. Some (replicate n (40 :: 8 word))"
  obtain mem where mem: "memory_below_4GB ?dump ?r = Some mem"
    by (simp add: memory_below_4GB_def GetBase_def GetSize_def SetDescriptor_def)
  have "InstructionAddressSeemsValid (sample_process NOT_FOUND) a st \<noteq> Undefined" for a st
    by (cases st) (simp add: sample_scan_defined)
  from ScanForReturnAddress_region [OF mem this, of 3 16 sample_symbolizer] mem show ?thesis by auto
qed

end
