(* ===== verification/Stackwalker_X86.thy ===== *)
theory Stackwalker_X86
  imports Stackwalker
begin

unbundle bit_operations_syntax

text \<open>
  The stackwalker for 32-bit x86 (\<^verbatim>\<open>processor/stackwalker_x86.cc\<close>): the caller of a frame is found from
  Windows frame data, from DWARF CFI rules, from the chain of frame pointers, or by scanning the stack.
\<close>

section \<open>Frames\<close>

datatype X86Register = EIP | ESP | EBP | EAX | EBX | ECX | EDX | ESI | EDI

record StackFrameX86 = "(X86Register, 32) CPUFrame" +
  frame_windows_info :: "WindowsFrameInfo option"
  frame_cfi_info :: "CFIFrameInfo option"

fun X86_valid :: "X86Register \<Rightarrow> 32 word" where
  "X86_valid EIP = 0x1" | "X86_valid ESP = 0x2" | "X86_valid EBP = 0x4" | "X86_valid EAX = 0x8"
| "X86_valid EBX = 0x10" | "X86_valid ECX = 0x20" | "X86_valid EDX = 0x40" | "X86_valid ESI = 0x80"
| "X86_valid EDI = 0x100"

definition X86_register :: "string \<Rightarrow> string option \<Rightarrow> bool \<Rightarrow> X86Register \<Rightarrow> X86Register RegisterSet" where
  "X86_register name alt saved r =
     \<lparr>rname = name, alternate_name = alt, callee_saves = saved, validity_flag = X86_valid r, context_member = r\<rparr>"

definition X86_cfi_register_map :: "X86Register RegisterSet list" where
  "X86_cfi_register_map =
     [X86_register ''$eip'' (Some ''.ra'') False EIP, X86_register ''$esp'' (Some ''.cfa'') False ESP,
      X86_register ''$ebp'' None True EBP, X86_register ''$eax'' None False EAX,
      X86_register ''$ebx'' None True EBX, X86_register ''$ecx'' None False ECX,
      X86_register ''$edx'' None False EDX, X86_register ''$esi'' None True ESI,
      X86_register ''$edi'' None True EDI]"

definition X86_frame :: "(X86Register \<Rightarrow> 32 word) \<Rightarrow> 32 word \<Rightarrow> FrameTrust \<Rightarrow> 64 word \<Rightarrow> StackFrameX86" where
  "X86_frame ctx v t address =
     \<lparr>sf = frame_at address, fmodule = None, trust = t, reg = ctx, context_validity = v, frame_windows_info = None,
      frame_cfi_info = None\<rparr>"

definition X86_GetContextFrame :: "(X86Register \<Rightarrow> 32 word) option \<Rightarrow> StackFrameX86 option" where
  "X86_GetContextFrame ctx =
     map_option (\<lambda>c. X86_frame c CONTEXT_VALID_ALL FRAME_TRUST_CONTEXT (ucast (c EIP))) ctx"

section \<open>Windows frame data\<close>

definition callee_parameter_size :: "StackFrameX86 list \<Rightarrow> 32 word" where
  "callee_parameter_size frames =
     (if length frames \<ge> 2 then
        (case frame_windows_info (frames ! (length frames - 2)) of
           Some info \<Rightarrow> if valid info AND VALID_PARAMETER_SIZE \<noteq> 0 then parameter_size info else 0
         | None \<Rightarrow> 0)
      else 0)"

text \<open>The start of the search for the return address, moved to the first of up to three further words that looks like
  a return address; in the context frame of an optimised system call the word on top of the stack is skipped.\<close>

definition ra_search_start ::
  "process \<Rightarrow> 32 memory \<Rightarrow> StackFrameX86 \<Rightarrow> WindowsFrameInfo \<Rightarrow> 32 word \<Rightarrow> Symbolizer \<Rightarrow> (32 word \<times> Symbolizer) exec" where
  "ra_search_start pr mem last_frame info start st =
     exec_bind (ScanForReturnAddress_words pr mem start 3 st) (\<lambda>(r, st).
       case r of
         None \<Rightarrow> Returns (start, st)
       | Some (location, found) \<Rightarrow>
           if trust last_frame = FRAME_TRUST_CONTEXT \<and> type_of_info info = STACK_INFO_FPO \<and> start = location \<and>
              found = reg last_frame EIP
           then
             exec_bind (ScanForReturnAddress_words pr mem (location + 4) 3 st) (\<lambda>(r, st).
               Returns (case r of None \<Rightarrow> location + 4 | Some (location, found) \<Rightarrow> location, st))
           else Returns (location, st))"

definition program_base_pointer :: string where
  "program_base_pointer =
     ''$eip .raSearchStart ^ = $ebp $esp .cbCalleeParams + .cbSavedRegs + 8 - ^ = $esp .raSearchStart 4 + =''"

definition program_no_base_pointer :: string where
  "program_no_base_pointer = ''$eip .raSearchStart ^ = $esp .raSearchStart 4 + =''"

text \<open>The program and whether the frame pointer is to be recovered.\<close>

definition choose_program :: "WindowsFrameInfo \<Rightarrow> string \<times> bool" where
  "choose_program info =
     (if program_string info \<noteq> [] then (program_string info, True)
      else if allocates_base_pointer info then (program_base_pointer, True)
      else (program_no_base_pointer, False))"

text \<open>A lookup with \<open>operator[]\<close>.\<close>

definition dict_get :: "32 dictionary \<Rightarrow> string \<Rightarrow> 32 word" where
  "dict_get d k = (case d k of Some v \<Rightarrow> v | None \<Rightarrow> 0)"

text \<open>The search for a saved frame pointer, downwards in the saved-register area. The address may pass zero.\<close>

partial_function (option) fp_search :: "32 memory \<Rightarrow> 32 word \<Rightarrow> 32 word \<Rightarrow> 32 word option option" where
  "fp_search mem location_end location =
     (if \<not> location_end \<le> location then Some None
      else (case mem location of
              None \<Rightarrow> Some None
            | Some ebp \<Rightarrow> if mem ebp \<noteq> None then Some (Some ebp) else fp_search mem location_end (location - 4)))"

definition recover_ebp ::
  "32 memory \<Rightarrow> 32 word \<Rightarrow> WindowsFrameInfo \<Rightarrow> 32 word \<Rightarrow> FrameTrust \<Rightarrow> 32 word \<Rightarrow> 32 word \<Rightarrow> 32 dictionary \<Rightarrow>
   32 dictionary exec" where
  "recover_ebp mem last_esp info params t ra_start offset d =
     (let ebp = dict_get d ''$ebp'';
          has_skipped_frames = (t \<noteq> FRAME_TRUST_CFI \<and> ebp \<le> ra_start + offset)
      in if has_skipped_frames \<or> mem ebp = None then
           let location_end = last_esp + params in
           (case fp_search mem location_end (location_end + (saved_register_size info + offset)) of
              None \<Rightarrow> Undefined
            | Some None \<Rightarrow> Returns d
            | Some (Some v) \<Rightarrow> Returns (d(''$ebp'' \<mapsto> v)))
         else Returns d)"

text \<open>The scan after a program string that gave no usable result.\<close>

definition scan_instead ::
  "process \<Rightarrow> 32 memory \<Rightarrow> StackFrameX86 list \<Rightarrow> bool \<Rightarrow> 32 dictionary \<Rightarrow> Symbolizer \<Rightarrow>
   (32 dictionary option \<times> Symbolizer) exec" where
  "scan_instead pr mem frames stack_scan_allowed d st =
     (if \<not> stack_scan_allowed then Returns (None, st)
      else
        exec_bind (ScanForReturnAddress pr mem (reg (last frames) ESP) (length frames = 1) st) (\<lambda>(r, st).
          Returns (case r of
                     None \<Rightarrow> None
                   | Some (location, eip) \<Rightarrow> Some (d(''$eip'' \<mapsto> eip, ''$esp'' \<mapsto> location + 4)), st)))"

text \<open>The scan for a better return address when the one found is in no module: the dictionary, the offset and the
  trust afterwards.\<close>

definition better_return_address ::
  "process \<Rightarrow> 32 memory \<Rightarrow> StackFrameX86 list \<Rightarrow> bool \<Rightarrow> FrameTrust \<Rightarrow> 32 dictionary \<Rightarrow> Symbolizer \<Rightarrow>
   (32 dictionary \<times> 32 word \<times> FrameTrust \<times> Symbolizer) exec" where
  "better_return_address pr mem frames stack_scan_allowed t d st =
     (if (case module_at pr of None \<Rightarrow> False | Some at \<Rightarrow> at (ucast (dict_get d ''$eip'')) = None) \<and> stack_scan_allowed
      then
        let location_start = dict_get d ''.raSearchStart'' + 4 in
        exec_bind (ScanForReturnAddress pr mem location_start (length frames = 1) st) (\<lambda>(r, st).
          case r of
            None \<Rightarrow> Returns (d, 0, t, st)
          | Some (location, eip) \<Rightarrow>
              Returns (d(''$eip'' \<mapsto> eip, ''$esp'' \<mapsto> location + 4), location - location_start,
                FRAME_TRUST_CFI_SCAN, st))
      else Returns (d, 0, t, st))"

definition windows_caller_frame ::
  "StackFrameX86 \<Rightarrow> FrameTrust \<Rightarrow> 32 dictionary \<Rightarrow> (string \<rightharpoonup> bool) \<Rightarrow> StackFrameX86" where
  "windows_caller_frame last_frame t d dictionary_validity =
     (let ctx = (reg last_frame)(EIP := dict_get d ''$eip'', ESP := dict_get d ''$esp'', EBP := dict_get d ''$ebp'');
          v = X86_valid EIP OR X86_valid ESP OR X86_valid EBP;
          add = (\<lambda>name r (ctx, v). if dictionary_validity name \<noteq> None
                  then (ctx(r := dict_get d name), v OR X86_valid r) else (ctx, v));
          (ctx, v) = add ''$edi'' EDI (add ''$esi'' ESI (add ''$ebx'' EBX (ctx, v)))
      in X86_frame ctx v t 0)"

definition GetCallerByWindowsFrameInfo ::
  "process \<Rightarrow> 32 memory \<Rightarrow> StackFrameX86 list \<Rightarrow> WindowsFrameInfo \<Rightarrow> bool \<Rightarrow> Symbolizer \<Rightarrow>
   (StackFrameX86 option \<times> StackFrameX86 \<times> Symbolizer) exec" where
  "GetCallerByWindowsFrameInfo pr mem frames info stack_scan_allowed st =
     (let last_frame = (last frames)\<lparr>frame_windows_info := Some info\<rparr> in
      if valid info \<noteq> VALID_ALL then Returns (None, last_frame, st)
      else
        let params = callee_parameter_size frames;
            last_esp = reg last_frame ESP;
            d = [''$ebp'' \<mapsto> reg last_frame EBP, ''$esp'' \<mapsto> last_esp, ''.cbCalleeParams'' \<mapsto> params,
                 ''.cbSavedRegs'' \<mapsto> saved_register_size info, ''.cbLocals'' \<mapsto> local_size info]
        in
        exec_bind (ra_search_start pr mem last_frame info
            (last_esp + params + local_size info + saved_register_size info) st) (\<lambda>(ra_start, st).
          let (prog, recover) = choose_program info;
              ra_start = (if X86_valid EBP AND context_validity last_frame \<noteq> 0 \<and> CHR ''@'' \<in> set prog
                          then reg last_frame EBP + 4 else ra_start);
              d = d(''.cbParams'' \<mapsto> parameter_size info, ''.raSearchStart'' \<mapsto> ra_start, ''.raSearch'' \<mapsto> ra_start)
          in
          exec_bind (Evaluate prog (Some Map.empty)
              \<lparr>dictionary = Some d, memory = Some mem, stk = [], assigned = None\<rparr>) (\<lambda>(ok, ev).
            let d = the (dictionary ev); dictionary_validity = the (assigned ev) in
            exec_bind
              (if \<not> ok \<or> dictionary_validity ''$eip'' = None \<or> dictionary_validity ''$esp'' = None
               then exec_bind (scan_instead pr mem frames stack_scan_allowed d st) (\<lambda>(r, st).
                      Returns (map_option (\<lambda>d. (d, FRAME_TRUST_SCAN)) r, st))
               else Returns (Some (d, FRAME_TRUST_CFI), st))
              (\<lambda>(r, st).
                case r of
                  None \<Rightarrow> Returns (None, last_frame, st)
                | Some (d, t) \<Rightarrow>
                    if dict_get d ''$eip'' \<noteq> 0 \<or> dict_get d ''$ebp'' \<noteq> 0 then
                      exec_bind (better_return_address pr mem frames stack_scan_allowed t d st)
                        (\<lambda>(d, offset, t, st).
                          exec_bind (if recover then recover_ebp mem last_esp info params t ra_start offset d
                                     else Returns d) (\<lambda>d.
                            Returns (Some (windows_caller_frame last_frame t d dictionary_validity), last_frame, st)))
                    else Returns (Some (windows_caller_frame last_frame t d dictionary_validity), last_frame, st)))))"

section \<open>CFI rules, frame pointers, and the walker\<close>

definition X86_essentials :: "32 word" where
  "X86_essentials = X86_valid EIP OR X86_valid ESP OR X86_valid EBP"

definition X86_GetCallerByCFIFrameInfo ::
  "32 memory \<Rightarrow> StackFrameX86 \<Rightarrow> CFIFrameInfo \<Rightarrow> (StackFrameX86 option \<times> StackFrameX86) exec" where
  "X86_GetCallerByCFIFrameInfo mem last_frame cfi_info =
     (let last_frame = last_frame\<lparr>frame_cfi_info := Some cfi_info\<rparr> in
      exec_bind (FindCallerRegisters X86_cfi_register_map mem cfi_info (reg last_frame) (context_validity last_frame))
        (\<lambda>r. case r of
           None \<Rightarrow> Returns (None, last_frame)
         | Some (ctx, v) \<Rightarrow>
             if v AND X86_essentials \<noteq> X86_essentials then Returns (None, last_frame)
             else Returns (Some (X86_frame ctx v FRAME_TRUST_CFI 0), last_frame)))"

definition kMaxReasonableGapBetweenFrames :: "32 word" where
  "kMaxReasonableGapBetweenFrames = 128 * 1024"

definition X86_caller :: "StackFrameX86 \<Rightarrow> FrameTrust \<Rightarrow> 32 word \<Rightarrow> 32 word \<Rightarrow> 32 word \<Rightarrow> StackFrameX86" where
  "X86_caller last_frame t caller_eip caller_esp caller_ebp =
     X86_frame ((reg last_frame)(EIP := caller_eip, ESP := caller_esp, EBP := caller_ebp)) X86_essentials t 0"

definition GetCallerByEBPAtBase ::
  "process \<Rightarrow> 32 memory \<Rightarrow> StackFrameX86 list \<Rightarrow> bool \<Rightarrow> Symbolizer \<Rightarrow> (StackFrameX86 option \<times> Symbolizer) exec" where
  "GetCallerByEBPAtBase pr mem frames stack_scan_allowed st =
     (let last_frame = last frames; last_esp = reg last_frame ESP; last_ebp = reg last_frame EBP in
      case (mem (last_ebp + 4), mem last_ebp) of
        (Some caller_eip, Some caller_ebp) \<Rightarrow>
          Returns (Some (X86_caller last_frame FRAME_TRUST_FP caller_eip (last_ebp + 8) caller_ebp), st)
      | _ \<Rightarrow>
          if \<not> stack_scan_allowed then Returns (None, st)
          else
            exec_bind (ScanForReturnAddress pr mem last_esp (length frames = 1) st) (\<lambda>(r, st).
              case r of
                None \<Rightarrow> Returns (None, st)
              | Some (location, caller_eip) \<Rightarrow>
                  let caller_esp = location + 4;
                      restored_ebp_chain = caller_esp - 8;
                      caller_ebp = (case mem restored_ebp_chain of
                                      None \<Rightarrow> last_ebp
                                    | Some v \<Rightarrow>
                                        if v \<le> restored_ebp_chain \<or>
                                           v - restored_ebp_chain > kMaxReasonableGapBetweenFrames
                                        then last_ebp else v)
                  in Returns (Some (X86_caller last_frame FRAME_TRUST_SCAN caller_eip caller_esp caller_ebp), st)))"

text \<open>The checks that end the walk, and the address inside the call instruction.\<close>

definition X86_accept :: "StackFrameX86 \<Rightarrow> StackFrameX86 option \<Rightarrow> StackFrameX86 option" where
  "X86_accept last_frame new_frame =
     (case new_frame of
        None \<Rightarrow> None
      | Some f \<Rightarrow>
          if reg f EIP = 0 then None
          else if reg f ESP \<le> reg last_frame ESP then None
          else Some (f\<lparr>sf := (sf f)\<lparr>instruction := ucast (reg f EIP - 1)\<rparr>\<rparr>))"

definition X86_GetCallerFrame :: "process \<Rightarrow> 32 memory option \<Rightarrow> StackFrameX86 get_caller" where
  "X86_GetCallerFrame pr mem frames stack_scan_allowed st =
     (case mem of
        None \<Rightarrow> Returns (None, last frames, st)
      | Some mem \<Rightarrow>
          exec_bind
            (case FindWindowsFrameInfo st (last frames) of
               None \<Rightarrow> Returns (None, last frames, st)
             | Some info \<Rightarrow> GetCallerByWindowsFrameInfo pr mem frames info stack_scan_allowed st)
            (\<lambda>(new_frame, last_frame, st).
              exec_bind
                (case new_frame of
                   Some f \<Rightarrow> Returns (Some f, last_frame)
                 | None \<Rightarrow>
                     (case FindCFIFrameInfo st last_frame of
                        None \<Rightarrow> Returns (None, last_frame)
                      | Some cfi_info \<Rightarrow> X86_GetCallerByCFIFrameInfo mem last_frame cfi_info))
                (\<lambda>(new_frame, last_frame).
                  exec_bind
                    (case new_frame of
                       Some f \<Rightarrow> Returns (Some f, st)
                     | None \<Rightarrow> GetCallerByEBPAtBase pr mem (butlast frames @ [last_frame]) stack_scan_allowed st)
                    (\<lambda>(new_frame, st). Returns (X86_accept last_frame new_frame, last_frame, st)))))"

section \<open>Progress of the walk\<close>

text \<open>Every branch of a computation hands on the same last frame.\<close>

definition hands_on :: "'f \<Rightarrow> ('c \<times> 'f \<times> 's) exec \<Rightarrow> bool" where
  "hands_on l e \<longleftrightarrow> (\<forall>c l' s. e = Returns (c, l', s) \<longrightarrow> l' = l)"

lemma hands_on_bind: "(\<And>y. hands_on l (f y)) \<Longrightarrow> hands_on l (exec_bind x f)"
  by (cases x) (simp_all add: hands_on_def)

lemma hands_on_Returns: "hands_on l (Returns (c, l, s))"
  by (simp add: hands_on_def)

lemma GetCallerByWindowsFrameInfo_last:
  assumes "GetCallerByWindowsFrameInfo pr mem frames info ok st = Returns (c, l, st')"
  shows "l = (last frames)\<lparr>frame_windows_info := Some info\<rparr>"
proof -
  have "hands_on ((last frames)\<lparr>frame_windows_info := Some info\<rparr>) (GetCallerByWindowsFrameInfo pr mem frames info ok st)"
    unfolding GetCallerByWindowsFrameInfo_def Let_def
    by (auto intro!: hands_on_bind hands_on_Returns split: prod.split option.split)
  then show ?thesis using assms by (simp add: hands_on_def)
qed

lemma X86_GetCallerByCFIFrameInfo_last:
  assumes "X86_GetCallerByCFIFrameInfo mem last_frame info = Returns (c, l)"
  shows "l = last_frame\<lparr>frame_cfi_info := Some info\<rparr>"
  using assms
  by (auto simp: X86_GetCallerByCFIFrameInfo_def Let_def exec_bind_Returns_iff split: if_split_asm option.split_asm)

lemma X86_accept_some:
  "X86_accept last_frame c = Some f \<Longrightarrow> reg last_frame ESP < reg f ESP \<and> reg f EIP \<noteq> 0"
  by (auto simp: X86_accept_def not_le split: option.split_asm if_split_asm)

text \<open>The three strategies in turn.\<close>

lemma X86_GetCallerFrame_cases:
  assumes "X86_GetCallerFrame pr mem frames ok st = Returns (c, l, st')"
  obtains (none) "mem = None" "c = None" "l = last frames"
  | (tried) n l' where "mem \<noteq> None" "c = X86_accept l n" "reg l = reg (last frames)"
proof (cases mem)
  case None
  then show ?thesis using assms none by (simp add: X86_GetCallerFrame_def)
next
  case (Some m)
  then obtain n1 l1 st1 where 1: "(case FindWindowsFrameInfo st (last frames) of
               None \<Rightarrow> Returns (None, last frames, st)
             | Some info \<Rightarrow> GetCallerByWindowsFrameInfo pr m frames info ok st) = Returns (n1, l1, st1)"
    and rest: "exec_bind
                (case n1 of
                   Some f \<Rightarrow> Returns (Some f, l1)
                 | None \<Rightarrow>
                     (case FindCFIFrameInfo st1 l1 of
                        None \<Rightarrow> Returns (None, l1)
                      | Some cfi_info \<Rightarrow> X86_GetCallerByCFIFrameInfo m l1 cfi_info))
                (\<lambda>(new_frame, last_frame).
                  exec_bind
                    (case new_frame of
                       Some f \<Rightarrow> Returns (Some f, st1)
                     | None \<Rightarrow> GetCallerByEBPAtBase pr m (butlast frames @ [last_frame]) ok st1)
                    (\<lambda>(new_frame, st). Returns (X86_accept last_frame new_frame, last_frame, st))) = Returns (c, l, st')"
    using assms by (auto simp: X86_GetCallerFrame_def exec_bind_Returns_iff split: prod.split_asm)
  have l1: "reg l1 = reg (last frames)"
    using 1 by (auto split: option.split_asm dest!: GetCallerByWindowsFrameInfo_last)
  from rest obtain n2 l2 where 2: "(case n1 of
                   Some f \<Rightarrow> Returns (Some f, l1)
                 | None \<Rightarrow>
                     (case FindCFIFrameInfo st1 l1 of
                        None \<Rightarrow> Returns (None, l1)
                      | Some cfi_info \<Rightarrow> X86_GetCallerByCFIFrameInfo m l1 cfi_info)) = Returns (n2, l2)"
    and rest2: "exec_bind
                    (case n2 of
                       Some f \<Rightarrow> Returns (Some f, st1)
                     | None \<Rightarrow> GetCallerByEBPAtBase pr m (butlast frames @ [l2]) ok st1)
                    (\<lambda>(new_frame, st). Returns (X86_accept l2 new_frame, l2, st)) = Returns (c, l, st')"
    by (auto elim!: exec_bind_pairE)
  have "reg l2 = reg l1"
    using 2 by (auto split: option.split_asm dest!: X86_GetCallerByCFIFrameInfo_last)
  moreover from rest2 obtain n where "c = X86_accept l2 n" "l = l2" by (auto elim!: exec_bind_pairE)
  ultimately show ?thesis using tried [of n] Some l1 by simp
qed

interpretation x86: strict_stackwalker pr lim "X86_GetCallerFrame pr mem" "\<lambda>f. reg f ESP"
  for pr :: process and lim :: limits and mem :: "32 memory option"
proof unfold_locales
  fix f :: StackFrameX86 and m s
  show "reg (f\<lparr>fmodule := m, sf := s\<rparr>) ESP = reg f ESP" by simp
next
  fix frames ok st c l st'
  assume "X86_GetCallerFrame pr mem frames ok st = Returns (c, l, st')"
  then show "reg l ESP = reg (last frames) ESP" by (cases rule: X86_GetCallerFrame_cases) simp_all
next
  fix frames ok st f l st'
  assume "X86_GetCallerFrame pr mem frames ok st = Returns (Some f, l, st')"
  then have "reg (last frames) ESP < reg f ESP"
    by (cases rule: X86_GetCallerFrame_cases) (auto dest: X86_accept_some [OF sym])
  then show "reg (last frames) ESP \<le> reg f ESP" "reg (last frames) ESP < reg f ESP" by simp_all
qed

text \<open>Walking an x86 stack makes progress: the stack pointers of the frames strictly increase from the context
  frame outwards, whatever the memory, the symbols and the frame data say, and the walk stops after at most one frame
  more than the limit.\<close>

theorem X86_walk_progress:
  assumes "Walk pr lim (X86_GetContextFrame ctx) (X86_GetCallerFrame pr mem) without corrupt st =
    Returns (completed, frames, without', corrupt', st')"
  shows "sorted_wrt (<) (map (\<lambda>f. reg f ESP) frames) \<and> length frames \<le> unat (max_frames lim) + 1 \<and>
    (completed \<longrightarrow> (case ctx of None \<Rightarrow> frames = [] | Some c \<Rightarrow> frames \<noteq> [] \<and> reg (hd frames) ESP = c ESP))"
  using x86.walk_strictly_sorted [OF assms] x86.walk_sorted(2,3) [OF assms]
  by (cases ctx) (auto simp: X86_GetContextFrame_def X86_frame_def)


section \<open>Walking a chain of frame pointers\<close>

text \<open>The registers that a frame of the standard calling convention leaves for its caller: the return address and the
  caller's frame pointer are on the stack where the frame pointer points. The chain ends at a return address of zero.\<close>

fun ebp_chain :: "32 memory \<Rightarrow> 32 word \<times> 32 word \<times> 32 word \<Rightarrow> (32 word \<times> 32 word \<times> 32 word) list \<Rightarrow> bool" where
  "ebp_chain mem (eip, esp, ebp) [] \<longleftrightarrow> mem (ebp + 4) = Some 0 \<and> mem ebp \<noteq> None"
| "ebp_chain mem (eip, esp, ebp) ((eip', esp', ebp') # callers) \<longleftrightarrow>
     mem (ebp + 4) = Some eip' \<and> mem ebp = Some ebp' \<and> eip' \<noteq> 0 \<and> esp' = ebp + 8 \<and> esp < esp' \<and>
     ebp_chain mem (eip', esp', ebp') callers"

definition frame_registers :: "StackFrameX86 \<Rightarrow> 32 word \<times> 32 word \<times> 32 word" where
  "frame_registers f = (reg f EIP, reg f ESP, reg f EBP)"

lemma X86_GetCallerFrame_no_symbols:
  assumes "resolver st = None" "mem (reg f EBP + 4) = Some eip'" "mem (reg f EBP) = Some ebp'"
  shows "X86_GetCallerFrame pr (Some mem) (frames @ [f]) ok st =
    Returns (X86_accept f (Some (X86_caller f FRAME_TRUST_FP eip' (reg f EBP + 8) ebp')), f, st)"
  using assms
  by (simp add: X86_GetCallerFrame_def FindWindowsFrameInfo_def FindCFIFrameInfo_def GetCallerByEBPAtBase_def)

lemma X86_walk_chain:
  assumes "resolver st = None"
  shows "ebp_chain mem (frame_registers f) callers \<Longrightarrow> length frames + length callers < unat (max_frames lim) \<Longrightarrow>
    \<exists>stack w'. Walk_loop pr lim (X86_GetCallerFrame pr (Some mem)) f frames n w c st = Returns (True, stack, w', c, st) \<and>
      map frame_registers stack = map frame_registers frames @ frame_registers f # callers \<and>
      map trust stack = map trust frames @ trust f # replicate (length callers) FRAME_TRUST_FP"
proof (induction callers arbitrary: f frames n w)
  case Nil
  obtain m s where fl: "FillSourceLineInfo pr st f = Returns (kError, f\<lparr>fmodule := m, sf := s\<rparr>, st)"
    using FillSourceLineInfo_no_resolver [OF assms] by blast
  let ?f = "f\<lparr>fmodule := m, sf := s\<rparr>"
  obtain ebp' where mem: "mem (reg ?f EBP + 4) = Some 0" "mem (reg ?f EBP) = Some ebp'"
    using Nil by (auto simp: frame_registers_def)
  show ?case
    using Nil(2) X86_GetCallerFrame_no_symbols [OF assms mem, of pr frames]
    by (subst Walk_loop.simps) (simp add: fl Let_def X86_accept_def X86_caller_def X86_frame_def frame_registers_def)
next
  case (Cons x callers)
  obtain eip' esp' ebp' where x: "x = (eip', esp', ebp')" by (metis prod_cases3)
  obtain m s where fl: "FillSourceLineInfo pr st f = Returns (kError, f\<lparr>fmodule := m, sf := s\<rparr>, st)"
    using FillSourceLineInfo_no_resolver [OF assms] by blast
  let ?f = "f\<lparr>fmodule := m, sf := s\<rparr>"
  have ch: "mem (reg ?f EBP + 4) = Some eip'" "mem (reg ?f EBP) = Some ebp'" "eip' \<noteq> 0" "esp' = reg f EBP + 8"
    "reg f ESP < esp'" "ebp_chain mem (eip', esp', ebp') callers"
    using Cons.prems(1) by (auto simp: frame_registers_def x)
  define g where "g = (X86_caller ?f FRAME_TRUST_FP eip' (reg f EBP + 8) ebp')\<lparr>sf := (frame_at 0)\<lparr>instruction := ucast (eip' - 1)\<rparr>\<rparr>"
  have acc: "X86_accept ?f (Some (X86_caller ?f FRAME_TRUST_FP eip' (reg ?f EBP + 8) ebp')) = Some g"
    using ch(3-5) by (simp add: X86_accept_def g_def X86_caller_def X86_frame_def not_le)
  have g: "frame_registers g = (eip', esp', ebp')" "trust g = FRAME_TRUST_FP"
    using ch(4) by (simp_all add: g_def frame_registers_def X86_caller_def X86_frame_def)
  define n' where "n' = (if trust f \<in> {FRAME_TRUST_NONE, FRAME_TRUST_SCAN, FRAME_TRUST_CFI_SCAN} then n + 1 else n)"
  obtain stack w' where run: "Walk_loop pr lim (X86_GetCallerFrame pr (Some mem)) g (frames @ [?f]) n'
        (InsertSpecialAttentionModule m w) c st = Returns (True, stack, w', c, st)"
    "map frame_registers stack = map frame_registers (frames @ [?f]) @ frame_registers g # callers"
    "map trust stack = map trust (frames @ [?f]) @ trust g # replicate (length callers) FRAME_TRUST_FP"
    using Cons.IH [of g "frames @ [?f]" n' "InsertSpecialAttentionModule m w"] ch(6) Cons.prems(2) g(1) by auto
  have "Walk_loop pr lim (X86_GetCallerFrame pr (Some mem)) f frames n w c st =
      Walk_loop pr lim (X86_GetCallerFrame pr (Some mem)) g (frames @ [?f]) n' (InsertSpecialAttentionModule m w) c st"
    using Cons.prems(2) X86_GetCallerFrame_no_symbols [OF assms ch(1,2), of pr frames] acc
    by (subst Walk_loop.simps) (simp add: fl Let_def n'_def del: insert_iff)
  moreover have "frame_registers ?f = frame_registers f" by (simp add: frame_registers_def)
  ultimately show ?case using run g by (simp add: x)
qed

text \<open>C20. Without symbols, walking a stack that is laid out by the standard calling convention recovers exactly its
  frames: the registers of the context, then those of every caller along the chain of frame pointers, each trusted as
  found by a frame pointer.\<close>

theorem X86_walk_frame_pointers:
  assumes "resolver st = None" "ebp_chain mem (ctx EIP, ctx ESP, ctx EBP) callers" "length callers < unat (max_frames lim)"
  shows "\<exists>frames without'. Walk pr lim (X86_GetContextFrame (Some ctx)) (X86_GetCallerFrame pr (Some mem)) without corrupt st =
      Returns (True, frames, without', corrupt, st) \<and>
    map frame_registers frames = (ctx EIP, ctx ESP, ctx EBP) # callers \<and>
    map trust frames = FRAME_TRUST_CONTEXT # replicate (length callers) FRAME_TRUST_FP"
  using X86_walk_chain [OF assms(1), of mem "X86_frame ctx CONTEXT_VALID_ALL FRAME_TRUST_CONTEXT (ucast (ctx EIP))" callers
      "[]" lim pr 0 without corrupt] assms(2,3)
  by (simp add: Walk_def X86_GetContextFrame_def frame_registers_def X86_frame_def)

definition sample_stack :: "32 memory" where
  "sample_stack = [100 \<mapsto> 116, 104 \<mapsto> 7, 116 \<mapsto> 0, 120 \<mapsto> 0]"

definition sample_context :: "X86Register \<Rightarrow> 32 word" where
  "sample_context = (\<lambda>_. 0)(EIP := 5, ESP := 90, EBP := 100)"

definition sample_limits :: limits where
  "sample_limits = \<lparr>max_frames = 8, max_frames_scanned = 8\<rparr>"

theorem X86_walk_frame_pointers_witness:
  "\<exists>frames without'. Walk (sample_process NOT_FOUND) sample_limits (X86_GetContextFrame (Some sample_context))
       (X86_GetCallerFrame (sample_process NOT_FOUND) (Some sample_stack)) [] []
       \<lparr>resolver = None, no_symbol_modules = {}\<rparr> =
      Returns (True, frames, without', [], \<lparr>resolver = None, no_symbol_modules = {}\<rparr>) \<and>
    map frame_registers frames = [(5, 90, 100), (7, 108, 116)]"
  using X86_walk_frame_pointers [of "\<lparr>resolver = None, no_symbol_modules = {}\<rparr>" sample_stack sample_context "[(7, 108, 116)]"
      sample_limits "sample_process NOT_FOUND" "[]" "[]"]
  by (auto simp: sample_stack_def sample_context_def sample_limits_def)

theorem X86_walk_progress_witness:
  "\<exists>frames. sorted_wrt (<) (map (\<lambda>f. reg f ESP) frames) \<and> length frames \<le> 9 \<and>
     map frame_registers frames = [(5, 90, 100), (7, 108, 116)]"
proof -
  obtain frames w where w: "Walk (sample_process NOT_FOUND) sample_limits (X86_GetContextFrame (Some sample_context))
       (X86_GetCallerFrame (sample_process NOT_FOUND) (Some sample_stack)) [] []
       \<lparr>resolver = None, no_symbol_modules = {}\<rparr> =
      Returns (True, frames, w, [], \<lparr>resolver = None, no_symbol_modules = {}\<rparr>)"
    "map frame_registers frames = [(5, 90, 100), (7, 108, 116)]"
    using X86_walk_chain [of "\<lparr>resolver = None, no_symbol_modules = {}\<rparr>" sample_stack
        "X86_frame sample_context CONTEXT_VALID_ALL FRAME_TRUST_CONTEXT (ucast (sample_context EIP))" "[(7, 108, 116)]" "[]"
        sample_limits "sample_process NOT_FOUND" 0 "[]" "[]"]
    by (auto simp: Walk_def X86_GetContextFrame_def sample_stack_def sample_context_def sample_limits_def
        frame_registers_def X86_frame_def)
  from X86_walk_progress [OF w(1)] w(2) show ?thesis by (auto simp: sample_limits_def)
qed

end
