(* ===== verification/Stackwalker_AMD64.thy ===== *)
theory Stackwalker_AMD64
  imports Stackwalker
begin

unbundle bit_operations_syntax

text \<open>
  The stackwalker for x86-64 (\<^verbatim>\<open>processor/stackwalker_amd64.cc\<close>): CFI rules, then frame pointers, then
  a scan of the stack.
\<close>

datatype AMD64Register =
    RAX | RDX | RCX | RBX | RSI | RDI | RBP | RSP | R8 | R9 | R10 | R11 | R12 | R13 | R14 | R15 | RIP

type_synonym StackFrameAMD64 = "(AMD64Register, 64) CPUFrame"

fun AMD64_index :: "AMD64Register \<Rightarrow> nat" where
  "AMD64_index RAX = 0" | "AMD64_index RDX = 1" | "AMD64_index RCX = 2" | "AMD64_index RBX = 3"
| "AMD64_index RSI = 4" | "AMD64_index RDI = 5" | "AMD64_index RBP = 6" | "AMD64_index RSP = 7"
| "AMD64_index R8 = 8" | "AMD64_index R9 = 9" | "AMD64_index R10 = 10" | "AMD64_index R11 = 11"
| "AMD64_index R12 = 12" | "AMD64_index R13 = 13" | "AMD64_index R14 = 14" | "AMD64_index R15 = 15"
| "AMD64_index RIP = 16"

definition AMD64_valid :: "AMD64Register \<Rightarrow> 32 word" where
  "AMD64_valid r = 2 ^ AMD64_index r"

definition AMD64_register :: "string \<Rightarrow> string option \<Rightarrow> bool \<Rightarrow> AMD64Register \<Rightarrow> AMD64Register RegisterSet" where
  "AMD64_register name alt saved r =
     \<lparr>rname = name, alternate_name = alt, callee_saves = saved, validity_flag = AMD64_valid r, context_member = r\<rparr>"

definition AMD64_cfi_register_map :: "AMD64Register RegisterSet list" where
  "AMD64_cfi_register_map =
     [AMD64_register ''$rax'' None False RAX, AMD64_register ''$rdx'' None False RDX,
      AMD64_register ''$rcx'' None False RCX, AMD64_register ''$rbx'' None True RBX,
      AMD64_register ''$rsi'' None False RSI, AMD64_register ''$rdi'' None False RDI,
      AMD64_register ''$rbp'' None True RBP, AMD64_register ''$rsp'' (Some ''.cfa'') False RSP,
      AMD64_register ''$r8'' None False R8, AMD64_register ''$r9'' None False R9,
      AMD64_register ''$r10'' None False R10, AMD64_register ''$r11'' None False R11,
      AMD64_register ''$r12'' None True R12, AMD64_register ''$r13'' None True R13,
      AMD64_register ''$r14'' None True R14, AMD64_register ''$r15'' None True R15,
      AMD64_register ''$rip'' (Some ''.ra'') False RIP]"

definition AMD64_frame :: "(AMD64Register \<Rightarrow> 64 word) \<Rightarrow> 32 word \<Rightarrow> FrameTrust \<Rightarrow> 64 word \<Rightarrow> StackFrameAMD64" where
  "AMD64_frame ctx v t address = \<lparr>sf = frame_at address, fmodule = None, trust = t, reg = ctx, context_validity = v\<rparr>"

definition AMD64_GetContextFrame :: "(AMD64Register \<Rightarrow> 64 word) option \<Rightarrow> StackFrameAMD64 option" where
  "AMD64_GetContextFrame ctx = map_option (\<lambda>c. AMD64_frame c CONTEXT_VALID_ALL FRAME_TRUST_CONTEXT (c RIP)) ctx"

definition AMD64_essentials :: "32 word" where
  "AMD64_essentials = AMD64_valid RIP OR AMD64_valid RSP"

definition AMD64_GetCallerByCFIFrameInfo ::
  "64 memory \<Rightarrow> StackFrameAMD64 \<Rightarrow> CFIFrameInfo \<Rightarrow> StackFrameAMD64 option exec" where
  "AMD64_GetCallerByCFIFrameInfo mem last_frame cfi_info =
     exec_bind (FindCallerRegisters AMD64_cfi_register_map mem cfi_info (reg last_frame) (context_validity last_frame))
       (\<lambda>r. case r of
          None \<Rightarrow> Returns None
        | Some (ctx, v) \<Rightarrow>
            if v AND AMD64_essentials \<noteq> AMD64_essentials then Returns None
            else Returns (Some (AMD64_frame ctx v FRAME_TRUST_CFI 0)))"

definition GetCallerByFramePointerRecovery :: "64 memory \<Rightarrow> StackFrameAMD64 \<Rightarrow> StackFrameAMD64 option" where
  "GetCallerByFramePointerRecovery mem last_frame =
     (let last_rsp = reg last_frame RSP; last_rbp = reg last_frame RBP in
      case (mem (last_rbp + 8), mem last_rbp) of
        (Some caller_rip, Some caller_rbp) \<Rightarrow>
          let caller_rsp = last_rbp + 16 in
          if caller_rbp < last_rbp \<or> caller_rsp < last_rsp then None
          else Some (AMD64_frame ((reg last_frame)(RIP := caller_rip, RSP := caller_rsp, RBP := caller_rbp))
                 (AMD64_valid RIP OR AMD64_valid RSP OR AMD64_valid RBP) FRAME_TRUST_FP 0)
      | _ \<Rightarrow> None)"

definition AMD64_GetCallerByStackScan ::
  "process \<Rightarrow> 64 memory \<Rightarrow> StackFrameAMD64 list \<Rightarrow> Symbolizer \<Rightarrow> (StackFrameAMD64 option \<times> Symbolizer) exec" where
  "AMD64_GetCallerByStackScan pr mem frames st =
     (let last_frame = last frames in
      exec_bind (ScanForReturnAddress pr mem (reg last_frame RSP) (length frames = 1) st) (\<lambda>(r, st).
        case r of
          None \<Rightarrow> Returns (None, st)
        | Some (caller_rip_address, caller_rip) \<Rightarrow>
            let ctx = (reg last_frame)(RIP := caller_rip, RSP := caller_rip_address + 8);
                v = AMD64_valid RIP OR AMD64_valid RSP;
                last_rbp = reg last_frame RBP;
                (ctx, v) =
                  (if context_validity last_frame AND AMD64_valid RBP \<noteq> 0 then
                     if caller_rip_address - 8 = last_rbp then
                       (case mem last_rbp of
                          Some caller_rbp \<Rightarrow>
                            if caller_rbp > caller_rip_address then (ctx(RBP := caller_rbp), v OR AMD64_valid RBP)
                            else (ctx, v)
                        | None \<Rightarrow> (ctx, v))
                     else if last_rbp \<ge> caller_rip_address + 8 then (ctx(RBP := last_rbp), v OR AMD64_valid RBP)
                     else (ctx, v)
                   else (ctx, v))
            in Returns (Some (AMD64_frame ctx v FRAME_TRUST_SCAN 0), st)))"

text \<open>The 32 low bits of a register.\<close>

definition low32 :: "64 word \<Rightarrow> 64 word" where
  "low32 w = ucast (ucast w :: 32 word)"

definition nacl_sandbox :: "process \<Rightarrow> StackFrameAMD64 \<Rightarrow> StackFrameAMD64" where
  "nacl_sandbox pr f =
     (if os_short pr = ''nacl''
      then f\<lparr>reg := (reg f)(RIP := low32 (reg f RIP), RSP := low32 (reg f RSP), RBP := low32 (reg f RBP))\<rparr> else f)"

definition AMD64_accept :: "process \<Rightarrow> StackFrameAMD64 \<Rightarrow> StackFrameAMD64 option \<Rightarrow> StackFrameAMD64 option" where
  "AMD64_accept pr last_frame new_frame =
     (case new_frame of
        None \<Rightarrow> None
      | Some f \<Rightarrow>
          let f = nacl_sandbox pr f in
          if reg f RIP = 0 then None
          else if reg f RSP \<le> reg last_frame RSP then None
          else Some (f\<lparr>sf := (sf f)\<lparr>instruction := reg f RIP - 1\<rparr>\<rparr>))"

definition AMD64_GetCallerFrame :: "process \<Rightarrow> 64 memory option \<Rightarrow> StackFrameAMD64 get_caller" where
  "AMD64_GetCallerFrame pr mem frames stack_scan_allowed st =
     (let last_frame = last frames in
      case mem of
        None \<Rightarrow> Returns (None, last_frame, st)
      | Some mem \<Rightarrow>
          exec_bind
            (case FindCFIFrameInfo st last_frame of
               None \<Rightarrow> Returns None
             | Some cfi_info \<Rightarrow> AMD64_GetCallerByCFIFrameInfo mem last_frame cfi_info)
            (\<lambda>new_frame.
              let new_frame = (if new_frame = None then GetCallerByFramePointerRecovery mem last_frame else new_frame) in
              exec_bind
                (if stack_scan_allowed \<and> new_frame = None then AMD64_GetCallerByStackScan pr mem frames st
                 else Returns (new_frame, st))
                (\<lambda>(new_frame, st). Returns (AMD64_accept pr last_frame new_frame, last_frame, st))))"

section \<open>Progress\<close>

lemma AMD64_accept_some: "AMD64_accept pr last_frame c = Some f \<Longrightarrow> reg last_frame RSP < reg f RSP"
  by (auto simp: AMD64_accept_def Let_def not_le split: option.split_asm if_split_asm)

lemma AMD64_GetCallerFrame_result:
  assumes "AMD64_GetCallerFrame pr mem frames ok st = Returns (c, l, st')"
  shows "l = last frames \<and> (c = None \<or> (\<exists>n. c = AMD64_accept pr l n))"
  using assms
  by (cases mem) (auto simp: AMD64_GetCallerFrame_def Let_def exec_bind_Returns_iff)

interpretation amd64: strict_stackwalker pr lim "AMD64_GetCallerFrame pr mem" "\<lambda>f. reg f RSP"
  for pr :: process and lim :: limits and mem :: "64 memory option"
proof unfold_locales
  fix f :: StackFrameAMD64 and m s
  show "reg (f\<lparr>fmodule := m, sf := s\<rparr>) RSP = reg f RSP" by simp
next
  fix frames ok st c l st'
  assume "AMD64_GetCallerFrame pr mem frames ok st = Returns (c, l, st')"
  then show "reg l RSP = reg (last frames) RSP" using AMD64_GetCallerFrame_result by blast
next
  fix frames ok st f l st'
  assume "AMD64_GetCallerFrame pr mem frames ok st = Returns (Some f, l, st')"
  then have "reg (last frames) RSP < reg f RSP"
    using AMD64_GetCallerFrame_result AMD64_accept_some by (metis option.distinct(1))
  then show "reg (last frames) RSP \<le> reg f RSP" "reg (last frames) RSP < reg f RSP" by simp_all
qed

end
