(* ===== verification/Stackwalker_RISC.thy ===== *)
theory Stackwalker_RISC
  imports Stackwalker
begin

unbundle bit_operations_syntax

text \<open>
  The stackwalkers for PowerPC, PowerPC-64 and SPARC (\<^verbatim>\<open>processor/stackwalker_ppc.cc\<close>,
  \<^verbatim>\<open>stackwalker_ppc64.cc\<close>, \<^verbatim>\<open>stackwalker_sparc.cc\<close>). They follow the chain of saved stack pointers only.
\<close>

section \<open>PowerPC\<close>

datatype PPCRegister = SRR0 | GPR nat

type_synonym StackFramePPC = "(PPCRegister, 32) CPUFrame"

type_synonym StackFramePPC64 = "(PPCRegister, 64) CPUFrame"

definition PPC_frame :: "(PPCRegister \<Rightarrow> 'a::len word) \<Rightarrow> 32 word \<Rightarrow> FrameTrust \<Rightarrow> 64 word \<Rightarrow> (PPCRegister, 'a) CPUFrame" where
  "PPC_frame ctx v t address = \<lparr>sf = frame_at address, fmodule = None, trust = t, reg = ctx, context_validity = v\<rparr>"

definition PPC_GetContextFrame :: "(PPCRegister \<Rightarrow> 32 word) option \<Rightarrow> StackFramePPC option" where
  "PPC_GetContextFrame ctx =
     map_option (\<lambda>c. PPC_frame c CONTEXT_VALID_ALL FRAME_TRUST_CONTEXT (ucast (c SRR0))) ctx"

definition PPC_valid :: "32 word" where
  "PPC_valid = 1 OR 2"

definition PPC_GetCallerFrame :: "32 memory option \<Rightarrow> StackFramePPC get_caller" where
  "PPC_GetCallerFrame mem frames stack_scan_allowed st =
     (let last_frame = last frames in
      case mem of
        None \<Rightarrow> Returns (None, last_frame, st)
      | Some mem \<Rightarrow>
          (case mem (reg last_frame (GPR 1)) of
             None \<Rightarrow> Returns (None, last_frame, st)
           | Some stack_pointer \<Rightarrow>
               if stack_pointer \<le> reg last_frame (GPR 1) then Returns (None, last_frame, st)
               else
                 (case mem (stack_pointer + 8) of
                    None \<Rightarrow> Returns (None, last_frame, st)
                  | Some instr \<Rightarrow>
                      if instr \<le> 1 then Returns (None, last_frame, st)
                      else Returns (Some (PPC_frame ((reg last_frame)(SRR0 := instr, GPR 1 := stack_pointer))
                             PPC_valid FRAME_TRUST_FP (ucast (instr - 4))), last_frame, st))))"

definition PPC64_GetContextFrame :: "(PPCRegister \<Rightarrow> 64 word) option \<Rightarrow> StackFramePPC64 option" where
  "PPC64_GetContextFrame ctx =
     map_option (\<lambda>c. PPC_frame c CONTEXT_VALID_ALL FRAME_TRUST_CONTEXT (c SRR0)) ctx"

definition PPC64_GetCallerFrame :: "64 memory option \<Rightarrow> StackFramePPC64 get_caller" where
  "PPC64_GetCallerFrame mem frames stack_scan_allowed st =
     (let last_frame = last frames in
      case mem of
        None \<Rightarrow> Returns (None, last_frame, st)
      | Some mem \<Rightarrow>
          (case mem (reg last_frame (GPR 1)) of
             None \<Rightarrow> Returns (None, last_frame, st)
           | Some stack_pointer \<Rightarrow>
               if stack_pointer \<le> reg last_frame (GPR 1) then Returns (None, last_frame, st)
               else
                 (case mem (stack_pointer + 16) of
                    None \<Rightarrow> Returns (None, last_frame, st)
                  | Some instr \<Rightarrow>
                      if instr \<le> 1 then Returns (None, last_frame, st)
                      else Returns (Some (PPC_frame ((reg last_frame)(SRR0 := instr, GPR 1 := stack_pointer))
                             PPC_valid FRAME_TRUST_FP (instr - 8)), last_frame, st))))"

section \<open>SPARC\<close>

text \<open>The registers have 64 bits, but the saved ones are read as 32-bit words.\<close>

datatype SPARCRegister = PC | G_R nat

type_synonym StackFrameSPARC = "(SPARCRegister, 64) CPUFrame"

definition SPARC_frame :: "(SPARCRegister \<Rightarrow> 64 word) \<Rightarrow> 32 word \<Rightarrow> FrameTrust \<Rightarrow> 64 word \<Rightarrow> StackFrameSPARC" where
  "SPARC_frame ctx v t address = \<lparr>sf = frame_at address, fmodule = None, trust = t, reg = ctx, context_validity = v\<rparr>"

definition SPARC_GetContextFrame :: "(SPARCRegister \<Rightarrow> 64 word) option \<Rightarrow> StackFrameSPARC option" where
  "SPARC_GetContextFrame ctx = map_option (\<lambda>c. SPARC_frame c CONTEXT_VALID_ALL FRAME_TRUST_CONTEXT (c PC)) ctx"

definition SPARC_valid :: "32 word" where
  "SPARC_valid = 1 OR 2 OR 4"

definition SPARC_GetCallerFrame :: "(64 word \<rightharpoonup> 32 word) option \<Rightarrow> StackFrameSPARC get_caller" where
  "SPARC_GetCallerFrame mem frames stack_scan_allowed st =
     (let last_frame = last frames in
      case mem of
        None \<Rightarrow> Returns (None, last_frame, st)
      | Some mem \<Rightarrow>
          let stack_pointer = reg last_frame (G_R 30) in
          if stack_pointer \<le> reg last_frame (G_R 14) then Returns (None, last_frame, st)
          else
            (case mem (stack_pointer + 60) of
               None \<Rightarrow> Returns (None, last_frame, st)
             | Some instr \<Rightarrow>
                 if instr \<le> 1 then Returns (None, last_frame, st)
                 else
                   (case mem (stack_pointer + 56) of
                      None \<Rightarrow> Returns (None, last_frame, st)
                    | Some stack_base \<Rightarrow>
                        if stack_base \<le> 1 then Returns (None, last_frame, st)
                        else
                          Returns (Some (SPARC_frame
                            ((reg last_frame)(G_R 14 := stack_pointer, G_R 30 := ucast stack_base, PC := ucast (instr + 8)))
                            SPARC_valid FRAME_TRUST_FP (ucast instr)), last_frame, st))))"

section \<open>Progress\<close>

lemma reg_symbols [simp]: "reg (f\<lparr>fmodule := m, sf := s\<rparr>) = reg f"
  by simp

interpretation ppc: strict_stackwalker pr lim "PPC_GetCallerFrame mem" "\<lambda>f. reg f (GPR 1)"
  for pr :: process and lim :: limits and mem :: "32 memory option"
  by unfold_locales
    (auto simp: PPC_GetCallerFrame_def PPC_frame_def Let_def not_le split: option.split_asm if_split_asm)

interpretation ppc64: strict_stackwalker pr lim "PPC64_GetCallerFrame mem" "\<lambda>f. reg f (GPR 1)"
  for pr :: process and lim :: limits and mem :: "64 memory option"
  by unfold_locales
    (auto simp: PPC64_GetCallerFrame_def PPC_frame_def Let_def not_le split: option.split_asm if_split_asm)

interpretation sparc: strict_stackwalker pr lim "SPARC_GetCallerFrame mem" "\<lambda>f. reg f (G_R 14)"
  for pr :: process and lim :: limits and mem :: "(64 word \<rightharpoonup> 32 word) option"
  by unfold_locales
    (auto simp: SPARC_GetCallerFrame_def SPARC_frame_def Let_def not_le split: option.split_asm if_split_asm)

section \<open>Walking a chain of stack pointers\<close>

text \<open>The calling conventions: where a callee finds the stack pointer and the return address of its caller.\<close>

definition ppc_caller :: "32 memory \<Rightarrow> 32 word \<times> 32 word \<Rightarrow> (32 word \<times> 32 word) option" where
  "ppc_caller mem r =
     (case mem (snd r) of
        None \<Rightarrow> None
      | Some sp \<Rightarrow> (case mem (sp + 8) of
                      None \<Rightarrow> None
                    | Some ra \<Rightarrow> if snd r < sp \<and> 1 < ra then Some (ra, sp) else None))"

definition ppc64_caller :: "64 memory \<Rightarrow> 64 word \<times> 64 word \<Rightarrow> (64 word \<times> 64 word) option" where
  "ppc64_caller mem r =
     (case mem (snd r) of
        None \<Rightarrow> None
      | Some sp \<Rightarrow> (case mem (sp + 16) of
                      None \<Rightarrow> None
                    | Some ra \<Rightarrow> if snd r < sp \<and> 1 < ra then Some (ra, sp) else None))"

definition sparc_caller :: "(64 word \<rightharpoonup> 32 word) \<Rightarrow> 64 word \<times> 64 word \<times> 64 word \<Rightarrow> (64 word \<times> 64 word \<times> 64 word) option" where
  "sparc_caller mem = (\<lambda>(pc, sp, fp).
     (case (mem (fp + 60), mem (fp + 56)) of
        (Some i7, Some i6) \<Rightarrow> if sp < fp \<and> 1 < i7 \<and> 1 < i6 then Some (ucast (i7 + 8), fp, ucast i6) else None
      | _ \<Rightarrow> None))"

definition ppc_view :: "(PPCRegister, 'a::len) CPUFrame \<Rightarrow> 'a word \<times> 'a word" where
  "ppc_view f = (reg f SRR0, reg f (GPR 1))"

definition sparc_view :: "StackFrameSPARC \<Rightarrow> 64 word \<times> 64 word \<times> 64 word" where
  "sparc_view f = (reg f PC, reg f (G_R 14), reg f (G_R 30))"

interpretation ppc_chain: pointer_walker pr lim "PPC_GetCallerFrame (Some mem)" ppc_view "ppc_caller mem"
  for pr :: process and lim :: limits and mem :: "32 memory"
  by unfold_locales
    (auto simp: PPC_GetCallerFrame_def PPC_frame_def ppc_view_def ppc_caller_def Let_def split: option.split)

interpretation ppc64_chain: pointer_walker pr lim "PPC64_GetCallerFrame (Some mem)" ppc_view "ppc64_caller mem"
  for pr :: process and lim :: limits and mem :: "64 memory"
  by unfold_locales
    (auto simp: PPC64_GetCallerFrame_def PPC_frame_def ppc_view_def ppc64_caller_def Let_def split: option.split)

interpretation sparc_chain: pointer_walker pr lim "SPARC_GetCallerFrame (Some mem)" sparc_view "sparc_caller mem"
  for pr :: process and lim :: limits and mem :: "64 word \<rightharpoonup> 32 word"
  by unfold_locales
    (auto simp: SPARC_GetCallerFrame_def SPARC_frame_def sparc_view_def sparc_caller_def Let_def split: option.split)

text \<open>A chain of at most \<open>n\<close> steps has one frame more.\<close>

lemma length_chain: "length (chain n f x) \<le> Suc n"
  by (induction n arbitrary: x) (auto split: option.split)

text \<open>C21. Without symbols, the walks of the three processors return, and the frames they find are exactly those that
  following the saved stack pointers from the context finds. The caller's stack pointer is at the stack pointer, and the
  return address is in the caller's frame, at offset 8 on 32-bit PowerPC and at offset 16 on 64-bit PowerPC, where the
  comment in \<^verbatim>\<open>stackwalker_ppc64.cc\<close> says 8; SPARC saves its window above the frame pointer. The walk stops after \<open>max_frames_\<close>
  callers, so that it has up to one frame more than that, although the header calls it the maximum number of
  frames.\<close>

theorem RISC_walks_follow_convention:
  assumes "resolver st = None"
  shows "(\<exists>stack w'. Walk pr lim (PPC_GetContextFrame (Some ctx)) (PPC_GetCallerFrame (Some mem)) w c st =
        Returns (True, stack, w', c, st) \<and> length stack \<le> Suc (unat (max_frames lim)) \<and>
      map ppc_view stack = chain (unat (max_frames lim)) (ppc_caller mem) (ctx SRR0, ctx (GPR 1))) \<and>
    (\<exists>stack w'. Walk pr lim (PPC64_GetContextFrame (Some ctx64)) (PPC64_GetCallerFrame (Some mem64)) w c st =
        Returns (True, stack, w', c, st) \<and> length stack \<le> Suc (unat (max_frames lim)) \<and>
      map ppc_view stack = chain (unat (max_frames lim)) (ppc64_caller mem64) (ctx64 SRR0, ctx64 (GPR 1))) \<and>
    (\<exists>stack w'. Walk pr lim (SPARC_GetContextFrame (Some ctxs)) (SPARC_GetCallerFrame (Some mems)) w c st =
        Returns (True, stack, w', c, st) \<and> length stack \<le> Suc (unat (max_frames lim)) \<and>
      map sparc_view stack = chain (unat (max_frames lim)) (sparc_caller mems) (ctxs PC, ctxs (G_R 14), ctxs (G_R 30)))"
  (is "?ppc \<and> ?ppc64 \<and> ?sparc")
proof (intro conjI)
  have len: "length stack \<le> Suc n" if "map v stack = chain n f x" for v stack n f x
    using length_chain [of n f x] that by (metis length_map)
  have "\<exists>stack w'. Walk pr lim (PPC_GetContextFrame (Some ctx)) (PPC_GetCallerFrame (Some mem)) w c st =
        Returns (True, stack, w', c, st) \<and>
      map ppc_view stack = chain (unat (max_frames lim)) (ppc_caller mem) (ctx SRR0, ctx (GPR 1))"
    using ppc_chain.walk_chain [OF assms, where f = "PPC_frame ctx CONTEXT_VALID_ALL FRAME_TRUST_CONTEXT (ucast (ctx SRR0))" and w = w and c = c]
    by (simp add: PPC_GetContextFrame_def ppc_view_def PPC_frame_def)
  then show ?ppc using len by meson
  have "\<exists>stack w'. Walk pr lim (PPC64_GetContextFrame (Some ctx64)) (PPC64_GetCallerFrame (Some mem64)) w c st =
        Returns (True, stack, w', c, st) \<and>
      map ppc_view stack = chain (unat (max_frames lim)) (ppc64_caller mem64) (ctx64 SRR0, ctx64 (GPR 1))"
    using ppc64_chain.walk_chain [OF assms, where f = "PPC_frame ctx64 CONTEXT_VALID_ALL FRAME_TRUST_CONTEXT (ctx64 SRR0)" and w = w and c = c]
    by (simp add: PPC64_GetContextFrame_def ppc_view_def PPC_frame_def)
  then show ?ppc64 using len by meson
  have "\<exists>stack w'. Walk pr lim (SPARC_GetContextFrame (Some ctxs)) (SPARC_GetCallerFrame (Some mems)) w c st =
        Returns (True, stack, w', c, st) \<and>
      map sparc_view stack = chain (unat (max_frames lim)) (sparc_caller mems) (ctxs PC, ctxs (G_R 14), ctxs (G_R 30))"
    using sparc_chain.walk_chain [OF assms, where f = "SPARC_frame ctxs CONTEXT_VALID_ALL FRAME_TRUST_CONTEXT (ctxs PC)" and w = w and c = c]
    by (simp add: SPARC_GetContextFrame_def sparc_view_def SPARC_frame_def)
  then show ?sparc using len by meson
qed

definition sample_chain :: "32 memory" where
  "sample_chain = [100 \<mapsto> 120, 128 \<mapsto> 9, 120 \<mapsto> 140, 148 \<mapsto> 1]"

lemma sample_chain_callers:
  "ppc_caller sample_chain (7, 100) = Some (9, 120)" "ppc_caller sample_chain (9, 120) = None"
  by (simp_all add: ppc_caller_def sample_chain_def)

text \<open>A limit of one frame gives two.\<close>

theorem RISC_walks_follow_convention_witness:
  "\<exists>stack w'. Walk (sample_process NOT_FOUND) \<lparr>max_frames = 1, max_frames_scanned = 0\<rparr>
       (PPC_GetContextFrame (Some ((\<lambda>_. 0)(SRR0 := 7, GPR 1 := 100))))
       (PPC_GetCallerFrame (Some sample_chain)) [] []
       \<lparr>resolver = None, no_symbol_modules = {}\<rparr> =
      Returns (True, stack, w', [], \<lparr>resolver = None, no_symbol_modules = {}\<rparr>) \<and>
    map ppc_view stack = [(7, 100), (9, 120)]"
  using conjunct1 [OF RISC_walks_follow_convention [of "\<lparr>resolver = None, no_symbol_modules = {}\<rparr>"
      "sample_process NOT_FOUND" "\<lparr>max_frames = 1, max_frames_scanned = 0\<rparr>" "(\<lambda>_. 0)(SRR0 := 7, GPR 1 := 100)"
      sample_chain "[]" "[]"]]
  by (auto simp: sample_chain_callers)

end
