(* ===== verification/Stackwalker_ARM.thy ===== *)
theory Stackwalker_ARM
  imports Stackwalker
begin

unbundle bit_operations_syntax

text \<open>
  The stackwalkers for ARM and ARM64 (\<^verbatim>\<open>processor/stackwalker_arm.cc\<close>, \<^verbatim>\<open>stackwalker_arm64.cc\<close>): CFI rules,
  then frame pointers, then a scan of the stack. The registers of a context are the array \<open>iregs\<close>; an index past its
  end is undefined behaviour.
\<close>

section \<open>Registers by number\<close>

definition RegisterValidFlag :: "nat \<Rightarrow> 'v::len word" where
  "RegisterValidFlag n = push_bit n 1"

text \<open>The two loops over \<open>register_names\<close>; \<open>count\<close> is the number of elements of \<open>iregs\<close>.\<close>

fun valid_registers :: "nat \<Rightarrow> (nat \<times> string) list \<Rightarrow> (nat \<Rightarrow> 'a::len word) \<Rightarrow> 'v::len word \<Rightarrow> 'a dictionary \<Rightarrow> 'a dictionary exec" where
  "valid_registers count [] iregs v d = Returns d"
| "valid_registers count ((i, name) # names) iregs v d =
     (if v AND RegisterValidFlag i \<noteq> 0
      then if i < count then valid_registers count names iregs v (d(name \<mapsto> iregs i)) else Undefined
      else valid_registers count names iregs v d)"

fun recover_registers ::
  "nat \<Rightarrow> nat \<Rightarrow> nat \<Rightarrow> (nat \<times> string) list \<Rightarrow> 'a::len dictionary \<Rightarrow> (nat \<Rightarrow> 'a word) \<Rightarrow> 'v::len word \<Rightarrow>
   (nat \<Rightarrow> 'a word) \<times> 'v word \<Rightarrow> ((nat \<Rightarrow> 'a word) \<times> 'v word) exec" where
  "recover_registers count lo hi [] caller iregs v f = Returns f"
| "recover_registers count lo hi ((i, name) # names) caller iregs v (ctx, cv) =
     (case caller name of
        Some x \<Rightarrow>
          if i < count
          then recover_registers count lo hi names caller iregs v (ctx(i := x), cv OR RegisterValidFlag i)
          else Undefined
      | None \<Rightarrow>
          if lo \<le> i \<and> i \<le> hi \<and> v AND RegisterValidFlag i \<noteq> 0
          then recover_registers count lo hi names caller iregs v (ctx(i := iregs i), cv OR RegisterValidFlag i)
          else recover_registers count lo hi names caller iregs v (ctx, cv))"

section \<open>ARM64\<close>

record StackFrameARM64 = Frame +
  iregs :: "nat \<Rightarrow> 64 word"
  context_validity64 :: "64 word"

definition ARM64_FP :: nat where "ARM64_FP = 29"
definition ARM64_LR :: nat where "ARM64_LR = 30"
definition ARM64_SP :: nat where "ARM64_SP = 31"
definition ARM64_PC :: nat where "ARM64_PC = 32"

lemmas ARM64_registers [simp] = ARM64_FP_def ARM64_LR_def ARM64_SP_def ARM64_PC_def

definition ARM64_frame :: "(nat \<Rightarrow> 64 word) \<Rightarrow> 64 word \<Rightarrow> FrameTrust \<Rightarrow> 64 word \<Rightarrow> StackFrameARM64" where
  "ARM64_frame ctx v t address =
     \<lparr>sf = frame_at address, fmodule = None, trust = t, iregs = ctx, context_validity64 = v\<rparr>"

definition ARM64_GetContextFrame :: "(nat \<Rightarrow> 64 word) option \<Rightarrow> StackFrameARM64 option" where
  "ARM64_GetContextFrame ctx =
     map_option (\<lambda>c. ARM64_frame c (- 1) FRAME_TRUST_CONTEXT (c ARM64_PC)) ctx"

definition ARM64_register_names :: "string list" where
  "ARM64_register_names =
     [''x0'', ''x1'', ''x2'', ''x3'', ''x4'', ''x5'', ''x6'', ''x7'',
      ''x8'', ''x9'', ''x10'', ''x11'', ''x12'', ''x13'', ''x14'', ''x15'',
      ''x16'', ''x17'', ''x18'', ''x19'', ''x20'', ''x21'', ''x22'', ''x23'',
      ''x24'', ''x25'', ''x26'', ''x27'', ''x28'', ''x29'', ''x30'', ''sp'', ''pc'']"

definition ARM64_GetCallerByCFIFrameInfo ::
  "64 memory \<Rightarrow> StackFrameARM64 \<Rightarrow> CFIFrameInfo \<Rightarrow> StackFrameARM64 option exec" where
  "ARM64_GetCallerByCFIFrameInfo mem last_frame cfi_info =
     (let names = enumerate 0 ARM64_register_names; v = context_validity64 last_frame in
      exec_bind (valid_registers 33 names (iregs last_frame) v Map.empty) (\<lambda>callee_registers.
      exec_bind (FindCallerRegs cfi_info callee_registers mem Map.empty) (\<lambda>(ok, caller_registers).
        if \<not> ok then Returns None
        else
          exec_bind (recover_registers 33 19 29 names caller_registers (iregs last_frame) v (\<lambda>_. 0, 0)) (\<lambda>(ctx, cv).
            let (ctx, cv) =
                  (if cv AND RegisterValidFlag ARM64_PC = 0 then
                     (case caller_registers ''.ra'' of
                        Some ra \<Rightarrow> (ctx(ARM64_PC := ra), cv OR RegisterValidFlag ARM64_PC)
                      | None \<Rightarrow> (ctx, cv))
                   else (ctx, cv));
                (ctx, cv) =
                  (if cv AND RegisterValidFlag ARM64_SP = 0 then
                     (case caller_registers ''.cfa'' of
                        Some cfa \<Rightarrow> (ctx(ARM64_SP := cfa), cv OR RegisterValidFlag ARM64_SP)
                      | None \<Rightarrow> (ctx, cv))
                   else (ctx, cv));
                essentials = RegisterValidFlag ARM64_SP OR RegisterValidFlag ARM64_PC
            in Returns (if cv AND essentials \<noteq> essentials then None
                        else Some (ARM64_frame ctx cv FRAME_TRUST_CFI 0))))))"

definition ARM64_GetCallerByStackScan ::
  "process \<Rightarrow> 64 memory \<Rightarrow> StackFrameARM64 list \<Rightarrow> Symbolizer \<Rightarrow> (StackFrameARM64 option \<times> Symbolizer) exec" where
  "ARM64_GetCallerByStackScan pr mem frames st =
     (let last_frame = last frames in
      exec_bind (ScanForReturnAddress pr mem (iregs last_frame ARM64_SP) (length frames = 1) st) (\<lambda>(r, st).
        case r of
          None \<Rightarrow> Returns (None, st)
        | Some (caller_sp, caller_pc) \<Rightarrow>
            Returns (Some (ARM64_frame ((iregs last_frame)(ARM64_PC := caller_pc, ARM64_SP := caller_sp + 8))
              (RegisterValidFlag ARM64_PC OR RegisterValidFlag ARM64_SP) FRAME_TRUST_SCAN 0), st)))"

definition ARM64_GetCallerByFramePointer :: "64 memory \<Rightarrow> StackFrameARM64 \<Rightarrow> StackFrameARM64 option" where
  "ARM64_GetCallerByFramePointer mem last_frame =
     (let last_fp = iregs last_frame ARM64_FP in
      case (if last_fp \<noteq> 0 then mem last_fp else Some 0) of
        None \<Rightarrow> None
      | Some caller_fp \<Rightarrow>
          (case (if last_fp \<noteq> 0 then mem (last_fp + 8) else Some 0) of
             None \<Rightarrow> None
           | Some caller_lr \<Rightarrow>
               let caller_sp = (if last_fp \<noteq> 0 then last_fp + 16 else iregs last_frame ARM64_SP) in
               Some (ARM64_frame
                 ((iregs last_frame)(ARM64_FP := caller_fp, ARM64_SP := caller_sp,
                    ARM64_PC := iregs last_frame ARM64_LR, ARM64_LR := caller_lr))
                 (RegisterValidFlag ARM64_PC OR RegisterValidFlag ARM64_LR OR RegisterValidFlag ARM64_FP OR
                  RegisterValidFlag ARM64_SP) FRAME_TRUST_FP 0)))"

definition ARM64_accept :: "StackFrameARM64 \<Rightarrow> StackFrameARM64 option \<Rightarrow> StackFrameARM64 option" where
  "ARM64_accept last_frame new_frame =
     (case new_frame of
        None \<Rightarrow> None
      | Some f \<Rightarrow>
          if iregs f ARM64_PC = 0 then None
          else if iregs f ARM64_SP < iregs last_frame ARM64_SP then None
          else Some (f\<lparr>sf := (sf f)\<lparr>instruction := iregs f ARM64_PC - 4\<rparr>\<rparr>))"

definition ARM64_GetCallerFrame :: "process \<Rightarrow> 64 memory option \<Rightarrow> StackFrameARM64 get_caller" where
  "ARM64_GetCallerFrame pr mem frames stack_scan_allowed st =
     (let last_frame = last frames in
      case mem of
        None \<Rightarrow> Returns (None, last_frame, st)
      | Some mem \<Rightarrow>
          exec_bind
            (case FindCFIFrameInfo st last_frame of
               None \<Rightarrow> Returns None
             | Some cfi_info \<Rightarrow> ARM64_GetCallerByCFIFrameInfo mem last_frame cfi_info)
            (\<lambda>new_frame.
              let new_frame = (if new_frame = None then ARM64_GetCallerByFramePointer mem last_frame else new_frame) in
              exec_bind
                (if stack_scan_allowed \<and> new_frame = None then ARM64_GetCallerByStackScan pr mem frames st
                 else Returns (new_frame, st))
                (\<lambda>(new_frame, st). Returns (ARM64_accept last_frame new_frame, last_frame, st))))"

section \<open>ARM\<close>

text \<open>\<open>fp_register\<close> is the number of the frame pointer, \<open>-1\<close> when the system has none.\<close>

type_synonym StackFrameARM = "(nat, 32) CPUFrame"

definition ARM_SP :: nat where "ARM_SP = 13"
definition ARM_LR :: nat where "ARM_LR = 14"
definition ARM_PC :: nat where "ARM_PC = 15"

lemmas ARM_registers [simp] = ARM_SP_def ARM_LR_def ARM_PC_def

definition ARM_frame :: "(nat \<Rightarrow> 32 word) \<Rightarrow> 32 word \<Rightarrow> FrameTrust \<Rightarrow> 64 word \<Rightarrow> StackFrameARM" where
  "ARM_frame ctx v t address = \<lparr>sf = frame_at address, fmodule = None, trust = t, reg = ctx, context_validity = v\<rparr>"

definition ARM_GetContextFrame :: "(nat \<Rightarrow> 32 word) option \<Rightarrow> StackFrameARM option" where
  "ARM_GetContextFrame ctx =
     map_option (\<lambda>c. ARM_frame c CONTEXT_VALID_ALL FRAME_TRUST_CONTEXT (ucast (c ARM_PC))) ctx"

definition ARM_register_names :: "string list" where
  "ARM_register_names =
     [''r0'', ''r1'', ''r2'', ''r3'', ''r4'', ''r5'', ''r6'', ''r7'',
      ''r8'', ''r9'', ''r10'', ''r11'', ''r12'', ''sp'', ''lr'', ''pc'',
      ''f0'', ''f1'', ''f2'', ''f3'', ''f4'', ''f5'', ''f6'', ''f7'', ''fps'', ''cpsr'']"

definition ARM_GetCallerByCFIFrameInfo ::
  "int \<Rightarrow> 32 memory \<Rightarrow> StackFrameARM \<Rightarrow> CFIFrameInfo \<Rightarrow> StackFrameARM option exec" where
  "ARM_GetCallerByCFIFrameInfo fp_register mem last_frame cfi_info =
     (let names = enumerate 0 ARM_register_names; v = context_validity last_frame in
      exec_bind (valid_registers 16 names (reg last_frame) v Map.empty) (\<lambda>callee_registers.
      exec_bind (FindCallerRegs cfi_info callee_registers mem Map.empty) (\<lambda>(ok, caller_registers).
        if \<not> ok then Returns None
        else
          exec_bind (recover_registers 16 4 11 names caller_registers (reg last_frame) v (\<lambda>_. 0, 0)) (\<lambda>(ctx, cv).
            let (ctx, cv) =
                  (if cv AND RegisterValidFlag ARM_PC = 0 then
                     (case caller_registers ''.ra'' of
                        Some ra \<Rightarrow>
                          if fp_register = -1 then (ctx(ARM_PC := ra), cv OR RegisterValidFlag ARM_PC)
                          else (ctx(ARM_LR := ra, ARM_PC := reg last_frame ARM_LR),
                                cv OR RegisterValidFlag ARM_PC OR RegisterValidFlag ARM_LR)
                      | None \<Rightarrow> (ctx, cv))
                   else (ctx, cv));
                (ctx, cv) =
                  (if cv AND RegisterValidFlag ARM_SP = 0 then
                     (case caller_registers ''.cfa'' of
                        Some cfa \<Rightarrow> (ctx(ARM_SP := cfa), cv OR RegisterValidFlag ARM_SP)
                      | None \<Rightarrow> (ctx, cv))
                   else (ctx, cv));
                essentials = RegisterValidFlag ARM_SP OR RegisterValidFlag ARM_PC
            in Returns (if cv AND essentials \<noteq> essentials then None
                        else Some (ARM_frame ctx cv FRAME_TRUST_CFI 0))))))"

definition ARM_GetCallerByStackScan ::
  "process \<Rightarrow> 32 memory \<Rightarrow> StackFrameARM list \<Rightarrow> Symbolizer \<Rightarrow> (StackFrameARM option \<times> Symbolizer) exec" where
  "ARM_GetCallerByStackScan pr mem frames st =
     (let last_frame = last frames in
      exec_bind (ScanForReturnAddress pr mem (reg last_frame ARM_SP) (length frames = 1) st) (\<lambda>(r, st).
        case r of
          None \<Rightarrow> Returns (None, st)
        | Some (caller_sp, caller_pc) \<Rightarrow>
            Returns (Some (ARM_frame ((reg last_frame)(ARM_PC := caller_pc, ARM_SP := caller_sp + 4))
              (RegisterValidFlag ARM_PC OR RegisterValidFlag ARM_SP) FRAME_TRUST_SCAN 0), st)))"

definition ARM_GetCallerByFramePointer :: "nat \<Rightarrow> 32 memory \<Rightarrow> StackFrameARM \<Rightarrow> StackFrameARM option" where
  "ARM_GetCallerByFramePointer fp_register mem last_frame =
     (if context_validity last_frame AND RegisterValidFlag fp_register = 0 then None
      else
        let last_fp = reg last_frame fp_register in
        case (if last_fp \<noteq> 0 then mem last_fp else Some 0) of
          None \<Rightarrow> None
        | Some caller_fp \<Rightarrow>
            (case (if last_fp \<noteq> 0 then mem (last_fp + 4) else Some 0) of
               None \<Rightarrow> None
             | Some caller_lr \<Rightarrow>
                 let caller_sp = (if last_fp \<noteq> 0 then last_fp + 8 else reg last_frame ARM_SP) in
                 Some (ARM_frame
                   ((reg last_frame)(fp_register := caller_fp, ARM_SP := caller_sp,
                      ARM_PC := reg last_frame ARM_LR, ARM_LR := caller_lr))
                   (RegisterValidFlag ARM_PC OR RegisterValidFlag ARM_LR OR RegisterValidFlag fp_register OR
                    RegisterValidFlag ARM_SP) FRAME_TRUST_FP 0)))"

definition ARM_accept :: "StackFrameARM \<Rightarrow> StackFrameARM option \<Rightarrow> StackFrameARM option" where
  "ARM_accept last_frame new_frame =
     (case new_frame of
        None \<Rightarrow> None
      | Some f \<Rightarrow>
          if reg f ARM_PC = 0 then None
          else if reg f ARM_SP < reg last_frame ARM_SP then None
          else Some (f\<lparr>sf := (sf f)\<lparr>instruction := ucast (reg f ARM_PC - 2)\<rparr>\<rparr>))"

definition ARM_GetCallerFrame :: "process \<Rightarrow> int \<Rightarrow> 32 memory option \<Rightarrow> StackFrameARM get_caller" where
  "ARM_GetCallerFrame pr fp_register mem frames stack_scan_allowed st =
     (let last_frame = last frames in
      case mem of
        None \<Rightarrow> Returns (None, last_frame, st)
      | Some mem \<Rightarrow>
          exec_bind
            (case FindCFIFrameInfo st last_frame of
               None \<Rightarrow> Returns None
             | Some cfi_info \<Rightarrow> ARM_GetCallerByCFIFrameInfo fp_register mem last_frame cfi_info)
            (\<lambda>new_frame.
              let new_frame = (if fp_register \<ge> 0 \<and> new_frame = None
                               then ARM_GetCallerByFramePointer (nat fp_register) mem last_frame else new_frame) in
              exec_bind
                (if stack_scan_allowed \<and> new_frame = None then ARM_GetCallerByStackScan pr mem frames st
                 else Returns (new_frame, st))
                (\<lambda>(new_frame, st). Returns (ARM_accept last_frame new_frame, last_frame, st))))"

section \<open>No caller below its callee\<close>

lemma ARM64_accept_some: "ARM64_accept l c = Some f \<Longrightarrow> iregs l ARM64_SP \<le> iregs f ARM64_SP"
  by (auto simp: ARM64_accept_def not_less split: option.split_asm if_split_asm)

lemma ARM64_GetCallerFrame_result:
  assumes "ARM64_GetCallerFrame pr mem frames ok st = Returns (c, l, st')"
  shows "l = last frames \<and> (c = None \<or> (\<exists>n. c = ARM64_accept l n))"
  using assms by (cases mem) (auto simp: ARM64_GetCallerFrame_def Let_def exec_bind_Returns_iff)

interpretation arm64: stackwalker pr lim "ARM64_GetCallerFrame pr mem" "\<lambda>f. iregs f ARM64_SP"
  for pr :: process and lim :: limits and mem :: "64 memory option"
proof unfold_locales
  show "iregs (f\<lparr>fmodule := m, sf := s\<rparr>) ARM64_SP = iregs f ARM64_SP" for f m s by simp
next
  fix frames ok st c l st'
  assume "ARM64_GetCallerFrame pr mem frames ok st = Returns (c, l, st')"
  then show "iregs l ARM64_SP = iregs (last frames) ARM64_SP" using ARM64_GetCallerFrame_result by blast
next
  fix frames ok st f l st'
  assume "ARM64_GetCallerFrame pr mem frames ok st = Returns (Some f, l, st')"
  then show "iregs (last frames) ARM64_SP \<le> iregs f ARM64_SP"
    using ARM64_GetCallerFrame_result ARM64_accept_some by (metis option.distinct(1))
qed

lemma ARM_accept_some: "ARM_accept l c = Some f \<Longrightarrow> reg l ARM_SP \<le> reg f ARM_SP"
  by (auto simp: ARM_accept_def not_less split: option.split_asm if_split_asm)

lemma ARM_GetCallerFrame_result:
  assumes "ARM_GetCallerFrame pr fp mem frames ok st = Returns (c, l, st')"
  shows "l = last frames \<and> (c = None \<or> (\<exists>n. c = ARM_accept l n))"
  using assms by (cases mem) (auto simp: ARM_GetCallerFrame_def Let_def exec_bind_Returns_iff)

interpretation arm: stackwalker pr lim "ARM_GetCallerFrame pr fp mem" "\<lambda>f. reg f ARM_SP"
  for pr :: process and lim :: limits and fp :: int and mem :: "32 memory option"
proof unfold_locales
  show "reg (f\<lparr>fmodule := m, sf := s\<rparr>) ARM_SP = reg f ARM_SP" for f :: StackFrameARM and m s by simp
next
  fix frames ok st c l st'
  assume "ARM_GetCallerFrame pr fp mem frames ok st = Returns (c, l, st')"
  then show "reg l ARM_SP = reg (last frames) ARM_SP" using ARM_GetCallerFrame_result by blast
next
  fix frames ok st f l st'
  assume "ARM_GetCallerFrame pr fp mem frames ok st = Returns (Some f, l, st')"
  then show "reg (last frames) ARM_SP \<le> reg f ARM_SP"
    using ARM_GetCallerFrame_result ARM_accept_some by (metis option.distinct(1))
qed

section \<open>Walks that stand still\<close>

text \<open>The calling convention that \<open>GetCallerByFramePointer\<close> follows, on the program counter, link register, frame
  pointer and stack pointer.\<close>

type_synonym arm64_registers = "64 word \<times> 64 word \<times> 64 word \<times> 64 word"

definition arm64_view :: "StackFrameARM64 \<Rightarrow> arm64_registers" where
  "arm64_view f = (iregs f ARM64_PC, iregs f ARM64_LR, iregs f ARM64_FP, iregs f ARM64_SP)"

definition arm64_caller :: "64 memory \<Rightarrow> arm64_registers \<Rightarrow> arm64_registers option" where
  "arm64_caller mem = (\<lambda>(pc, lr, fp, sp).
     if lr = 0 then None
     else if fp = 0 then Some (lr, 0, 0, sp)
     else (case (mem fp, mem (fp + 8)) of
             (Some fp', Some lr') \<Rightarrow> if fp + 16 < sp then None else Some (lr, lr', fp', fp + 16)
           | _ \<Rightarrow> None))"

interpretation arm64_chain: pointer_walker pr "lim\<lparr>max_frames_scanned := 0\<rparr>" "ARM64_GetCallerFrame pr (Some mem)"
  arm64_view "arm64_caller mem"
  for pr :: process and lim :: limits and mem :: "64 memory"
  by unfold_locales
    (auto simp: ARM64_GetCallerFrame_def FindCFIFrameInfo_def ARM64_GetCallerByFramePointer_def ARM64_accept_def
      ARM64_frame_def arm64_view_def arm64_caller_def Let_def split: option.split)

text \<open>A caller may have the same stack pointer as its callee, so the walk need not make progress: on a stack whose
  frame record points to itself, the ARM64 walker finds the same caller again and again, and only the limit on
  the number of frames ends the walk.\<close>

theorem ARM64_walk_no_progress:
  assumes "resolver st = None" "max_frames_scanned lim = 0"
    and loop: "mem fp = Some fp" "mem (fp + 8) = Some lr" "fp \<noteq> 0" "lr \<noteq> 0"
    and ctx: "ctx ARM64_LR = lr" "ctx ARM64_FP = fp" "ctx ARM64_SP \<le> fp + 16"
  shows "\<exists>stack w'. Walk pr lim (ARM64_GetContextFrame (Some ctx)) (ARM64_GetCallerFrame pr (Some mem)) w c st =
      Returns (True, stack, w', c, st) \<and>
    map arm64_view stack =
      (ctx ARM64_PC, lr, fp, ctx ARM64_SP) # replicate (unat (max_frames lim)) (lr, lr, fp, fp + 16)"
proof -
  let ?v = "(lr, lr, fp, fp + 16)"
  have lim: "lim\<lparr>max_frames_scanned := 0\<rparr> = lim" using assms(2) by (cases lim) simp
  have same: "arm64_caller mem ?v = Some ?v" using loop by (simp add: arm64_caller_def)
  have first: "arm64_caller mem (ctx ARM64_PC, lr, fp, ctx ARM64_SP) = Some ?v"
    using loop ctx(3) by (simp add: arm64_caller_def not_less)
  have "chain (unat (max_frames lim)) (arm64_caller mem) (ctx ARM64_PC, lr, fp, ctx ARM64_SP) =
      (ctx ARM64_PC, lr, fp, ctx ARM64_SP) # replicate (unat (max_frames lim)) ?v"
    by (cases "unat (max_frames lim)") (simp_all add: first chain_fixpoint [where nxt = "arm64_caller mem", OF same] del: ARM64_registers)
  then show ?thesis
    using arm64_chain.walk_chain [OF assms(1), where lim = lim and
        f = "ARM64_frame ctx (- 1) FRAME_TRUST_CONTEXT (ctx ARM64_PC)" and w = w and c = c and pr = pr and mem = mem]
      ctx(1,2)
    by (simp add: ARM64_GetContextFrame_def arm64_view_def ARM64_frame_def lim del: ARM64_registers)
qed

lemma replicate_three: "replicate 3 x = [x, x, x]"
  by (simp add: numeral_3_eq_3)

theorem ARM64_walk_no_progress_witness:
  "\<exists>stack w'. Walk (sample_process NOT_FOUND) \<lparr>max_frames = 3, max_frames_scanned = 0\<rparr>
       (ARM64_GetContextFrame (Some ((\<lambda>_. 0)(29 := 64, 30 := 5, 32 := 7))))
       (ARM64_GetCallerFrame (sample_process NOT_FOUND) (Some [64 \<mapsto> 64, 72 \<mapsto> 5])) [] []
       \<lparr>resolver = None, no_symbol_modules = {}\<rparr> =
      Returns (True, stack, w', [], \<lparr>resolver = None, no_symbol_modules = {}\<rparr>) \<and>
    map arm64_view stack = [(7, 5, 64, 0), (5, 5, 64, 80), (5, 5, 64, 80), (5, 5, 64, 80)]"
  using ARM64_walk_no_progress [where st = "\<lparr>resolver = None, no_symbol_modules = {}\<rparr>" and pr = "sample_process NOT_FOUND"
      and lim = "\<lparr>max_frames = 3, max_frames_scanned = 0\<rparr>" and ctx = "(\<lambda>_. 0)(29 := 64, 30 := 5, 32 := 7)"
      and mem = "[64 \<mapsto> 64, 72 \<mapsto> 5]" and fp = 64 and lr = 5 and w = "[]" and c = "[]"]
  by (simp add: replicate_three)

section \<open>Registers past the end of the context\<close>

lemma valid_registers_undefined:
  "(i, name) \<in> set names \<Longrightarrow> v AND RegisterValidFlag i \<noteq> 0 \<Longrightarrow> count \<le> i \<Longrightarrow>
   valid_registers count names regs v d = Undefined"
  by (induction count names regs v d rule: valid_registers.induct) auto

lemma valid_registers_defined:
  "\<forall>(i, name)\<in>set names. i < count \<Longrightarrow> \<exists>d'. valid_registers count names regs v d = Returns d'"
  by (induction count names regs v d rule: valid_registers.induct) auto

lemma recover_registers_defined:
  "\<forall>(i, name)\<in>set names. i < count \<Longrightarrow> \<exists>f'. recover_registers count lo hi names caller regs v f = Returns f'"
  by (induction count lo hi names caller regs v f rule: recover_registers.induct) (auto split: option.split)

lemma ARM64_names_fit: "\<forall>(i, name)\<in>set (enumerate 0 ARM64_register_names). i < 33"
  by (simp add: ARM64_register_names_def)

text \<open>C22. The register table of the ARM walker has ten names more than its context has registers: on a frame whose
  registers are all valid, as those of the context frame are, the walker reads past the end of the register
  array whenever there are CFI rules for its address. The table of the ARM64 walker fits: only the evaluation of the rules
  can be undefined there.\<close>

theorem ARM_cfi_reads_past_registers:
  "(context_validity f = CONTEXT_VALID_ALL \<longrightarrow> ARM_GetCallerByCFIFrameInfo fp mem f cfi_info = Undefined) \<and>
   ((\<forall>registers. FindCallerRegs cfi_info registers mem64 Map.empty \<noteq> Undefined) \<longrightarrow>
      ARM64_GetCallerByCFIFrameInfo mem64 f64 cfi_info \<noteq> Undefined)"
proof (intro conjI impI)
  assume v: "context_validity f = CONTEXT_VALID_ALL"
  have mem: "(25, ''cpsr'') \<in> set (enumerate 0 ARM_register_names)" by (simp add: ARM_register_names_def)
  have "context_validity f AND RegisterValidFlag 25 \<noteq> 0" by (simp add: v CONTEXT_VALID_ALL_def RegisterValidFlag_def)
  then show "ARM_GetCallerByCFIFrameInfo fp mem f cfi_info = Undefined"
    unfolding ARM_GetCallerByCFIFrameInfo_def Let_def by (subst valid_registers_undefined [OF mem]) simp_all
next
  assume defined: "\<forall>registers. FindCallerRegs cfi_info registers mem64 Map.empty \<noteq> Undefined"
  obtain d where d: "valid_registers 33 (enumerate 0 ARM64_register_names) (iregs f64) (context_validity64 f64) Map.empty = Returns d"
    using valid_registers_defined [OF ARM64_names_fit] by blast
  obtain ok caller where c: "FindCallerRegs cfi_info d mem64 Map.empty = Returns (ok, caller)"
    using defined by (metis exec.exhaust surj_pair)
  obtain ctx cv where "recover_registers 33 19 29 (enumerate 0 ARM64_register_names) caller (iregs f64)
      (context_validity64 f64) (\<lambda>_. 0, 0) = Returns (ctx, cv)"
    using recover_registers_defined [OF ARM64_names_fit] by (metis surj_pair)
  with d c show "ARM64_GetCallerByCFIFrameInfo mem64 f64 cfi_info \<noteq> Undefined"
    by (simp add: ARM64_GetCallerByCFIFrameInfo_def case_prod_beta Let_def)
qed

definition sample_cfi :: CFIFrameInfo where
  "sample_cfi = \<lparr>cfa_rule = [], ra_rule = [], register_rules = []\<rparr>"

theorem ARM_cfi_reads_past_registers_witness:
  "ARM_GetCallerByCFIFrameInfo (-1) Map.empty (ARM_frame (\<lambda>_. 0) CONTEXT_VALID_ALL FRAME_TRUST_CONTEXT 0) sample_cfi = Undefined \<and>
   ARM64_GetCallerByCFIFrameInfo Map.empty (ARM64_frame (\<lambda>_. 0) (- 1) FRAME_TRUST_CONTEXT 0) sample_cfi \<noteq> Undefined"
  using ARM_cfi_reads_past_registers [of "ARM_frame (\<lambda>_. 0) CONTEXT_VALID_ALL FRAME_TRUST_CONTEXT 0" "-1" Map.empty sample_cfi
      Map.empty "ARM64_frame (\<lambda>_. 0) (- 1) FRAME_TRUST_CONTEXT 0"]
  by (simp add: ARM_frame_def FindCallerRegs_def sample_cfi_def)

end
