(* ===== verification/Static_Map.thy ===== *)
theory Static_Map
  imports Std_Map Memory_Region
begin

unbundle bit_operations_syntax

text \<open>
  \<open>StaticMap\<close> and its iterator (\<^verbatim>\<open>processor/static_map.h\<close>, \<^verbatim>\<open>static_map-inl.h\<close>,
  \<^verbatim>\<open>static_map_iterator.h\<close>, \<^verbatim>\<open>static_map_iterator-inl.h\<close>): a read-only map in a buffer of bytes, searched in place. A pointer
  is an offset into the buffer, and a read outside the buffer is undefined behaviour. Objects lie in memory as on a
  little-endian host, at any address.
\<close>

section \<open>Objects in memory\<close>

type_synonym bytes = "8 word list"

definition word_bytes :: "'a::len word \<Rightarrow> bytes" where
  "word_bytes w = map (\<lambda>i. ucast (drop_bit (8 * i) w)) [0..<LENGTH('a) div 8]"

definition read_word :: "bytes \<Rightarrow> int \<Rightarrow> 'a::len word exec" where
  "read_word mem p =
     (let n = LENGTH('a) div 8 in
      if 0 \<le> p \<and> nat p + n \<le> length mem then Returns (word_of_bytes (take n (drop (nat p) mem))) else Undefined)"

text \<open>\<open>bytes_at mem p bs\<close>: the bytes \<open>bs\<close> lie at \<open>p\<close>.\<close>

definition bytes_at :: "bytes \<Rightarrow> int \<Rightarrow> bytes \<Rightarrow> bool" where
  "bytes_at mem p bs \<longleftrightarrow> 0 \<le> p \<and> take (length bs) (drop (nat p) mem) = bs"

lemma bytes_at_append: "bytes_at mem p (xs @ ys) \<longleftrightarrow> bytes_at mem p xs \<and> bytes_at mem (p + int (length xs)) ys"
proof (cases "0 \<le> p")
  case True
  then have n: "nat (p + int (length xs)) = nat p + length xs" by simp
  have "take (length xs + length ys) (drop (nat p) mem) =
      take (length xs) (drop (nat p) mem) @ take (length ys) (drop (nat p + length xs) mem)"
    by (simp add: take_add add.commute)
  moreover have "length (take (length xs) (drop (nat p) mem)) = length xs"
    if "take (length xs + length ys) (drop (nat p) mem) = xs @ ys"
  proof -
    have "length (take (length xs + length ys) (drop (nat p) mem)) = length xs + length ys" using that by simp
    then show ?thesis by auto
  qed
  ultimately show ?thesis using True by (auto simp: bytes_at_def n)
qed (simp add: bytes_at_def)

lemma bytes_at_Nil [simp]: "bytes_at mem p [] \<longleftrightarrow> 0 \<le> p"
  by (simp add: bytes_at_def)

lemma bytes_at_Cons: "bytes_at mem p (x # ys) \<longleftrightarrow> bytes_at mem p [x] \<and> bytes_at mem (p + 1) ys"
  using bytes_at_append [of mem p "[x]" ys] by simp

lemma bytes_at_start: "bytes_at (bs @ rest) 0 bs"
  by (simp add: bytes_at_def)

lemma bytes_at_inside: "bytes_at mem p bs \<Longrightarrow> bs \<noteq> [] \<Longrightarrow> 0 \<le> p \<and> nat p + length bs \<le> length mem"
proof -
  assume a: "bytes_at mem p bs" "bs \<noteq> []"
  then have "length (take (length bs) (drop (nat p) mem)) = length bs" by (simp add: bytes_at_def)
  then have "length bs \<le> length mem - nat p" by (simp add: min_def split: if_split_asm)
  moreover have "0 < length bs" using a(2) by simp
  ultimately have "nat p + length bs \<le> length mem" by linarith
  then show ?thesis using a(1) by (simp add: bytes_at_def)
qed

lemma length_word_bytes [simp]: "length (word_bytes (w :: 'a::len word)) = LENGTH('a) div 8"
  by (simp add: word_bytes_def)

lemma horner_word_bytes:
  fixes w :: "'a::len word"
  shows "horner_sum uint 256 (map (\<lambda>i. ucast (drop_bit (8 * i) w) :: 8 word) [0..<n]) = take_bit (8 * n) (uint w)"
proof (induction n)
  case (Suc n)
  have "uint (drop_bit (8 * n) w) = drop_bit (8 * n) (uint w)"
    by (rule bit_eqI) (simp add: bit_simps bit_uint_iff)
  then have "uint (ucast (drop_bit (8 * n) w) :: 8 word) = take_bit 8 (drop_bit (8 * n) (uint w))"
    by (simp only: unsigned_ucast_eq) simp
  then have "uint (ucast (drop_bit (8 * n) w) :: 8 word) = uint w div 2 ^ (8 * n) mod 2 ^ 8"
    by (simp only: take_bit_eq_mod drop_bit_eq_div)
  moreover have "(2 :: int) ^ (8 * n) = 256 ^ n" "(2 :: int) ^ (8 * Suc n) = 256 ^ n * 256" by (simp_all add: power_mult power_add)
  moreover have "uint w mod (256 ^ n * 256) = 256 ^ n * (uint w div 256 ^ n mod 256) + uint w mod 256 ^ n"
    by (rule zmod_zmult2_eq) simp
  ultimately show ?case using Suc by (simp add: horner_sum_append take_bit_eq_mod)
qed simp

lemma word_of_bytes_word_bytes:
  fixes w :: "'a::len word"
  assumes "8 dvd LENGTH('a)"
  shows "word_of_bytes (word_bytes w) = w"
proof -
  have "8 * (LENGTH('a) div 8) = LENGTH('a)" using assms by simp
  then show ?thesis
    using horner_word_bytes [of w "LENGTH('a) div 8"]
    by (simp add: word_of_bytes_def word_rcat_def word_bytes_def take_bit_int_eq_self)
qed

lemma read_word_at:
  fixes w :: "'a::len word"
  assumes "bytes_at mem p (word_bytes w)" "8 dvd LENGTH('a)"
  shows "read_word mem p = Returns w"
proof -
  have "0 < LENGTH('a) div 8" using assms(2) by (metis dvd_mult_div_cancel len_gt_0 mult_0_right not_gr_zero)
  then have "word_bytes w \<noteq> []" using length_word_bytes [of w] by (metis length_0_conv less_numeral_extra(3))
  from bytes_at_inside [OF assms(1) this] have "0 \<le> p" "nat p + LENGTH('a) div 8 \<le> length mem" by simp_all
  moreover have "take (LENGTH('a) div 8) (drop (nat p) mem) = word_bytes w" using assms(1) by (simp add: bytes_at_def)
  ultimately show ?thesis using assms(2) by (simp add: read_word_def word_of_bytes_word_bytes)
qed

lemmas read_word32 = read_word_at [where 'a = 32, simplified]
lemmas read_word64 = read_word_at [where 'a = 64, simplified]

section \<open>Keys\<close>

text \<open>The keys are 32-bit integers or 64-bit addresses.\<close>

record 'k key_type =
  key_size :: int
  read_key :: "bytes \<Rightarrow> int \<Rightarrow> 'k exec"
  key_bytes :: "'k \<Rightarrow> bytes"

definition int_key :: "int key_type" where
  "int_key = \<lparr>key_size = 4,
     read_key = (\<lambda>mem p. exec_bind (read_word mem p) (\<lambda>w :: 32 word. Returns (sint w))),
     key_bytes = (\<lambda>i. word_bytes (word_of_int i :: 32 word))\<rparr>"

definition addr_key :: "64 word key_type" where
  "addr_key = \<lparr>key_size = 8, read_key = read_word, key_bytes = word_bytes\<rparr>"

definition DefaultCompare :: "'k::linorder \<Rightarrow> 'k \<Rightarrow> int" where
  "DefaultCompare k1 k2 = (if k1 < k2 then -1 else if k1 = k2 then 0 else 1)"

section \<open>The map and its iterator\<close>

text \<open>\<open>raw_data\<close> is \<open>None\<close> in a default-constructed map. \<open>1 + num_nodes\<close> is computed in 32 bits.\<close>

record StaticMap =
  raw_data :: "int option"
  num_nodes :: int
  offsets :: int
  keys :: int

definition StaticMap_default :: StaticMap where
  "StaticMap_default = \<lparr>raw_data = None, num_nodes = 0, offsets = 0, keys = 0\<rparr>"

definition StaticMap_new :: "bytes \<Rightarrow> int \<Rightarrow> StaticMap exec" where
  "StaticMap_new mem raw =
     exec_bind (read_word mem raw) (\<lambda>w :: 32 word.
       if sint w = 2 ^ 31 - 1 then Undefined
       else Returns \<lparr>raw_data = Some raw, num_nodes = sint w, offsets = raw + 4, keys = raw + (1 + sint w) * 4\<rparr>)"

record StaticMapIterator =
  index :: int
  base :: int
  it_num_nodes :: int
  it_offsets :: int
  it_keys :: int

definition IteratorAtIndex :: "bytes \<Rightarrow> StaticMap \<Rightarrow> int \<Rightarrow> StaticMapIterator exec" where
  "IteratorAtIndex mem m i =
     (case raw_data m of
        None \<Rightarrow> Undefined
      | Some b \<Rightarrow>
          exec_bind (read_word mem b) (\<lambda>w :: 32 word.
            if sint w = 2 ^ 31 - 1 then Undefined
            else Returns \<lparr>index = i, base = b, it_num_nodes = sint w, it_offsets = b + 4, it_keys = b + (1 + sint w) * 4\<rparr>))"

definition IsValid :: "StaticMapIterator \<Rightarrow> bool" where
  "IsValid it \<longleftrightarrow> \<not> (index it < 0 \<or> index it > it_num_nodes it)"

definition iterator_increment :: "StaticMapIterator \<Rightarrow> StaticMapIterator" where
  "iterator_increment it =
     (if \<not> IsValid it then it
      else it\<lparr>index := if index it + 1 > it_num_nodes it then it_num_nodes it else index it + 1\<rparr>)"

definition iterator_decrement :: "StaticMapIterator \<Rightarrow> StaticMapIterator" where
  "iterator_decrement it =
     (if \<not> IsValid it then it else it\<lparr>index := if index it - 1 < 0 then 0 else index it - 1\<rparr>)"

definition iterator_eq :: "StaticMapIterator \<Rightarrow> StaticMapIterator \<Rightarrow> bool" where
  "iterator_eq x y \<longleftrightarrow> base x = base y \<and> index x = index y"

definition GetKey :: "'k key_type \<Rightarrow> bytes \<Rightarrow> StaticMapIterator \<Rightarrow> 'k exec" where
  "GetKey kt mem it = (if \<not> IsValid it then Undefined else read_key kt mem (it_keys it + index it * key_size kt))"

definition GetValueRawPtr :: "bytes \<Rightarrow> StaticMapIterator \<Rightarrow> int option exec" where
  "GetValueRawPtr mem it =
     (if \<not> IsValid it then Returns None
      else exec_bind (read_word mem (it_offsets it + index it * 4)) (\<lambda>w :: 32 word. Returns (Some (base it + uint w))))"

definition GetKeyAtIndex :: "'k::zero key_type \<Rightarrow> bytes \<Rightarrow> StaticMap \<Rightarrow> int \<Rightarrow> 'k exec" where
  "GetKeyAtIndex kt mem m i =
     (if i < 0 \<or> i \<ge> num_nodes m then Returns 0 else read_key kt mem (keys m + i * key_size kt))"

text \<open>The loop that \<open>find\<close>, \<open>lower_bound\<close> and \<open>upper_bound\<close> have in common: whether the key was met, and where the
  search ended.\<close>

function binary_search :: "'k::{linorder,zero} key_type \<Rightarrow> bytes \<Rightarrow> StaticMap \<Rightarrow> 'k \<Rightarrow> int \<Rightarrow> int \<Rightarrow> (bool \<times> int) exec" where
  "binary_search kt mem m key begin end' =
     (if begin < end' then
        let middle = begin + (end' - begin) div 2 in
        exec_bind (GetKeyAtIndex kt mem m middle) (\<lambda>k.
          let compare_result = DefaultCompare key k in
          if compare_result = 0 then Returns (True, middle)
          else if compare_result < 0 then binary_search kt mem m key begin middle
          else binary_search kt mem m key (middle + 1) end')
      else Returns (False, begin))"
  by pat_completeness auto
termination
  by (relation "measure (\<lambda>(kt, mem, m, key, begin, end'). nat (end' - begin))") auto

declare binary_search.simps [simp del]

definition StaticMap_begin :: "bytes \<Rightarrow> StaticMap \<Rightarrow> StaticMapIterator exec" where
  "StaticMap_begin mem m = IteratorAtIndex mem m 0"

definition StaticMap_end :: "bytes \<Rightarrow> StaticMap \<Rightarrow> StaticMapIterator exec" where
  "StaticMap_end mem m = IteratorAtIndex mem m (num_nodes m)"

definition StaticMap_find :: "'k::{linorder,zero} key_type \<Rightarrow> bytes \<Rightarrow> StaticMap \<Rightarrow> 'k \<Rightarrow> StaticMapIterator exec" where
  "StaticMap_find kt mem m key =
     exec_bind (binary_search kt mem m key 0 (num_nodes m)) (\<lambda>(found, i).
       if found then IteratorAtIndex mem m i else StaticMap_end mem m)"

definition StaticMap_lower_bound :: "'k::{linorder,zero} key_type \<Rightarrow> bytes \<Rightarrow> StaticMap \<Rightarrow> 'k \<Rightarrow> StaticMapIterator exec" where
  "StaticMap_lower_bound kt mem m key =
     exec_bind (binary_search kt mem m key 0 (num_nodes m)) (\<lambda>(found, i). IteratorAtIndex mem m i)"

definition StaticMap_upper_bound :: "'k::{linorder,zero} key_type \<Rightarrow> bytes \<Rightarrow> StaticMap \<Rightarrow> 'k \<Rightarrow> StaticMapIterator exec" where
  "StaticMap_upper_bound kt mem m key =
     exec_bind (binary_search kt mem m key 0 (num_nodes m)) (\<lambda>(found, i).
       IteratorAtIndex mem m (if found then i + 1 else i))"

text \<open>The check that the offsets and the keys from \<open>i\<close> on increase.\<close>

function validate_nodes :: "'k::{linorder,zero} key_type \<Rightarrow> bytes \<Rightarrow> StaticMap \<Rightarrow> int \<Rightarrow> bool exec" where
  "validate_nodes kt mem m i =
     (if i < num_nodes m then
        exec_bind (read_word mem (offsets m + i * 4)) (\<lambda>o1 :: 32 word.
        exec_bind (read_word mem (offsets m + (i - 1) * 4)) (\<lambda>o0.
        if o1 \<le> o0 then Returns False
        else
          exec_bind (GetKeyAtIndex kt mem m i) (\<lambda>k1.
          exec_bind (GetKeyAtIndex kt mem m (i - 1)) (\<lambda>k0.
          if DefaultCompare k1 k0 \<le> 0 then Returns False else validate_nodes kt mem m (i + 1)))))
      else Returns True)"
  by pat_completeness auto
termination
  by (relation "measure (\<lambda>(kt, mem, m, i). nat (num_nodes m - i))") auto

declare validate_nodes.simps [simp del]

definition ValidateInMemoryStructure :: "'k::{linorder,zero} key_type \<Rightarrow> bytes \<Rightarrow> StaticMap \<Rightarrow> bool exec" where
  "ValidateInMemoryStructure kt mem m =
     (case raw_data m of
        None \<Rightarrow> Returns False
      | Some raw \<Rightarrow>
          exec_bind (read_word mem raw) (\<lambda>w :: 32 word.
            if sint w < 0 then Returns False
            else if num_nodes m \<noteq> 0 then
              let first_offset = 4 * (num_nodes m + 1) + key_size kt * num_nodes m in
              if first_offset > 0xffffffff then Returns False
              else
                exec_bind (read_word mem (offsets m)) (\<lambda>o0 :: 32 word.
                  if uint o0 \<noteq> first_offset then Returns False else validate_nodes kt mem m 1)
            else validate_nodes kt mem m 1))"

section \<open>What a well-formed buffer gives\<close>

text \<open>A type of keys: \<open>storable\<close> says which values survive being written.\<close>

locale static_key =
  fixes kt :: "'k::{linorder,zero} key_type" and storable :: "'k \<Rightarrow> bool"
  assumes key_bytes_size: "int (length (key_bytes kt k)) = key_size kt"
    and read_key_bytes: "storable k \<Longrightarrow> bytes_at mem p (key_bytes kt k) \<Longrightarrow> read_key kt mem p = Returns k"

definition int32_range :: "int \<Rightarrow> bool" where
  "int32_range i \<longleftrightarrow> - (2 ^ 31) \<le> i \<and> i < 2 ^ 31"

lemma sint_word_of_int32: "int32_range i \<Longrightarrow> sint (word_of_int i :: 32 word) = i"
  by (simp add: int32_range_def signed_of_int signed_take_bit_int_eq_self)

interpretation int_key: static_key int_key int32_range
  by unfold_locales (simp_all add: int_key_def read_word32 sint_word_of_int32)

interpretation addr_key: static_key addr_key "\<lambda>_. True"
  by unfold_locales (simp_all add: addr_key_def read_word64)

text \<open>The map \<open>m\<close> has the keys of \<open>es\<close>, and its values lie at the pointers in \<open>es\<close>.\<close>

definition nodes_at :: "'k key_type \<Rightarrow> bytes \<Rightarrow> StaticMap \<Rightarrow> ('k \<times> int) list \<Rightarrow> bool" where
  "nodes_at kt mem m es \<longleftrightarrow>
     num_nodes m = int (length es) \<and> length es < 2 ^ 31 - 1 \<and>
     (\<exists>b. raw_data m = Some b \<and> offsets m = b + 4 \<and> keys m = b + (1 + int (length es)) * 4 \<and>
       read_word mem b = Returns (of_nat (length es) :: 32 word) \<and>
       (\<forall>i<length es. \<exists>w :: 32 word. read_word mem (b + 4 + int i * 4) = Returns w \<and> snd (es ! i) = b + uint w)) \<and>
     (\<forall>i<length es. read_key kt mem (keys m + int i * key_size kt) = Returns (fst (es ! i)))"

definition node_iterator :: "StaticMap \<Rightarrow> nat \<Rightarrow> StaticMapIterator" where
  "node_iterator m i =
     \<lparr>index = int i, base = the (raw_data m), it_num_nodes = num_nodes m, it_offsets = offsets m, it_keys = keys m\<rparr>"

lemma sint_of_nat32: "n < 2 ^ 31 \<Longrightarrow> sint (of_nat n :: 32 word) = int n"
  using sint_word_of_int32 [of "int n"] by (simp add: int32_range_def)

lemma uint_of_nat32: "n < 2 ^ 32 \<Longrightarrow> uint (of_nat n :: 32 word) = int n"
  by (simp add: unsigned_of_nat take_bit_nat_eq_self)

lemma IteratorAtIndex_node:
  assumes "nodes_at kt mem m es"
  shows "IteratorAtIndex mem m (int i) = Returns (node_iterator m i)"
  using assms by (auto simp: IteratorAtIndex_def nodes_at_def node_iterator_def sint_of_nat32)

lemma iterator_eq_node [simp]: "iterator_eq (node_iterator m i) (node_iterator m j) \<longleftrightarrow> i = j"
  by (simp add: iterator_eq_def node_iterator_def)

lemma node_iterator_valid: "nodes_at kt mem m es \<Longrightarrow> IsValid (node_iterator m i) \<longleftrightarrow> i \<le> length es"
  by (auto simp: IsValid_def node_iterator_def nodes_at_def)

lemma iterator_decrement_node:
  "nodes_at kt mem m es \<Longrightarrow> 0 < i \<Longrightarrow> i \<le> length es \<Longrightarrow> iterator_decrement (node_iterator m i) = node_iterator m (i - 1)"
  by (simp add: iterator_decrement_def node_iterator_valid) (simp add: node_iterator_def of_nat_diff)

lemma iterator_increment_node:
  "nodes_at kt mem m es \<Longrightarrow> i < length es \<Longrightarrow> iterator_increment (node_iterator m i) = node_iterator m (i + 1)"
  by (simp add: iterator_increment_def node_iterator_valid) (simp add: node_iterator_def nodes_at_def)

lemma GetKey_node:
  "nodes_at kt mem m es \<Longrightarrow> i < length es \<Longrightarrow> GetKey kt mem (node_iterator m i) = Returns (fst (es ! i))"
  by (simp add: GetKey_def node_iterator_valid) (simp add: node_iterator_def nodes_at_def)

lemma GetValueRawPtr_node:
  assumes "nodes_at kt mem m es" "i < length es"
  shows "GetValueRawPtr mem (node_iterator m i) = Returns (Some (snd (es ! i)))"
proof -
  obtain b and w :: "32 word" where "raw_data m = Some b" "offsets m = b + 4"
    "read_word mem (b + 4 + int i * 4) = Returns w" "snd (es ! i) = b + uint w"
    using assms by (auto simp: nodes_at_def)
  then show ?thesis
    using assms by (simp add: GetValueRawPtr_def node_iterator_valid) (simp add: node_iterator_def)
qed

lemma GetKeyAtIndex_node:
  "nodes_at kt mem m es \<Longrightarrow> i < length es \<Longrightarrow> GetKeyAtIndex kt mem m (int i) = Returns (fst (es ! i))"
  by (simp add: GetKeyAtIndex_def nodes_at_def)

text \<open>The binary search finds what the linear search of the reference does.\<close>

lemma binary_search_node:
  assumes rep: "nodes_at kt mem m es" and ok: "omap_ok es"
  shows "b \<le> e \<Longrightarrow> e \<le> length es \<Longrightarrow> (\<forall>i<b. fst (es ! i) < key) \<Longrightarrow> (\<forall>i\<ge>e. i < length es \<longrightarrow> key < fst (es ! i)) \<Longrightarrow>
    binary_search kt mem m key (int b) (int e) =
      Returns (omap_find es key < length es, int (lower_bound es key))"
proof (induction "e - b" arbitrary: b e rule: less_induct)
  case less
  show ?case
  proof (cases "b < e")
    case False
    then have b: "b = e" using less.prems(1) by simp
    have lb: "lower_bound es key = b"
      using less.prems b by (intro lower_bound_unique [OF ok]) (auto intro: less_imp_le)
    then have "\<not> omap_find es key < length es"
      using less.prems(4) b by (auto simp: omap_find_def Let_def)
    then show ?thesis using b lb by (subst binary_search.simps) simp
  next
    case True
    define mid where "mid = b + (e - b) div 2"
    have mid: "b \<le> mid" "mid < e" using True by (auto simp: mid_def)
    have mid_int: "int b + (int e - int b) div 2 = int mid" using True by (simp add: mid_def zdiv_int of_nat_diff)
    have k: "GetKeyAtIndex kt mem m (int mid) = Returns (fst (es ! mid))"
      using GetKeyAtIndex_node [OF rep] mid less.prems(2) by simp
    consider "key = fst (es ! mid)" | "key < fst (es ! mid)" | "fst (es ! mid) < key" by (metis linorder_cases)
    then show ?thesis
    proof cases
      case 1
      have lb: "lower_bound es key = mid"
        using 1 omap_ok_nth [OF ok] mid less.prems(2) by (intro lower_bound_unique [OF ok]) auto
      then have "omap_find es key = mid" using 1 mid less.prems(2) by (simp add: omap_find_def)
      then show ?thesis
        using True 1 lb mid less.prems(2) k by (subst binary_search.simps) (simp add: mid_int DefaultCompare_def Let_def)
    next
      case 2
      have "\<forall>i\<ge>mid. i < length es \<longrightarrow> key < fst (es ! i)"
        using 2 omap_ok_nth [OF ok, of mid] by (metis le_neq_implies_less less_trans)
      then have "binary_search kt mem m key (int b) (int mid) =
          Returns (omap_find es key < length es, int (lower_bound es key))"
        using less.hyps [of mid b] mid less.prems True by simp
      then show ?thesis using True 2 k by (subst binary_search.simps) (simp add: mid_int DefaultCompare_def Let_def)
    next
      case 3
      have "fst (es ! i) < key" if "i < mid + 1" for i
        using that 3 omap_ok_nth [OF ok, of i mid] mid less.prems(2) by (cases "i = mid") (auto intro: less_trans)
      then have "binary_search kt mem m key (int (mid + 1)) (int e) =
          Returns (omap_find es key < length es, int (lower_bound es key))"
        using less.hyps [of e "mid + 1"] mid less.prems True by simp
      then show ?thesis
        using True 3 k by (subst binary_search.simps) (auto simp add: mid_int DefaultCompare_def Let_def add.commute)
    qed
  qed
qed

lemma binary_search_whole:
  assumes "nodes_at kt mem m es" "omap_ok es"
  shows "binary_search kt mem m key 0 (num_nodes m) = Returns (omap_find es key < length es, int (lower_bound es key))"
  using binary_search_node [OF assms, of 0 "length es" key] assms(1) by (simp add: nodes_at_def)

lemma StaticMap_end_node: "nodes_at kt mem m es \<Longrightarrow> StaticMap_end mem m = Returns (node_iterator m (length es))"
  using IteratorAtIndex_node [of kt mem m es "length es"] by (simp add: StaticMap_end_def nodes_at_def)

lemma StaticMap_begin_node: "nodes_at kt mem m es \<Longrightarrow> StaticMap_begin mem m = Returns (node_iterator m 0)"
  using IteratorAtIndex_node [of kt mem m es 0] by (simp add: StaticMap_begin_def)

lemma StaticMap_lower_bound_node:
  "nodes_at kt mem m es \<Longrightarrow> omap_ok es \<Longrightarrow>
   StaticMap_lower_bound kt mem m key = Returns (node_iterator m (lower_bound es key))"
  by (simp add: StaticMap_lower_bound_def binary_search_whole IteratorAtIndex_node)

lemma omap_find_lower_bound: "omap_find m k < length m \<Longrightarrow> omap_find m k = lower_bound m k \<and> fst (m ! lower_bound m k) = k"
  by (auto simp: omap_find_def Let_def split: if_split_asm)

lemma StaticMap_find_node:
  assumes "nodes_at kt mem m es" "omap_ok es"
  shows "StaticMap_find kt mem m key = Returns (node_iterator m (omap_find es key))"
  using omap_find_lower_bound [of es key] omap_find_miss [of es key]
  by (auto simp: StaticMap_find_def binary_search_whole [OF assms] IteratorAtIndex_node [OF assms(1)]
      StaticMap_end_node [OF assms(1)])

lemma upper_bound_unique:
  assumes "omap_ok m" "i \<le> length m" "\<And>j. j < i \<Longrightarrow> fst (m ! j) \<le> k" "i < length m \<Longrightarrow> k < fst (m ! i)"
  shows "upper_bound m k = i"
proof (rule linorder_cases)
  assume "upper_bound m k < i"
  then show ?thesis using upper_bound_above [OF assms(1) order_refl] assms(2,3) by (metis less_le_trans not_le)
next
  assume "i < upper_bound m k"
  then show ?thesis using upper_bound_below [of i m k] assms(4) by (metis less_le_trans not_le upper_bound_le)
qed

lemma upper_bound_find:
  assumes "omap_ok m"
  shows "upper_bound m k = (if omap_find m k < length m then lower_bound m k + 1 else lower_bound m k)"
proof (cases "omap_find m k < length m")
  case True
  note f = omap_find_lower_bound [OF True]
  have "upper_bound m k = lower_bound m k + 1"
  proof (rule upper_bound_unique [OF assms])
    show "lower_bound m k + 1 \<le> length m" using True f by simp
    show "fst (m ! j) \<le> k" if "j < lower_bound m k + 1" for j
      using that f lower_bound_below [of j m k] by (cases "j = lower_bound m k") auto
    show "k < fst (m ! (lower_bound m k + 1))" if "lower_bound m k + 1 < length m"
      using omap_ok_nth [OF assms, of "lower_bound m k" "lower_bound m k + 1"] that f by simp
  qed
  then show ?thesis using True by simp
next
  case False
  have "upper_bound m k = lower_bound m k"
  proof (rule upper_bound_unique [OF assms])
    show "fst (m ! j) \<le> k" if "j < lower_bound m k" for j using lower_bound_below [OF that] by simp
    show "k < fst (m ! lower_bound m k)" if "lower_bound m k < length m"
      using lower_bound_at [OF that] False that by (auto simp: omap_find_def Let_def order_le_less split: if_split_asm)
  qed simp
  then show ?thesis using False by simp
qed

lemma StaticMap_upper_bound_node:
  assumes "nodes_at kt mem m es" "omap_ok es"
  shows "StaticMap_upper_bound kt mem m key = Returns (node_iterator m (upper_bound es key))"
proof -
  have "IteratorAtIndex mem m (int (lower_bound es key) + 1) = Returns (node_iterator m (lower_bound es key + 1))"
    using IteratorAtIndex_node [OF assms(1), of "lower_bound es key + 1"] by (simp add: add.commute)
  then show ?thesis
    by (simp add: StaticMap_upper_bound_def binary_search_whole [OF assms] IteratorAtIndex_node [OF assms(1)]
        upper_bound_find [OF assms(2)])
qed

lemma all_from_split:
  "i < n \<Longrightarrow> (\<forall>j. i \<le> j \<and> j < n \<longrightarrow> Q j) \<longleftrightarrow> Q i \<and> (\<forall>j. i + 1 \<le> j \<and> j < (n :: nat) \<longrightarrow> Q j)"
  by (metis Suc_eq_plus1 Suc_leD Suc_leI le_neq_implies_less order_refl)

lemma validate_nodes_node:
  assumes rep: "nodes_at kt mem m es"
  shows "0 < i \<Longrightarrow> validate_nodes kt mem m (int i) =
    Returns (\<forall>j. i \<le> j \<and> j < length es \<longrightarrow> snd (es ! (j - 1)) < snd (es ! j) \<and> fst (es ! (j - 1)) < fst (es ! j))"
proof (induction "length es - i" arbitrary: i rule: less_induct)
  case less
  obtain b where b: "raw_data m = Some b" "offsets m = b + 4" "num_nodes m = int (length es)"
    "\<And>i. i < length es \<Longrightarrow> \<exists>w :: 32 word. read_word mem (b + 4 + int i * 4) = Returns w \<and> snd (es ! i) = b + uint w"
    using rep by (auto simp: nodes_at_def)
  show ?case
  proof (cases "i < length es")
    case False
    then show ?thesis by (subst validate_nodes.simps) (auto simp: b)
  next
    case True
    obtain p where i: "i = Suc p" using less.prems by (cases i) auto
    obtain w0 w1 :: "32 word" where w: "read_word mem (b + 4 + int i * 4) = Returns w1" "snd (es ! i) = b + uint w1"
      "read_word mem (b + 4 + int p * 4) = Returns w0" "snd (es ! p) = b + uint w0"
      using b(4) [of i] b(4) [of p] True i by (metis Suc_lessD)
    have k: "GetKeyAtIndex kt mem m (int i) = Returns (fst (es ! i))" "GetKeyAtIndex kt mem m (int p) = Returns (fst (es ! p))"
      using GetKeyAtIndex_node [OF rep True] GetKeyAtIndex_node [OF rep, of p] True i by auto
    let ?Q = "\<lambda>j. snd (es ! (j - 1)) < snd (es ! j) \<and> fst (es ! (j - 1)) < fst (es ! j)"
    define R where "R \<longleftrightarrow> (\<forall>j. i + 1 \<le> j \<and> j < length es \<longrightarrow> ?Q j)"
    have rec: "validate_nodes kt mem m (int i + 1) = Returns R"
      using less.hyps [of "i + 1"] True unfolding R_def by (simp add: add.commute)
    have ip: "int i - 1 = int p" using i by simp
    have "validate_nodes kt mem m (int i) =
        Returns (w0 < w1 \<and> fst (es ! p) < fst (es ! i) \<and> R)"
      using True unfolding validate_nodes.simps [of kt mem m "int i"] rec ip b(2,3)
      by (auto simp: w k DefaultCompare_def not_le)
    moreover have "w0 < w1 \<longleftrightarrow> snd (es ! p) < snd (es ! i)" by (simp add: w word_less_alt)
    moreover have "(\<forall>j. i \<le> j \<and> j < length es \<longrightarrow> ?Q j) \<longleftrightarrow> ?Q i \<and> R"
      unfolding R_def by (rule all_from_split [OF True])
    moreover have "es ! (i - 1) = es ! p" using i by simp
    ultimately show ?thesis by simp
  qed
qed

lemma sorted_wrt_less_iff_step:
  "sorted_wrt (<) (xs :: 'a::linorder list) \<longleftrightarrow> (\<forall>j. 1 \<le> j \<and> j < length xs \<longrightarrow> xs ! (j - 1) < xs ! j)"
proof -
  have "sorted_wrt (<) xs \<longleftrightarrow> (\<forall>i. Suc i < length xs \<longrightarrow> xs ! i < xs ! Suc i)"
    by (intro sorted_wrt_iff_nth_Suc_transp transp_on_less)
  also have "\<dots> \<longleftrightarrow> (\<forall>j. 1 \<le> j \<and> j < length xs \<longrightarrow> xs ! (j - 1) < xs ! j)"
    by (metis One_nat_def Suc_le_D diff_Suc_1 Suc_leI zero_less_Suc)
  finally show ?thesis .
qed

text \<open>Where the values of a map start.\<close>

definition values_start :: "'k key_type \<Rightarrow> StaticMap \<Rightarrow> int" where
  "values_start kt m = the (raw_data m) + 4 * (num_nodes m + 1) + key_size kt * num_nodes m"

lemma ValidateInMemoryStructure_node:
  assumes rep: "nodes_at kt mem m es"
  shows "ValidateInMemoryStructure kt mem m =
    Returns (es = [] \<or> snd (hd es) = values_start kt m \<and> sorted_wrt (<) (map snd es) \<and> omap_ok es)"
proof (cases es)
  case Nil
  then show ?thesis
    using validate_nodes_node [OF rep, of 1] rep by (auto simp: ValidateInMemoryStructure_def nodes_at_def)
next
  case (Cons e rest)
  let ?step = "\<forall>j. 1 \<le> j \<and> j < length es \<longrightarrow> snd (es ! (j - 1)) < snd (es ! j) \<and> fst (es ! (j - 1)) < fst (es ! j)"
  have steps: "validate_nodes kt mem m 1 = Returns ?step" using validate_nodes_node [OF rep, of 1] by simp
  have sorted: "sorted_wrt (<) (map snd es) \<and> omap_ok es \<longleftrightarrow> ?step"
    unfolding omap_ok_def sorted_wrt_less_iff_step by (auto simp: nth_map)
  obtain b and w :: "32 word" where b: "raw_data m = Some b" "offsets m = b + 4" "num_nodes m = int (length es)"
    "read_word mem b = Returns (of_nat (length es) :: 32 word)" "read_word mem (b + 4) = Returns w" "snd (es ! 0) = b + uint w"
    using rep Cons by (auto simp: nodes_at_def)
  have n: "length es < 2 ^ 31" using rep by (simp add: nodes_at_def)
  have small: "uint w \<le> 0xffffffff" using uint_lt2p [of w] by simp
  let ?first = "4 * (int (length es) + 1) + key_size kt * int (length es)"
  have start: "snd (hd es) = values_start kt m \<longleftrightarrow> uint w = ?first"
    using b Cons by (simp add: values_start_def hd_conv_nth) linarith
  have "ValidateInMemoryStructure kt mem m = (if uint w = ?first then Returns ?step else Returns False)"
    unfolding ValidateInMemoryStructure_def
    using small n by (simp add: b steps sint_of_nat32 Cons [symmetric] Let_def del: length_greater_0_conv) (auto simp: Cons)
  then show ?thesis using start sorted Cons by auto
qed

text \<open>C25. \<open>ValidateInMemoryStructure\<close> accepts a map that lies in memory exactly when its value area starts right
  behind the keys and both the keys and the value offsets strictly increase; and on a map it accepts, the binary
  searches of the code agree with the searches of an ordered map with the same keys.\<close>

theorem ValidateInMemoryStructure_searches:
  assumes rep: "nodes_at kt mem m es"
  shows "ValidateInMemoryStructure kt mem m =
      Returns (es = [] \<or> snd (hd es) = values_start kt m \<and> sorted_wrt (<) (map snd es) \<and> omap_ok es) \<and>
    (ValidateInMemoryStructure kt mem m = Returns True \<longrightarrow>
      StaticMap_find kt mem m key = Returns (node_iterator m (omap_find es key)) \<and>
      StaticMap_lower_bound kt mem m key = Returns (node_iterator m (lower_bound es key)) \<and>
      StaticMap_upper_bound kt mem m key = Returns (node_iterator m (upper_bound es key)))"
proof -
  have "omap_ok es" if "ValidateInMemoryStructure kt mem m = Returns True"
    using that ValidateInMemoryStructure_node [OF rep] by auto
  then show ?thesis
    using ValidateInMemoryStructure_node [OF rep] StaticMap_find_node [OF rep] StaticMap_lower_bound_node [OF rep]
      StaticMap_upper_bound_node [OF rep] by simp
qed

definition one_node :: bytes where
  "one_node = [1, 0, 0, 0, 16, 0, 0, 0, 5, 0, 0, 0, 0, 0, 0, 0, 42]"

definition one_node_map :: StaticMap where
  "one_node_map = \<lparr>raw_data = Some 0, num_nodes = 1, offsets = 4, keys = 8\<rparr>"

lemma one_node_at: "nodes_at addr_key one_node one_node_map [(5, 16)]"
proof -
  have "word_rcat [0, 0, 0, 1 :: 8 word] = (1 :: 32 word)" "word_rcat [0, 0, 0, 16 :: 8 word] = (16 :: 32 word)"
    "word_rcat [0, 0, 0, 0, 0, 0, 0, 5 :: 8 word] = (5 :: 64 word)" by code_simp+
  then show ?thesis
    by (simp add: nodes_at_def one_node_def one_node_map_def addr_key_def read_word_def word_of_bytes_def)
qed

theorem ValidateInMemoryStructure_searches_witness:
  "ValidateInMemoryStructure addr_key one_node one_node_map = Returns True \<and>
    StaticMap_find addr_key one_node one_node_map 5 = Returns (node_iterator one_node_map 0)"
  using ValidateInMemoryStructure_searches [OF one_node_at, of 5]
  by (simp add: values_start_def one_node_map_def addr_key_def omap_find_def lower_bound_def omap_ok_def)

end
