(* ===== verification/Map_Serializers.thy ===== *)
theory Map_Serializers
  imports Static_Map Range_Map Address_Map Contained_Range_Map
begin

unbundle bit_operations_syntax

text \<open>
  The binary form of the symbol maps: the writers (\<^verbatim>\<open>processor/map_serializers-inl.h\<close>,
  \<^verbatim>\<open>simple_serializer.h\<close>) and the read-only maps over it (\<^verbatim>\<open>static_range_map-inl.h\<close>,
  \<^verbatim>\<open>static_address_map-inl.h\<close>, \<^verbatim>\<open>static_contained_range_map-inl.h\<close>).
\<close>

section \<open>Writing\<close>

text \<open>The loop of the writers over the nodes: \<open>dest\<close> is the distance from the start of the map to the place where the
  value of the next node goes. It gives the offsets, the keys and the values.\<close>

fun write_nodes :: "'k key_type \<Rightarrow> ('k \<times> bytes) list \<Rightarrow> nat \<Rightarrow> bytes \<times> bytes \<times> bytes" where
  "write_nodes kt [] dest = ([], [], [])"
| "write_nodes kt ((k, v) # nodes) dest =
     (let (os, ks, vs) = write_nodes kt nodes (dest + length v)
      in (word_bytes (of_nat dest :: 32 word) @ os, key_bytes kt k @ ks, v @ vs))"

definition header_size :: "'k key_type \<Rightarrow> nat \<Rightarrow> nat" where
  "header_size kt n = 4 * (1 + n) + nat (key_size kt) * n"

definition write_map :: "'k key_type \<Rightarrow> ('k \<times> bytes) list \<Rightarrow> bytes" where
  "write_map kt nodes =
     (let (os, ks, vs) = write_nodes kt nodes (header_size kt (length nodes))
      in word_bytes (of_nat (length nodes) :: 32 word) @ os @ ks @ vs)"

definition StdMapSerializer_Write :: "'k key_type \<Rightarrow> ('v \<Rightarrow> bytes) \<Rightarrow> ('k, 'v) omap \<Rightarrow> bytes" where
  "StdMapSerializer_Write kt write m = write_map kt (map (\<lambda>(k, v). (k, write v)) m)"

definition StdMapSerializer_SizeOf :: "'k key_type \<Rightarrow> ('v \<Rightarrow> nat) \<Rightarrow> ('k, 'v) omap \<Rightarrow> nat" where
  "StdMapSerializer_SizeOf kt size_of m =
     (1 + length m) * 4 + (\<Sum>(k, v)\<leftarrow>m. length (key_bytes kt k) + size_of v)"

text \<open>The buffer has the size \<open>SizeOf\<close> cut to 32 bits; the writer runs over its end when that is less than what it
  writes.\<close>

definition StdMapSerializer_Serialize ::
  "'k key_type \<Rightarrow> ('v \<Rightarrow> nat) \<Rightarrow> ('v \<Rightarrow> bytes) \<Rightarrow> ('k, 'v) omap \<Rightarrow> (bytes \<times> 32 word) exec" where
  "StdMapSerializer_Serialize kt size_of write m =
     (let size_to_alloc = of_nat (StdMapSerializer_SizeOf kt size_of m) :: 32 word;
          data = StdMapSerializer_Write kt write m
      in if length data > unat size_to_alloc then Undefined else Returns (data, size_to_alloc))"

definition range_bytes :: "('e \<Rightarrow> bytes) \<Rightarrow> ('a::len word, 'e) Range \<Rightarrow> bytes" where
  "range_bytes write r = word_bytes (rbase r) @ write (rentry r)"

definition RangeMapSerializer_Write :: "('e \<Rightarrow> bytes) \<Rightarrow> (64, 'e) RangeMap \<Rightarrow> bytes" where
  "RangeMapSerializer_Write write m = write_map addr_key (map (\<lambda>(k, r). (k, range_bytes write r)) m)"

definition RangeMapSerializer_SizeOf :: "('e \<Rightarrow> nat) \<Rightarrow> (64, 'e) RangeMap \<Rightarrow> nat" where
  "RangeMapSerializer_SizeOf size_of m = (1 + length m) * 4 + (\<Sum>(k, r)\<leftarrow>m. 8 + 8 + size_of (rentry r))"

text \<open>A null \<open>map_\<close> is written as an empty one.\<close>

function ContainedRangeMapSerializer_Write :: "('e \<Rightarrow> bytes) \<Rightarrow> (64, 'e) crm \<Rightarrow> bytes" where
  "ContainedRangeMapSerializer_Write write n =
     word_bytes (nbase n) @ word_bytes (of_nat (length (write (nentry n))) :: 32 word) @ write (nentry n) @
     write_map addr_key (map (\<lambda>x. (fst x, ContainedRangeMapSerializer_Write write (snd x))) (children n))"
  by pat_completeness auto
termination
  by (relation "measure (\<lambda>(write, n). size n)") (auto dest: size_children)

declare ContainedRangeMapSerializer_Write.simps [simp del]

text \<open>The entry of a root is a null pointer, for which nothing is written.\<close>

definition ContainedRangeMapSerializer_WriteRoot :: "('e \<Rightarrow> bytes) \<Rightarrow> (64, 'e) crm \<Rightarrow> bytes" where
  "ContainedRangeMapSerializer_WriteRoot write n =
     word_bytes (nbase n) @ word_bytes (0 :: 32 word) @
     write_map addr_key (map (\<lambda>x. (fst x, ContainedRangeMapSerializer_Write write (snd x))) (children n))"

function ContainedRangeMapSerializer_SizeOf :: "('e \<Rightarrow> nat) \<Rightarrow> (64, 'e) crm \<Rightarrow> nat" where
  "ContainedRangeMapSerializer_SizeOf size_of n =
     8 + size_of (nentry n) + 4 + 4 + 4 * length (children n) +
     sum_list (map (\<lambda>x. 8 + ContainedRangeMapSerializer_SizeOf size_of (snd x)) (children n))"
  by pat_completeness auto
termination
  by (relation "measure (\<lambda>(size_of, n). size n)") (auto dest: size_children)

declare ContainedRangeMapSerializer_SizeOf.simps [simp del]

definition ContainedRangeMapSerializer_SizeOfRoot :: "('e \<Rightarrow> nat) \<Rightarrow> (64, 'e) crm \<Rightarrow> nat" where
  "ContainedRangeMapSerializer_SizeOfRoot size_of n =
     8 + 0 + 4 + 4 + 4 * length (children n) +
     sum_list (map (\<lambda>x. 8 + ContainedRangeMapSerializer_SizeOf size_of (snd x)) (children n))"

definition RangeMapSerializer_Serialize ::
  "('e \<Rightarrow> nat) \<Rightarrow> ('e \<Rightarrow> bytes) \<Rightarrow> (64, 'e) RangeMap \<Rightarrow> (bytes \<times> 32 word) exec" where
  "RangeMapSerializer_Serialize size_of write m =
     (let size_to_alloc = of_nat (RangeMapSerializer_SizeOf size_of m) :: 32 word; data = RangeMapSerializer_Write write m
      in if length data > unat size_to_alloc then Undefined else Returns (data, size_to_alloc))"

definition ContainedRangeMapSerializer_Serialize ::
  "('e \<Rightarrow> nat) \<Rightarrow> ('e \<Rightarrow> bytes) \<Rightarrow> (64, 'e) crm \<Rightarrow> (bytes \<times> 32 word) exec" where
  "ContainedRangeMapSerializer_Serialize size_of write n =
     (let size_to_alloc = of_nat (ContainedRangeMapSerializer_SizeOfRoot size_of n) :: 32 word;
          data = ContainedRangeMapSerializer_WriteRoot write n
      in if length data > unat size_to_alloc then Undefined else Returns (data, size_to_alloc))"

section \<open>The read-only maps\<close>

text \<open>A lookup gives a pointer to the entry.\<close>

definition StaticRangeMap_hit :: "bytes \<Rightarrow> StaticMapIterator \<Rightarrow> int \<Rightarrow> 64 word \<Rightarrow> (int \<times> 64 word \<times> 64 word) option exec" where
  "StaticRangeMap_hit mem iterator rng range_base =
     exec_bind (GetKey addr_key mem iterator) (\<lambda>key. Returns (Some (rng + 8, range_base, key - range_base + 1)))"

text \<open>A null value pointer is dereferenced.\<close>

definition deref :: "'a option \<Rightarrow> 'a exec" where
  "deref p = (case p of None \<Rightarrow> Undefined | Some x \<Rightarrow> Returns x)"

definition StaticRangeMap_RetrieveRange :: "bytes \<Rightarrow> StaticMap \<Rightarrow> 64 word \<Rightarrow> (int \<times> 64 word \<times> 64 word) option exec" where
  "StaticRangeMap_RetrieveRange mem m address =
     exec_bind (StaticMap_lower_bound addr_key mem m address) (\<lambda>iterator.
     exec_bind (StaticMap_end mem m) (\<lambda>end'.
     if iterator_eq iterator end' then Returns None
     else
       exec_bind (GetValueRawPtr mem iterator) (\<lambda>p.
       exec_bind (deref p) (\<lambda>rng.
       exec_bind (read_word mem rng) (\<lambda>range_base.
       if address < range_base then Returns None else StaticRangeMap_hit mem iterator rng range_base)))))"

definition StaticRangeMap_RetrieveNearestRange :: "bytes \<Rightarrow> StaticMap \<Rightarrow> 64 word \<Rightarrow> (int \<times> 64 word \<times> 64 word) option exec" where
  "StaticRangeMap_RetrieveNearestRange mem m address =
     exec_bind (StaticRangeMap_RetrieveRange mem m address) (\<lambda>r.
     case r of
       Some hit \<Rightarrow> Returns (Some hit)
     | None \<Rightarrow>
         exec_bind (StaticMap_upper_bound addr_key mem m address) (\<lambda>iterator.
         exec_bind (StaticMap_begin mem m) (\<lambda>begin'.
         if iterator_eq iterator begin' then Returns None
         else
           let iterator = iterator_decrement iterator in
           exec_bind (GetValueRawPtr mem iterator) (\<lambda>p.
           exec_bind (deref p) (\<lambda>rng.
           exec_bind (read_word mem rng) (\<lambda>range_base. StaticRangeMap_hit mem iterator rng range_base))))))"

definition StaticRangeMap_RetrieveRangeAtIndex :: "bytes \<Rightarrow> StaticMap \<Rightarrow> int \<Rightarrow> (int \<times> 64 word \<times> 64 word) option exec" where
  "StaticRangeMap_RetrieveRangeAtIndex mem m i =
     (if i \<ge> num_nodes m then Returns None
      else
        exec_bind (IteratorAtIndex mem m i) (\<lambda>iterator.
        exec_bind (GetValueRawPtr mem iterator) (\<lambda>p.
        exec_bind (deref p) (\<lambda>rng.
        exec_bind (read_word mem rng) (\<lambda>range_base. StaticRangeMap_hit mem iterator rng range_base)))))"

text \<open>\<open>Retrieve\<close> hands out the value pointer without looking at it.\<close>

definition StaticAddressMap_Retrieve :: "bytes \<Rightarrow> StaticMap \<Rightarrow> 64 word \<Rightarrow> (int option \<times> 64 word) option exec" where
  "StaticAddressMap_Retrieve mem m address =
     exec_bind (StaticMap_upper_bound addr_key mem m address) (\<lambda>iterator.
     exec_bind (StaticMap_begin mem m) (\<lambda>begin'.
     if iterator_eq iterator begin' then Returns None
     else
       let iterator = iterator_decrement iterator in
       exec_bind (GetValueRawPtr mem iterator) (\<lambda>entry.
       exec_bind (GetKey addr_key mem iterator) (\<lambda>key. Returns (Some (entry, key))))))"

record StaticContainedRangeMap =
  sc_base :: "64 word"
  entry_size :: "32 word"
  entry_ptr :: "int option"
  sc_map :: StaticMap

definition StaticContainedRangeMap_new :: "bytes \<Rightarrow> int \<Rightarrow> StaticContainedRangeMap exec" where
  "StaticContainedRangeMap_new mem p =
     exec_bind (read_word mem p) (\<lambda>b.
     exec_bind (read_word mem (p + 8)) (\<lambda>sz.
     exec_bind (StaticMap_new mem (p + 12 + uint sz)) (\<lambda>m.
     Returns \<lparr>sc_base = b, entry_size = sz, entry_ptr = (if sz = 0 then None else Some (p + 12)), sc_map = m\<rparr>)))"

lemma lower_bound_raw_data:
  "StaticMap_lower_bound kt mem m a = Returns it \<Longrightarrow> raw_data m = Some (base it)"
  by (auto simp: StaticMap_lower_bound_def IteratorAtIndex_def exec_bind_Returns_iff split: option.split_asm if_split_asm)

lemma GetValueRawPtr_above: "GetValueRawPtr mem it = Returns (Some p) \<Longrightarrow> base it \<le> p"
  by (auto simp: GetValueRawPtr_def exec_bind_Returns_iff split: if_split_asm)

lemma read_word_inside: "read_word mem p = Returns (w :: 'a::len word) \<Longrightarrow> 0 \<le> p \<and> nat p + LENGTH('a) div 8 \<le> length mem"
  by (simp add: read_word_def Let_def split: if_split_asm)

lemma StaticContainedRangeMap_new_raw:
  assumes "StaticContainedRangeMap_new mem p = Returns c"
  shows "\<exists>q. raw_data (sc_map c) = Some q \<and> p + 12 \<le> q \<and> q + 4 \<le> int (length mem)"
proof -
  obtain sz :: "32 word" and m where m: "StaticMap_new mem (p + 12 + uint sz) = Returns m" "sc_map c = m"
    using assms by (auto simp: StaticContainedRangeMap_new_def exec_bind_Returns_iff)
  then obtain w :: "32 word" where w: "read_word mem (p + 12 + uint sz) = Returns w" "raw_data m = Some (p + 12 + uint sz)"
    unfolding StaticMap_new_def exec_bind_Returns_iff by (metis (no_types, lifting) StaticMap.select_convs(1) exec.distinct(1) exec.inject)
  have "p + 12 + uint sz + 4 \<le> int (length mem)" using read_word_inside [OF w(1)] by auto
  then show ?thesis using m w by auto
qed

text \<open>The child map always lies at a higher address than its parent's, so the descent ends in any buffer.\<close>

function StaticContainedRangeMap_RetrieveRange ::
  "bytes \<Rightarrow> StaticContainedRangeMap \<Rightarrow> 64 word \<Rightarrow> int option option exec" where
  "StaticContainedRangeMap_RetrieveRange mem m address =
     exec_bind (StaticMap_lower_bound addr_key mem (sc_map m) address) (\<lambda>iterator.
     exec_bind (StaticMap_end mem (sc_map m)) (\<lambda>end'.
     if iterator_eq iterator end' then Returns None
     else
       exec_bind (GetValueRawPtr mem iterator) (\<lambda>q.
       exec_bind (deref q) (\<lambda>memory_child.
       exec_bind (StaticContainedRangeMap_new mem memory_child) (\<lambda>child_map.
       if address < sc_base child_map then Returns None
       else
         exec_bind (StaticContainedRangeMap_RetrieveRange mem child_map address) (\<lambda>r.
           Returns (Some (case r of Some entry \<Rightarrow> entry | None \<Rightarrow> entry_ptr child_map))))))))"
  by pat_completeness auto
termination
proof (relation "measure (\<lambda>(mem, m, address). nat (int (length mem) - the (raw_data (sc_map m))))")
  fix mem address iterator end' q memory_child child_map and m :: StaticContainedRangeMap
  assume "StaticMap_lower_bound addr_key mem (sc_map m) address = Returns iterator"
    and q: "GetValueRawPtr mem iterator = Returns q" "deref q = Returns memory_child"
    and "StaticContainedRangeMap_new mem memory_child = Returns child_map"
  then obtain r where r: "raw_data (sc_map m) = Some (base iterator)" "raw_data (sc_map child_map) = Some r"
    "memory_child + 12 \<le> r" "r + 4 \<le> int (length mem)"
    using lower_bound_raw_data StaticContainedRangeMap_new_raw by blast
  have "base iterator \<le> memory_child"
    using q by (auto simp: deref_def intro: GetValueRawPtr_above split: option.split_asm)
  then show "((mem, child_map, address), mem, m, address)
      \<in> measure (\<lambda>(mem, m, address). nat (int (length mem) - the (raw_data (sc_map m))))"
    using r by simp
qed simp

declare StaticContainedRangeMap_RetrieveRange.simps [simp del]

section \<open>Reading what was written\<close>

text \<open>Where the values of the nodes lie when the first one is at \<open>q\<close>.\<close>

fun node_pointers :: "int \<Rightarrow> ('k \<times> bytes) list \<Rightarrow> ('k \<times> int) list" where
  "node_pointers q [] = []"
| "node_pointers q ((k, v) # nodes) = (k, q) # node_pointers (q + int (length v)) nodes"

lemma node_pointers_fst [simp]: "map fst (node_pointers q nodes) = map fst nodes"
  by (induction q nodes rule: node_pointers.induct) simp_all

lemma length_node_pointers [simp]: "length (node_pointers q nodes) = length nodes"
  by (induction q nodes rule: node_pointers.induct) simp_all

lemma node_pointers_nth_fst [simp]: "i < length nodes \<Longrightarrow> fst (node_pointers q nodes ! i) = fst (nodes ! i)"
  by (metis length_node_pointers node_pointers_fst nth_map)

lemma bounds_fst:
  assumes "map fst m = map fst m'"
  shows "lower_bound m k = lower_bound m' k" "upper_bound m k = upper_bound m' k"
proof -
  have tw: "length (takeWhile (\<lambda>e. P (fst e)) m) = length (takeWhile P (map fst m))" for P and m :: "('a \<times> 'b) list"
    by (simp add: takeWhile_map comp_def)
  show "lower_bound m k = lower_bound m' k" "upper_bound m k = upper_bound m' k"
    unfolding lower_bound_def upper_bound_def tw [of "\<lambda>x. x < k"] tw [of "\<lambda>x. x \<le> k"] assms
    by (simp_all add: takeWhile_map comp_def)
qed

lemma omap_find_fst:
  assumes "map fst m = map fst m'"
  shows "omap_find m k = omap_find m' k"
proof -
  have l: "length m = length m'" using assms by (metis length_map)
  have "fst (m ! i) = fst (m' ! i)" if "i < length m" for i using assms l that by (metis nth_map)
  then show ?thesis using l by (auto simp: omap_find_def bounds_fst [OF assms] Let_def)
qed

lemma omap_ok_fst: "map fst m = map fst m' \<Longrightarrow> omap_ok m \<longleftrightarrow> omap_ok m'"
  by (simp add: omap_ok_def)

definition value_size :: "('k \<times> bytes) list \<Rightarrow> nat" where
  "value_size nodes = sum_list (map (\<lambda>x. length (snd x)) nodes)"

lemma value_size_simps [simp]: "value_size [] = 0" "value_size ((k, v) # nodes) = length v + value_size nodes"
  by (simp_all add: value_size_def)

text \<open>The map \<open>m\<close> holds the nodes.\<close>

definition values_at :: "'k key_type \<Rightarrow> bytes \<Rightarrow> StaticMap \<Rightarrow> ('k \<times> bytes) list \<Rightarrow> bool" where
  "values_at kt mem m nodes \<longleftrightarrow>
     (\<exists>es. nodes_at kt mem m es \<and> map fst es = map fst nodes \<and>
       (\<forall>i<length nodes. bytes_at mem (snd (es ! i)) (snd (nodes ! i))))"

context static_key
begin

lemma write_nodes_length:
  "write_nodes kt nodes dest = (os, ks, vs) \<Longrightarrow>
    length os = 4 * length nodes \<and> length ks = nat (key_size kt) * length nodes \<and> length vs = value_size nodes"
proof (induction nodes arbitrary: dest os ks vs)
  case (Cons x nodes)
  obtain k v where x: "x = (k, v)" by (cases x)
  obtain os' ks' vs' where w: "write_nodes kt nodes (dest + length v) = (os', ks', vs')" by (metis prod_cases3)
  have "length (key_bytes kt k) = nat (key_size kt)" using key_bytes_size [of k] by simp
  then show ?case using Cons.prems Cons.IH [OF w] by (auto simp: x w)
qed simp

lemma write_map_length:
  "length (write_map kt nodes) = header_size kt (length nodes) + value_size nodes"
proof -
  obtain os ks vs where w: "write_nodes kt nodes (header_size kt (length nodes)) = (os, ks, vs)" by (metis prod_cases3)
  have "write_map kt nodes = word_bytes (of_nat (length nodes) :: 32 word) @ os @ ks @ vs" by (simp add: write_map_def w)
  then show ?thesis using write_nodes_length [OF w] by (simp add: header_size_def)
qed

text \<open>The offsets, the keys and the values lie where the reader looks for them.\<close>

lemma written_offsets:
  "write_nodes kt nodes dest = (os, ks, vs) \<Longrightarrow> bytes_at mem po os \<Longrightarrow> dest + value_size nodes < 2 ^ 32 \<Longrightarrow> i < length nodes \<Longrightarrow>
    \<exists>w :: 32 word. read_word mem (po + int i * 4) = Returns w \<and> snd (node_pointers (b + int dest) nodes ! i) = b + uint w"
proof (induction nodes arbitrary: dest os ks vs po i)
  case (Cons x nodes)
  obtain k v where x: "x = (k, v)" by (cases x)
  obtain os' ks' vs' where w: "write_nodes kt nodes (dest + length v) = (os', ks', vs')" by (metis prod_cases3)
  have os: "bytes_at mem po (word_bytes (of_nat dest :: 32 word))" "bytes_at mem (po + 4) os'"
    using Cons.prems(1,2) by (auto simp: x w bytes_at_append)
  show ?case
  proof (cases i)
    case 0
    have "dest < 2 ^ 32" using Cons.prems(3) by (simp add: x)
    then have "uint (of_nat dest :: 32 word) = int dest" by (simp add: uint_of_nat32)
    then show ?thesis using read_word32 [OF os(1)] 0 by (simp add: x)
  next
    case (Suc j)
    have "\<exists>w :: 32 word. read_word mem (po + 4 + int j * 4) = Returns w \<and>
        snd (node_pointers (b + int (dest + length v)) nodes ! j) = b + uint w"
      using Cons.IH [OF w os(2), of j] Cons.prems(3,4) Suc by (simp add: x)
    then show ?thesis using Suc by (simp add: x algebra_simps)
  qed
qed simp

lemma written_keys:
  "write_nodes kt nodes dest = (os, ks, vs) \<Longrightarrow> bytes_at mem pk ks \<Longrightarrow> \<forall>x\<in>set nodes. storable (fst x) \<Longrightarrow> i < length nodes \<Longrightarrow>
    read_key kt mem (pk + int i * key_size kt) = Returns (fst (nodes ! i))"
proof (induction nodes arbitrary: dest os ks vs pk i)
  case (Cons x nodes)
  obtain k v where x: "x = (k, v)" by (cases x)
  obtain os' ks' vs' where w: "write_nodes kt nodes (dest + length v) = (os', ks', vs')" by (metis prod_cases3)
  have ks: "bytes_at mem pk (key_bytes kt k)" "bytes_at mem (pk + key_size kt) ks'"
    using Cons.prems(1,2) key_bytes_size [of k] by (auto simp: x w bytes_at_append)
  show ?case
  proof (cases i)
    case 0
    then show ?thesis using read_key_bytes [OF _ ks(1)] Cons.prems(3) by (simp add: x)
  next
    case (Suc j)
    have "read_key kt mem (pk + key_size kt + int j * key_size kt) = Returns (fst (nodes ! j))"
      using Cons.IH [OF w ks(2), of j] Cons.prems(3,4) Suc by simp
    then show ?thesis using Suc by (simp add: algebra_simps)
  qed
qed simp

lemma written_values:
  "write_nodes kt nodes dest = (os, ks, vs) \<Longrightarrow> bytes_at mem q vs \<Longrightarrow> i < length nodes \<Longrightarrow>
    bytes_at mem (snd (node_pointers q nodes ! i)) (snd (nodes ! i))"
proof (induction nodes arbitrary: dest os ks vs q i)
  case (Cons x nodes)
  obtain k v where x: "x = (k, v)" by (cases x)
  obtain os' ks' vs' where w: "write_nodes kt nodes (dest + length v) = (os', ks', vs')" by (metis prod_cases3)
  have vs: "bytes_at mem q v" "bytes_at mem (q + int (length v)) vs'"
    using Cons.prems(1,2) by (auto simp: x w bytes_at_append)
  show ?case
  proof (cases i)
    case (Suc j)
    then show ?thesis using Cons.IH [OF w vs(2), of j] Cons.prems(3) by (simp add: x)
  qed (use vs in \<open>simp add: x\<close>)
qed simp

lemma write_map_read:
  assumes at: "bytes_at mem p (write_map kt nodes)"
    and sz: "length (write_map kt nodes) < 2 ^ 32" and keys: "\<forall>x\<in>set nodes. storable (fst x)"
  obtains m where "StaticMap_new mem p = Returns m" "values_at kt mem m nodes"
proof -
  let ?h = "header_size kt (length nodes)"
  obtain os ks vs where w: "write_nodes kt nodes ?h = (os, ks, vs)" by (metis prod_cases3)
  note len = write_nodes_length [OF w]
  have n: "length nodes < 2 ^ 31 - 1" using sz by (simp add: write_map_length header_size_def)
  have map_bytes: "write_map kt nodes = word_bytes (of_nat (length nodes) :: 32 word) @ os @ ks @ vs"
    by (simp add: write_map_def w)
  have k: "0 \<le> key_size kt" using key_bytes_size by (metis of_nat_0_le_iff)
  have parts: "bytes_at mem p (word_bytes (of_nat (length nodes) :: 32 word))" "bytes_at mem (p + 4) os"
    "bytes_at mem (p + 4 + int (4 * length nodes)) ks" "bytes_at mem (p + int ?h) vs"
    using at len k unfolding map_bytes by (auto simp: bytes_at_append header_size_def algebra_simps)
  let ?m = "\<lparr>raw_data = Some p, num_nodes = int (length nodes), offsets = p + 4, keys = p + (1 + int (length nodes)) * 4\<rparr>"
  note count = read_word32 [OF parts(1)]
  have small: "sint (of_nat (length nodes) :: 32 word) = int (length nodes)" using n by (simp add: sint_of_nat32)
  have new: "StaticMap_new mem p = Returns ?m" using n by (simp add: StaticMap_new_def count small)
  have "?h + value_size nodes < 2 ^ 32" using sz by (simp add: write_map_length)
  then have "nodes_at kt mem ?m (node_pointers (p + int ?h) nodes)"
    using written_offsets [OF w parts(2), where b = p] written_keys [OF w parts(3) keys] n count
    by (simp add: nodes_at_def algebra_simps)
  then have "values_at kt mem ?m nodes"
    using written_values [OF w parts(4)] unfolding values_at_def
    by (intro exI [of _ "node_pointers (p + int ?h) nodes"]) simp
  with that [OF new] show ?thesis by blast
qed

end

text \<open>Searching a written map.\<close>

lemma values_at_search:
  assumes "values_at kt mem m nodes" "omap_ok nodes"
  shows "StaticMap_find kt mem m k = Returns (node_iterator m (omap_find nodes k))"
    "StaticMap_lower_bound kt mem m k = Returns (node_iterator m (lower_bound nodes k))"
    "StaticMap_upper_bound kt mem m k = Returns (node_iterator m (upper_bound nodes k))"
    "StaticMap_begin mem m = Returns (node_iterator m 0)" "StaticMap_end mem m = Returns (node_iterator m (length nodes))"
    "i < length nodes \<Longrightarrow> GetKey kt mem (node_iterator m i) = Returns (fst (nodes ! i))"
    "i < length nodes \<Longrightarrow> \<exists>q. GetValueRawPtr mem (node_iterator m i) = Returns (Some q) \<and> bytes_at mem q (snd (nodes ! i))"
    "0 < i \<Longrightarrow> i \<le> length nodes \<Longrightarrow> iterator_decrement (node_iterator m i) = node_iterator m (i - 1)"
    "i < length nodes \<Longrightarrow> iterator_increment (node_iterator m i) = node_iterator m (i + 1)"
    "IteratorAtIndex mem m (int i) = Returns (node_iterator m i)"
    "num_nodes m = int (length nodes)"
proof -
  obtain es where es: "nodes_at kt mem m es" "map fst es = map fst nodes"
    "\<And>i. i < length nodes \<Longrightarrow> bytes_at mem (snd (es ! i)) (snd (nodes ! i))"
    using assms(1) by (auto simp: values_at_def)
  have ok: "omap_ok es" using assms(2) omap_ok_fst [OF es(2)] by simp
  have len: "length es = length nodes" using es(2) by (metis length_map)
  have "fst (es ! i) = fst (nodes ! i)" if "i < length nodes" for i using es(2) len that by (metis nth_map)
  note facts = StaticMap_find_node [OF es(1) ok] StaticMap_lower_bound_node [OF es(1) ok]
    StaticMap_upper_bound_node [OF es(1) ok] StaticMap_begin_node [OF es(1)] StaticMap_end_node [OF es(1)]
    GetKey_node [OF es(1)] GetValueRawPtr_node [OF es(1)] iterator_decrement_node [OF es(1)]
    iterator_increment_node [OF es(1)] IteratorAtIndex_node [OF es(1)] bounds_fst [OF es(2)] omap_find_fst [OF es(2)] this
  show "StaticMap_find kt mem m k = Returns (node_iterator m (omap_find nodes k))"
    "StaticMap_lower_bound kt mem m k = Returns (node_iterator m (lower_bound nodes k))"
    "StaticMap_upper_bound kt mem m k = Returns (node_iterator m (upper_bound nodes k))"
    "StaticMap_begin mem m = Returns (node_iterator m 0)" "StaticMap_end mem m = Returns (node_iterator m (length nodes))"
    "i < length nodes \<Longrightarrow> GetKey kt mem (node_iterator m i) = Returns (fst (nodes ! i))"
    "i < length nodes \<Longrightarrow> \<exists>q. GetValueRawPtr mem (node_iterator m i) = Returns (Some q) \<and> bytes_at mem q (snd (nodes ! i))"
    "0 < i \<Longrightarrow> i \<le> length nodes \<Longrightarrow> iterator_decrement (node_iterator m i) = node_iterator m (i - 1)"
    "i < length nodes \<Longrightarrow> iterator_increment (node_iterator m i) = node_iterator m (i + 1)"
    "IteratorAtIndex mem m (int i) = Returns (node_iterator m i)"
    "num_nodes m = int (length nodes)"
    using facts es(1,3) by (simp_all add: len) (simp add: nodes_at_def len)
qed

section \<open>Range maps\<close>

definition range_nodes :: "('e \<Rightarrow> bytes) \<Rightarrow> (64, 'e) RangeMap \<Rightarrow> (64 word \<times> bytes) list" where
  "range_nodes write m = map (\<lambda>(k, r). (k, range_bytes write r)) m"

lemma range_nodes_simps [simp]:
  "length (range_nodes write m) = length m" "map fst (range_nodes write m) = map fst m"
  "i < length m \<Longrightarrow> range_nodes write m ! i = (fst (m ! i), range_bytes write (snd (m ! i)))"
  by (auto simp: range_nodes_def case_prod_beta)

text \<open>The entry of a range lies where the reader points, and the range is the same.\<close>

definition hit_at :: "bytes \<Rightarrow> ('e \<Rightarrow> bytes) \<Rightarrow> int \<times> 64 word \<times> 64 word \<Rightarrow> 'e \<times> 64 word \<times> 64 word \<Rightarrow> bool" where
  "hit_at mem write = (\<lambda>(q, b, s) (e, b', s'). b = b' \<and> s = s' \<and> bytes_at mem q (write e))"

lemma StaticRangeMap_hit_node:
  assumes at: "values_at addr_key mem sm (range_nodes write m)" "omap_ok m" and i: "i < length m"
  obtains q where "GetValueRawPtr mem (node_iterator sm i) = Returns (Some q)"
    "read_word mem q = Returns (rbase (snd (m ! i)))"
    "StaticRangeMap_hit mem (node_iterator sm i) q (rbase (snd (m ! i))) =
      Returns (Some (q + 8, rbase (snd (m ! i)), fst (m ! i) - rbase (snd (m ! i)) + 1))"
    "hit_at mem write (q + 8, rbase (snd (m ! i)), fst (m ! i) - rbase (snd (m ! i)) + 1) (RangeMap_hit (m ! i))"
proof -
  have ok: "omap_ok (range_nodes write m)" using at(2) omap_ok_fst [of "range_nodes write m" m] by simp
  obtain q where q: "GetValueRawPtr mem (node_iterator sm i) = Returns (Some q)"
    "bytes_at mem q (range_bytes write (snd (m ! i)))"
    using values_at_search(7) [OF at(1) ok, of i] i by auto
  then have "bytes_at mem q (word_bytes (rbase (snd (m ! i))))" "bytes_at mem (q + 8) (write (rentry (snd (m ! i))))"
    by (auto simp: range_bytes_def bytes_at_append)
  moreover have "GetKey addr_key mem (node_iterator sm i) = Returns (fst (m ! i))"
    using values_at_search(6) [OF at(1) ok, of i] i by simp
  ultimately show ?thesis
    using that [OF q(1)] by (simp add: read_word64 StaticRangeMap_hit_def hit_at_def RangeMap_hit_def)
qed

lemma StaticRangeMap_RetrieveRange_refines:
  assumes at: "values_at addr_key mem sm (range_nodes write m)" "omap_ok m"
  shows "\<exists>r. StaticRangeMap_RetrieveRange mem sm a = Returns r \<and> rel_option (hit_at mem write) r (RangeMap_RetrieveRange m a)"
proof -
  have ok: "omap_ok (range_nodes write m)" using at(2) omap_ok_fst [of "range_nodes write m" m] by simp
  note s = values_at_search [OF at(1) ok]
  have lb: "lower_bound (range_nodes write m) a = lower_bound m a" by (rule bounds_fst) simp
  show ?thesis
  proof (cases "lower_bound m a = length m")
    case True
    then show ?thesis by (simp add: StaticRangeMap_RetrieveRange_def RangeMap_RetrieveRange_def s lb)
  next
    case False
    then have i: "lower_bound m a < length m" by (simp add: le_neq_implies_less)
    show ?thesis
      by (rule StaticRangeMap_hit_node [OF at i])
        (use False in \<open>auto simp: StaticRangeMap_RetrieveRange_def RangeMap_RetrieveRange_def s lb deref_def\<close>)
  qed
qed

lemma StaticRangeMap_RetrieveNearestRange_refines:
  assumes at: "values_at addr_key mem sm (range_nodes write m)" "omap_ok m"
  shows "\<exists>r. StaticRangeMap_RetrieveNearestRange mem sm a = Returns r \<and>
    rel_option (hit_at mem write) r (RangeMap_RetrieveNearestRange m a)"
proof -
  have ok: "omap_ok (range_nodes write m)" using at(2) omap_ok_fst [of "range_nodes write m" m] by simp
  note s = values_at_search [OF at(1) ok]
  have ub: "upper_bound (range_nodes write m) a = upper_bound m a" by (rule bounds_fst) simp
  obtain r where r: "StaticRangeMap_RetrieveRange mem sm a = Returns r"
    "rel_option (hit_at mem write) r (RangeMap_RetrieveRange m a)"
    using StaticRangeMap_RetrieveRange_refines [OF at] by blast
  show ?thesis
  proof (cases r)
    case (Some x)
    then obtain y where y: "RangeMap_RetrieveRange m a = Some y" using r(2) by (auto simp: option_rel_Some1)
    then show ?thesis
      using r Some by (simp add: StaticRangeMap_RetrieveNearestRange_def RangeMap_RetrieveNearestRange_def)
  next
    case None
    then have n: "RangeMap_RetrieveRange m a = None" using r(2) by simp
    show ?thesis
    proof (cases "upper_bound m a = 0")
      case True
      then show ?thesis
        using r None n by (simp add: StaticRangeMap_RetrieveNearestRange_def RangeMap_RetrieveNearestRange_def s ub)
    next
      case False
      then have i: "upper_bound m a - 1 < length m" using upper_bound_le [of m a] by linarith
      have dec: "iterator_decrement (node_iterator sm (upper_bound m a)) = node_iterator sm (upper_bound m a - 1)"
        using s(8) [of "upper_bound m a"] False by simp
      show ?thesis
        by (rule StaticRangeMap_hit_node [OF at i])
          (use False r None n dec in \<open>auto simp: StaticRangeMap_RetrieveNearestRange_def RangeMap_RetrieveNearestRange_def
            s ub deref_def Let_def\<close>)
    qed
  qed
qed

section \<open>Address maps\<close>

definition omap_nodes :: "('v \<Rightarrow> bytes) \<Rightarrow> ('k, 'v) omap \<Rightarrow> ('k \<times> bytes) list" where
  "omap_nodes write m = map (\<lambda>(k, v). (k, write v)) m"

lemma omap_nodes_simps [simp]:
  "length (omap_nodes write m) = length m" "map fst (omap_nodes write m) = map fst m"
  "i < length m \<Longrightarrow> omap_nodes write m ! i = (fst (m ! i), write (snd (m ! i)))"
  by (auto simp: omap_nodes_def case_prod_beta)

lemma StaticAddressMap_Retrieve_refines:
  assumes at: "values_at addr_key mem sm (omap_nodes write m)" "omap_ok m"
  shows "\<exists>r. StaticAddressMap_Retrieve mem sm a = Returns r \<and>
    rel_option (\<lambda>(q, b) (e, b'). b = b' \<and> (\<exists>p. q = Some p \<and> bytes_at mem p (write e))) r (AddressMap_Retrieve m a)"
proof -
  have ok: "omap_ok (omap_nodes write m)" using at(2) omap_ok_fst [of "omap_nodes write m" m] by simp
  note s = values_at_search [OF at(1) ok]
  have ub: "upper_bound (omap_nodes write m) a = upper_bound m a" by (rule bounds_fst) simp
  show ?thesis
  proof (cases "upper_bound m a = 0")
    case True
    then show ?thesis by (simp add: StaticAddressMap_Retrieve_def AddressMap_Retrieve_def s ub)
  next
    case False
    then have i: "upper_bound m a - 1 < length m" using upper_bound_le [of m a] by linarith
    obtain q where "GetValueRawPtr mem (node_iterator sm (upper_bound m a - 1)) = Returns (Some q)"
      "bytes_at mem q (write (snd (m ! (upper_bound m a - 1))))"
      using s(7) [of "upper_bound m a - 1"] i by auto
    moreover have "iterator_decrement (node_iterator sm (upper_bound m a)) = node_iterator sm (upper_bound m a - 1)"
      using s(8) [of "upper_bound m a"] False by simp
    moreover have "GetKey addr_key mem (node_iterator sm (upper_bound m a - 1)) = Returns (fst (m ! (upper_bound m a - 1)))"
      using s(6) [of "upper_bound m a - 1"] i by simp
    ultimately show ?thesis
      using False by (auto simp: StaticAddressMap_Retrieve_def AddressMap_Retrieve_def s ub Let_def)
  qed
qed

section \<open>Contained range maps\<close>

definition child_nodes :: "('e \<Rightarrow> bytes) \<Rightarrow> (64, 'e) crm \<Rightarrow> (64 word \<times> bytes) list" where
  "child_nodes write n = map (\<lambda>x. (fst x, ContainedRangeMapSerializer_Write write (snd x))) (children n)"

lemma child_nodes_simps [simp]:
  "length (child_nodes write n) = length (children n)" "map fst (child_nodes write n) = map fst (children n)"
  "i < length (children n) \<Longrightarrow>
    child_nodes write n ! i = (fst (children n ! i), ContainedRangeMapSerializer_Write write (snd (children n ! i)))"
  by (auto simp: child_nodes_def)

lemma crm_inv_children: "crm_inv n \<Longrightarrow> omap_ok (children n)" "crm_inv n \<Longrightarrow> x \<in> set (children n) \<Longrightarrow> crm_inv (snd x)"
  by (subst (asm) crm_inv.simps, simp add: siblings_ok_omap)+

lemma ContainedRangeMap_RetrieveRange_children:
  "ContainedRangeMap_RetrieveRange n address =
     (let m = children n; iterator = lower_bound m address
      in if iterator = length m \<or> address < nbase (snd (m ! iterator)) then None
         else (case ContainedRangeMap_RetrieveRange (snd (m ! iterator)) address of
                 Some entry \<Rightarrow> Some entry
               | None \<Rightarrow> Some (nentry (snd (m ! iterator)))))"
proof (cases n rule: children.cases)
  case (1 b e)
  then show ?thesis by (subst ContainedRangeMap_RetrieveRange.simps) (simp add: lower_bound_def)
next
  case (2 b e m)
  then show ?thesis by (subst ContainedRangeMap_RetrieveRange.simps) (simp add: Let_def)
qed

text \<open>A pointer to an entry, null when nothing was written for it.\<close>

definition entry_at :: "bytes \<Rightarrow> ('e \<Rightarrow> bytes) \<Rightarrow> int option \<Rightarrow> 'e \<Rightarrow> bool" where
  "entry_at mem write q e \<longleftrightarrow> (if write e = [] then q = None else \<exists>p. q = Some p \<and> bytes_at mem p (write e))"

lemma value_size_nth: "i < length nodes \<Longrightarrow> length (snd (nodes ! i)) \<le> value_size nodes"
  unfolding value_size_def by (rule member_le_sum_list) auto

lemma crm_header_read:
  assumes at: "bytes_at mem p (word_bytes b @ word_bytes (of_nat (length e) :: 32 word) @ e @ write_map addr_key (child_nodes write n))"
    and e: "length e < 2 ^ 32" and sz: "length (write_map addr_key (child_nodes write n)) < 2 ^ 32"
  obtains c where "StaticContainedRangeMap_new mem p = Returns c" "sc_base c = b"
    "entry_ptr c = (if e = [] then None else Some (p + 12))" "bytes_at mem (p + 12) e"
    "values_at addr_key mem (sc_map c) (child_nodes write n)"
proof -
  have parts: "bytes_at mem p (word_bytes b)" "bytes_at mem (p + 8) (word_bytes (of_nat (length e) :: 32 word))"
    "bytes_at mem (p + 12) e" "bytes_at mem (p + 12 + int (length e)) (write_map addr_key (child_nodes write n))"
    using at by (auto simp: bytes_at_append algebra_simps)
  have size: "uint (of_nat (length e) :: 32 word) = int (length e)" using e by (simp add: uint_of_nat32)
  then have zero: "(of_nat (length e) :: 32 word) = 0 \<longleftrightarrow> e = []" by (metis length_0_conv of_nat_0_eq_iff uint_0_iff)
  obtain m where m: "StaticMap_new mem (p + 12 + int (length e)) = Returns m" "values_at addr_key mem m (child_nodes write n)"
    using addr_key.write_map_read [OF parts(4) sz] by auto
  show ?thesis
    by (rule that [of "\<lparr>sc_base = b, entry_size = of_nat (length e), entry_ptr = (if e = [] then None else Some (p + 12)), sc_map = m\<rparr>"])
      (use m parts(3) in \<open>simp_all add: StaticContainedRangeMap_new_def read_word64 [OF parts(1)] read_word32 [OF parts(2)] size zero\<close>)
qed

lemma crm_write_size:
  assumes "length (write_map addr_key (child_nodes write n)) < 2 ^ 32" "i < length (children n)"
  defines "c \<equiv> snd (children n ! i)"
  shows "length (write (nentry c)) < 2 ^ 32" "length (write_map addr_key (child_nodes write c)) < 2 ^ 32"
proof -
  have "length (ContainedRangeMapSerializer_Write write c) \<le> value_size (child_nodes write n)"
    using value_size_nth [of i "child_nodes write n"] assms(2) by (simp add: c_def)
  also have "\<dots> < 2 ^ 32" using assms(1) by (simp add: addr_key.write_map_length)
  finally have "length (ContainedRangeMapSerializer_Write write c) < 2 ^ 32" .
  then show "length (write (nentry c)) < 2 ^ 32" "length (write_map addr_key (child_nodes write c)) < 2 ^ 32"
    by (subst (asm) ContainedRangeMapSerializer_Write.simps, simp add: child_nodes_def)+
qed

lemma StaticContainedRangeMap_refines:
  assumes "crm_inv n" "length (write_map addr_key (child_nodes write n)) < 2 ^ 32"
    and "values_at addr_key mem (sc_map c) (child_nodes write n)"
  shows "\<exists>r. StaticContainedRangeMap_RetrieveRange mem c a = Returns r \<and>
    rel_option (entry_at mem write) r (ContainedRangeMap_RetrieveRange n a)"
  using assms
proof (induction n arbitrary: c rule: measure_induct_rule [where f = size])
  case (less n)
  have ok: "omap_ok (children n)" using less.prems(1) by (rule crm_inv_children)
  then have "omap_ok (child_nodes write n)" using omap_ok_fst [of "child_nodes write n" "children n"] by simp
  note s = values_at_search [OF less.prems(3) this]
  have lb: "lower_bound (child_nodes write n) a = lower_bound (children n) a" by (rule bounds_fst) simp
  let ?i = "lower_bound (children n) a"
  show ?case
  proof (cases "?i = length (children n)")
    case True
    then show ?thesis
      by (subst StaticContainedRangeMap_RetrieveRange.simps, subst ContainedRangeMap_RetrieveRange_children)
        (simp add: s lb Let_def)
  next
    case False
    then have i: "?i < length (children n)" by (simp add: le_neq_implies_less)
    let ?x = "snd (children n ! ?i)"
    obtain q where q: "GetValueRawPtr mem (node_iterator (sc_map c) ?i) = Returns (Some q)"
      "bytes_at mem q (ContainedRangeMapSerializer_Write write ?x)"
      using s(7) [of ?i] i by auto
    note sizes = crm_write_size [OF less.prems(2) i]
    have at: "bytes_at mem q (word_bytes (nbase ?x) @ word_bytes (of_nat (length (write (nentry ?x))) :: 32 word) @
        write (nentry ?x) @ write_map addr_key (child_nodes write ?x))"
      using q(2) by (subst (asm) ContainedRangeMapSerializer_Write.simps) (simp add: child_nodes_def)
    obtain c' where c': "StaticContainedRangeMap_new mem q = Returns c'" "sc_base c' = nbase ?x"
      "entry_ptr c' = (if write (nentry ?x) = [] then None else Some (q + 12))" "bytes_at mem (q + 12) (write (nentry ?x))"
      "values_at addr_key mem (sc_map c') (child_nodes write ?x)"
      by (rule crm_header_read [OF at sizes])
    have "crm_inv ?x" using crm_inv_children(2) [OF less.prems(1)] i by simp
    from less.IH [OF size_children_nth [OF i] this sizes(2) c'(5)]
    obtain r where r: "StaticContainedRangeMap_RetrieveRange mem c' a = Returns r"
      "rel_option (entry_at mem write) r (ContainedRangeMap_RetrieveRange ?x a)" by blast
    have entry: "entry_at mem write (entry_ptr c') (nentry ?x)" using c'(3,4) by (simp add: entry_at_def)
    show ?thesis
      using False r entry
      by (subst StaticContainedRangeMap_RetrieveRange.simps, subst ContainedRangeMap_RetrieveRange_children)
        (auto simp: s lb q c' deref_def Let_def split: option.split elim: option.rel_cases)
  qed
qed

section \<open>Sizes\<close>

lemma value_size_omap_nodes: "value_size (omap_nodes write m) = (\<Sum>(k, v)\<leftarrow>m. length (write v))"
  by (simp add: value_size_def omap_nodes_def comp_def case_prod_unfold)

lemma value_size_range_nodes: "value_size (range_nodes write m) = (\<Sum>(k, r)\<leftarrow>m. 8 + length (write (rentry r)))"
  by (simp add: value_size_def range_nodes_def range_bytes_def comp_def case_prod_unfold)

lemma value_size_child_nodes:
  "value_size (child_nodes write n) = (\<Sum>x\<leftarrow>children n. length (ContainedRangeMapSerializer_Write write (snd x)))"
  by (simp add: value_size_def child_nodes_def comp_def)

lemma RangeMapSerializer_Write_nodes: "RangeMapSerializer_Write write m = write_map addr_key (range_nodes write m)"
  by (simp add: RangeMapSerializer_Write_def range_nodes_def)

lemma StdMapSerializer_Write_nodes: "StdMapSerializer_Write kt write m = write_map kt (omap_nodes write m)"
  by (simp add: StdMapSerializer_Write_def omap_nodes_def)

lemma sum_list_const_add: "(\<Sum>x\<leftarrow>xs. c + f x) = c * length xs + (\<Sum>x\<leftarrow>xs. f x :: nat)"
  by (induction xs) simp_all

context static_key
begin

lemma StdMapSerializer_SizeOf_length:
  "StdMapSerializer_SizeOf kt (\<lambda>v. length (write v)) m = length (StdMapSerializer_Write kt write m)"
proof -
  have "length (key_bytes kt k) = nat (key_size kt)" for k using key_bytes_size [of k] by simp
  then show ?thesis
    using write_map_length [of "omap_nodes write m"]
    by (simp add: StdMapSerializer_SizeOf_def StdMapSerializer_Write_nodes header_size_def
        value_size_omap_nodes case_prod_unfold sum_list_const_add)
qed

end

lemma RangeMapSerializer_SizeOf_length:
  "RangeMapSerializer_SizeOf (\<lambda>e. length (write e)) m = length (RangeMapSerializer_Write write m)"
  using addr_key.write_map_length [of "range_nodes write m"]
  by (simp add: RangeMapSerializer_SizeOf_def RangeMapSerializer_Write_nodes header_size_def
      value_size_range_nodes case_prod_unfold sum_list_const_add addr_key_def)

lemma ContainedRangeMapSerializer_SizeOf_length:
  "ContainedRangeMapSerializer_SizeOf (\<lambda>e. length (write e)) n = length (ContainedRangeMapSerializer_Write write n)"
proof (induction n rule: measure_induct_rule [where f = size])
  case (less n)
  have "(\<Sum>x\<leftarrow>children n. 8 + ContainedRangeMapSerializer_SizeOf (\<lambda>e. length (write e)) (snd x)) =
      (\<Sum>x\<leftarrow>children n. 8 + length (ContainedRangeMapSerializer_Write write (snd x)))"
    using less by (intro arg_cong [where f = sum_list] map_cong refl) (simp add: size_children)
  then show ?case
    using addr_key.write_map_length [of "child_nodes write n"]
    by (subst ContainedRangeMapSerializer_SizeOf.simps, subst ContainedRangeMapSerializer_Write.simps)
      (simp add: child_nodes_def [symmetric] header_size_def value_size_child_nodes sum_list_const_add addr_key_def)
qed

lemma ContainedRangeMapSerializer_SizeOfRoot_length:
  "ContainedRangeMapSerializer_SizeOfRoot (\<lambda>e. length (write e)) n = length (ContainedRangeMapSerializer_WriteRoot write n)"
  using addr_key.write_map_length [of "child_nodes write n"]
  by (simp add: ContainedRangeMapSerializer_SizeOfRoot_def ContainedRangeMapSerializer_WriteRoot_def child_nodes_def [symmetric]
      ContainedRangeMapSerializer_SizeOf_length header_size_def value_size_child_nodes sum_list_const_add addr_key_def)

end
