(* ===== verification/Module_Serializer.thy ===== *)
theory Module_Serializer
  imports Map_Serializers Source_Line_Resolver
begin

unbundle bit_operations_syntax

text \<open>
  The binary form of a whole symbol file: the writers of its records (\<^verbatim>\<open>processor/simple_serializer-inl.h\<close>) and of the
  module (\<^verbatim>\<open>processor/module_serializer.cc\<close>). The sizes that are computed ahead of the writing are exact.
\<close>

section \<open>Writing the records\<close>

definition byte_of_char :: "char \<Rightarrow> 8 word" where
  "byte_of_char c = of_nat (of_char c)"

definition char_of_byte :: "8 word \<Rightarrow> char" where
  "char_of_byte b = char_of (unat b)"

text \<open>\<open>strcpy\<close> stops at the first NUL, but the writer goes on behind the whole string. The bytes that it leaves
  unwritten are zero here.\<close>

definition string_bytes :: "string \<Rightarrow> bytes" where
  "string_bytes s = map byte_of_char (c_str s) @ [0] @ replicate (length s - length (c_str s)) 0"

definition bool_bytes :: "bool \<Rightarrow> bytes" where
  "bool_bytes b = [if b then 255 else 0]"

definition int32_bytes :: "int \<Rightarrow> bytes" where
  "int32_bytes i = word_bytes (word_of_int i :: 32 word)"

definition line_bytes :: "Line \<Rightarrow> bytes" where
  "line_bytes l = word_bytes (laddress l) @ word_bytes (lsize l) @ int32_bytes (source_file_id l) @ int32_bytes (lline l)"

definition public_symbol_bytes :: "PublicSymbol \<Rightarrow> bytes" where
  "public_symbol_bytes p = string_bytes (pname p) @ word_bytes (paddress p) @ int32_bytes (pparameter_size p)"

definition windows_frame_info_bytes :: "WindowsFrameInfo \<Rightarrow> bytes" where
  "windows_frame_info_bytes w =
     int32_bytes (type_of_info w) @ word_bytes (valid w) @ word_bytes (prolog_size w) @ word_bytes (epilog_size w) @
     word_bytes (parameter_size w) @ word_bytes (saved_register_size w) @ word_bytes (local_size w) @
     word_bytes (max_stack_size w) @ bool_bytes (allocates_base_pointer w) @ string_bytes (program_string w)"

definition function_bytes :: "Function \<Rightarrow> bytes" where
  "function_bytes f =
     string_bytes (fname f) @ word_bytes (faddress f) @ word_bytes (fsize f) @ int32_bytes (fparameter_size f) @
     RangeMapSerializer_Write line_bytes (lines f)"

definition string_SizeOf :: "string \<Rightarrow> nat" where
  "string_SizeOf s = length s + 1"

definition line_SizeOf :: "Line \<Rightarrow> nat" where
  "line_SizeOf l = 8 + 8 + 4 + 4"

definition public_symbol_SizeOf :: "PublicSymbol \<Rightarrow> nat" where
  "public_symbol_SizeOf p = string_SizeOf (pname p) + 8 + 4"

text \<open>The sizes of the last two records are summed up in an \<open>unsigned int\<close>.\<close>

definition windows_frame_info_SizeOf :: "WindowsFrameInfo \<Rightarrow> nat" where
  "windows_frame_info_SizeOf w =
     unat (of_nat (4 + 4 + 4 + 4 + 4 + 4 + 4 + 4 + 1 + string_SizeOf (program_string w)) :: 32 word)"

definition function_SizeOf :: "Function \<Rightarrow> nat" where
  "function_SizeOf f =
     unat (of_nat (string_SizeOf (fname f) + 8 + 8 + 4 + RangeMapSerializer_SizeOf line_SizeOf (lines f)) :: 32 word)"

section \<open>Writing a module\<close>

text \<open>The range map of functions holds pointers into the function heap. \<open>map_sizes_\<close> keeps 32 bits of each size.\<close>

definition map_sizes :: "Module \<Rightarrow> 32 word list" where
  "map_sizes m = map of_nat (
     [StdMapSerializer_SizeOf int_key string_SizeOf (files m),
      RangeMapSerializer_SizeOf (\<lambda>p. function_SizeOf (func_heap m ! p)) (function_map m),
      StdMapSerializer_SizeOf addr_key public_symbol_SizeOf (public_symbols m)] @
     map (ContainedRangeMapSerializer_SizeOfRoot windows_frame_info_SizeOf) (windows_frame_info m) @
     [RangeMapSerializer_SizeOf string_SizeOf (cfi_initial_rules m),
      StdMapSerializer_SizeOf addr_key string_SizeOf (cfi_delta_rules m)])"

definition kNumberMaps :: nat where
  "kNumberMaps = 5 + nat STACK_INFO_LAST"

definition ModuleSerializer_SizeOf :: "Module \<Rightarrow> nat" where
  "ModuleSerializer_SizeOf m = 1 + kNumberMaps * 4 + sum_list (map unat (map_sizes m)) + 1"

definition map_bytes :: "Module \<Rightarrow> bytes list" where
  "map_bytes m =
     [StdMapSerializer_Write int_key string_bytes (files m),
      RangeMapSerializer_Write (\<lambda>p. function_bytes (func_heap m ! p)) (function_map m),
      StdMapSerializer_Write addr_key public_symbol_bytes (public_symbols m)] @
     map (ContainedRangeMapSerializer_WriteRoot windows_frame_info_bytes) (windows_frame_info m) @
     [RangeMapSerializer_Write string_bytes (cfi_initial_rules m),
      StdMapSerializer_Write addr_key string_bytes (cfi_delta_rules m)]"

definition ModuleSerializer_Write :: "Module \<Rightarrow> bytes" where
  "ModuleSerializer_Write m =
     bool_bytes (is_corrupt m) @ concat (map word_bytes (map_sizes m)) @
     concat (map_bytes m) @ [0]"

text \<open>The buffer is allocated with a 32-bit size; the writer runs over its end when the size does not fit.\<close>

definition ModuleSerializer_Serialize :: "Module \<Rightarrow> (bytes \<times> 32 word) exec" where
  "ModuleSerializer_Serialize m =
     (let size_to_alloc = of_nat (ModuleSerializer_SizeOf m) :: 32 word; data = ModuleSerializer_Write m
      in if length data > unat size_to_alloc then Undefined else Returns (data, size_to_alloc))"

definition ModuleSerializer_SerializeSymbolFileData :: "string \<Rightarrow> (bytes \<times> 32 word) option exec" where
  "ModuleSerializer_SerializeSymbolFileData symbol_data =
     exec_bind (Module_LoadMapFromMemory (symbol_data @ [CHR 0x00]) Module_empty) (\<lambda>(ok, m).
       if \<not> ok then Returns None
       else exec_bind (ModuleSerializer_Serialize m) (\<lambda>r. Returns (Some r)))"

section \<open>Sizes\<close>

lemma length_string_bytes [simp]: "length (string_bytes s) = string_SizeOf s"
proof -
  have "length (c_str s) \<le> length s" by (simp add: c_str_def)
  then show ?thesis by (simp add: string_bytes_def string_SizeOf_def)
qed

lemma length_int32_bytes [simp]: "length (int32_bytes i) = 4"
  by (simp add: int32_bytes_def)

lemma length_bool_bytes [simp]: "length (bool_bytes b) = 1"
  by (simp add: bool_bytes_def)

lemma length_line_bytes [simp]: "length (line_bytes l) = line_SizeOf l"
  by (simp add: line_bytes_def line_SizeOf_def)

lemma length_public_symbol_bytes [simp]: "length (public_symbol_bytes p) = public_symbol_SizeOf p"
  by (simp add: public_symbol_bytes_def public_symbol_SizeOf_def)

lemma length_windows_frame_info_bytes: "length (windows_frame_info_bytes w) = 33 + string_SizeOf (program_string w)"
  by (simp add: windows_frame_info_bytes_def bool_bytes_def)

lemma length_function_bytes:
  "length (function_bytes f) = string_SizeOf (fname f) + 20 + RangeMapSerializer_SizeOf line_SizeOf (lines f)"
proof -
  have "(\<lambda>l. length (line_bytes l)) = line_SizeOf" by (rule ext) simp
  then show ?thesis
    using RangeMapSerializer_SizeOf_length [of line_bytes "lines f"] by (simp add: function_bytes_def)
qed

text \<open>Cutting the size of a part to 32 bits does not change the lowest 32 bits of the sum.\<close>

lemma record_sizes_mod:
  "(of_nat (windows_frame_info_SizeOf w) :: 32 word) = of_nat (length (windows_frame_info_bytes w))"
  "(of_nat (function_SizeOf f) :: 32 word) = of_nat (length (function_bytes f))"
  by (simp_all add: windows_frame_info_SizeOf_def function_SizeOf_def length_windows_frame_info_bytes length_function_bytes)

lemma sum_list_of_nat_cong:
  "(\<And>x. x \<in> set xs \<Longrightarrow> (of_nat (f x) :: 32 word) = of_nat (g x)) \<Longrightarrow>
    (of_nat (sum_list (map f xs)) :: 32 word) = of_nat (sum_list (map g xs))"
  by (induction xs) simp_all

lemma RangeMapSerializer_SizeOf_mod:
  assumes "\<And>e. (of_nat (f e) :: 32 word) = of_nat (g e)"
  shows "(of_nat (RangeMapSerializer_SizeOf f m) :: 32 word) = of_nat (RangeMapSerializer_SizeOf g m)"
  using sum_list_of_nat_cong [of m "\<lambda>(k, r). 8 + 8 + f (rentry r)" "\<lambda>(k, r). 8 + 8 + g (rentry r)"] assms
  by (simp add: RangeMapSerializer_SizeOf_def case_prod_unfold)

lemma ContainedRangeMapSerializer_SizeOf_mod:
  assumes "\<And>e. (of_nat (f e) :: 32 word) = of_nat (g e)"
  shows "(of_nat (ContainedRangeMapSerializer_SizeOf f n) :: 32 word) = of_nat (ContainedRangeMapSerializer_SizeOf g n)"
proof (induction n rule: measure_induct_rule [where f = size])
  case (less n)
  have "(of_nat (sum_list (map (\<lambda>x. 8 + ContainedRangeMapSerializer_SizeOf f (snd x)) (children n))) :: 32 word) =
      of_nat (sum_list (map (\<lambda>x. 8 + ContainedRangeMapSerializer_SizeOf g (snd x)) (children n)))"
    by (rule sum_list_of_nat_cong) (simp add: less size_children)
  then show ?case
    using assms by (subst (1 2) ContainedRangeMapSerializer_SizeOf.simps) simp
qed

lemma ContainedRangeMapSerializer_SizeOfRoot_mod:
  assumes "\<And>e. (of_nat (f e) :: 32 word) = of_nat (g e)"
  shows "(of_nat (ContainedRangeMapSerializer_SizeOfRoot f n) :: 32 word) = of_nat (ContainedRangeMapSerializer_SizeOfRoot g n)"
proof -
  have "(of_nat (sum_list (map (\<lambda>x. 8 + ContainedRangeMapSerializer_SizeOf f (snd x)) (children n))) :: 32 word) =
      of_nat (sum_list (map (\<lambda>x. 8 + ContainedRangeMapSerializer_SizeOf g (snd x)) (children n)))"
    by (rule sum_list_of_nat_cong) (simp add: ContainedRangeMapSerializer_SizeOf_mod [OF assms])
  then show ?thesis by (simp add: ContainedRangeMapSerializer_SizeOfRoot_def)
qed

lemma map_sizes_lengths: "map_sizes m = map (\<lambda>bs. of_nat (length bs)) (map_bytes m)"
  using int_key.StdMapSerializer_SizeOf_length [of string_bytes "files m"]
    RangeMapSerializer_SizeOf_mod [of "\<lambda>p. function_SizeOf (func_heap m ! p)" "\<lambda>p. length (function_bytes (func_heap m ! p))"
      "function_map m"]
    RangeMapSerializer_SizeOf_length [of "\<lambda>p. function_bytes (func_heap m ! p)" "function_map m"]
    addr_key.StdMapSerializer_SizeOf_length [of public_symbol_bytes "public_symbols m"]
    ContainedRangeMapSerializer_SizeOfRoot_mod [of windows_frame_info_SizeOf "\<lambda>w. length (windows_frame_info_bytes w)"]
    ContainedRangeMapSerializer_SizeOfRoot_length [of windows_frame_info_bytes]
    RangeMapSerializer_SizeOf_length [of string_bytes "cfi_initial_rules m"]
    addr_key.StdMapSerializer_SizeOf_length [of string_bytes "cfi_delta_rules m"]
  by (simp add: map_sizes_def map_bytes_def record_sizes_mod)

lemma length_concat_words: "length (concat (map (\<lambda>w. word_bytes (w :: 32 word)) ws)) = 4 * length ws"
  by (induction ws) simp_all

lemma sum_list_unat_of_nat: "of_nat (sum_list (map (\<lambda>n. unat (of_nat n :: 32 word)) ns)) = (of_nat (sum_list ns) :: 32 word)"
  by (induction ns) simp_all

lemma mod_less_self: "0 < k \<Longrightarrow> n mod k < n \<longleftrightarrow> k \<le> n" for k n :: nat
  by (metis linorder_not_less mod_less mod_less_divisor nat_less_le order.strict_trans2)

lemma length_ModuleSerializer_Write:
  "length (ModuleSerializer_Write m) = 2 + 4 * length (map_sizes m) + sum_list (map length (map_bytes m))"
  unfolding ModuleSerializer_Write_def length_append length_concat_words by (simp add: length_concat)

lemma ModuleSerializer_SizeOf_length:
  assumes "module_inv m"
  shows "(of_nat (ModuleSerializer_SizeOf m) :: 32 word) = of_nat (length (ModuleSerializer_Write m))"
proof -
  have "length (map_sizes m) = kNumberMaps" using assms by (simp add: map_sizes_def module_inv_def kNumberMaps_def)
  moreover have "of_nat (sum_list (map unat (map_sizes m))) = (of_nat (sum_list (map length (map_bytes m))) :: 32 word)"
    using sum_list_unat_of_nat [of "map length (map_bytes m)"] by (simp add: map_sizes_lengths comp_def)
  ultimately show ?thesis by (simp add: ModuleSerializer_SizeOf_def length_ModuleSerializer_Write)
qed

text \<open>The serializer asks for a buffer of exactly the size that it then writes, and returns it, when the binary form
  has fewer than four gigabytes; a longer one is written over the end of a buffer that is too small, because the
  size was cut to 32 bits.\<close>

theorem ModuleSerializer_Serialize_exact:
  assumes "module_inv m"
  shows "ModuleSerializer_Serialize m =
    (if length (ModuleSerializer_Write m) < 2 ^ 32
     then Returns (ModuleSerializer_Write m, of_nat (length (ModuleSerializer_Write m))) else Undefined)"
proof -
  let ?n = "length (ModuleSerializer_Write m)"
  have "unat (of_nat ?n :: 32 word) = ?n mod 2 ^ 32" by (simp add: unsigned_of_nat take_bit_eq_mod)
  moreover have "?n mod 2 ^ 32 < ?n \<longleftrightarrow> \<not> ?n < 2 ^ 32" using mod_less_self [of "2 ^ 32" ?n] by (simp add: not_less)
  ultimately show ?thesis by (simp add: ModuleSerializer_Serialize_def Let_def ModuleSerializer_SizeOf_length [OF assms])
qed

theorem ModuleSerializer_Serialize_exact_witness:
  "ModuleSerializer_Serialize Module_empty = Returns (ModuleSerializer_Write Module_empty, 142)"
proof -
  have "length (ModuleSerializer_Write Module_empty) = 142"
    by (simp add: length_ModuleSerializer_Write map_sizes_lengths map_bytes_def Module_empty_def STACK_INFO_LAST_def
        StdMapSerializer_Write_def RangeMapSerializer_Write_def ContainedRangeMapSerializer_WriteRoot_def
        ContainedRangeMap_root_def write_map_def sum_list_replicate)
  then show ?thesis using ModuleSerializer_Serialize_exact [OF module_inv_empty] by simp
qed

end
