(* ===== verification/Fast_Resolver.thy ===== *)
theory Fast_Resolver
  imports Module_Serializer
begin

unbundle bit_operations_syntax

text \<open>
  The resolver that answers from the binary form of a symbol file in place
  (\<^verbatim>\<open>processor/fast_source_line_resolver.cc\<close>, \<^verbatim>\<open>fast_source_line_resolver_types.h\<close>): every read is a read of
  the buffer, and a read outside it is \<open>Undefined\<close>. On a buffer that holds what the module serializer writes, its
  three queries return what the basic resolver returns on the module itself.
\<close>

section \<open>The fast resolver\<close>

text \<open>A C string in the buffer.\<close>

definition read_cstring :: "bytes \<Rightarrow> int \<Rightarrow> string exec" where
  "read_cstring mem p =
     (if 0 \<le> p \<and> 0 \<in> set (drop (nat p) mem)
      then Returns (map char_of_byte (takeWhile (\<lambda>b. b \<noteq> 0) (drop (nat p) mem))) else Undefined)"

definition read_int32 :: "bytes \<Rightarrow> int \<Rightarrow> int exec" where
  "read_int32 mem p = exec_bind (read_word mem p) (\<lambda>w :: 32 word. Returns (sint w))"

record FastFunction =
  ffname :: string
  ffaddress :: "64 word"
  ffsize :: "64 word"
  ffparameter_size :: int
  fflines :: StaticMap

definition Line_CopyFrom :: "bytes \<Rightarrow> int \<Rightarrow> Line exec" where
  "Line_CopyFrom mem raw =
     exec_bind (read_word mem raw) (\<lambda>a.
     exec_bind (read_word mem (raw + 8)) (\<lambda>s.
     exec_bind (read_int32 mem (raw + 16)) (\<lambda>f.
     exec_bind (read_int32 mem (raw + 20)) (\<lambda>l.
       Returns \<lparr>laddress = a, lsize = s, source_file_id = f, lline = l\<rparr>))))"

definition Function_CopyFrom :: "bytes \<Rightarrow> int \<Rightarrow> FastFunction exec" where
  "Function_CopyFrom mem raw =
     exec_bind (read_cstring mem raw) (\<lambda>name.
     let p = raw + int (length name) + 1 in
     exec_bind (read_word mem p) (\<lambda>a.
     exec_bind (read_word mem (p + 8)) (\<lambda>s.
     exec_bind (read_int32 mem (p + 16)) (\<lambda>ps.
     exec_bind (StaticMap_new mem (p + 20)) (\<lambda>ls.
       Returns \<lparr>ffname = name, ffaddress = a, ffsize = s, ffparameter_size = ps, fflines = ls\<rparr>)))))"

definition PublicSymbol_CopyFrom :: "bytes \<Rightarrow> int \<Rightarrow> PublicSymbol exec" where
  "PublicSymbol_CopyFrom mem raw =
     exec_bind (read_cstring mem raw) (\<lambda>name.
     let p = raw + int (length name) + 1 in
     exec_bind (read_word mem p) (\<lambda>a.
     exec_bind (read_int32 mem (p + 8)) (\<lambda>ps.
       Returns \<lparr>pname = name, paddress = a, pparameter_size = ps\<rparr>)))"

text \<open>The stored \<open>valid\<close> is skipped: the constructor sets it.\<close>

definition CopyWFI :: "bytes \<Rightarrow> int \<Rightarrow> WindowsFrameInfo exec" where
  "CopyWFI mem raw =
     exec_bind (read_int32 mem raw) (\<lambda>typ.
     exec_bind (read_word mem (raw + 8)) (\<lambda>prolog.
     exec_bind (read_word mem (raw + 12)) (\<lambda>epilog.
     exec_bind (read_word mem (raw + 16)) (\<lambda>params.
     exec_bind (read_word mem (raw + 20)) (\<lambda>saved.
     exec_bind (read_word mem (raw + 24)) (\<lambda>locals.
     exec_bind (read_word mem (raw + 28)) (\<lambda>max_stack.
     exec_bind (read_word mem (raw + 32)) (\<lambda>boolean :: 8 word.
     exec_bind (read_cstring mem (raw + 33)) (\<lambda>prog.
       Returns \<lparr>type_of_info = typ, valid = VALID_ALL, prolog_size = prolog, epilog_size = epilog,
         parameter_size = params, saved_register_size = saved, local_size = locals, max_stack_size = max_stack,
         allocates_base_pointer = (boolean \<noteq> 0), program_string = prog\<rparr>)))))))))"

record FastModule =
  buffer :: bytes
  fm_files :: StaticMap
  fm_functions :: StaticMap
  fm_public_symbols :: StaticMap
  fm_is_corrupt :: bool
  fm_windows_frame_info :: "StaticContainedRangeMap list"
  fm_cfi_initial_rules :: StaticMap
  fm_cfi_delta_rules :: StaticMap

fun read_words :: "bytes \<Rightarrow> int \<Rightarrow> nat \<Rightarrow> 32 word list exec" where
  "read_words mem p 0 = Returns []"
| "read_words mem p (Suc n) =
     exec_bind (read_word mem p) (\<lambda>w. exec_bind (read_words mem (p + 4) n) (\<lambda>ws. Returns (w # ws)))"

text \<open>The offsets of the maps, summed up in 32 bits.\<close>

fun map_offsets :: "32 word \<Rightarrow> 32 word list \<Rightarrow> 32 word list" where
  "map_offsets off [] = [off]"
| "map_offsets off (s # ss) = off # map_offsets (off + s) ss"

fun new_contained_maps :: "bytes \<Rightarrow> 32 word list \<Rightarrow> StaticContainedRangeMap list exec" where
  "new_contained_maps mem [] = Returns []"
| "new_contained_maps mem (off # offs) =
     exec_bind (StaticContainedRangeMap_new mem (1 + uint off)) (\<lambda>c.
     exec_bind (new_contained_maps mem offs) (\<lambda>cs. Returns (c # cs)))"

definition FastModule_load_maps :: "bytes \<Rightarrow> FastModule exec" where
  "FastModule_load_maps mem =
     exec_bind (read_word mem 0) (\<lambda>corrupt :: 8 word.
     exec_bind (read_words mem 1 (kNumberMaps - 1)) (\<lambda>sizes.
     let offs = map_offsets (of_nat (kNumberMaps * 4)) sizes in
     exec_bind (StaticMap_new mem (1 + uint (offs ! 0))) (\<lambda>fi.
     exec_bind (StaticMap_new mem (1 + uint (offs ! 1))) (\<lambda>fu.
     exec_bind (StaticMap_new mem (1 + uint (offs ! 2))) (\<lambda>pu.
     exec_bind (new_contained_maps mem (take (nat STACK_INFO_LAST) (drop 3 offs))) (\<lambda>wfi.
     exec_bind (StaticMap_new mem (1 + uint (offs ! (3 + nat STACK_INFO_LAST)))) (\<lambda>ci.
     exec_bind (StaticMap_new mem (1 + uint (offs ! (4 + nat STACK_INFO_LAST)))) (\<lambda>cd.
       Returns \<lparr>buffer = mem, fm_files = fi, fm_functions = fu, fm_public_symbols = pu, fm_is_corrupt = (corrupt \<noteq> 0),
         fm_windows_frame_info = wfi, fm_cfi_initial_rules = ci, fm_cfi_delta_rules = cd\<rparr>))))))))"

text \<open>A null buffer is refused; the result \<open>None\<close> is the return value false.\<close>

definition FastModule_LoadMapFromMemory :: "bytes option \<Rightarrow> FastModule option exec" where
  "FastModule_LoadMapFromMemory memory_buffer =
     (case memory_buffer of
        None \<Rightarrow> Returns None
      | Some mem \<Rightarrow> exec_bind (FastModule_load_maps mem) (\<lambda>m. Returns (Some m)))"

text \<open>The name of a source file, and the part of \<open>LookupAddress\<close> about the line.\<close>

definition fast_file_name :: "FastModule \<Rightarrow> int \<Rightarrow> string option exec" where
  "fast_file_name m i =
     exec_bind (StaticMap_find int_key (buffer m) (fm_files m) i) (\<lambda>it.
     exec_bind (StaticMap_end (buffer m) (fm_files m)) (\<lambda>end'.
     if iterator_eq it end' then Returns None
     else exec_bind (GetValueRawPtr (buffer m) it) (\<lambda>p.
          exec_bind (deref p) (\<lambda>q.
          exec_bind (read_cstring (buffer m) q) (\<lambda>s. Returns (Some s))))))"

definition fast_fill_line :: "FastModule \<Rightarrow> FastFunction \<Rightarrow> 64 word \<Rightarrow> StackFrame \<Rightarrow> StackFrame exec" where
  "fast_fill_line m func address frame =
     exec_bind (StaticRangeMap_RetrieveRange (buffer m) (fflines func) address) (\<lambda>r.
     case r of
       None \<Rightarrow> Returns frame
     | Some (line_ptr, line_base, _) \<Rightarrow>
         exec_bind (Line_CopyFrom (buffer m) line_ptr) (\<lambda>line.
         exec_bind (fast_file_name m (source_file_id line)) (\<lambda>name.
           let frame2 = (case name of None \<Rightarrow> frame | Some s \<Rightarrow> frame\<lparr>source_file_name := s\<rparr>)
           in Returns (frame2\<lparr>source_line := lline line, source_line_base := module_base frame + line_base\<rparr>))))"

definition fast_fill_public :: "FastModule \<Rightarrow> 64 word option \<Rightarrow> 64 word \<Rightarrow> StackFrame \<Rightarrow> StackFrame exec" where
  "fast_fill_public m fbase address frame =
     exec_bind (StaticAddressMap_Retrieve (buffer m) (fm_public_symbols m) address) (\<lambda>r.
     case r of
       None \<Rightarrow> Returns frame
     | Some (symbol_ptr, public_address) \<Rightarrow>
         if (case fbase of None \<Rightarrow> True | Some b \<Rightarrow> public_address > b) then
           exec_bind (deref symbol_ptr) (\<lambda>q.
           exec_bind (PublicSymbol_CopyFrom (buffer m) q) (\<lambda>symbol.
             Returns (frame\<lparr>function_name := pname symbol, function_base := module_base frame + public_address\<rparr>)))
         else Returns frame)"

definition FastModule_LookupAddress :: "FastModule \<Rightarrow> StackFrame \<Rightarrow> StackFrame exec" where
  "FastModule_LookupAddress m frame =
     (let address = instruction frame - module_base frame in
      exec_bind (StaticRangeMap_RetrieveNearestRange (buffer m) (fm_functions m) address) (\<lambda>r.
      case r of
        Some (func_ptr, fbase, fsz) \<Rightarrow>
          if address \<ge> fbase \<and> address - fbase < fsz then
            exec_bind (Function_CopyFrom (buffer m) func_ptr) (\<lambda>func.
              fast_fill_line m func address
                (frame\<lparr>function_name := ffname func, function_base := module_base frame + fbase\<rparr>))
          else fast_fill_public m (Some fbase) address frame
      | None \<Rightarrow> fast_fill_public m None address frame))"

text \<open>The parameter size of a PUBLIC symbol is read and then thrown away.\<close>

definition fast_public_parameters :: "FastModule \<Rightarrow> 64 word option \<Rightarrow> 64 word \<Rightarrow> WindowsFrameInfo option exec" where
  "fast_public_parameters m fbase address =
     exec_bind (StaticAddressMap_Retrieve (buffer m) (fm_public_symbols m) address) (\<lambda>r.
     case r of
       None \<Rightarrow> Returns None
     | Some (symbol_ptr, public_address) \<Rightarrow>
         if (case fbase of None \<Rightarrow> True | Some b \<Rightarrow> public_address > b) then
           exec_bind (deref symbol_ptr) (\<lambda>q. exec_bind (PublicSymbol_CopyFrom (buffer m) q) (\<lambda>symbol. Returns None))
         else Returns None)"

definition FastModule_FindWindowsFrameInfo :: "FastModule \<Rightarrow> StackFrame \<Rightarrow> WindowsFrameInfo option exec" where
  "FastModule_FindWindowsFrameInfo m frame =
     (let address = instruction frame - module_base frame;
          retrieve = (\<lambda>i. StaticContainedRangeMap_RetrieveRange (buffer m) (fm_windows_frame_info m ! nat i) address)
      in exec_bind (retrieve STACK_INFO_FRAME_DATA) (\<lambda>r1.
         exec_bind (case r1 of Some _ \<Rightarrow> Returns r1 | None \<Rightarrow> retrieve STACK_INFO_FPO) (\<lambda>r.
         case r of
           Some frame_info_ptr \<Rightarrow>
             exec_bind (deref frame_info_ptr) (\<lambda>q.
             exec_bind (CopyWFI (buffer m) q) (\<lambda>w.
               Returns (Some (WindowsFrameInfo_CopyFrom WindowsFrameInfo_default w))))
         | None \<Rightarrow>
             exec_bind (StaticRangeMap_RetrieveNearestRange (buffer m) (fm_functions m) address) (\<lambda>f.
             case f of
               Some (func_ptr, fbase, fsz) \<Rightarrow>
                 if address \<ge> fbase \<and> address - fbase < fsz then
                   exec_bind (Function_CopyFrom (buffer m) func_ptr) (\<lambda>func.
                     Returns (Some (WindowsFrameInfo_default\<lparr>
                       parameter_size := word_of_int (ffparameter_size func),
                       valid := valid WindowsFrameInfo_default OR VALID_PARAMETER_SIZE\<rparr>)))
                 else fast_public_parameters m (Some fbase) address
             | None \<Rightarrow> fast_public_parameters m None address))))"

text \<open>The loop over the delta rules; a loop that does not end has the value \<open>None\<close>.\<close>

partial_function (option) fast_delta_rules ::
  "FastModule \<Rightarrow> 64 word \<Rightarrow> StaticMapIterator \<Rightarrow> CFIFrameInfo \<Rightarrow> CFIFrameInfo exec option" where
  "fast_delta_rules m address delta rules =
     (case exec_bind (StaticMap_end (buffer m) (fm_cfi_delta_rules m)) (\<lambda>end'.
             if iterator_eq delta end' then Returns None
             else
               exec_bind (GetKey addr_key (buffer m) delta) (\<lambda>key.
               if key \<le> address then
                 exec_bind (GetValueRawPtr (buffer m) delta) (\<lambda>p.
                 exec_bind (deref p) (\<lambda>q.
                 exec_bind (read_cstring (buffer m) q) (\<lambda>rule_set. Returns (Some rule_set))))
               else Returns None)) of
        Undefined \<Rightarrow> Some Undefined
      | Returns None \<Rightarrow> Some (Returns rules)
      | Returns (Some rule_set) \<Rightarrow>
          fast_delta_rules m address (iterator_increment delta) (snd (ParseCFIRuleSet rule_set rules)))"

definition FastModule_FindCFIFrameInfo :: "FastModule \<Rightarrow> StackFrame \<Rightarrow> CFIFrameInfo option exec" where
  "FastModule_FindCFIFrameInfo m frame =
     (let address = instruction frame - module_base frame in
      exec_bind (StaticRangeMap_RetrieveRange (buffer m) (fm_cfi_initial_rules m) address) (\<lambda>r.
      case r of
        None \<Rightarrow> Returns None
      | Some (rules_ptr, initial_base, _) \<Rightarrow>
          exec_bind (read_cstring (buffer m) rules_ptr) (\<lambda>initial_rules.
          let (ok, rules) = ParseCFIRuleSet initial_rules CFIFrameInfo_empty in
          if \<not> ok then Returns None
          else
            exec_bind (StaticMap_lower_bound addr_key (buffer m) (fm_cfi_delta_rules m) initial_base) (\<lambda>delta.
            case fast_delta_rules m address delta rules of
              None \<Rightarrow> Undefined
            | Some e \<Rightarrow> exec_bind e (\<lambda>rules. Returns (Some rules))))))"

section \<open>Reading the records back\<close>

definition nul_free :: "string \<Rightarrow> bool" where
  "nul_free s \<longleftrightarrow> c_str s = s"

lemma of_char_lt: "of_char c < (256 :: nat)"
  using range_nat_of_char rangeI [of "of_char :: char \<Rightarrow> nat" c] by simp

lemma byte_of_char_zero: "byte_of_char c = 0 \<longleftrightarrow> of_char c = (0 :: nat)"
proof -
  have "of_char c < (256 :: nat)" by (rule of_char_lt)
  then have "256 dvd (of_char c :: nat) \<longleftrightarrow> of_char c = (0 :: nat)" by (metis dvd_0_right dvd_imp_le not_gr_zero not_le)
  then show ?thesis by (simp add: byte_of_char_def word_of_nat_eq_0_iff)
qed

lemma char_of_byte_of_char: "char_of_byte (byte_of_char c) = c"
proof -
  have "of_char c < (256 :: nat)" by (rule of_char_lt)
  then have "unat (byte_of_char c) = of_char c" by (simp add: byte_of_char_def unsigned_of_nat take_bit_nat_eq_self)
  then show ?thesis by (simp add: char_of_byte_def)
qed

lemma read_cstring_at:
  assumes "bytes_at mem p (string_bytes s)"
  shows "read_cstring mem p = Returns (c_str s)"
proof -
  let ?bs = "map byte_of_char (c_str s)"
  have at: "bytes_at mem p (?bs @ [0])"
    using assms by (simp add: string_bytes_def bytes_at_append bytes_at_Cons [of _ _ 0 "replicate _ _"])
  then have "drop (nat p) mem = (?bs @ [0]) @ drop (length (?bs @ [0])) (drop (nat p) mem)"
    unfolding bytes_at_def by (metis append_take_drop_id)
  then obtain rest where mem: "drop (nat p) mem = ?bs @ 0 # rest" by (metis append.assoc append_Cons append_Nil)
  have nz: "b \<noteq> 0" if "b \<in> set ?bs" for b
    using that by (auto simp: byte_of_char_zero c_str_def dest: set_takeWhileD)
  have "takeWhile (\<lambda>b. b \<noteq> 0) (drop (nat p) mem) = ?bs"
    unfolding mem using nz by (subst takeWhile_append2) auto
  moreover have "0 \<le> p" using at by (simp add: bytes_at_def)
  ultimately show ?thesis by (simp add: read_cstring_def mem comp_def char_of_byte_of_char)
qed

lemma int32_bytes_read: "bytes_at mem p (int32_bytes i) \<Longrightarrow> int32_range i \<Longrightarrow> read_int32 mem p = Returns i"
  by (simp add: int32_bytes_def read_int32_def read_word32 sint_word_of_int32)

lemma nul_free_read: "bytes_at mem p (string_bytes s) \<Longrightarrow> nul_free s \<Longrightarrow> read_cstring mem p = Returns s"
  using read_cstring_at [of mem p s] by (simp add: nul_free_def)

definition line_fits :: "Line \<Rightarrow> bool" where
  "line_fits l \<longleftrightarrow> int32_range (source_file_id l) \<and> int32_range (lline l)"

lemma Line_CopyFrom_read:
  "bytes_at mem p (line_bytes l) \<Longrightarrow> line_fits l \<Longrightarrow> Line_CopyFrom mem p = Returns l"
  by (auto simp: line_bytes_def bytes_at_append Line_CopyFrom_def read_word64 int32_bytes_read line_fits_def algebra_simps)

definition public_symbol_fits :: "PublicSymbol \<Rightarrow> bool" where
  "public_symbol_fits p \<longleftrightarrow> nul_free (pname p) \<and> int32_range (pparameter_size p)"

lemma PublicSymbol_CopyFrom_read:
  "bytes_at mem q (public_symbol_bytes p) \<Longrightarrow> public_symbol_fits p \<Longrightarrow> PublicSymbol_CopyFrom mem q = Returns p"
  by (auto simp: public_symbol_bytes_def bytes_at_append PublicSymbol_CopyFrom_def read_word64 int32_bytes_read nul_free_read
      public_symbol_fits_def string_SizeOf_def algebra_simps)

definition windows_frame_info_fits :: "WindowsFrameInfo \<Rightarrow> bool" where
  "windows_frame_info_fits w \<longleftrightarrow> nul_free (program_string w) \<and> int32_range (type_of_info w) \<and> valid w = VALID_ALL"

lemma read_byte: "bytes_at mem p [b] \<Longrightarrow> read_word mem p = Returns b"
  using read_word_at [of mem p b] by (simp add: word_bytes_def)

lemma CopyWFI_read:
  assumes at: "bytes_at mem p (windows_frame_info_bytes w)" and fits: "windows_frame_info_fits w"
  shows "CopyWFI mem p = Returns w"
proof -
  have parts: "bytes_at mem p (int32_bytes (type_of_info w))" "bytes_at mem (p + 8) (word_bytes (prolog_size w))"
    "bytes_at mem (p + 12) (word_bytes (epilog_size w))" "bytes_at mem (p + 16) (word_bytes (parameter_size w))"
    "bytes_at mem (p + 20) (word_bytes (saved_register_size w))" "bytes_at mem (p + 24) (word_bytes (local_size w))"
    "bytes_at mem (p + 28) (word_bytes (max_stack_size w))" "bytes_at mem (p + 32) (bool_bytes (allocates_base_pointer w))"
    "bytes_at mem (p + 33) (string_bytes (program_string w))"
    using at by (auto simp: windows_frame_info_bytes_def bytes_at_append algebra_simps)
  have "read_word mem (p + 32) = Returns (if allocates_base_pointer w then 255 else 0 :: 8 word)"
    using parts(8) unfolding bool_bytes_def by (rule read_byte)
  then show ?thesis
    using fits parts
    by (simp add: CopyWFI_def int32_bytes_read read_word32 nul_free_read windows_frame_info_fits_def)
qed

definition function_fits :: "Function \<Rightarrow> bool" where
  "function_fits f \<longleftrightarrow> nul_free (fname f) \<and> int32_range (fparameter_size f) \<and> (\<forall>x\<in>set (lines f). line_fits (rentry (snd x)))"

lemma Function_CopyFrom_read:
  assumes at: "bytes_at mem p (function_bytes f)" and fits: "function_fits f" and sz: "length (function_bytes f) < 2 ^ 32"
  obtains ff where "Function_CopyFrom mem p = Returns ff" "ffname ff = fname f" "ffparameter_size ff = fparameter_size f"
    "values_at addr_key mem (fflines ff) (range_nodes line_bytes (lines f))"
proof -
  define q where "q = p + int (length (fname f)) + 1"
  have parts: "bytes_at mem p (string_bytes (fname f))" "bytes_at mem q (word_bytes (faddress f))"
    "bytes_at mem (q + 8) (word_bytes (fsize f))" "bytes_at mem (q + 16) (int32_bytes (fparameter_size f))"
    "bytes_at mem (q + 20) (write_map addr_key (range_nodes line_bytes (lines f)))"
    using at by (auto simp: function_bytes_def bytes_at_append string_SizeOf_def RangeMapSerializer_Write_nodes q_def algebra_simps)
  have "length (write_map addr_key (range_nodes line_bytes (lines f))) < 2 ^ 32"
    using sz by (simp add: function_bytes_def RangeMapSerializer_Write_nodes)
  from addr_key.write_map_read [OF parts(5) this] obtain ls where ls: "StaticMap_new mem (q + 20) = Returns ls"
    "values_at addr_key mem ls (range_nodes line_bytes (lines f))" by auto
  have "nul_free (fname f)" "int32_range (fparameter_size f)" using fits by (simp_all add: function_fits_def)
  note reads = nul_free_read [OF parts(1) this(1)] read_word64 [OF parts(2)] read_word64 [OF parts(3)]
    int32_bytes_read [OF parts(4) this(2)] ls(1)
  have "Function_CopyFrom mem p = Returns \<lparr>ffname = fname f, ffaddress = faddress f, ffsize = fsize f,
      ffparameter_size = fparameter_size f, fflines = ls\<rparr>"
    unfolding Function_CopyFrom_def reads exec_bind.simps Let_def q_def [symmetric] ..
  from that [OF this] ls(2) show ?thesis by simp
qed

section \<open>Loading what was written\<close>

lemma map_offsets_nth: "i \<le> length ss \<Longrightarrow> map_offsets off ss ! i = off + sum_list (take i ss)"
  by (induction ss arbitrary: off i) (auto simp: nth_Cons' take_Cons' algebra_simps)

lemma length_map_offsets [simp]: "length (map_offsets off ss) = Suc (length ss)"
  by (induction off ss rule: map_offsets.induct) simp_all

lemma bytes_at_concat:
  "bytes_at mem p (concat bss) \<Longrightarrow> i < length bss \<Longrightarrow> bytes_at mem (p + int (sum_list (map length (take i bss)))) (bss ! i)"
proof (induction bss arbitrary: p i)
  case (Cons bs bss)
  have at: "bytes_at mem p bs" "bytes_at mem (p + int (length bs)) (concat bss)" using Cons.prems(1) by (simp_all add: bytes_at_append)
  show ?case
  proof (cases i)
    case (Suc j)
    then show ?thesis using Cons.IH [OF at(2), of j] Cons.prems(2) by (simp add: algebra_simps)
  qed (use at in simp)
qed simp

lemma read_words_at:
  "bytes_at mem p (concat (map word_bytes ws)) \<Longrightarrow> n \<le> length ws \<Longrightarrow> read_words mem p n = Returns (take n ws)"
proof (induction ws arbitrary: p n)
  case (Cons w ws)
  have at: "bytes_at mem p (word_bytes w)" "bytes_at mem (p + 4) (concat (map word_bytes ws))"
    using Cons.prems(1) by (simp_all add: bytes_at_append)
  show ?case
    using Cons.IH [OF at(2)] Cons.prems(2) by (cases n) (simp_all add: read_word32 [OF at(1)])
qed simp

lemma sum_list_take_less:
  assumes "sum_list xs < (2 :: nat) ^ 32 - k"
  shows "k + sum_list (take i xs) < 2 ^ 32"
proof -
  have "sum_list xs = sum_list (take i xs) + sum_list (drop i xs)" by (metis append_take_drop_id sum_list_append)
  with assms show ?thesis by linarith
qed

lemma written_map_offset:
  fixes bss :: "bytes list"
  assumes "sum_list (map length bss) + 40 < 2 ^ 32" "Suc i \<le> length bss"
  shows "uint (map_offsets (of_nat 40) (map (\<lambda>bs. of_nat (length bs)) (butlast bss)) ! i) =
    40 + int (sum_list (map length (take i bss)))"
proof -
  have i: "i \<le> length (butlast bss)" using assms(2) by simp
  have tk: "take i (butlast bss) = take i bss" using i by (simp add: butlast_conv_take)
  have sum: "sum_list (map (\<lambda>bs. of_nat (length bs) :: 32 word) xs) = of_nat (sum_list (map length xs))" for xs :: "bytes list"
    by (induction xs) simp_all
  have "map_offsets (of_nat 40) (map (\<lambda>bs. of_nat (length bs) :: 32 word) (butlast bss)) ! i =
      of_nat (40 + sum_list (map length (take i bss)))"
    using map_offsets_nth [of i "map (\<lambda>bs. of_nat (length bs) :: 32 word) (butlast bss)" "of_nat 40"] i
    by (simp add: take_map tk sum)
  moreover have "40 + sum_list (map length (take i bss)) < 2 ^ 32"
    using sum_list_take_less [of "map length bss" 40 i] assms(1) by (simp add: take_map)
  then have "uint (of_nat (40 + sum_list (map length (take i bss))) :: 32 word) = int (40 + sum_list (map length (take i bss)))"
    by (rule uint_of_nat32)
  ultimately show ?thesis by simp
qed

lemma crm_root_read:
  assumes at: "bytes_at mem p (ContainedRangeMapSerializer_WriteRoot write n)"
    and sz: "length (ContainedRangeMapSerializer_WriteRoot write n) < 2 ^ 32"
  obtains c where "StaticContainedRangeMap_new mem p = Returns c" "values_at addr_key mem (sc_map c) (child_nodes write n)"
proof -
  have sz': "length (write_map addr_key (child_nodes write n)) < 2 ^ 32"
    using sz by (simp add: ContainedRangeMapSerializer_WriteRoot_def child_nodes_def)
  have at': "bytes_at mem p (word_bytes (nbase n) @ word_bytes (of_nat (length ([] :: bytes)) :: 32 word) @ [] @
      write_map addr_key (child_nodes write n))"
    using at by (simp add: ContainedRangeMapSerializer_WriteRoot_def child_nodes_def)
  show ?thesis by (rule crm_header_read [OF at' _ sz']) (use that in auto)
qed

lemma addr_map_read:
  "bytes_at mem p bs \<and> length bs < 2 ^ 32 \<Longrightarrow> bs = write_map addr_key nodes \<Longrightarrow>
    \<exists>m. StaticMap_new mem p = Returns m \<and> values_at addr_key mem m nodes"
  using addr_key.write_map_read [of mem p nodes] by auto

lemma new_contained_maps_read:
  assumes "\<forall>i<length offs. bytes_at mem (1 + uint (offs ! i)) (ContainedRangeMapSerializer_WriteRoot write (ns ! i)) \<and>
      length (ContainedRangeMapSerializer_WriteRoot write (ns ! i)) < 2 ^ 32" "length ns = length offs"
  shows "\<exists>cs. new_contained_maps mem offs = Returns cs \<and>
    list_all2 (\<lambda>c n. values_at addr_key mem (sc_map c) (child_nodes write n)) cs ns"
  using assms
proof (induction offs arbitrary: ns)
  case (Cons off offs)
  then obtain n ns' where ns: "ns = n # ns'" by (cases ns) auto
  have "bytes_at mem (1 + uint off) (ContainedRangeMapSerializer_WriteRoot write n)"
    "length (ContainedRangeMapSerializer_WriteRoot write n) < 2 ^ 32"
    using Cons.prems(1) [rule_format, of 0] by (simp_all add: ns)
  then obtain c where c: "StaticContainedRangeMap_new mem (1 + uint off) = Returns c"
    "values_at addr_key mem (sc_map c) (child_nodes write n)" by (rule crm_root_read)
  have "\<forall>i<length offs. bytes_at mem (1 + uint (offs ! i)) (ContainedRangeMapSerializer_WriteRoot write (ns' ! i)) \<and>
      length (ContainedRangeMapSerializer_WriteRoot write (ns' ! i)) < 2 ^ 32"
    using Cons.prems(1) by (auto simp: ns dest: spec [of _ "Suc _"])
  from Cons.IH [OF this] Cons.prems(2) obtain cs where "new_contained_maps mem offs = Returns cs"
    "list_all2 (\<lambda>c n. values_at addr_key mem (sc_map c) (child_nodes write n)) cs ns'" by (auto simp: ns)
  then show ?case using c by (simp add: ns)
qed simp

definition module_fits :: "Module \<Rightarrow> bool" where
  "module_fits m \<longleftrightarrow>
     (\<forall>x\<in>set (files m). int32_range (fst x) \<and> nul_free (snd x)) \<and>
     (\<forall>f\<in>set (func_heap m). function_fits f) \<and>
     (\<forall>x\<in>set (public_symbols m). public_symbol_fits (snd x)) \<and>
     (\<forall>n\<in>set (windows_frame_info m). \<forall>(b, h, w)\<in>crm_ranges n. windows_frame_info_fits w) \<and>
     (\<forall>x\<in>set (cfi_initial_rules m). nul_free (rentry (snd x))) \<and>
     (\<forall>x\<in>set (cfi_delta_rules m). nul_free (snd x))"

text \<open>The maps of a loaded module lie in the buffer.\<close>

definition fast_module_at :: "FastModule \<Rightarrow> Module \<Rightarrow> bool" where
  "fast_module_at fm m \<longleftrightarrow>
     fm_is_corrupt fm = is_corrupt m \<and>
     values_at int_key (buffer fm) (fm_files fm) (omap_nodes string_bytes (files m)) \<and>
     values_at addr_key (buffer fm) (fm_functions fm) (range_nodes (\<lambda>p. function_bytes (func_heap m ! p)) (function_map m)) \<and>
     values_at addr_key (buffer fm) (fm_public_symbols fm) (omap_nodes public_symbol_bytes (public_symbols m)) \<and>
     list_all2 (\<lambda>c n. values_at addr_key (buffer fm) (sc_map c) (child_nodes windows_frame_info_bytes n))
       (fm_windows_frame_info fm) (windows_frame_info m) \<and>
     values_at addr_key (buffer fm) (fm_cfi_initial_rules fm) (range_nodes string_bytes (cfi_initial_rules m)) \<and>
     values_at addr_key (buffer fm) (fm_cfi_delta_rules fm) (omap_nodes string_bytes (cfi_delta_rules m))"

lemma length_nth_le_sum: "i < length bss \<Longrightarrow> length (bss ! i) \<le> sum_list (map length bss)"
  using member_le_sum_list [of "length (bss ! i)" "map length bss"] by simp

lemma FastModule_load:
  assumes inv: "module_inv m" and fits: "module_fits m" and sz: "length (ModuleSerializer_Write m) < 2 ^ 32"
    and at: "bytes_at mem 0 (ModuleSerializer_Write m)"
  obtains fm where "FastModule_load_maps mem = Returns fm" "buffer fm = mem" "fast_module_at fm m"
proof -
  let ?bss = "map_bytes m"
  have wfi: "length (windows_frame_info m) = 5" using inv by (simp add: module_inv_def STACK_INFO_LAST_def)
  have n: "length ?bss = 10" "kNumberMaps = 10" using wfi by (simp_all add: map_bytes_def kNumberMaps_def STACK_INFO_LAST_def)
  let ?ws = "map (\<lambda>bs. of_nat (length bs) :: 32 word) ?bss"
  have sizes: "map_sizes m = ?ws" by (rule map_sizes_lengths)
  have len: "length (concat (map word_bytes ?ws)) = 40" using length_concat_words [of ?ws] n by simp
  have parts: "bytes_at mem 0 (bool_bytes (is_corrupt m))" "bytes_at mem 1 (concat (map word_bytes ?ws))"
    "bytes_at mem 41 (concat ?bss)"
    using at len by (simp_all add: ModuleSerializer_Write_def sizes bytes_at_append)
  have total: "sum_list (map length ?bss) + 40 < 2 ^ 32"
    using sz len by (simp add: ModuleSerializer_Write_def sizes length_concat)
  have corrupt: "read_word mem 0 = Returns (if is_corrupt m then 255 else 0 :: 8 word)"
    using parts(1) unfolding bool_bytes_def by (rule read_byte)
  have words: "read_words mem 1 9 = Returns (map (\<lambda>bs. of_nat (length bs)) (butlast ?bss))"
    using read_words_at [OF parts(2), of 9] n(1) by (simp add: butlast_conv_take take_map)
  let ?offs = "map_offsets (of_nat 40) (map (\<lambda>bs. of_nat (length bs)) (butlast ?bss)) :: 32 word list"
  have offs: "bytes_at mem (1 + uint (?offs ! i)) (?bss ! i) \<and> length (?bss ! i) < 2 ^ 32" if "i < 10" for i
    using bytes_at_concat [OF parts(3), of i] written_map_offset [OF total, of i] that n
      length_nth_le_sum [of i ?bss] total by (simp add: algebra_simps)
  have loffs: "length ?offs = 10" using n by simp
  have files: "\<forall>x\<in>set (omap_nodes string_bytes (files m)). int32_range (fst x)"
    using fits by (auto simp: module_fits_def omap_nodes_def)
  have b: "?bss ! 0 = write_map int_key (omap_nodes string_bytes (files m))"
    "?bss ! 1 = write_map addr_key (range_nodes (\<lambda>p. function_bytes (func_heap m ! p)) (function_map m))"
    "?bss ! 2 = write_map addr_key (omap_nodes public_symbol_bytes (public_symbols m))"
    "?bss ! 8 = write_map addr_key (range_nodes string_bytes (cfi_initial_rules m))"
    "?bss ! 9 = write_map addr_key (omap_nodes string_bytes (cfi_delta_rules m))"
    "i < 5 \<Longrightarrow> ?bss ! (3 + i) = ContainedRangeMapSerializer_WriteRoot windows_frame_info_bytes (windows_frame_info m ! i)" for i
    using wfi by (simp_all add: map_bytes_def nth_append StdMapSerializer_Write_nodes RangeMapSerializer_Write_nodes)
  obtain fi where fi: "StaticMap_new mem (1 + uint (?offs ! 0)) = Returns fi"
    "values_at int_key mem fi (omap_nodes string_bytes (files m))"
    using int_key.write_map_read [OF _ _ files] offs [of 0] b(1) by (metis zero_less_numeral)
  obtain fu where fu: "StaticMap_new mem (1 + uint (?offs ! 1)) = Returns fu"
    "values_at addr_key mem fu (range_nodes (\<lambda>p. function_bytes (func_heap m ! p)) (function_map m))"
    using addr_map_read [OF offs [of 1] b(2)] by auto
  obtain pu where pu: "StaticMap_new mem (1 + uint (?offs ! 2)) = Returns pu"
    "values_at addr_key mem pu (omap_nodes public_symbol_bytes (public_symbols m))"
    using addr_map_read [OF offs [of 2] b(3)] by auto
  obtain ci where ci: "StaticMap_new mem (1 + uint (?offs ! 8)) = Returns ci"
    "values_at addr_key mem ci (range_nodes string_bytes (cfi_initial_rules m))"
    using addr_map_read [OF offs [of 8] b(4)] by auto
  obtain cd where cd: "StaticMap_new mem (1 + uint (?offs ! 9)) = Returns cd"
    "values_at addr_key mem cd (omap_nodes string_bytes (cfi_delta_rules m))"
    using addr_map_read [OF offs [of 9] b(5)] by auto
  have five: "length (take 5 (drop 3 ?offs)) = 5" using loffs by simp
  have "bytes_at mem (1 + uint (take 5 (drop 3 ?offs) ! i))
        (ContainedRangeMapSerializer_WriteRoot windows_frame_info_bytes (windows_frame_info m ! i)) \<and>
      length (ContainedRangeMapSerializer_WriteRoot windows_frame_info_bytes (windows_frame_info m ! i)) < 2 ^ 32" if "i < 5" for i
    using offs [of "3 + i"] b(6) [OF that] that loffs by simp
  then obtain cs where cs: "new_contained_maps mem (take 5 (drop 3 ?offs)) = Returns cs"
    "list_all2 (\<lambda>c n. values_at addr_key mem (sc_map c) (child_nodes windows_frame_info_bytes n)) cs (windows_frame_info m)"
    using new_contained_maps_read [of "take 5 (drop 3 ?offs)" mem windows_frame_info_bytes "windows_frame_info m"] five wfi
    by auto
  let ?fm = "\<lparr>buffer = mem, fm_files = fi, fm_functions = fu, fm_public_symbols = pu, fm_is_corrupt = is_corrupt m,
         fm_windows_frame_info = cs, fm_cfi_initial_rules = ci, fm_cfi_delta_rules = cd\<rparr>"
  have nums: "kNumberMaps - 1 = 9" "kNumberMaps * 4 = 40" "nat STACK_INFO_LAST = 5" "3 + 5 = (8 :: nat)" "4 + 5 = (9 :: nat)"
    using n by (simp_all add: STACK_INFO_LAST_def)
  have "FastModule_load_maps mem = Returns ?fm"
    unfolding FastModule_load_maps_def nums corrupt words exec_bind.simps Let_def fi(1) fu(1) pu(1) cs(1) ci(1) cd(1)
    by simp
  moreover have "fast_module_at ?fm m" using fi(2) fu(2) pu(2) cs(2) ci(2) cd(2) by (simp add: fast_module_at_def)
  ultimately show ?thesis using that [of ?fm] by simp
qed

section \<open>The fast resolver answers as the basic one\<close>

lemma RangeMap_hits:
  assumes "RangeMap_RetrieveNearestRange m a = Some h \<or> RangeMap_RetrieveRange m a = Some h"
  shows "\<exists>x\<in>set m. h = RangeMap_hit x"
proof -
  have in_range: "\<exists>x\<in>set m. h = RangeMap_hit x" if "RangeMap_RetrieveRange m a = Some h"
    using that lower_bound_le [of m a]
    by (auto simp: RangeMap_RetrieveRange_def Let_def le_neq_implies_less split: if_split_asm intro!: bexI [of _ "m ! lower_bound m a"])
  have "upper_bound m a - 1 < length m" if "upper_bound m a \<noteq> 0" using upper_bound_le [of m a] that by linarith
  then show ?thesis
    using assms in_range
    by (auto simp: RangeMap_RetrieveNearestRange_def Let_def split: option.split_asm if_split_asm
        intro!: bexI [of _ "m ! (upper_bound m a - 1)"])
qed

lemma hit_at_conv: "hit_at mem write (q, b, s) (e, b', s') \<longleftrightarrow> b = b' \<and> s = s' \<and> bytes_at mem q (write e)"
  by (simp add: hit_at_def)

lemma rel_option_cases:
  assumes "rel_option R r s"
  obtains "r = None" "s = None" | x y where "r = Some x" "s = Some y" "R x y"
  using assms by (cases r; cases s) auto

lemma fast_file_name_read:
  assumes at: "fast_module_at fm m" and inv: "module_inv m" and fits: "module_fits m"
  shows "fast_file_name fm i =
    Returns (if omap_find (files m) i \<noteq> length (files m) then Some (snd (files m ! omap_find (files m) i)) else None)"
proof -
  let ?nodes = "omap_nodes string_bytes (files m)" and ?j = "omap_find (files m) i"
  have v: "values_at int_key (buffer fm) (fm_files fm) ?nodes" using at by (simp add: fast_module_at_def)
  have ok: "omap_ok ?nodes" using inv omap_ok_fst [of ?nodes "files m"] by (simp add: module_inv_def)
  note s = values_at_search [OF v ok]
  have find: "omap_find ?nodes i = ?j" by (rule omap_find_fst) simp
  show ?thesis
  proof (cases "?j = length (files m)")
    case True
    then show ?thesis by (simp add: fast_file_name_def s find)
  next
    case False
    then have j: "?j < length (files m)" using omap_find_miss [of "files m" i] by blast
    obtain q where q: "GetValueRawPtr (buffer fm) (node_iterator (fm_files fm) ?j) = Returns (Some q)"
      "bytes_at (buffer fm) q (string_bytes (snd (files m ! ?j)))"
      using s(7) [of ?j] j by auto
    have "nul_free (snd (files m ! ?j))" using fits j by (simp add: module_fits_def)
    then show ?thesis using False q by (simp add: fast_file_name_def s find deref_def nul_free_read)
  qed
qed

lemma fast_fill_line_read:
  assumes at: "fast_module_at fm m" and inv: "module_inv m" and fits: "module_fits m"
    and f: "values_at addr_key (buffer fm) (fflines ff) (range_nodes line_bytes (lines f))" "func_ok f" "function_fits f"
  shows "fast_fill_line fm ff a frame =
    Returns (case RangeMap_RetrieveRange (lines f) a of
       None \<Rightarrow> frame
     | Some (line, line_base, _) \<Rightarrow>
         let it = omap_find (files m) (source_file_id line);
             frame2 = (if it \<noteq> length (files m) then frame\<lparr>source_file_name := snd (files m ! it)\<rparr> else frame)
         in frame2\<lparr>source_line := lline line, source_line_base := module_base frame + line_base\<rparr>)"
proof -
  have ok: "omap_ok (lines f)" using f(2) by (simp add: func_ok_def RangeMap_inv_ok)
  obtain r where r: "StaticRangeMap_RetrieveRange (buffer fm) (fflines ff) a = Returns r"
    "rel_option (hit_at (buffer fm) line_bytes) r (RangeMap_RetrieveRange (lines f) a)"
    using StaticRangeMap_RetrieveRange_refines [OF f(1) ok] by blast
  from r(2) show ?thesis
  proof (cases rule: rel_option_cases)
    case 1
    then show ?thesis using r(1) by (simp add: fast_fill_line_def)
  next
    case (2 x y)
    obtain q b s where x: "x = (q, b, s)" by (metis prod_cases3)
    obtain line where y: "y = (line, b, s)" "bytes_at (buffer fm) q (line_bytes line)"
      using 2(3) x by (cases y) (simp add: hit_at_conv)
    have "line_fits line"
      using RangeMap_hits [of "lines f" a y] 2(2) y(1) f(3) by (auto simp: RangeMap_hit_def function_fits_def)
    then have "Line_CopyFrom (buffer fm) q = Returns line" using y(2) by (rule Line_CopyFrom_read [rotated])
    then show ?thesis
      using r(1) 2 x y(1) fast_file_name_read [OF at inv fits] by (simp add: fast_fill_line_def Let_def)
  qed
qed

lemma fast_fill_public_read:
  assumes at: "fast_module_at fm m" and inv: "module_inv m" and fits: "module_fits m"
  shows "fast_fill_public fm fbase a frame =
      Returns (case AddressMap_Retrieve (public_symbols m) a of
         None \<Rightarrow> frame
       | Some (symbol, public_address) \<Rightarrow>
           if (case fbase of None \<Rightarrow> True | Some b \<Rightarrow> public_address > b)
           then frame\<lparr>function_name := pname symbol, function_base := module_base frame + public_address\<rparr> else frame)"
    "fast_public_parameters fm fbase a = Returns None"
proof -
  have v: "values_at addr_key (buffer fm) (fm_public_symbols fm) (omap_nodes public_symbol_bytes (public_symbols m))"
    using at by (simp add: fast_module_at_def)
  have ok: "omap_ok (public_symbols m)" using inv by (simp add: module_inv_def)
  obtain r where r: "StaticAddressMap_Retrieve (buffer fm) (fm_public_symbols fm) a = Returns r"
    "rel_option (\<lambda>(q, b) (e, b'). b = b' \<and> (\<exists>p. q = Some p \<and> bytes_at (buffer fm) p (public_symbol_bytes e))) r
      (AddressMap_Retrieve (public_symbols m) a)"
    using StaticAddressMap_Retrieve_refines [OF v ok] by blast
  from r(2) have "fast_fill_public fm fbase a frame =
      Returns (case AddressMap_Retrieve (public_symbols m) a of
         None \<Rightarrow> frame
       | Some (symbol, public_address) \<Rightarrow>
           if (case fbase of None \<Rightarrow> True | Some b \<Rightarrow> public_address > b)
           then frame\<lparr>function_name := pname symbol, function_base := module_base frame + public_address\<rparr> else frame) \<and>
      fast_public_parameters fm fbase a = Returns None"
  proof (cases rule: rel_option_cases)
    case 1
    then show ?thesis using r(1) by (simp add: fast_fill_public_def fast_public_parameters_def)
  next
    case (2 x y)
    obtain e b p where xy: "y = (e, b)" "x = (Some p, b)" "bytes_at (buffer fm) p (public_symbol_bytes e)"
      using 2(3) by (cases x; cases y) auto
    have "upper_bound (public_symbols m) a - 1 < length (public_symbols m)" if "upper_bound (public_symbols m) a \<noteq> 0"
      using upper_bound_le [of "public_symbols m" a] that by linarith
    then have "public_symbol_fits e"
      using 2(2) xy(1) fits by (auto simp: AddressMap_Retrieve_def Let_def module_fits_def split: if_split_asm)
    then have "PublicSymbol_CopyFrom (buffer fm) p = Returns e" using xy(3) by (rule PublicSymbol_CopyFrom_read [rotated])
    then show ?thesis
      using r(1) 2(1,2) xy by (auto simp: fast_fill_public_def fast_public_parameters_def deref_def)
  qed
  then show "fast_fill_public fm fbase a frame =
      Returns (case AddressMap_Retrieve (public_symbols m) a of
         None \<Rightarrow> frame
       | Some (symbol, public_address) \<Rightarrow>
           if (case fbase of None \<Rightarrow> True | Some b \<Rightarrow> public_address > b)
           then frame\<lparr>function_name := pname symbol, function_base := module_base frame + public_address\<rparr> else frame)"
    "fast_public_parameters fm fbase a = Returns None" by blast+
qed

text \<open>The nearest function, as both resolvers find it.\<close>

lemma fast_nearest_function:
  assumes at: "fast_module_at fm m" and inv: "module_inv m" and fits: "module_fits m"
    and sz: "length (ModuleSerializer_Write m) < 2 ^ 32"
  obtains (none) "StaticRangeMap_RetrieveNearestRange (buffer fm) (fm_functions fm) a = Returns None"
      "RangeMap_RetrieveNearestRange (function_map m) a = None"
  | (some) q p b s ff where
      "StaticRangeMap_RetrieveNearestRange (buffer fm) (fm_functions fm) a = Returns (Some (q, b, s))"
      "RangeMap_RetrieveNearestRange (function_map m) a = Some (p, b, s)"
      "Function_CopyFrom (buffer fm) q = Returns ff" "ffname ff = fname (func_heap m ! p)"
      "ffparameter_size ff = fparameter_size (func_heap m ! p)"
      "values_at addr_key (buffer fm) (fflines ff) (range_nodes line_bytes (lines (func_heap m ! p)))"
      "func_ok (func_heap m ! p)" "function_fits (func_heap m ! p)"
proof -
  let ?wr = "\<lambda>p. function_bytes (func_heap m ! p)"
  have v: "values_at addr_key (buffer fm) (fm_functions fm) (range_nodes ?wr (function_map m))"
    using at by (simp add: fast_module_at_def)
  have ok: "omap_ok (function_map m)" using inv by (simp add: module_inv_def RangeMap_inv_ok)
  obtain r where r: "StaticRangeMap_RetrieveNearestRange (buffer fm) (fm_functions fm) a = Returns r"
    "rel_option (hit_at (buffer fm) ?wr) r (RangeMap_RetrieveNearestRange (function_map m) a)"
    using StaticRangeMap_RetrieveNearestRange_refines [OF v ok] by blast
  from r(2) show ?thesis
  proof (cases rule: rel_option_cases)
    case 1
    then show ?thesis using r(1) none by simp
  next
    case (2 x y)
    obtain q b s where x: "x = (q, b, s)" by (metis prod_cases3)
    obtain p where y: "y = (p, b, s)" "bytes_at (buffer fm) q (function_bytes (func_heap m ! p))"
      using 2(3) x by (cases y) (simp add: hit_at_conv)
    obtain z where z: "z \<in> set (function_map m)" "rentry (snd z) = p"
      using RangeMap_hits [of "function_map m" a y] 2(2) y(1) by (auto simp: RangeMap_hit_def)
    then have "p < length (func_heap m)"
      using inv by (force simp: module_inv_def RangeMap_ranges_def)
    then have f: "func_ok (func_heap m ! p)" "function_fits (func_heap m ! p)"
      using inv fits by (simp_all add: module_inv_def module_fits_def)
    obtain j where j: "j < length (function_map m)" "z = function_map m ! j" using z(1) by (metis in_set_conv_nth)
    have "length (function_bytes (func_heap m ! p)) \<le> value_size (range_nodes ?wr (function_map m))"
      using value_size_nth [of j "range_nodes ?wr (function_map m)"] j z(2) by (simp add: range_bytes_def)
    also have "\<dots> \<le> length (map_bytes m ! 1)"
      by (simp add: map_bytes_def RangeMapSerializer_Write_nodes addr_key.write_map_length)
    also have "\<dots> \<le> sum_list (map length (map_bytes m))" by (rule length_nth_le_sum) (simp add: map_bytes_def)
    also have "\<dots> \<le> length (ModuleSerializer_Write m)" by (simp add: ModuleSerializer_Write_def length_concat)
    finally have "length (function_bytes (func_heap m ! p)) < 2 ^ 32" using sz by simp
    from Function_CopyFrom_read [OF y(2) f(2) this] obtain ff where "Function_CopyFrom (buffer fm) q = Returns ff"
      "ffname ff = fname (func_heap m ! p)" "ffparameter_size ff = fparameter_size (func_heap m ! p)"
      "values_at addr_key (buffer fm) (fflines ff) (range_nodes line_bytes (lines (func_heap m ! p)))" by blast
    then show ?thesis using some [of q b s p ff] r(1) 2(1,2) x y(1) f by simp
  qed
qed

lemma FastModule_LookupAddress_same:
  assumes at: "fast_module_at fm m" and inv: "module_inv m" and fits: "module_fits m"
    and sz: "length (ModuleSerializer_Write m) < 2 ^ 32"
  shows "FastModule_LookupAddress fm frame = Returns (Module_LookupAddress m frame)"
proof (cases rule: fast_nearest_function [OF assms, of "instruction frame - module_base frame"])
  case 1
  then show ?thesis
    by (simp add: FastModule_LookupAddress_def Module_LookupAddress_def Let_def fast_fill_public_read [OF at inv fits]
        cong: option.case_cong)
next
  case (2 q b s p ff)
  then show ?thesis
    using fast_fill_line_read [OF at inv fits 2(6-8)]
    by (simp add: FastModule_LookupAddress_def Module_LookupAddress_def Let_def fast_fill_public_read [OF at inv fits]
        cong: option.case_cong)
qed

lemma windows_frame_info_map_size:
  assumes sz: "length (ModuleSerializer_Write m) < 2 ^ 32" and i: "i < length (windows_frame_info m)"
  shows "length (write_map addr_key (child_nodes windows_frame_info_bytes (windows_frame_info m ! i))) < 2 ^ 32"
proof -
  let ?w = "ContainedRangeMapSerializer_WriteRoot windows_frame_info_bytes (windows_frame_info m ! i)"
  have "map_bytes m ! (3 + i) = ?w" "3 + i < length (map_bytes m)" using i by (simp_all add: map_bytes_def nth_append)
  then have "length ?w \<le> sum_list (map length (map_bytes m))" using length_nth_le_sum [of "3 + i" "map_bytes m"] by simp
  also have "\<dots> \<le> length (ModuleSerializer_Write m)" by (simp add: ModuleSerializer_Write_def length_concat)
  finally show ?thesis using sz by (simp add: ContainedRangeMapSerializer_WriteRoot_def child_nodes_def)
qed

lemma windows_frame_info_bytes_nonempty: "windows_frame_info_bytes w \<noteq> []"
  using length_windows_frame_info_bytes [of w] by auto

text \<open>One map of frame information, as both resolvers search it.\<close>

lemma fast_windows_frame_info:
  assumes at: "fast_module_at fm m" and inv: "module_inv m" and fits: "module_fits m"
    and sz: "length (ModuleSerializer_Write m) < 2 ^ 32" and i: "i < 5"
  obtains (none) "StaticContainedRangeMap_RetrieveRange (buffer fm) (fm_windows_frame_info fm ! i) a = Returns None"
      "ContainedRangeMap_RetrieveRange (windows_frame_info m ! i) a = None"
  | (some) q w where
      "StaticContainedRangeMap_RetrieveRange (buffer fm) (fm_windows_frame_info fm ! i) a = Returns (Some (Some q))"
      "ContainedRangeMap_RetrieveRange (windows_frame_info m ! i) a = Some w" "CopyWFI (buffer fm) q = Returns w"
proof -
  let ?n = "windows_frame_info m ! i" and ?c = "fm_windows_frame_info fm ! i"
  have len: "i < length (windows_frame_info m)" using inv i by (simp add: module_inv_def STACK_INFO_LAST_def)
  have crm: "crm_inv ?n" using inv len by (simp add: module_inv_def)
  have "values_at addr_key (buffer fm) (sc_map ?c) (child_nodes windows_frame_info_bytes ?n)"
    using at len by (auto simp: fast_module_at_def list_all2_conv_all_nth)
  from StaticContainedRangeMap_refines [OF crm windows_frame_info_map_size [OF sz len] this]
  obtain r where r: "StaticContainedRangeMap_RetrieveRange (buffer fm) ?c a = Returns r"
    "rel_option (entry_at (buffer fm) windows_frame_info_bytes) r (ContainedRangeMap_RetrieveRange ?n a)" by blast
  from r(2) show ?thesis
  proof (cases rule: rel_option_cases)
    case 1
    then show ?thesis using r(1) none by simp
  next
    case (2 x w)
    obtain q where q: "x = Some q" "bytes_at (buffer fm) q (windows_frame_info_bytes w)"
      using 2(3) by (auto simp: entry_at_def windows_frame_info_bytes_nonempty)
    obtain b h where "(b, h, w) \<in> crm_ranges ?n"
      using crm_retrieve_cases [OF crm, of a] 2(2) by (auto simp: smallest_around_def)
    then have "windows_frame_info_fits w" using fits nth_mem [OF len] by (fastforce simp: module_fits_def)
    then have "CopyWFI (buffer fm) q = Returns w" using CopyWFI_read [OF q(2)] by simp
    then show ?thesis using some [of q w] r(1) 2(1,2) q(1) by simp
  qed
qed

lemma fast_parameters_same:
  assumes at: "fast_module_at fm m" and inv: "module_inv m" and fits: "module_fits m"
    and sz: "length (ModuleSerializer_Write m) < 2 ^ 32"
  shows "exec_bind (StaticRangeMap_RetrieveNearestRange (buffer fm) (fm_functions fm) a) (\<lambda>f.
     case f of
       Some (func_ptr, fbase, fsz) \<Rightarrow>
         if a \<ge> fbase \<and> a - fbase < fsz then
           exec_bind (Function_CopyFrom (buffer fm) func_ptr) (\<lambda>func. Returns (Some (g (ffparameter_size func))))
         else fast_public_parameters fm (Some fbase) a
     | None \<Rightarrow> fast_public_parameters fm None a) =
   Returns (case RangeMap_RetrieveNearestRange (function_map m) a of
       Some (p, b, sz) \<Rightarrow> if a \<ge> b \<and> a - b < sz then Some (g (fparameter_size (func_heap m ! p))) else None
     | None \<Rightarrow> None)"
proof (cases rule: fast_nearest_function [OF assms, of a])
  case 1
  then show ?thesis by (simp add: fast_fill_public_read(2) [OF at inv fits])
next
  case (2 q b s p ff)
  then show ?thesis by (simp add: fast_fill_public_read(2) [OF at inv fits])
qed

lemma FastModule_FindWindowsFrameInfo_same:
  assumes at: "fast_module_at fm m" and inv: "module_inv m" and fits: "module_fits m"
    and sz: "length (ModuleSerializer_Write m) < 2 ^ 32"
  shows "FastModule_FindWindowsFrameInfo fm frame = Returns (Module_FindWindowsFrameInfo m frame)"
proof -
  let ?a = "instruction frame - module_base frame"
  have nums: "nat STACK_INFO_FRAME_DATA < 5" "nat STACK_INFO_FPO < 5"
    by (simp_all add: STACK_INFO_FRAME_DATA_def STACK_INFO_FPO_def)
  note params = fast_parameters_same [OF assms, of ?a "\<lambda>ps. WindowsFrameInfo_default\<lparr>parameter_size := word_of_int ps,
      valid := valid WindowsFrameInfo_default OR VALID_PARAMETER_SIZE\<rparr>"]
  show ?thesis
  proof (cases rule: fast_windows_frame_info [OF assms nums(1), of ?a])
    case 1
    note first = this
    show ?thesis
    proof (cases rule: fast_windows_frame_info [OF assms nums(2), of ?a])
      case 1
      then show ?thesis
        using first params by (simp add: FastModule_FindWindowsFrameInfo_def Module_FindWindowsFrameInfo_def Let_def)
    next
      case (2 q w)
      then show ?thesis
        using first by (simp add: FastModule_FindWindowsFrameInfo_def Module_FindWindowsFrameInfo_def Let_def deref_def)
    qed
  next
    case (2 q w)
    then show ?thesis by (simp add: FastModule_FindWindowsFrameInfo_def Module_FindWindowsFrameInfo_def Let_def deref_def)
  qed
qed

lemma fast_delta_rules_same:
  assumes v: "values_at addr_key (buffer fm) (fm_cfi_delta_rules fm) (omap_nodes string_bytes d)" and ok: "omap_ok d"
    and nul: "\<forall>x\<in>set d. nul_free (snd x)"
  shows "i \<le> length d \<Longrightarrow> fast_delta_rules fm a (node_iterator (fm_cfi_delta_rules fm) i) rules =
    Some (Returns (apply_delta_rules a (drop i d) rules))"
proof (induction "length d - i" arbitrary: i rules)
  case 0
  have ok': "omap_ok (omap_nodes string_bytes d)" using ok omap_ok_fst [of "omap_nodes string_bytes d" d] by simp
  note s = values_at_search [OF v ok']
  have "i = length d" using 0 by simp
  then show ?case by (subst fast_delta_rules.simps) (simp add: s)
next
  case (Suc k)
  have ok': "omap_ok (omap_nodes string_bytes d)" using ok omap_ok_fst [of "omap_nodes string_bytes d" d] by simp
  note s = values_at_search [OF v ok']
  have i: "i < length d" using Suc.hyps(2) by simp
  have d: "drop i d = d ! i # drop (Suc i) d" using i by (rule Cons_nth_drop_Suc [symmetric])
  obtain q where q: "GetValueRawPtr (buffer fm) (node_iterator (fm_cfi_delta_rules fm) i) = Returns (Some q)"
    "bytes_at (buffer fm) q (string_bytes (snd (d ! i)))"
    using s(7) [of i] i by auto
  have r: "read_cstring (buffer fm) q = Returns (snd (d ! i))" using q(2) nul i by (simp add: nul_free_read)
  have IH: "fast_delta_rules fm a (node_iterator (fm_cfi_delta_rules fm) (Suc i)) rules =
      Some (Returns (apply_delta_rules a (drop (Suc i) d) rules))" for rules
    using Suc.hyps(1) [of "Suc i"] Suc.hyps(2) i by simp
  show ?case
    by (subst fast_delta_rules.simps) (use i q(1) r IH in \<open>simp add: s d deref_def\<close>)
qed

lemma FastModule_FindCFIFrameInfo_same:
  assumes at: "fast_module_at fm m" and inv: "module_inv m" and fits: "module_fits m"
  shows "FastModule_FindCFIFrameInfo fm frame = Returns (Module_FindCFIFrameInfo m frame)"
proof -
  let ?a = "instruction frame - module_base frame"
  let ?d = "cfi_delta_rules m"
  have v: "values_at addr_key (buffer fm) (fm_cfi_initial_rules fm) (range_nodes string_bytes (cfi_initial_rules m))"
    "values_at addr_key (buffer fm) (fm_cfi_delta_rules fm) (omap_nodes string_bytes ?d)"
    using at by (simp_all add: fast_module_at_def)
  have ok: "omap_ok (cfi_initial_rules m)" "omap_ok ?d" using inv by (simp_all add: module_inv_def RangeMap_inv_ok)
  have nul: "\<forall>x\<in>set ?d. nul_free (snd x)" using fits by (simp add: module_fits_def)
  have ok': "omap_ok (omap_nodes string_bytes ?d)" using ok(2) omap_ok_fst [of "omap_nodes string_bytes ?d" ?d] by simp
  have lb: "lower_bound (omap_nodes string_bytes ?d) b = lower_bound ?d b" for b by (rule bounds_fst) simp
  note delta = fast_delta_rules_same [OF v(2) ok(2) nul lower_bound_le]
  obtain r where r: "StaticRangeMap_RetrieveRange (buffer fm) (fm_cfi_initial_rules fm) ?a = Returns r"
    "rel_option (hit_at (buffer fm) string_bytes) r (RangeMap_RetrieveRange (cfi_initial_rules m) ?a)"
    using StaticRangeMap_RetrieveRange_refines [OF v(1) ok(1)] by blast
  from r(2) show ?thesis
  proof (cases rule: rel_option_cases)
    case 1
    then show ?thesis using r(1) by (simp add: FastModule_FindCFIFrameInfo_def Module_FindCFIFrameInfo_def)
  next
    case (2 x y)
    obtain q b s where x: "x = (q, b, s)" by (metis prod_cases3)
    obtain e where y: "y = (e, b, s)" "bytes_at (buffer fm) q (string_bytes e)"
      using 2(3) x by (cases y) (simp add: hit_at_conv)
    have "nul_free e"
      using RangeMap_hits [of "cfi_initial_rules m" ?a y] 2(2) y(1) fits by (auto simp: RangeMap_hit_def module_fits_def)
    then have "read_cstring (buffer fm) q = Returns e" using y(2) by (simp add: nul_free_read)
    then show ?thesis
      using r(1) 2 x y(1) delta
      by (auto simp: FastModule_FindCFIFrameInfo_def Module_FindCFIFrameInfo_def Let_def values_at_search(2) [OF v(2) ok'] lb
          split: prod.split)
  qed
qed

end
