(* ===== verification/Fast_Load.thy ===== *)
theory Fast_Load
  imports Fast_Resolver
begin

text \<open>
  What the loader of the text format stores can always be written in the binary format and read back: the strings
  have no NUL and the numbers have their C ranges. With this the two resolvers agree on every symbol file that the
  serializer accepts.
\<close>

section \<open>Text without NUL\<close>

lemma nul_free_iff: "nul_free s \<longleftrightarrow> CHR 0x00 \<notin> set s"
proof -
  have z: "of_char c = (0 :: nat) \<longleftrightarrow> c = CHR 0x00" for c :: char
    using of_char_eq_iff [of c "CHR 0x00", where ?'a = nat] by simp
  show ?thesis by (auto simp: nul_free_def c_str_def takeWhile_eq_all_conv z)
qed

lemma set_tl_subset: "set (tl xs) \<subseteq> set xs"
  by (cases xs) auto

lemma nul_free_parts:
  assumes "nul_free s"
  shows "nul_free (drop n s)" "nul_free (tl s)" "nul_free (takeWhile P s)" "nul_free (dropWhile P s)"
proof -
  have "set (drop n s) \<subseteq> set s" "set (tl s) \<subseteq> set s" "set (takeWhile P s) \<subseteq> set s" "set (dropWhile P s) \<subseteq> set s"
    by (auto dest: in_set_dropD set_takeWhileD set_dropWhileD set_tl_subset [THEN subsetD])
  with assms show "nul_free (drop n s)" "nul_free (tl s)" "nul_free (takeWhile P s)" "nul_free (dropWhile P s)"
    by (auto simp: nul_free_iff)
qed

lemma nul_free_append: "nul_free (s @ t) \<longleftrightarrow> nul_free s \<and> nul_free t"
  by (auto simp: nul_free_iff)

lemma nul_free_Nil [simp]: "nul_free []"
  by (simp add: nul_free_iff)

lemma strtok_r_nul_free:
  "strtok_r breaks s = Some (token, cursor) \<Longrightarrow> nul_free s \<Longrightarrow> nul_free token \<and> nul_free cursor"
  by (auto simp: strtok_r_def Let_def nul_free_parts split: if_split_asm)

lemma Tokenize_loop_nul_free:
  "Tokenize_loop seps n tok cursor tokens = (ex, cursor', tokens') \<Longrightarrow>
    (\<forall>t. tok = Some t \<longrightarrow> nul_free t) \<Longrightarrow> nul_free cursor \<Longrightarrow> \<forall>t\<in>set tokens. nul_free t \<Longrightarrow>
    nul_free cursor' \<and> (\<forall>t\<in>set tokens'. nul_free t)"
proof (induction seps n tok cursor tokens rule: Tokenize_loop.induct)
  case (3 seps n token cursor tokens)
  have tk: "\<forall>t\<in>set (tokens @ [token]). nul_free t" using 3(5,7) by simp
  consider (zero) "n = 0" | (one) "n = 1" | (none) "n > 1" "strtok_r seps cursor = None"
    | (some) t c where "n > 1" "strtok_r seps cursor = Some (t, c)"
    by (cases "strtok_r seps cursor"; cases "n = 0"; cases "n = 1") auto
  then show ?case
  proof cases
    case zero
    then show ?thesis using 3(4,6,7) by simp
  next
    case one
    then have run: "Tokenize_loop seps n (Some token) cursor (tokens @ [token]) = (ex, cursor', tokens')" using 3(4) by simp
    show ?thesis by (rule 3(3) [OF _ _ run 3(5,6) tk]) (use one in simp_all)
  next
    case none
    then have run: "Tokenize_loop seps n None [] (tokens @ [token]) = (ex, cursor', tokens')" using 3(4) by simp
    show ?thesis by (rule 3(1) [OF _ none(1,2) run _ _ tk]) (use none in simp_all)
  next
    case some
    then have run: "Tokenize_loop seps n (Some t) c (tokens @ [token]) = (ex, cursor', tokens')" using 3(4) by simp
    have "nul_free t \<and> nul_free c" using some(2) 3(6) by (rule strtok_r_nul_free)
    then show ?thesis by (intro 3(2) [OF _ some(1,2) refl run _ _ tk]) (use some in simp_all)
  qed
qed simp_all

lemma Tokenize_nul_free:
  assumes "Tokenize line seps n = Some tokens" "nul_free line"
  shows "length tokens = n" "i < n \<Longrightarrow> nul_free (tokens ! i)"
proof -
  show len: "length tokens = n" using assms(1) by (auto simp: Tokenize_def Let_def split: prod.split_asm if_split_asm)
  define start where "start = (case strtok_r seps line of
      None \<Rightarrow> Tokenize_loop seps n None [] [] | Some (token, cursor) \<Rightarrow> Tokenize_loop seps n (Some token) cursor [])"
  obtain ex cursor toks where st: "start = (ex, cursor, toks)" by (cases start) auto
  have "nul_free cursor \<and> (\<forall>t\<in>set toks. nul_free t)"
  proof (cases "strtok_r seps line")
    case None
    then show ?thesis using st Tokenize_loop_nul_free [of seps n None "[]" "[]"] by (simp add: start_def)
  next
    case (Some p)
    obtain tk c where p: "p = (tk, c)" by (cases p)
    have "nul_free tk \<and> nul_free c" using strtok_r_nul_free Some p assms(2) by blast
    then show ?thesis using st Some p Tokenize_loop_nul_free [of seps n "Some tk" c "[]"] by (simp add: start_def)
  qed
  moreover have "tokens = toks \<or> (\<exists>t c. strtok_r line_breaks cursor = Some (t, c) \<and> tokens = toks @ [t])"
    using assms(1) st
    by (auto simp: Tokenize_def start_def [symmetric] Let_def split: if_split_asm option.split_asm prod.split_asm)
  ultimately have "\<forall>t\<in>set tokens. nul_free t" using strtok_r_nul_free by fastforce
  then show "nul_free (tokens ! i)" if "i < n" using len that by simp
qed

section \<open>The stored records fit the format\<close>

lemma int32_range_to_int32 [simp]: "int32_range (to_int32 i)"
  using sint_range_size [of "word_of_int i :: 32 word"] by (simp add: int32_range_def to_int32_def word_size)

lemma set_omap_insert_subset: "set (omap_insert k v m) \<subseteq> insert (k, v) (set m)"
  by (auto simp: omap_insert_def dest: set_takeWhileD set_dropWhileD split: if_split_asm)

lemma set_omap_assign_subset: "set (omap_assign k v m) \<subseteq> insert (k, v) (set m)"
  by (auto simp: omap_assign_def dest: set_takeWhileD set_dropWhileD)

lemma RangeMap_StoreRange_entries:
  "x \<in> set (snd (RangeMap_StoreRange m b s e)) \<Longrightarrow> rentry (snd x) = e \<or> x \<in> set m"
  using set_omap_insert_subset [of "b + s - 1" "\<lparr>rbase = b, rentry = e\<rparr>" m]
  by (auto simp: RangeMap_StoreRange_def Let_def split: if_split_asm)

lemma crm_StoreRange_entries:
  assumes "crm_inv n" "(b', h', w') \<in> crm_ranges (snd (ContainedRangeMap_StoreRange n b s w))"
  shows "w' = w \<or> (b', h', w') \<in> crm_ranges n"
  using assms by (auto simp: crm.ranges_store split: if_split_asm)

lemma module_fits_empty: "module_fits Module_empty"
  by (simp add: module_fits_def Module_empty_def crm_ranges_root)

lemma SymbolParseHelper_ParseFile_name:
  "SymbolParseHelper_ParseFile s = Some (i, name) \<Longrightarrow> nul_free s \<Longrightarrow> nul_free name"
  using Tokenize_nul_free(2) [of "drop 5 s" kWhitespace 2 _ 1] nul_free_parts(1) [of s 5]
  by (auto simp: SymbolParseHelper_ParseFile_def Let_def split: option.split_asm prod.split_asm if_split_asm)

lemma SymbolParseHelper_ParsePublicSymbol_name:
  "SymbolParseHelper_ParsePublicSymbol s = Some (a, n, name) \<Longrightarrow> nul_free s \<Longrightarrow> nul_free name"
  using Tokenize_nul_free(2) [of "drop 7 s" kWhitespace 3 _ 2] nul_free_parts(1) [of s 7]
  by (auto simp: SymbolParseHelper_ParsePublicSymbol_def Let_def split: option.split_asm prod.split_asm if_split_asm)

lemma module_fits_ParseFile: "module_fits m \<Longrightarrow> nul_free s \<Longrightarrow> module_fits (snd (Module_ParseFile s m))"
  by (auto simp: Module_ParseFile_def module_fits_def split: option.split
      dest!: set_omap_insert_subset [THEN subsetD] SymbolParseHelper_ParseFile_name)

lemma module_fits_ParsePublicSymbol:
  "module_fits m \<Longrightarrow> nul_free s \<Longrightarrow> module_fits (snd (Module_ParsePublicSymbol s m))"
  by (auto simp: Module_ParsePublicSymbol_def module_fits_def AddressMap_Store_def public_symbol_fits_def Let_def split: option.split
      dest!: set_omap_insert_subset [THEN subsetD] SymbolParseHelper_ParsePublicSymbol_name)

lemma ParseFunction_fits: "Module_ParseFunction s = Some f \<Longrightarrow> nul_free s \<Longrightarrow> function_fits f"
  using Tokenize_nul_free(2) [of "drop 5 s" kWhitespace 4 _ 3] nul_free_parts(1) [of s 5]
  by (auto simp: Module_ParseFunction_def SymbolParseHelper_ParseFunction_def function_fits_def Let_def
      split: option.split_asm prod.split_asm if_split_asm)

lemma ParseLine_fits: "Module_ParseLine s = Some l \<Longrightarrow> line_fits l"
  by (auto simp: Module_ParseLine_def line_fits_def)

lemma ParseFromString_fits:
  assumes "WindowsFrameInfo_ParseFromString s = Some (t, addr, sz, w)" "nul_free s"
  shows "windows_frame_info_fits w"
proof -
  obtain tokens where tk: "Tokenize s kWhitespace 11 = Some tokens"
    using assms(1) by (auto simp: WindowsFrameInfo_ParseFromString_def split: option.split_asm)
  have "nul_free (tokens ! 10)" by (rule Tokenize_nul_free(2) [OF tk assms(2)]) simp
  then show ?thesis
    using assms(1) tk
    by (auto simp: WindowsFrameInfo_ParseFromString_def windows_frame_info_fits_def Let_def split: if_split_asm)
qed

lemma module_fits_ParseCFIFrameInfo:
  "module_fits m \<Longrightarrow> nul_free s \<Longrightarrow> module_fits (snd (Module_ParseCFIFrameInfo s m))"
  by (auto simp: Module_ParseCFIFrameInfo_def module_fits_def split: option.split
      dest!: strtok_r_nul_free RangeMap_StoreRange_entries set_omap_assign_subset [THEN subsetD])

lemma module_fits_ParseStackInfo:
  assumes fits: "module_fits m" and inv: "module_inv m" and s: "nul_free s" "nul_free cursor" "\<forall>t. beyond = Some t \<longrightarrow> nul_free t"
    and run: "Module_ParseStackInfo s beyond cursor m = Returns (ok, m', cursor')"
  shows "module_fits m' \<and> nul_free cursor'"
proof -
  let ?p = "dropWhile (\<lambda>c. c = CHR '' '') (drop 6 s)"
  let ?rest = "dropWhile (\<lambda>c. c \<notin> set kWhitespace) ?p"
  have rest: "nul_free (tl ?rest)" using s(1) by (simp add: nul_free_parts)
  have store: "module_fits (m\<lparr>windows_frame_info := (windows_frame_info m)[nat t :=
      snd (ContainedRangeMap_StoreRange (windows_frame_info m ! nat t) addr sz w)]\<rparr>)"
    if p: "WindowsFrameInfo_ParseFromString i = Some (t, addr, sz, w)" and i: "nul_free i" for i t addr sz w
  proof -
    let ?n = "windows_frame_info m ! nat t"
    have t: "nat t < length (windows_frame_info m)" using parsed_type_range [OF p] inv by (auto simp: module_inv_def)
    then have n: "crm_inv ?n" "?n \<in> set (windows_frame_info m)" using inv by (auto simp: module_inv_def)
    have "windows_frame_info_fits w" using p i by (rule ParseFromString_fits)
    then have "\<forall>(b, h, v)\<in>crm_ranges (snd (ContainedRangeMap_StoreRange ?n addr sz w)). windows_frame_info_fits v"
      using crm_StoreRange_entries [OF n(1), of _ _ _ addr sz w] n(2) fits by (fastforce simp: module_fits_def)
    then show ?thesis
      using fits by (auto simp: module_fits_def dest!: set_update_subset_insert [THEN subsetD])
  qed
  have "nul_free (clobbered t)" if "nul_free t" for t
    using that by (simp add: clobbered_def nul_free_append nul_free_parts)
  then show ?thesis
    using run store rest fits s module_fits_ParseCFIFrameInfo [OF fits]
    by (auto simp: Module_ParseStackInfo_def Let_def case_prod_beta exec_bind_Returns_iff split: if_split_asm option.split_asm)
qed

lemma module_fits_function:
  "module_fits (lmodule l) \<Longrightarrow> function_fits f \<Longrightarrow> module_fits (lmodule (load_function f l))"
  by (auto simp: module_fits_def load_function_def Let_def)

lemma module_fits_line:
  assumes "module_fits (lmodule l)" "loader_inv l" "cur_func l = Some p" "line_fits line"
  shows "module_fits (lmodule (load_line p line l))"
proof -
  let ?m = "lmodule l"
  let ?f = "func_heap ?m ! p"
  have "?f \<in> set (func_heap ?m)" using assms(2,3) by (simp add: loader_inv_def)
  then have "function_fits ?f" using assms(1) by (simp add: module_fits_def)
  then have "function_fits (?f\<lparr>lines := snd (RangeMap_StoreRange (lines ?f) (laddress line) (lsize line) line)\<rparr>)"
    using assms(4) by (auto simp: function_fits_def dest!: RangeMap_StoreRange_entries)
  then show ?thesis
    using assms(1) by (auto simp: module_fits_def load_line_def Let_def dest!: set_update_subset_insert [THEN subsetD])
qed

lemma module_fits_record:
  assumes fits: "module_fits (lmodule l)" and inv: "loader_inv l"
    and s: "nul_free line" "nul_free cursor" "\<forall>t. beyond = Some t \<longrightarrow> nul_free t"
    and run: "load_record line beyond cursor l = Returns (l', cursor')"
  shows "module_fits (lmodule l') \<and> nul_free cursor'"
proof -
  have m: "module_inv (lmodule l)" using inv by (simp add: loader_inv_def)
  note stack = module_fits_ParseStackInfo [OF fits m s]
  show ?thesis
    using run s(2) fits module_fits_ParseFile [OF fits s(1)] module_fits_ParsePublicSymbol [OF fits s(1)]
    by (auto simp: load_record_def Let_def case_prod_beta exec_bind_Returns_iff LogParseError_def
        intro: module_fits_function module_fits_line [OF fits inv] ParseFunction_fits [OF _ s(1)] ParseLine_fits
        dest: stack split: if_split_asm option.split_asm)
qed

lemma module_fits_loop:
  "module_fits (lmodule l) \<Longrightarrow> loader_inv l \<Longrightarrow> nul_free s \<Longrightarrow> LoadMapFromMemory_loop spare s l = Returns l' \<Longrightarrow>
    module_fits (lmodule l')"
proof (induction spare s l rule: LoadMapFromMemory_loop.induct)
  case (1 spare s l)
  show ?case
  proof (cases "strtok_r line_breaks s")
    case None
    with 1(2,5) show ?thesis by (simp add: LoadMapFromMemory_loop.simps [of spare s])
  next
    case (Some p)
    obtain line cursor where p: "p = (line, cursor)" by (cases p)
    from 1(5) Some p obtain l1 cursor1 where
      rec: "load_record line (text_after_line spare s cursor) cursor l = Returns (l1, cursor1)"
      and rest: "(if num_errors l1 > kMaxErrorsBeforeBailing then Returns l1
        else LoadMapFromMemory_loop spare cursor1 l1) = Returns l'"
      by (subst (asm) LoadMapFromMemory_loop.simps) (auto elim!: exec_bind_pairE)
    have free: "nul_free line" "nul_free cursor" using strtok_r_nul_free Some p 1(4) by blast+
    then have beyond: "\<forall>t. text_after_line spare s cursor = Some t \<longrightarrow> nul_free t" by (auto simp: text_after_line_def)
    have next_ok: "module_fits (lmodule l1)" "nul_free cursor1" "loader_inv l1"
      using module_fits_record [OF 1(2,3) free beyond rec] loader_inv_record [OF 1(3) rec] by simp_all
    show ?thesis
    proof (cases "num_errors l1 > kMaxErrorsBeforeBailing")
      case True
      with rest next_ok show ?thesis by simp
    next
      case False
      with rest 1(1) [OF Some p [symmetric] rec refl False next_ok(1,3,2)] show ?thesis by simp
    qed
  qed
qed

lemma load_module_fits:
  assumes fits: "module_fits m" and inv: "module_inv m" and run: "Module_LoadMapFromMemory memory_buffer m = Returns (ok, m')"
  shows "module_fits m'"
proof (cases "memory_buffer = []")
  case True
  with fits run show ?thesis by (simp add: Module_LoadMapFromMemory_def)
next
  case False
  with run obtain spare s n l' where
    loop: "LoadMapFromMemory_loop spare (map (\<lambda>c. if c = CHR 0x00 then CHR ''_'' else c) s)
      \<lparr>lmodule = m, cur_func = None, num_errors = n\<rparr> = Returns l'"
    and m': "m' = (lmodule l')\<lparr>is_corrupt := num_errors l' > 0\<rparr>"
    by (auto simp: Module_LoadMapFromMemory_def Let_def exec_bind_Returns_iff)
  have "loader_inv \<lparr>lmodule = m, cur_func = None, num_errors = n\<rparr>" using inv by (simp add: loader_inv_def)
  moreover have "nul_free (map (\<lambda>c. if c = CHR 0x00 then CHR ''_'' else c) s)" by (auto simp: nul_free_iff)
  ultimately have "module_fits (lmodule l')" using module_fits_loop [OF _ _ _ loop] fits by simp
  then show ?thesis by (simp add: m' module_fits_def)
qed

section \<open>The two resolvers agree\<close>

lemma FastModule_queries:
  assumes "module_inv m" "module_fits m" "length (ModuleSerializer_Write m) < 2 ^ 32" "bytes_at mem 0 (ModuleSerializer_Write m)"
  shows "\<exists>fm. FastModule_LoadMapFromMemory (Some mem) = Returns (Some fm) \<and> fm_is_corrupt fm = is_corrupt m \<and>
    (\<forall>frame. FastModule_LookupAddress fm frame = Returns (Module_LookupAddress m frame) \<and>
       FastModule_FindWindowsFrameInfo fm frame = Returns (Module_FindWindowsFrameInfo m frame) \<and>
       FastModule_FindCFIFrameInfo fm frame = Returns (Module_FindCFIFrameInfo m frame))"
proof -
  obtain fm where fm: "FastModule_load_maps mem = Returns fm" "fast_module_at fm m" using assms by (rule FastModule_load)
  then show ?thesis
    using FastModule_LookupAddress_same [OF fm(2) assms(1-3)] FastModule_FindWindowsFrameInfo_same [OF fm(2) assms(1-3)]
      FastModule_FindCFIFrameInfo_same [OF fm(2) assms(1,2)]
    by (simp add: FastModule_LoadMapFromMemory_def fast_module_at_def)
qed

lemma bytes_at_self: "bytes_at bs 0 bs"
  by (simp add: bytes_at_def)

lemma Serialize_Returns:
  assumes "module_inv m" "ModuleSerializer_Serialize m = Returns (data, sz)"
  shows "data = ModuleSerializer_Write m" "length data < 2 ^ 32" "sz = of_nat (length data)"
proof -
  let ?n = "length (ModuleSerializer_Write m)"
  show data: "data = ModuleSerializer_Write m" "sz = of_nat (length data)"
    using assms ModuleSerializer_SizeOf_length [OF assms(1)]
    by (auto simp: ModuleSerializer_Serialize_def Let_def split: if_split_asm)
  have "?n \<le> unat (of_nat ?n :: 32 word)"
    using assms ModuleSerializer_SizeOf_length [OF assms(1)]
    by (auto simp: ModuleSerializer_Serialize_def Let_def split: if_split_asm)
  moreover have "unat (of_nat ?n :: 32 word) < 2 ^ 32" by (rule order.strict_trans2 [OF unsigned_less]) simp
  ultimately show "length data < 2 ^ 32" unfolding data by (rule order.strict_trans1)
qed

text \<open>C23. Whatever text symbol file the serializer turns into binary form, the fast resolver loads that form without
  reading outside it, and each of its three queries gives for every frame exactly the answer of the basic resolver
  that has read the text.\<close>

theorem SerializeSymbolFileData_queries:
  assumes "ModuleSerializer_SerializeSymbolFileData symbol_data = Returns (Some (data, sz))"
  shows "\<exists>m fm. Module_LoadMapFromMemory (symbol_data @ [CHR 0x00]) Module_empty = Returns (True, m) \<and>
    FastModule_LoadMapFromMemory (Some data) = Returns (Some fm) \<and> fm_is_corrupt fm = is_corrupt m \<and>
    (\<forall>frame. FastModule_LookupAddress fm frame = Returns (Module_LookupAddress m frame) \<and>
       FastModule_FindWindowsFrameInfo fm frame = Returns (Module_FindWindowsFrameInfo m frame) \<and>
       FastModule_FindCFIFrameInfo fm frame = Returns (Module_FindCFIFrameInfo m frame))"
proof -
  obtain m where m: "Module_LoadMapFromMemory (symbol_data @ [CHR 0x00]) Module_empty = Returns (True, m)"
    "ModuleSerializer_Serialize m = Returns (data, sz)"
    using assms by (auto simp: ModuleSerializer_SerializeSymbolFileData_def exec_bind_Returns_iff split: if_split_asm)
  have inv: "module_inv m" "module_fits m"
    using load_module_inv [OF module_inv_empty m(1)] load_module_fits [OF module_fits_empty module_inv_empty m(1)] by simp_all
  have "data = ModuleSerializer_Write m" "length data < 2 ^ 32" using Serialize_Returns [OF inv(1) m(2)] by simp_all
  with FastModule_queries [OF inv, of data] bytes_at_self [of data] m(1) show ?thesis by metis
qed

section \<open>A small symbol file\<close>

lemma func_module_size: "length (ModuleSerializer_Write func_module) = 188"
  by (simp add: length_ModuleSerializer_Write map_sizes_lengths map_bytes_def func_module_def Module_empty_def STACK_INFO_LAST_def
      StdMapSerializer_Write_def RangeMapSerializer_Write_def ContainedRangeMapSerializer_WriteRoot_def range_bytes_def
      ContainedRangeMap_root_def write_map_def sum_list_replicate header_size_def length_function_bytes string_SizeOf_def
      RangeMapSerializer_SizeOf_def addr_key_def)

lemma func_module_serialized:
  "ModuleSerializer_SerializeSymbolFileData ''FUNC 10 8 0 f'' = Returns (Some (ModuleSerializer_Write func_module, 188))"
proof -
  have "module_inv func_module" using load_module_inv [OF module_inv_empty func_module_loaded] by simp
  then have "(of_nat (ModuleSerializer_SizeOf func_module) :: 32 word) = 188"
    using ModuleSerializer_SizeOf_length func_module_size by simp
  then show ?thesis
    using func_module_loaded
    by (simp add: ModuleSerializer_SerializeSymbolFileData_def ModuleSerializer_Serialize_def Let_def func_module_size)
qed

definition blank_frame :: "64 word \<Rightarrow> StackFrame" where
  "blank_frame a = \<lparr>instruction = a, module_base = 0, function_name = [], function_base = 0, source_file_name = [],
     source_line = 0, source_line_base = 0\<rparr>"

theorem SerializeSymbolFileData_queries_witness:
  "\<exists>fm. FastModule_LoadMapFromMemory (Some (ModuleSerializer_Write func_module)) = Returns (Some fm) \<and>
    FastModule_LookupAddress fm (blank_frame 0x12) = Returns ((blank_frame 0x12)\<lparr>function_name := ''f'', function_base := 0x10\<rparr>)"
proof -
  obtain m fm where m: "Module_LoadMapFromMemory (''FUNC 10 8 0 f'' @ [CHR 0x00]) Module_empty = Returns (True, m)"
    "FastModule_LoadMapFromMemory (Some (ModuleSerializer_Write func_module)) = Returns (Some fm)"
    "\<forall>frame. FastModule_LookupAddress fm frame = Returns (Module_LookupAddress m frame)"
    using SerializeSymbolFileData_queries [OF func_module_serialized] by blast
  have "m = func_module" using m(1) func_module_loaded by simp
  moreover have "Module_LookupAddress func_module (blank_frame 0x12) =
      (blank_frame 0x12)\<lparr>function_name := ''f'', function_base := 0x10\<rparr>"
    by (simp add: Module_LookupAddress_def func_module_def Module_empty_def blank_frame_def RangeMap_RetrieveNearestRange_def
        RangeMap_RetrieveRange_def RangeMap_hit_def lower_bound_def)
  ultimately show ?thesis using m(2,3) by simp
qed

end
