(* ===== verification/Resolver_Conversion.thy ===== *)
theory Resolver_Conversion
  imports Fast_Load Symbolizer
begin

text \<open>
  Converting the modules of a basic resolver into a fast one (\<^verbatim>\<open>processor/module_serializer.cc\<close>), with the module table
  of the fast resolver (\<^verbatim>\<open>processor/source_line_resolver_base.cc\<close> over \<^verbatim>\<open>fast_source_line_resolver.cc\<close>): it keeps the
  buffers that its modules point into.
\<close>

section \<open>The fast resolver's table\<close>

record FastResolver =
  fr_modules :: "string \<rightharpoonup> FastModule"
  fr_corrupt_modules :: "string set"
  fr_memory_buffers :: "string \<rightharpoonup> bytes"

definition FastResolver_new :: FastResolver where
  "FastResolver_new = \<lparr>fr_modules = Map.empty, fr_corrupt_modules = {}, fr_memory_buffers = Map.empty\<rparr>"

text \<open>A null buffer makes the load fail on a module that is not corrupt, against the assertion.\<close>

definition Fast_LoadModuleUsingMemoryBuffer ::
  "CodeModule option \<Rightarrow> bytes option \<Rightarrow> FastResolver \<Rightarrow> (bool \<times> FastResolver) exec" where
  "Fast_LoadModuleUsingMemoryBuffer module memory_buffer r =
     (case module of
        None \<Rightarrow> Returns (False, r)
      | Some m \<Rightarrow>
          if fr_modules r (module_key m) \<noteq> None then Returns (False, r)
          else
            exec_bind (FastModule_LoadMapFromMemory memory_buffer) (\<lambda>loaded.
              case loaded of
                None \<Rightarrow> Undefined
              | Some fm \<Rightarrow>
                  let r = r\<lparr>fr_modules := (fr_modules r)(module_key m \<mapsto> fm)\<rparr>
                  in Returns (True, if fm_is_corrupt fm
                       then r\<lparr>fr_corrupt_modules := insert (module_key m) (fr_corrupt_modules r)\<rparr> else r)))"

text \<open>\<open>ShouldDeleteMemoryBufferAfterLoadModule\<close> is false in this class. An \<open>insert\<close> keeps a buffer that is there.\<close>

definition Fast_LoadModuleUsingMapBuffer ::
  "CodeModule option \<Rightarrow> bytes \<Rightarrow> FastResolver \<Rightarrow> (bool \<times> FastResolver) exec" where
  "Fast_LoadModuleUsingMapBuffer module map_buffer r =
     (case module of
        None \<Rightarrow> Returns (False, r)
      | Some m \<Rightarrow>
          if fr_modules r (module_key m) \<noteq> None then Returns (False, r)
          else
            let memory_buffer = map_buffer @ [0] in
            exec_bind (Fast_LoadModuleUsingMemoryBuffer module (Some memory_buffer) r) (\<lambda>(load_result, r).
              Returns (load_result,
                if load_result \<and> fr_memory_buffers r (module_key m) = None
                then r\<lparr>fr_memory_buffers := (fr_memory_buffers r)(module_key m \<mapsto> memory_buffer)\<rparr> else r)))"

definition Fast_UnloadModule :: "CodeModule option \<Rightarrow> FastResolver \<Rightarrow> FastResolver" where
  "Fast_UnloadModule code_module r =
     (case code_module of
        None \<Rightarrow> r
      | Some m \<Rightarrow>
          let r = (if fr_modules r (module_key m) \<noteq> None
                   then r\<lparr>fr_corrupt_modules := fr_corrupt_modules r - {module_key m},
                          fr_modules := (fr_modules r)(module_key m := None)\<rparr>
                   else r)
          in r\<lparr>fr_memory_buffers := (fr_memory_buffers r)(module_key m := None)\<rparr>)"

definition fast_query :: "FastResolver \<Rightarrow> 'z Frame_scheme \<Rightarrow> (FastModule \<Rightarrow> 'a exec) \<Rightarrow> 'a \<Rightarrow> 'a exec" where
  "fast_query r frame q otherwise =
     (case fmodule frame of
        None \<Rightarrow> Returns otherwise
      | Some m \<Rightarrow> (case fr_modules r (module_key m) of None \<Rightarrow> Returns otherwise | Some fm \<Rightarrow> q fm))"

definition Fast_FillSourceLineInfo :: "FastResolver \<Rightarrow> 'z Frame_scheme \<Rightarrow> 'z Frame_scheme exec" where
  "Fast_FillSourceLineInfo r frame =
     fast_query r frame
       (\<lambda>fm. exec_bind (FastModule_LookupAddress fm (sf frame)) (\<lambda>s. Returns (frame\<lparr>sf := s\<rparr>))) frame"

definition Fast_FindWindowsFrameInfo :: "FastResolver \<Rightarrow> 'z Frame_scheme \<Rightarrow> WindowsFrameInfo option exec" where
  "Fast_FindWindowsFrameInfo r frame = fast_query r frame (\<lambda>fm. FastModule_FindWindowsFrameInfo fm (sf frame)) None"

definition Fast_FindCFIFrameInfo :: "FastResolver \<Rightarrow> 'z Frame_scheme \<Rightarrow> CFIFrameInfo option exec" where
  "Fast_FindCFIFrameInfo r frame = fast_query r frame (\<lambda>fm. FastModule_FindCFIFrameInfo fm (sf frame)) None"

section \<open>Conversion\<close>

definition SerializeModuleAndLoadIntoFastResolver ::
  "string \<times> Module \<Rightarrow> FastResolver \<Rightarrow> (bool \<times> FastResolver) exec" where
  "SerializeModuleAndLoadIntoFastResolver iter fast_resolver =
     exec_bind (ModuleSerializer_Serialize (snd iter)) (\<lambda>(symbol_data, sz).
       let symbol_data_string = take (unat sz) symbol_data;
           code_module = \<lparr>base_address = 0, size_of = 0, code_file = fst iter, code_id = [], debug_file = [],
             debug_identifier = [], version = []\<rparr>
       in Fast_LoadModuleUsingMapBuffer (Some code_module) symbol_data_string fast_resolver)"

text \<open>\<open>entries\<close> is the table of the basic resolver in the order of its iterator.\<close>

fun convert_entries :: "(string \<times> Module) list \<Rightarrow> FastResolver \<Rightarrow> FastResolver exec" where
  "convert_entries [] fast_resolver = Returns fast_resolver"
| "convert_entries (iter # entries) fast_resolver =
     exec_bind (SerializeModuleAndLoadIntoFastResolver iter fast_resolver) (\<lambda>(_, r). convert_entries entries r)"

definition ConvertAllModules ::
  "string list \<Rightarrow> Resolver option \<Rightarrow> FastResolver option \<Rightarrow> FastResolver option exec" where
  "ConvertAllModules ks basic_resolver fast_resolver =
     (case (basic_resolver, fast_resolver) of
        (Some b, Some f) \<Rightarrow>
          exec_bind (convert_entries (map (\<lambda>k. (k, the (modules b k))) ks) f) (\<lambda>f. Returns (Some f))
      | _ \<Rightarrow> Returns fast_resolver)"

definition ConvertOneModule ::
  "string \<Rightarrow> Resolver option \<Rightarrow> FastResolver option \<Rightarrow> (bool \<times> FastResolver option) exec" where
  "ConvertOneModule moduleid basic_resolver fast_resolver =
     (case (basic_resolver, fast_resolver) of
        (Some b, Some f) \<Rightarrow>
          (case modules b (c_str moduleid) of
             None \<Rightarrow> Returns (False, fast_resolver)
           | Some m \<Rightarrow>
               exec_bind (SerializeModuleAndLoadIntoFastResolver (c_str moduleid, m) f) (\<lambda>(ok, f). Returns (ok, Some f)))
      | _ \<Rightarrow> Returns (False, fast_resolver))"

section \<open>The converted resolver answers as the basic one\<close>

definition convertible :: "Module \<Rightarrow> bool" where
  "convertible m \<longleftrightarrow> module_inv m \<and> module_fits m \<and> length (ModuleSerializer_Write m) < 2 ^ 32"

text \<open>The fast resolver holds, under the keys \<open>K\<close>, the binary forms of the modules of the basic one, and their buffers.\<close>

definition converted :: "Resolver \<Rightarrow> string set \<Rightarrow> FastResolver \<Rightarrow> bool" where
  "converted b K f \<longleftrightarrow>
     dom (fr_modules f) = K \<and>
     (\<forall>k fm. fr_modules f k = Some fm \<longrightarrow>
        (\<exists>m. modules b k = Some m \<and> convertible m \<and> fast_module_at fm m) \<and> fr_memory_buffers f k = Some (buffer fm)) \<and>
     dom (fr_memory_buffers f) = K \<and> fr_corrupt_modules f = {k \<in> K. \<exists>m. modules b k = Some m \<and> is_corrupt m}"

lemma bytes_at_prefix: "bytes_at (bs @ r) 0 bs"
  by (simp add: bytes_at_def)

lemma Serialize_convertible:
  assumes "convertible m"
  shows "ModuleSerializer_Serialize m = Returns (ModuleSerializer_Write m, of_nat (length (ModuleSerializer_Write m)))"
    "unat (of_nat (length (ModuleSerializer_Write m)) :: 32 word) = length (ModuleSerializer_Write m)"
proof -
  let ?n = "length (ModuleSerializer_Write m)"
  show n: "unat (of_nat ?n :: 32 word) = ?n"
    using assms by (simp add: convertible_def unsigned_of_nat take_bit_nat_eq_self)
  show "ModuleSerializer_Serialize m = Returns (ModuleSerializer_Write m, of_nat ?n)"
    using assms n by (simp add: convertible_def ModuleSerializer_Serialize_def Let_def ModuleSerializer_SizeOf_length)
qed

lemma converted_step:
  assumes f: "converted b K f" and k: "k \<notin> K" "c_str k = k" and m: "modules b k = Some m" "convertible m"
  obtains f' where "SerializeModuleAndLoadIntoFastResolver (k, m) f = Returns (True, f')" "converted b (insert k K) f'"
proof -
  let ?buf = "ModuleSerializer_Write m @ [0]"
  obtain fm where fm: "FastModule_load_maps ?buf = Returns fm" "buffer fm = ?buf" "fast_module_at fm m"
    by (rule FastModule_load [of m ?buf]) (use m(2) bytes_at_prefix in \<open>simp_all add: convertible_def\<close>)
  have new: "fr_modules f k = None" "fr_memory_buffers f k = None" using f k(1) by (auto simp: converted_def)
  have corrupt: "fm_is_corrupt fm = is_corrupt m" using fm(3) by (simp add: fast_module_at_def)
  let ?f = "f\<lparr>fr_modules := (fr_modules f)(k \<mapsto> fm),
      fr_corrupt_modules := (if is_corrupt m then insert k (fr_corrupt_modules f) else fr_corrupt_modules f),
      fr_memory_buffers := (fr_memory_buffers f)(k \<mapsto> ?buf)\<rparr>"
  have "SerializeModuleAndLoadIntoFastResolver (k, m) f = Returns (True, ?f)"
    using new k(2) fm(1) corrupt
    by (simp add: SerializeModuleAndLoadIntoFastResolver_def Serialize_convertible [OF m(2)] Fast_LoadModuleUsingMapBuffer_def
        Fast_LoadModuleUsingMemoryBuffer_def FastModule_LoadMapFromMemory_def module_key_def Let_def)
  moreover have "converted b (insert k K) ?f"
    using f k(1) m fm by (auto simp: converted_def)
  ultimately show ?thesis by (rule that)
qed

lemma convert_entries_converted:
  assumes "converted b K f" "distinct ks" "set ks \<inter> K = {}" "\<forall>k\<in>set ks. c_str k = k \<and> (\<exists>m. modules b k = Some m \<and> convertible m)"
  shows "\<exists>f'. convert_entries (map (\<lambda>k. (k, the (modules b k))) ks) f = Returns f' \<and> converted b (set ks \<union> K) f'"
  using assms
proof (induction ks arbitrary: K f)
  case (Cons k ks)
  obtain m where m: "modules b k = Some m" "convertible m" using Cons.prems(4) by auto
  obtain f1 where f1: "SerializeModuleAndLoadIntoFastResolver (k, m) f = Returns (True, f1)" "converted b (insert k K) f1"
    using converted_step [OF Cons.prems(1) _ _ m] Cons.prems(3,4) by auto
  from Cons.IH [OF f1(2)] Cons.prems(2-4) obtain f' where
    "convert_entries (map (\<lambda>k. (k, the (modules b k))) ks) f1 = Returns f'" "converted b (set ks \<union> insert k K) f'" by auto
  then show ?case using f1(1) m(1) by simp
qed simp

lemma converted_queries:
  assumes "converted b (dom (modules b)) f"
  shows "Fast_FillSourceLineInfo f frame = Returns (Resolver_FillSourceLineInfo b frame)"
    "Fast_FindWindowsFrameInfo f frame = Returns (Resolver_FindWindowsFrameInfo b frame)"
    "Fast_FindCFIFrameInfo f frame = Returns (Resolver_FindCFIFrameInfo b frame)"
proof -
  have "Fast_FillSourceLineInfo f frame = Returns (Resolver_FillSourceLineInfo b frame) \<and>
    Fast_FindWindowsFrameInfo f frame = Returns (Resolver_FindWindowsFrameInfo b frame) \<and>
    Fast_FindCFIFrameInfo f frame = Returns (Resolver_FindCFIFrameInfo b frame)"
  proof (cases "fmodule frame")
    case None
    then show ?thesis
      by (simp add: Fast_FillSourceLineInfo_def Fast_FindWindowsFrameInfo_def Fast_FindCFIFrameInfo_def fast_query_def
          Resolver_FillSourceLineInfo_def Resolver_FindWindowsFrameInfo_def Resolver_FindCFIFrameInfo_def)
  next
    case (Some c)
    note defs = Some Fast_FillSourceLineInfo_def Fast_FindWindowsFrameInfo_def Fast_FindCFIFrameInfo_def fast_query_def
      Resolver_FillSourceLineInfo_def Resolver_FindWindowsFrameInfo_def Resolver_FindCFIFrameInfo_def
    show ?thesis
    proof (cases "fr_modules f (module_key c)")
      case None
      then have "modules b (module_key c) = None" using assms domIff [of "module_key c" "modules b"] domIff [of "module_key c" "fr_modules f"]
        by (simp add: converted_def)
      with None show ?thesis by (simp add: defs)
    next
      case (Some fm)
      then obtain m where m: "modules b (module_key c) = Some m" "convertible m" "fast_module_at fm m"
        using assms unfolding converted_def by blast
      have inv: "module_inv m" "module_fits m" "length (ModuleSerializer_Write m) < 2 ^ 32"
        using m(2) by (simp_all add: convertible_def)
      show ?thesis
        using Some m(1) FastModule_LookupAddress_same [OF m(3) inv] FastModule_FindWindowsFrameInfo_same [OF m(3) inv]
          FastModule_FindCFIFrameInfo_same [OF m(3) inv(1,2)]
        by (simp add: defs)
    qed
  qed
  then show "Fast_FillSourceLineInfo f frame = Returns (Resolver_FillSourceLineInfo b frame)"
    "Fast_FindWindowsFrameInfo f frame = Returns (Resolver_FindWindowsFrameInfo b frame)"
    "Fast_FindCFIFrameInfo f frame = Returns (Resolver_FindCFIFrameInfo b frame)" by simp_all
qed

lemma converted_new: "converted b {} FastResolver_new"
  by (simp add: converted_def FastResolver_new_def)

text \<open>C24. Converting all modules of a basic resolver into a fresh fast one, each under four gigabytes, succeeds; the fast
  resolver then holds the same modules, keeps the buffer of each, marks the same modules as corrupt, and for every
  frame fills in the same source line and finds the same Windows and CFI frame information.\<close>

theorem ConvertAllModules_agrees:
  assumes "set ks = dom (modules b)" "distinct ks" "\<forall>k\<in>set ks. c_str k = k"
    and "\<forall>m\<in>ran (modules b). module_inv m \<and> module_fits m \<and> length (ModuleSerializer_Write m) < 2 ^ 32"
  shows "\<exists>f. ConvertAllModules ks (Some b) (Some FastResolver_new) = Returns (Some f) \<and>
    dom (fr_modules f) = dom (modules b) \<and> dom (fr_memory_buffers f) = dom (modules b) \<and>
    fr_corrupt_modules f = {k. \<exists>m. modules b k = Some m \<and> is_corrupt m} \<and>
    (\<forall>frame :: Frame.
       Fast_FillSourceLineInfo f frame = Returns (Resolver_FillSourceLineInfo b frame) \<and>
       Fast_FindWindowsFrameInfo f frame = Returns (Resolver_FindWindowsFrameInfo b frame) \<and>
       Fast_FindCFIFrameInfo f frame = Returns (Resolver_FindCFIFrameInfo b frame))"
proof -
  have "\<forall>k\<in>set ks. c_str k = k \<and> (\<exists>m. modules b k = Some m \<and> convertible m)"
    using assms(1,3,4) by (fastforce simp: convertible_def ran_def)
  from convert_entries_converted [OF converted_new assms(2) _ this] obtain f where
    f: "convert_entries (map (\<lambda>k. (k, the (modules b k))) ks) FastResolver_new = Returns f" "converted b (dom (modules b)) f"
    using assms(1) by auto
  moreover have "dom (fr_modules f) = dom (modules b)" "dom (fr_memory_buffers f) = dom (modules b)"
    "fr_corrupt_modules f = {k. \<exists>m. modules b k = Some m \<and> is_corrupt m}"
    using f(2) by (auto simp: converted_def)
  ultimately show ?thesis by (simp add: ConvertAllModules_def converted_queries [OF f(2)])
qed

theorem ConvertAllModules_agrees_witness:
  "\<exists>f. ConvertAllModules [''a.so''] (Some (Resolver_new\<lparr>modules := [''a.so'' \<mapsto> func_module]\<rparr>)) (Some FastResolver_new) =
      Returns (Some f) \<and> dom (fr_modules f) = {''a.so''} \<and> fr_corrupt_modules f = {}"
proof -
  have m: "module_inv func_module" "module_fits func_module"
    using load_module_inv [OF module_inv_empty func_module_loaded]
      load_module_fits [OF module_fits_empty module_inv_empty func_module_loaded] by simp_all
  have "c_str ''a.so'' = ''a.so''" by (simp add: c_str_def)
  moreover have "\<not> is_corrupt func_module" by (simp add: func_module_def Module_empty_def)
  ultimately show ?thesis
    using ConvertAllModules_agrees [of "[''a.so'']" "Resolver_new\<lparr>modules := [''a.so'' \<mapsto> func_module]\<rparr>"] m func_module_size
    by (auto split: if_split_asm)
qed

end
