(* ===== verification/Byte_Reader.thy ===== *)
theory Byte_Reader
  imports Static_Map
begin

unbundle bit_operations_syntax

text \<open>
  The reader of multi-byte values in DWARF sections (\<^verbatim>\<open>common/dwarf/bytereader.h\<close>, \<^verbatim>\<open>bytereader-inl.h\<close>,
  \<^verbatim>\<open>bytereader.cc\<close>), and the encoders of LEB128 numbers of \<^verbatim>\<open>common/test_assembler.cc\<close>. A pointer into a buffer
  is the rest of the buffer from there on; a read past its end is undefined behaviour, and so is a shift by 64 or more. A
  failed assertion and \<open>abort\<close> have the same outcome. The conversions between signed and unsigned 64-bit
  numbers wrap.
\<close>

section \<open>Fixed-size values\<close>

datatype Endianness = ENDIANNESS_BIG | ENDIANNESS_LITTLE

text \<open>A size of zero is not set yet. \<open>cfi_base\<close> is the address of the section and the position of its buffer.\<close>

record ByteReader =
  endian :: Endianness
  address_size :: nat
  offset_size :: nat
  cfi_base :: "(64 word \<times> nat) option"
  text_base :: "64 word option"
  data_base :: "64 word option"
  function_base :: "64 word option"

definition ByteReader_new :: "Endianness \<Rightarrow> ByteReader" where
  "ByteReader_new e = \<lparr>endian = e, address_size = 0, offset_size = 0, cfi_base = None, text_base = None,
     data_base = None, function_base = None\<rparr>"

definition SetOffsetSize :: "nat \<Rightarrow> ByteReader \<Rightarrow> ByteReader exec" where
  "SetOffsetSize n r = (if n = 4 \<or> n = 8 then Returns (r\<lparr>offset_size := n\<rparr>) else Undefined)"

definition SetAddressSize :: "nat \<Rightarrow> ByteReader \<Rightarrow> ByteReader exec" where
  "SetAddressSize n r = (if n = 4 \<or> n = 8 then Returns (r\<lparr>address_size := n\<rparr>) else Undefined)"

definition SetCFIDataBase :: "64 word \<Rightarrow> nat \<Rightarrow> ByteReader \<Rightarrow> ByteReader" where
  "SetCFIDataBase section_base buffer_base r = r\<lparr>cfi_base := Some (section_base, buffer_base)\<rparr>"

definition SetTextBase :: "64 word \<Rightarrow> ByteReader \<Rightarrow> ByteReader" where
  "SetTextBase a r = r\<lparr>text_base := Some a\<rparr>"

definition SetDataBase :: "64 word \<Rightarrow> ByteReader \<Rightarrow> ByteReader" where
  "SetDataBase a r = r\<lparr>data_base := Some a\<rparr>"

definition SetFunctionBase :: "64 word \<Rightarrow> ByteReader \<Rightarrow> ByteReader" where
  "SetFunctionBase a r = r\<lparr>function_base := Some a\<rparr>"

definition ClearFunctionBase :: "ByteReader \<Rightarrow> ByteReader" where
  "ClearFunctionBase r = r\<lparr>function_base := None\<rparr>"

fun ReadOneByte :: "bytes \<Rightarrow> 8 word exec" where
  "ReadOneByte (b # _) = Returns b"
| "ReadOneByte [] = Undefined"

fun ReadTwoBytes :: "ByteReader \<Rightarrow> bytes \<Rightarrow> 16 word exec" where
  "ReadTwoBytes r (b0 # b1 # _) =
     Returns (if endian r = ENDIANNESS_LITTLE then ucast b0 OR push_bit 8 (ucast b1)
              else ucast b1 OR push_bit 8 (ucast b0))"
| "ReadTwoBytes r _ = Undefined"

definition four_bytes :: "8 word \<Rightarrow> 8 word \<Rightarrow> 8 word \<Rightarrow> 8 word \<Rightarrow> 32 word" where
  "four_bytes b0 b1 b2 b3 = ucast b0 OR push_bit 8 (ucast b1) OR push_bit 16 (ucast b2) OR push_bit 24 (ucast b3)"

fun ReadFourBytes :: "ByteReader \<Rightarrow> bytes \<Rightarrow> 64 word exec" where
  "ReadFourBytes r (b0 # b1 # b2 # b3 # _) =
     Returns (ucast (if endian r = ENDIANNESS_LITTLE then four_bytes b0 b1 b2 b3 else four_bytes b3 b2 b1 b0))"
| "ReadFourBytes r _ = Undefined"

definition eight_bytes ::
    "8 word \<Rightarrow> 8 word \<Rightarrow> 8 word \<Rightarrow> 8 word \<Rightarrow> 8 word \<Rightarrow> 8 word \<Rightarrow> 8 word \<Rightarrow> 8 word \<Rightarrow> 64 word" where
  "eight_bytes b0 b1 b2 b3 b4 b5 b6 b7 =
     ucast b0 OR push_bit 8 (ucast b1) OR push_bit 16 (ucast b2) OR push_bit 24 (ucast b3) OR
     push_bit 32 (ucast b4) OR push_bit 40 (ucast b5) OR push_bit 48 (ucast b6) OR push_bit 56 (ucast b7)"

fun ReadEightBytes :: "ByteReader \<Rightarrow> bytes \<Rightarrow> 64 word exec" where
  "ReadEightBytes r (b0 # b1 # b2 # b3 # b4 # b5 # b6 # b7 # _) =
     Returns (if endian r = ENDIANNESS_LITTLE then eight_bytes b0 b1 b2 b3 b4 b5 b6 b7
              else eight_bytes b7 b6 b5 b4 b3 b2 b1 b0)"
| "ReadEightBytes r _ = Undefined"

definition ReadOffset :: "ByteReader \<Rightarrow> bytes \<Rightarrow> 64 word exec" where
  "ReadOffset r bs =
     (if offset_size r = 4 then ReadFourBytes r bs else if offset_size r = 8 then ReadEightBytes r bs else Undefined)"

definition ReadAddress :: "ByteReader \<Rightarrow> bytes \<Rightarrow> 64 word exec" where
  "ReadAddress r bs =
     (if address_size r = 4 then ReadFourBytes r bs else if address_size r = 8 then ReadEightBytes r bs else Undefined)"

text \<open>The length, the number of bytes it takes, and the reader with the offset size that it tells.\<close>

definition ReadInitialLength :: "ByteReader \<Rightarrow> bytes \<Rightarrow> (64 word \<times> nat \<times> ByteReader) exec" where
  "ReadInitialLength r bs =
     exec_bind (ReadFourBytes r bs) (\<lambda>initial_length.
       if initial_length = 0xffffffff
       then exec_bind (SetOffsetSize 8 r) (\<lambda>r. exec_bind (ReadOffset r (drop 4 bs)) (\<lambda>n. Returns (n, 12, r)))
       else exec_bind (SetOffsetSize 4 r) (\<lambda>r. Returns (initial_length, 4, r)))"

section \<open>LEB128 numbers\<close>

text \<open>The loops, with the shift, the result and the number of bytes so far. The signed loop also gives the last shift and
  the last byte.\<close>

fun uleb_loop :: "bytes \<Rightarrow> nat \<Rightarrow> 64 word \<Rightarrow> nat \<Rightarrow> (64 word \<times> nat) exec" where
  "uleb_loop [] shift result num_read = Undefined"
| "uleb_loop (byte # buffer) shift result num_read =
     (if 64 \<le> shift then Undefined
      else
        let result = result OR push_bit shift (ucast (byte AND 0x7f)) in
        if byte AND 0x80 \<noteq> 0 then uleb_loop buffer (shift + 7) result (Suc num_read)
        else Returns (result, Suc num_read))"

definition ReadUnsignedLEB128 :: "bytes \<Rightarrow> (64 word \<times> nat) exec" where
  "ReadUnsignedLEB128 buffer = uleb_loop buffer 0 0 0"

fun sleb_loop :: "bytes \<Rightarrow> nat \<Rightarrow> 64 word \<Rightarrow> nat \<Rightarrow> (64 word \<times> nat \<times> nat \<times> 8 word) exec" where
  "sleb_loop [] shift result num_read = Undefined"
| "sleb_loop (byte # buffer) shift result num_read =
     (if 64 \<le> shift then Undefined
      else
        let result = result OR push_bit shift (ucast (byte AND 0x7f)) in
        if byte AND 0x80 \<noteq> 0 then sleb_loop buffer (shift + 7) result (Suc num_read)
        else Returns (result, shift + 7, Suc num_read, byte))"

text \<open>In a number of nine bytes with the sign bit set, the source negates \<open>1 << 63\<close> as a signed number. C++ leaves that
  overflow open; here it wraps, as the compilers of the supported platforms compile it.\<close>

definition ReadSignedLEB128 :: "bytes \<Rightarrow> (64 word \<times> nat) exec" where
  "ReadSignedLEB128 buffer =
     exec_bind (sleb_loop buffer 0 0 0) (\<lambda>(result, shift, num_read, byte).
       Returns (if shift < 64 \<and> byte AND 0x40 \<noteq> 0 then result OR - push_bit shift 1 else result, num_read))"

text \<open>The encoders of the assembler.\<close>

function ULEB128 :: "64 word \<Rightarrow> bytes" where
  "ULEB128 v = (if 0x7f < v then (ucast (v AND 0x7f) OR 0x80) # ULEB128 (drop_bit 7 v) else [ucast v])"
  by pat_completeness auto
termination
proof (relation "measure unat")
  fix v :: "64 word"
  assume "0x7f < v"
  then have "0 < unat v" by (simp add: word_less_nat_alt)
  then show "(drop_bit 7 v, v) \<in> measure unat"
    by (simp add: unat_drop_bit_eq drop_bit_nat_def)
qed simp

declare ULEB128.simps [simp del]

function LEB128 :: "int \<Rightarrow> bytes" where
  "LEB128 v = (if v < - 0x40 \<or> 0x3f < v then (word_of_int v AND 0x7f OR 0x80) # LEB128 (v div 128)
     else [word_of_int v AND 0x7f])"
  by pat_completeness auto
termination
  by (relation "measure (\<lambda>v. nat (abs v))") auto

declare LEB128.simps [simp del]

section \<open>Encoded pointers\<close>

definition DW_EH_PE_omit :: "8 word" where "DW_EH_PE_omit = 0xff"
definition DW_EH_PE_aligned :: "8 word" where "DW_EH_PE_aligned = 0x50"

definition ValidEncoding :: "8 word \<Rightarrow> bool" where
  "ValidEncoding encoding =
     (if encoding = DW_EH_PE_omit then True
      else if encoding = DW_EH_PE_aligned then True
      else if encoding AND 0x7 > 0x04 then False
      else if encoding AND 0x70 > 0x40 then False
      else True)"

definition UsableEncoding :: "ByteReader \<Rightarrow> 8 word \<Rightarrow> bool" where
  "UsableEncoding r encoding =
     (let base = encoding AND 0x70 in
      if base = 0x00 then True
      else if base = 0x10 then cfi_base r \<noteq> None
      else if base = 0x20 then text_base r \<noteq> None
      else if base = 0x30 then data_base r \<noteq> None
      else if base = 0x40 then function_base r \<noteq> None
      else False)"

text \<open>The value in the low half of the encoding, and its length.\<close>

definition encoded_value :: "ByteReader \<Rightarrow> 8 word \<Rightarrow> bytes \<Rightarrow> (64 word \<times> nat) exec" where
  "encoded_value r encoding buffer =
     (let form = encoding AND 0x0f in
      if form = 0x00 then exec_bind (ReadAddress r buffer) (\<lambda>v. Returns (v, address_size r))
      else if form = 0x01 then ReadUnsignedLEB128 buffer
      else if form = 0x02 then exec_bind (ReadTwoBytes r buffer) (\<lambda>v. Returns (ucast v, 2))
      else if form = 0x03 then exec_bind (ReadFourBytes r buffer) (\<lambda>v. Returns (v, 4))
      else if form = 0x04 then exec_bind (ReadEightBytes r buffer) (\<lambda>v. Returns (v, 8))
      else if form = 0x09 then ReadSignedLEB128 buffer
      else if form = 0x0a then
        exec_bind (ReadTwoBytes r buffer) (\<lambda>v. Returns ((ucast v XOR 0x8000) - 0x8000, 2))
      else if form = 0x0b then
        exec_bind (ReadFourBytes r buffer) (\<lambda>v. Returns ((v XOR 0x80000000) - 0x80000000, 4))
      else if form = 0x0c then exec_bind (ReadEightBytes r buffer) (\<lambda>v. Returns (v, 8))
      else Undefined)"

text \<open>The base in the high half. \<open>position\<close> is where the pointer lies.\<close>

definition encoded_base :: "ByteReader \<Rightarrow> 8 word \<Rightarrow> nat \<Rightarrow> 64 word exec" where
  "encoded_base r encoding position =
     (let kind = encoding AND 0x70; of_base = (\<lambda>b. case b of Some a \<Rightarrow> Returns a | None \<Rightarrow> Undefined) in
      if kind = 0x00 then Returns 0
      else if kind = 0x10 then
        (case cfi_base r of
           Some (section_base, buffer_base) \<Rightarrow> Returns (section_base + (of_nat position - of_nat buffer_base))
         | None \<Rightarrow> Undefined)
      else if kind = 0x20 then of_base (text_base r)
      else if kind = 0x30 then of_base (data_base r)
      else if kind = 0x40 then of_base (function_base r)
      else Undefined)"

text \<open>\<open>ReadEncodedPointer\<close> at a position of a section: the pointer and its length.\<close>

definition ReadEncodedPointer :: "ByteReader \<Rightarrow> bytes \<Rightarrow> nat \<Rightarrow> 8 word \<Rightarrow> (64 word \<times> 64 word) exec" where
  "ReadEncodedPointer r sec position encoding =
     (if encoding = DW_EH_PE_omit then Undefined
      else if encoding = DW_EH_PE_aligned then
        (case cfi_base r of
           None \<Rightarrow> Undefined
         | Some (section_base, buffer_base) \<Rightarrow>
             let size = of_nat (address_size r) :: 64 word;
                 skew = section_base AND (size - 1);
                 offset = skew + (of_nat position - of_nat buffer_base);
                 aligned = (offset + size - 1) AND - size;
                 aligned_position = buffer_base + unat (aligned - skew)
             in exec_bind (ReadAddress r (drop aligned_position sec))
                  (\<lambda>v. Returns (v, of_nat aligned_position - of_nat position + size)))
      else
        exec_bind (encoded_value r encoding (drop position sec)) (\<lambda>(offset, len).
        exec_bind (encoded_base r encoding position) (\<lambda>base.
          let pointer = base + offset in
          if address_size r = 4 then Returns (pointer AND 0xffffffff, of_nat len)
          else if address_size r = 8 then Returns (pointer, of_nat len)
          else Undefined)))"

section \<open>LEB128 numbers are read as they are written\<close>

lemma bit_0x7f: "bit (0x7f :: int) n \<longleftrightarrow> n < 7"
proof -
  have "(0x7f :: int) = mask 7" by (simp add: mask_eq_exp_minus_1)
  then show ?thesis by (simp only: bit_mask_iff) simp
qed

lemma bit_0x80: "bit (0x80 :: int) n \<longleftrightarrow> n = 7"
proof -
  have "(0x80 :: int) = 2 ^ 7" by simp
  then show ?thesis by (simp only: bit_exp_iff) auto
qed

lemmas leb_bits = bit_simps bit_0x7f bit_0x80

lemma low_bits_byte: "ucast ((ucast (v AND 0x7f) OR 0x80 :: 8 word) AND 0x7f) = (v AND 0x7f :: 64 word)"
  by (rule bit_word_eqI) (auto simp: leb_bits)

lemma high_bit_byte: "(b OR 0x80 :: 8 word) AND 0x80 \<noteq> 0"
proof -
  have "bit ((b OR 0x80) AND 0x80) 7" by (simp add: leb_bits)
  then show ?thesis by (metis bit_0_eq bot_apply bot_bool_def)
qed

lemma small_byte:
  assumes "\<not> 0x7f < (v :: 64 word)"
  shows "ucast ((ucast v :: 8 word) AND 0x7f) = v" "(ucast v :: 8 word) AND 0x80 = 0"
proof -
  have "unat (drop_bit 7 v) = 0"
    using assms by (simp add: unat_drop_bit_eq drop_bit_nat_def word_less_nat_alt)
  then have "drop_bit 7 v = 0" by (simp only: unsigned_eq_0_iff)
  moreover have "bit (drop_bit 7 v) (n - 7) = bit v n" if "7 \<le> n" for n
    using that by (simp add: bit_drop_bit_eq)
  ultimately have b: "bit v n \<Longrightarrow> n < 7" for n by (metis bit_0_eq bot_apply bot_bool_def not_le)
  have "bit (ucast ((ucast v :: 8 word) AND 0x7f) :: 64 word) n = bit v n" if "n < 64" for n
    using that b [of n] by (auto simp: leb_bits)
  then show "ucast ((ucast v :: 8 word) AND 0x7f) = v" by (intro bit_word_eqI) simp
  have "\<not> bit ((ucast v :: 8 word) AND 0x80) n" for n
    using b [of 7] by (auto simp: leb_bits)
  then show "(ucast v :: 8 word) AND 0x80 = 0" by (intro bit_word_eqI) simp
qed

lemma split_low_bits: "push_bit s (v AND 0x7f) OR push_bit (s + 7) (drop_bit 7 v) = push_bit s (v :: 64 word)"
proof (rule bit_word_eqI)
  fix n
  assume "n < LENGTH(64)"
  then show "bit (push_bit s (v AND 0x7f) OR push_bit (s + 7) (drop_bit 7 v)) n = bit (push_bit s v) n"
    by (cases "s + 7 \<le> n") (auto simp: leb_bits)
qed

lemma uleb_loop_ULEB128:
  assumes "s < 64" "unat v < 2 ^ (64 - s)"
  shows "uleb_loop (ULEB128 v @ rest) s result n = Returns (result OR push_bit s v, n + length (ULEB128 v))"
  using assms
proof (induction v arbitrary: s result n rule: ULEB128.induct)
  case (1 v)
  show ?case
  proof (cases "0x7f < v")
    case True
    have v: "unat v \<ge> 128" using True by (simp add: word_less_nat_alt)
    have s: "7 < 64 - s"
    proof (rule ccontr)
      assume "\<not> 7 < 64 - s"
      then have "(2 :: nat) ^ (64 - s) \<le> 2 ^ 7" by (intro power_increasing) simp_all
      then show False using 1(3) v by simp
    qed
    have d: "unat (drop_bit 7 v) = unat v div 128" by (simp add: unat_drop_bit_eq drop_bit_nat_def)
    have "(2 :: nat) ^ (64 - s) = 128 * 2 ^ (64 - (s + 7))"
      using s power_add [of "2 :: nat" 7 "64 - (s + 7)"] by simp
    then have "unat (drop_bit 7 v) < 2 ^ (64 - (s + 7))"
      using 1(3) unfolding d by (simp add: less_mult_imp_div_less mult.commute)
    then have "uleb_loop (ULEB128 (drop_bit 7 v) @ rest) (s + 7) (result OR push_bit s (v AND 0x7f)) (Suc n) =
        Returns ((result OR push_bit s (v AND 0x7f)) OR push_bit (s + 7) (drop_bit 7 v), Suc n + length (ULEB128 (drop_bit 7 v)))"
      using 1(1) [OF True] s by simp
    then show ?thesis
      using True 1(2) high_bit_byte split_low_bits [of s v]
      by (simp add: ULEB128.simps [of v] low_bits_byte or.assoc)
  next
    case False
    then show ?thesis using 1(2) small_byte [OF False] by (simp add: ULEB128.simps [of v])
  qed
qed

lemma ReadUnsignedLEB128_ULEB128: "ReadUnsignedLEB128 (ULEB128 v @ rest) = Returns (v, length (ULEB128 v))"
  using uleb_loop_ULEB128 [of 0 v rest 0 0] unsigned_less [of v] by (simp add: ReadUnsignedLEB128_def)

subsection \<open>Signed numbers\<close>

lemma bit_sign_extended:
  fixes i :: int
  assumes "- 0x40 \<le> i" "i \<le> 0x3f" "6 \<le> n"
  shows "bit i n \<longleftrightarrow> i < 0"
proof -
  have "signed_take_bit 6 i = i" using assms by (simp add: signed_take_bit_int_eq_self)
  then have "bit i n \<longleftrightarrow> bit i 6" using assms(3) bit_signed_take_bit_iff [of 6 i n] by (simp add: min_def)
  moreover have "i div 64 = (if i < 0 then - 1 else 0)" using assms(1,2) by auto
  then have "bit i 6 \<longleftrightarrow> i < 0" by (simp add: bit_iff_odd)
  ultimately show ?thesis by simp
qed

lemma signed_first_byte:
  "ucast ((word_of_int i AND 0x7f OR 0x80 :: 8 word) AND 0x7f) = (word_of_int i AND 0x7f :: 64 word)"
  "ucast ((word_of_int i AND 0x7f :: 8 word) AND 0x7f) = (word_of_int i AND 0x7f :: 64 word)"
  "(word_of_int i AND 0x7f :: 8 word) AND 0x80 = 0"
  "ucast (word_of_int i AND 0x7f :: 8 word) = (word_of_int i AND 0x7f :: 64 word)"
  by (rule bit_word_eqI; auto simp: leb_bits)+

lemma split_low_bits_int:
  "push_bit s (word_of_int i AND 0x7f) OR push_bit (s + 7) (word_of_int (i div 128)) = push_bit s (word_of_int i :: 64 word)"
proof -
  have d: "i div 128 = drop_bit 7 i" by (simp add: drop_bit_eq_div)
  show ?thesis
  proof (rule bit_word_eqI)
    fix n
    assume "n < LENGTH(64)"
    then show "bit (push_bit s (word_of_int i AND 0x7f) OR push_bit (s + 7) (word_of_int (i div 128)) :: 64 word) n =
        bit (push_bit s (word_of_int i :: 64 word)) n"
      unfolding d by (cases "s + 7 \<le> n") (auto simp: leb_bits)
  qed
qed

lemma sign_bit_byte:
  assumes "- 0x40 \<le> i" "i \<le> 0x3f"
  shows "(word_of_int i AND 0x7f :: 8 word) AND 0x40 \<noteq> 0 \<longleftrightarrow> i < 0"
proof -
  have b: "bit (0x40 :: int) n \<longleftrightarrow> n = 6" for n
  proof -
    have "(0x40 :: int) = 2 ^ 6" by simp
    then show ?thesis by (simp only: bit_exp_iff) auto
  qed
  have "bit ((word_of_int i AND 0x7f :: 8 word) AND 0x40) n \<longleftrightarrow> n = 6 \<and> i < 0" for n
    using bit_sign_extended [OF assms, of 6] by (auto simp: leb_bits b)
  then show ?thesis by (metis bit_0_eq bit_eqI bot_apply bot_bool_def)
qed

lemma signed_last_byte:
  assumes "- 0x40 \<le> i" "i \<le> 0x3f" "s < 64"
  shows "(if s + 7 < 64 \<and> i < 0 then push_bit s (word_of_int i AND 0x7f) OR - push_bit (s + 7) 1
     else push_bit s (word_of_int i AND 0x7f)) = (push_bit s (word_of_int i) :: 64 word)"
proof (rule bit_word_eqI)
  fix n
  assume n: "n < LENGTH(64)"
  have e: "bit (- push_bit (s + 7) 1 :: 64 word) n \<longleftrightarrow> s + 7 \<le> n"
    using n by (simp add: push_bit_eq_mult bit_minus_exp_iff)
  have "bit i (n - s) \<longleftrightarrow> i < 0" if "s + 7 \<le> n" using that by (intro bit_sign_extended [OF assms(1,2)]) simp
  then show "bit (if s + 7 < 64 \<and> i < 0 then push_bit s (word_of_int i AND 0x7f) OR - push_bit (s + 7) 1
     else push_bit s (word_of_int i AND 0x7f) :: 64 word) n = bit (push_bit s (word_of_int i) :: 64 word) n"
    using n e by (cases "s + 7 \<le> n"; cases "i < 0") (auto simp: leb_bits)
qed

lemma sleb_loop_LEB128:
  assumes "s < 64" "- (2 ^ (63 - s)) \<le> i" "i < 2 ^ (63 - s)"
  shows "\<exists>r t b. sleb_loop (LEB128 i @ rest) s result n = Returns (r, t, n + length (LEB128 i), b) \<and>
    (if t < 64 \<and> b AND 0x40 \<noteq> 0 then r OR - push_bit t 1 else r) = result OR push_bit s (word_of_int i)"
  using assms
proof (induction i arbitrary: s result n rule: LEB128.induct)
  case (1 i)
  show ?case
  proof (cases "i < - 0x40 \<or> 0x3f < i")
    case True
    have s: "6 < 63 - s"
    proof (rule ccontr)
      assume "\<not> 6 < 63 - s"
      then have "(2 :: int) ^ (63 - s) \<le> 2 ^ 6" by (intro power_increasing) simp_all
      then show False using 1(3,4) True by auto
    qed
    have "(2 :: int) ^ (63 - s) = 128 * 2 ^ (63 - (s + 7))"
      using s power_add [of "2 :: int" 7 "63 - (s + 7)"] by simp
    then have "- (2 ^ (63 - (s + 7))) \<le> i div 128" "i div 128 < 2 ^ (63 - (s + 7))"
      using 1(3,4) by auto
    moreover have "s + 7 < 64" using s by simp
    ultimately obtain r t b where "sleb_loop (LEB128 (i div 128) @ rest) (s + 7) (result OR push_bit s (word_of_int i AND 0x7f)) (Suc n)
        = Returns (r, t, Suc n + length (LEB128 (i div 128)), b)"
      "(if t < 64 \<and> b AND 0x40 \<noteq> 0 then r OR - push_bit t 1 else r) =
        (result OR push_bit s (word_of_int i AND 0x7f)) OR push_bit (s + 7) (word_of_int (i div 128))"
      using 1(1) [OF True, of "s + 7" "result OR push_bit s (word_of_int i AND 0x7f)" "Suc n"] by blast
    then show ?thesis
      using True 1(2) high_bit_byte split_low_bits_int [of s i]
      by (simp add: LEB128.simps [of i] signed_first_byte or.assoc)
  next
    case False
    then have i: "- 0x40 \<le> i" "i \<le> 0x3f" by auto
    show ?thesis
      using 1(2) False signed_last_byte [OF i 1(2)] sign_bit_byte [OF i]
      by (auto simp: LEB128.simps [of i] signed_first_byte or.assoc)
  qed
qed

lemma ReadSignedLEB128_LEB128:
  assumes "- (2 ^ 63) \<le> i" "i < 2 ^ 63"
  shows "ReadSignedLEB128 (LEB128 i @ rest) = Returns (word_of_int i, length (LEB128 i))"
  using sleb_loop_LEB128 [of 0 i rest 0 0] assms by (auto simp: ReadSignedLEB128_def)

text \<open>C38. LEB128 numbers are read back as they were written: the reader gives every unsigned 64-bit number that the
  assembler wrote, and every signed one, with the number of bytes it took, whatever follows. The sign extension of
  a negative number of nine bytes negates the smallest signed number, which is taken to wrap.\<close>

theorem LEB128_roundtrip:
  assumes "- (2 ^ 63) \<le> i" "i < 2 ^ 63"
  shows "ReadUnsignedLEB128 (ULEB128 v @ rest) = Returns (v, length (ULEB128 v)) \<and>
    ReadSignedLEB128 (LEB128 i @ rest) = Returns (word_of_int i, length (LEB128 i))"
  using ReadUnsignedLEB128_ULEB128 ReadSignedLEB128_LEB128 [OF assms] by blast

theorem LEB128_roundtrip_witness:
  "ReadUnsignedLEB128 (ULEB128 300 @ [7]) = Returns (300, 2) \<and> ReadSignedLEB128 (LEB128 (- 129) @ [7]) = Returns (- 129, 2)"
proof -
  have "length (ULEB128 300) = 2" "length (LEB128 (- 129)) = 2" by (simp_all add: ULEB128.simps LEB128.simps)
  then show ?thesis using LEB128_roundtrip [of "- 129" 300 "[7]"] by simp
qed

subsection \<open>Termination of the readers\<close>

text \<open>A number ends at the first byte without the high bit; the readers stop there when it comes within ten bytes. A
  longer number, which a producer may pad with redundant bytes, shifts by more than the width of the result.\<close>

lemma uleb_loop_length:
  "uleb_loop bs s r n = Returns (v, m) \<Longrightarrow> n < m \<and> m \<le> n + length bs \<and> m - n \<le> (70 - s) div 7 + 1"
proof (induction bs s r n rule: uleb_loop.induct)
  case (2 b bs s r n)
  then show ?case
    by (cases "b AND 0x80 = 0") (auto simp: Let_def split: if_split_asm)
qed simp

lemma sleb_loop_length: "sleb_loop bs s r n = Returns (v, t, m, b) \<Longrightarrow> n < m \<and> m \<le> n + length bs"
  by (induction bs s r n rule: sleb_loop.induct) (auto simp: Let_def split: if_split_asm)

lemma ReadUnsignedLEB128_length: "ReadUnsignedLEB128 bs = Returns (v, n) \<Longrightarrow> 0 < n \<and> n \<le> length bs"
  using uleb_loop_length [of bs 0 0 0 v n] by (simp add: ReadUnsignedLEB128_def)

lemma ReadSignedLEB128_length: "ReadSignedLEB128 bs = Returns (v, n) \<Longrightarrow> 0 < n \<and> n \<le> length bs"
  using sleb_loop_length by (fastforce simp: ReadSignedLEB128_def exec_bind_Returns_iff)

lemma uleb_loop_too_long:
  "64 \<le> s + 7 * length bs \<Longrightarrow> list_all (\<lambda>b. b AND 0x80 \<noteq> 0) bs \<Longrightarrow> uleb_loop (bs @ b # rest) s r n = Undefined"
proof (induction bs arbitrary: s r n)
  case (Cons c bs)
  then show ?case by (simp add: Let_def)
qed simp

theorem padded_number_undefined:
  "list_all (\<lambda>b. b AND 0x80 \<noteq> 0) bs \<Longrightarrow> 10 \<le> length bs \<Longrightarrow> ReadUnsignedLEB128 (bs @ b # rest) = Undefined"
  using uleb_loop_too_long [of 0 bs] by (simp add: ReadUnsignedLEB128_def)

section \<open>Valid and usable encodings\<close>

lemma ReadAddress_enough: "address_size r = 4 \<or> address_size r = 8 \<Longrightarrow> 8 \<le> length bs \<Longrightarrow> \<exists>v. ReadAddress r bs = Returns v"
  by (auto simp: ReadAddress_def numeral_eq_Suc Suc_le_length_iff)

lemma fixed_reads_enough:
  "8 \<le> length bs \<Longrightarrow> \<exists>v. ReadTwoBytes r bs = Returns v" "8 \<le> length bs \<Longrightarrow> \<exists>v. ReadFourBytes r bs = Returns v"
  "8 \<le> length bs \<Longrightarrow> \<exists>v. ReadEightBytes r bs = Returns v"
  by (auto simp: numeral_eq_Suc Suc_le_length_iff)

lemma encoded_base_usable: "UsableEncoding r e \<Longrightarrow> \<exists>b. encoded_base r e p = Returns b"
  by (auto simp: UsableEncoding_def encoded_base_def Let_def split: if_split_asm)

lemma low_nybble:
  assumes "\<not> (e :: 8 word) AND 0x7 > 0x04"
  shows "e AND 0x0f \<in> {0, 1, 2, 3, 4, 8, 9, 0xa, 0xb, 0xc}"
proof -
  define x where "x = e AND 0x0f"
  have "unat x < 16" using word_and_le1 [of e "0x0f"] by (simp add: x_def word_le_nat_alt)
  then have "x \<in> set (map of_nat [0..<16])" by (auto simp: image_iff intro!: bexI [of _ "unat x"])
  moreover have "(e AND 0x0f) AND 0x7 = e AND 0x7" by (simp add: and.assoc)
  then have "\<not> x AND 0x7 > 0x04" using assms by (simp add: x_def)
  ultimately show ?thesis unfolding x_def [symmetric] by (auto simp: upt_rec)
qed

text \<open>C39. A pointer encoding that is valid and usable can be read, provided that the section goes on for a complete value; but
  the encoding of signed machine-sized pointers, whose low half is \<open>DW_EH_PE_signed\<close>, is accepted as valid and usable too,
  and then the reader aborts.\<close>

theorem ReadEncodedPointer_usable:
  assumes "ValidEncoding e" "UsableEncoding r e" "address_size r = 4 \<or> address_size r = 8"
    and "drop p sec = bs @ b # rest" "length bs < 9" "list_all (\<lambda>b. b AND 0x80 \<noteq> 0) bs" "b AND 0x80 = 0" "7 \<le> length rest"
  shows "(e AND 0x0f \<noteq> 0x08 \<longrightarrow> (\<exists>a n. ReadEncodedPointer r sec p e = Returns (a, n))) \<and>
    (e AND 0x0f = 0x08 \<longrightarrow> ReadEncodedPointer r sec p e = Undefined)"
proof -
  let ?bs = "drop p sec"
  have long: "8 \<le> length ?bs" using assms(4,8) by simp
  have loops: "s + 7 * length xs < 64 \<Longrightarrow> list_all (\<lambda>b. b AND 0x80 \<noteq> 0) xs \<Longrightarrow>
      (\<exists>v n. uleb_loop (xs @ b # rest) s x m = Returns (v, n)) \<and> (\<exists>v t n c. sleb_loop (xs @ b # rest) s x m = Returns (v, t, n, c))"
    for xs s x m
    using assms(7) by (induction xs arbitrary: s x m) (auto simp: Let_def)
  have leb: "\<exists>v n. ReadUnsignedLEB128 ?bs = Returns (v, n)" "\<exists>v n. ReadSignedLEB128 ?bs = Returns (v, n)"
    using loops [of 0 bs 0 0] assms(5,6) by (auto simp: ReadUnsignedLEB128_def ReadSignedLEB128_def assms(4))
  have fixed: "\<exists>v. ReadTwoBytes r ?bs = Returns v" "\<exists>v. ReadFourBytes r ?bs = Returns v" "\<exists>v. ReadEightBytes r ?bs = Returns v"
    by (rule fixed_reads_enough [OF long])+
  have ne: "e \<noteq> DW_EH_PE_omit" "e \<noteq> DW_EH_PE_aligned"
    using assms(2) by (auto simp: UsableEncoding_def DW_EH_PE_omit_def DW_EH_PE_aligned_def)
  have n: "\<not> e AND 0x7 > 0x04" using assms(1) ne by (auto simp: ValidEncoding_def split: if_split_asm)
  obtain base where base: "encoded_base r e p = Returns base" using encoded_base_usable [OF assms(2)] by blast
  have "\<exists>v n. encoded_value r e ?bs = Returns (v, n)" if "e AND 0x0f \<noteq> 0x08"
    using low_nybble [OF n] that leb fixed ReadAddress_enough [OF assms(3) long]
    by (auto simp: encoded_value_def Let_def)
  moreover have "encoded_value r e ?bs = Undefined" if "e AND 0x0f = 0x08"
    using that by (simp add: encoded_value_def)
  ultimately show ?thesis
    using ne base assms(3) by (auto simp: ReadEncodedPointer_def)
qed

theorem ReadEncodedPointer_usable_witness:
  "ValidEncoding 0x08 \<and> UsableEncoding ((ByteReader_new ENDIANNESS_LITTLE)\<lparr>address_size := 8\<rparr>) 0x08 \<and>
   ReadEncodedPointer ((ByteReader_new ENDIANNESS_LITTLE)\<lparr>address_size := 8\<rparr>) (replicate 8 0) 0 0x08 = Undefined"
proof -
  let ?r = "(ByteReader_new ENDIANNESS_LITTLE)\<lparr>address_size := 8\<rparr>"
  have v: "ValidEncoding 0x08" "UsableEncoding ?r 0x08"
    by (simp_all add: ValidEncoding_def UsableEncoding_def DW_EH_PE_omit_def DW_EH_PE_aligned_def)
  have "drop 0 (replicate 8 0) = [] @ 0 # replicate 7 (0 :: 8 word)" by (simp add: numeral_eq_Suc)
  from ReadEncodedPointer_usable [OF v _ this] show ?thesis using v by simp
qed

end
