(* ===== verification/Line_Info.thy ===== *)
theory Line_Info
  imports Byte_Reader
begin

unbundle bit_operations_syntax

text \<open>
  The reader of DWARF line number programs (\<open>LineInfo\<close> in \<^verbatim>\<open>common/dwarf/dwarf2reader.cc\<close>,
  \<^verbatim>\<open>line_state_machine.h\<close>). A pointer is a position in the buffer; a read past the end of the buffer is undefined
  behaviour, as the code never compares a pointer with the end of the buffer, and so is moving a pointer past it. The calls of the handler are collected in
  their order. The main loop does not terminate on every input; it is a partial function, and \<open>None\<close> stands for a
  run that does not end.
\<close>

section \<open>Data\<close>

record LineInfoHeader =
  total_length :: "64 word"
  version :: "16 word"
  prologue_length :: "64 word"
  min_insn_length :: "8 word"
  default_is_stmt :: bool
  line_base :: "8 word"
  line_range :: "8 word"
  opcode_base :: "8 word"
  std_opcode_lengths :: "8 word list"

record LineStateMachine =
  file_num :: "32 word"
  address :: "64 word"
  line_num :: "32 word"
  column_num :: "32 word"
  is_stmt :: bool
  basic_block :: bool
  end_sequence :: bool

definition LineStateMachine_Reset :: "bool \<Rightarrow> LineStateMachine" where
  "LineStateMachine_Reset stmt = \<lparr>file_num = 1, address = 0, line_num = 1, column_num = 0, is_stmt = stmt, basic_block = False,
     end_sequence = False\<rparr>"

text \<open>The calls of \<open>LineInfoHandler\<close>.\<close>

datatype line_call =
    DefineDirCall string "32 word"
  | DefineFileCall string "32 word" "32 word" "64 word" "64 word"
  | AddLineCall "64 word" "64 word" "32 word" "32 word" "32 word"

text \<open>A string in the buffer, and what follows its terminator.\<close>

definition byte_char :: "8 word \<Rightarrow> char" where
  "byte_char b = char_of (unat b)"

definition read_string :: "bytes \<Rightarrow> (string \<times> bytes) exec" where
  "read_string bs =
     (if 0 \<in> set bs then Returns (map byte_char (takeWhile (\<lambda>b. b \<noteq> 0) bs), tl (dropWhile (\<lambda>b. b \<noteq> 0) bs)) else Undefined)"

lemma read_string_shorter: "read_string bs = Returns (s, rest) \<Longrightarrow> length rest < length bs"
proof -
  assume "read_string bs = Returns (s, rest)"
  then have "0 \<in> set bs" "rest = tl (dropWhile (\<lambda>b. b \<noteq> 0) bs)" by (auto simp: read_string_def split: if_split_asm)
  moreover from this have "dropWhile (\<lambda>b. b \<noteq> 0) bs \<noteq> []" by (simp add: dropWhile_eq_Nil_conv)
  ultimately show ?thesis using length_dropWhile_le [of "\<lambda>b. b \<noteq> 0" bs] by (cases "dropWhile (\<lambda>b. b \<noteq> 0) bs") simp_all
qed

section \<open>The header\<close>

function read_dirs :: "bytes \<Rightarrow> 32 word \<Rightarrow> (line_call list \<times> bytes) exec" where
  "read_dirs lineptr dirindex =
     exec_bind (ReadOneByte lineptr) (\<lambda>b.
       if b = 0 then Returns ([], lineptr)
       else exec_bind (read_string lineptr) (\<lambda>(dirname, rest).
         exec_bind (read_dirs rest (dirindex + 1)) (\<lambda>(calls, rest'). Returns (DefineDirCall dirname dirindex # calls, rest'))))"
  by pat_completeness auto
termination by (relation "measure (\<lambda>(bs, i). length bs)") (auto dest: read_string_shorter)

declare read_dirs.simps [simp del]

text \<open>A number and what follows it.\<close>

definition take_uleb :: "bytes \<Rightarrow> (64 word \<times> bytes) exec" where
  "take_uleb bs = exec_bind (ReadUnsignedLEB128 bs) (\<lambda>(v, n). Returns (v, drop n bs))"

lemma take_uleb_shorter: "take_uleb bs = Returns (v, rest) \<Longrightarrow> length rest < length bs"
  by (auto simp: take_uleb_def exec_bind_Returns_iff dest!: ReadUnsignedLEB128_length)

function read_files :: "bytes \<Rightarrow> 32 word \<Rightarrow> (line_call list \<times> bytes) exec" where
  "read_files lineptr fileindex =
     exec_bind (ReadOneByte lineptr) (\<lambda>b.
       if b = 0 then Returns ([], lineptr)
       else exec_bind (read_string lineptr) (\<lambda>(filename, p1).
         exec_bind (take_uleb p1) (\<lambda>(dirindex, p2).
         exec_bind (take_uleb p2) (\<lambda>(mod_time, p3).
         exec_bind (take_uleb p3) (\<lambda>(filelength, p4).
         exec_bind (read_files p4 (fileindex + 1)) (\<lambda>(calls, rest).
           Returns (DefineFileCall filename fileindex (ucast dirindex) mod_time filelength # calls, rest)))))))"
  by pat_completeness auto
termination
  by (relation "measure (\<lambda>(bs, i). length bs)")
    (auto dest!: read_string_shorter take_uleb_shorter)

declare read_files.simps [simp del]

text \<open>\<open>ReadHeader\<close>: the header, the reader with its offset size, the calls, and the position after the header.\<close>

definition ReadHeader :: "ByteReader \<Rightarrow> bytes \<Rightarrow> nat \<Rightarrow> (LineInfoHeader \<times> ByteReader \<times> line_call list \<times> nat) exec" where
  "ReadHeader r buffer buffer_length =
     exec_bind (ReadInitialLength r buffer) (\<lambda>(initial_length, initial_length_size, r).
     if initial_length_size + unat initial_length > buffer_length \<or> address_size r = 0 then Undefined
     else
       let p = drop initial_length_size buffer in
       exec_bind (ReadTwoBytes r p) (\<lambda>version. let p = drop 2 p in
       exec_bind (ReadOffset r p) (\<lambda>prologue_length. let p = drop (offset_size r) p in
       exec_bind (ReadOneByte p) (\<lambda>min_insn_length. let p = tl p in
       exec_bind (ReadOneByte p) (\<lambda>default_is_stmt. let p = tl p in
       exec_bind (ReadOneByte p) (\<lambda>line_base. let p = tl p in
       exec_bind (ReadOneByte p) (\<lambda>line_range. let p = tl p in
       exec_bind (ReadOneByte p) (\<lambda>opcode_base. let p = tl p; n = unat opcode_base - 1 in
       if length p < n then Undefined
       else
         let lengths = 0 # (if opcode_base = 0 then [] else take n p @ [0]) in
         exec_bind (read_dirs (drop n p) 1) (\<lambda>(dirs, p).
         exec_bind (read_files (tl p) 1) (\<lambda>(files, p).
           Returns
             (\<lparr>total_length = initial_length, version = version, prologue_length = prologue_length,
               min_insn_length = min_insn_length, default_is_stmt = (default_is_stmt \<noteq> 0), line_base = line_base,
               line_range = line_range, opcode_base = opcode_base, std_opcode_lengths = lengths\<rparr>,
              r, dirs @ files, length buffer - length (tl p))))))))))))"

section \<open>One opcode\<close>

text \<open>The result: whether a row is complete, the machine, the length of the opcode, the calls, and whether the machine has
  passed the address that was asked for.\<close>

type_synonym opcode_result = "bool \<times> LineStateMachine \<times> 64 word \<times> line_call list \<times> bool"

definition passes :: "64 word option \<Rightarrow> LineStateMachine \<Rightarrow> 64 word \<Rightarrow> bool" where
  "passes pc lsm advance = (case pc of None \<Rightarrow> False | Some pc \<Rightarrow> address lsm \<le> pc \<and> pc < address lsm + advance)"

fun skip_operands :: "nat \<Rightarrow> bytes \<Rightarrow> 64 word \<Rightarrow> 64 word exec" where
  "skip_operands 0 start oplen = Returns oplen"
| "skip_operands (Suc n) start oplen =
     exec_bind (ReadUnsignedLEB128 start) (\<lambda>(v, templen). skip_operands n (drop templen start) (oplen + of_nat templen))"

definition extended_opcode ::
    "ByteReader \<Rightarrow> bytes \<Rightarrow> LineStateMachine \<Rightarrow> 64 word \<Rightarrow> opcode_result exec" where
  "extended_opcode r start lsm oplen =
     exec_bind (ReadUnsignedLEB128 start) (\<lambda>(extended_op_len, templen).
       let start = drop templen start; oplen = oplen + (of_nat templen + extended_op_len) in
       exec_bind (ReadOneByte start) (\<lambda>extended_op.
         let start = tl start in
         if extended_op = 1 then Returns (True, lsm\<lparr>end_sequence := True\<rparr>, oplen, [], False)
         else if extended_op = 2 then
           exec_bind (ReadAddress r start) (\<lambda>a. Returns (False, lsm\<lparr>address := a\<rparr>, oplen, [], False))
         else if extended_op = 3 then
           exec_bind (read_string start) (\<lambda>(filename, start).
           exec_bind (ReadUnsignedLEB128 start) (\<lambda>(dirindex, len1).
           exec_bind (ReadUnsignedLEB128 start) (\<lambda>(mod_time, len2).
           exec_bind (ReadUnsignedLEB128 start) (\<lambda>(filelength, len3).
             Returns (False, lsm, oplen + of_nat len1 + of_nat len2 + of_nat len3,
               [DefineFileCall filename (- 1) (ucast dirindex) mod_time filelength], False)))))
         else Returns (False, lsm, oplen, [], False)))"

definition ProcessOneOpcode ::
    "ByteReader \<Rightarrow> LineInfoHeader \<Rightarrow> bytes \<Rightarrow> LineStateMachine \<Rightarrow> 64 word option \<Rightarrow> opcode_result exec" where
  "ProcessOneOpcode r header start lsm pc =
     exec_bind (ReadOneByte start) (\<lambda>opcode.
       let start = tl start; oplen = 1 :: 64 word in
       if opcode_base header \<le> opcode then
         let opcode = opcode - opcode_base header in
         if line_range header = 0 then Undefined
         else
           let advance_address = of_nat (unat opcode div unat (line_range header) * unat (min_insn_length header));
               advance_line = of_nat (unat opcode mod unat (line_range header)) + scast (line_base header)
           in Returns (True, lsm\<lparr>address := address lsm + advance_address, line_num := line_num lsm + advance_line,
                basic_block := True\<rparr>, oplen, [], passes pc lsm advance_address)
       else if opcode = 1 then Returns (True, lsm\<lparr>basic_block := False\<rparr>, oplen, [], False)
       else if opcode = 2 then
         exec_bind (ReadUnsignedLEB128 start) (\<lambda>(advance, templen).
           let advance_address = ucast (min_insn_length header) * advance
           in Returns (False, lsm\<lparr>address := address lsm + advance_address\<rparr>, oplen + of_nat templen, [],
                passes pc lsm advance_address))
       else if opcode = 3 then
         exec_bind (ReadSignedLEB128 start) (\<lambda>(advance_line, templen).
           Returns (False, lsm\<lparr>line_num := line_num lsm + ucast advance_line\<rparr>, oplen + of_nat templen, [],
             pc = Some (address lsm)))
       else if opcode = 4 then
         exec_bind (ReadUnsignedLEB128 start) (\<lambda>(fileno, templen).
           Returns (False, lsm\<lparr>file_num := ucast fileno\<rparr>, oplen + of_nat templen, [], False))
       else if opcode = 5 then
         exec_bind (ReadUnsignedLEB128 start) (\<lambda>(colno, templen).
           Returns (False, lsm\<lparr>column_num := ucast colno\<rparr>, oplen + of_nat templen, [], False))
       else if opcode = 6 then Returns (False, lsm\<lparr>is_stmt := \<not> is_stmt lsm\<rparr>, oplen, [], False)
       else if opcode = 7 then Returns (False, lsm\<lparr>basic_block := True\<rparr>, oplen, [], False)
       else if opcode = 9 then
         exec_bind (ReadTwoBytes r start) (\<lambda>advance.
           Returns (False, lsm\<lparr>address := address lsm + ucast advance\<rparr>, oplen + 2, [], passes pc lsm (ucast advance)))
       else if opcode = 8 then
         if line_range header = 0 then Undefined
         else
           let advance_address = of_nat (unat (min_insn_length header) *
                 ((255 - unat (opcode_base header)) div unat (line_range header)))
           in Returns (False, lsm\<lparr>address := address lsm + advance_address\<rparr>, oplen, [], passes pc lsm advance_address)
       else if opcode = 0 then extended_opcode r start lsm oplen
       else
         exec_bind (skip_operands (unat (std_opcode_lengths header ! unat opcode)) start oplen)
           (\<lambda>oplen. Returns (False, lsm, oplen, [], False)))"

section \<open>The program\<close>

text \<open>The line whose end is not known yet: its address, file, line and column.\<close>

type_synonym pending_line = "(64 word \<times> 32 word \<times> 32 word \<times> 32 word) option"

definition complete_row :: "LineStateMachine \<Rightarrow> pending_line \<Rightarrow> line_call list" where
  "complete_row lsm pending =
     (case pending of
        None \<Rightarrow> []
      | Some (pending_address, pending_file, pending_line, pending_column) \<Rightarrow>
          [AddLineCall pending_address (address lsm - pending_address) pending_file pending_line pending_column])"

definition next_pending :: "LineStateMachine \<Rightarrow> pending_line" where
  "next_pending lsm = (if end_sequence lsm then None else Some (address lsm, file_num lsm, line_num lsm, column_num lsm))"

text \<open>The loop of \<open>ReadLines\<close> from position \<open>p\<close> to \<open>stop\<close>, with the calls so far.\<close>

partial_function (option) read_lines_loop ::
    "ByteReader \<Rightarrow> LineInfoHeader \<Rightarrow> bytes \<Rightarrow> nat \<Rightarrow> nat \<Rightarrow> LineStateMachine \<Rightarrow> pending_line \<Rightarrow> line_call list \<Rightarrow>
     line_call list exec option" where
  "read_lines_loop r header buffer stop p lsm pending calls =
     (if p < stop then
        (case ProcessOneOpcode r header (drop p buffer) lsm None of
           Undefined \<Rightarrow> Some Undefined
         | Returns (add_row, lsm, oplength, new_calls, passed) \<Rightarrow>
             if length buffer < p + unat oplength then Some Undefined
             else if add_row then
               read_lines_loop r header buffer stop (p + unat oplength)
                 (if end_sequence lsm then LineStateMachine_Reset (default_is_stmt header) else lsm) (next_pending lsm)
                 (calls @ new_calls @ complete_row lsm pending)
             else read_lines_loop r header buffer stop (p + unat oplength) lsm pending (calls @ new_calls))
      else Some (Returns calls))"

text \<open>\<open>Start\<close>: the header, then the lines; all calls, and the number of bytes up to the end of this program.\<close>

definition LineInfo_Start :: "ByteReader \<Rightarrow> bytes \<Rightarrow> nat \<Rightarrow> (line_call list \<times> nat) exec option" where
  "LineInfo_Start r buffer buffer_length =
     (case ReadHeader r buffer buffer_length of
        Undefined \<Rightarrow> Some Undefined
      | Returns (header, r, calls, after_header) \<Rightarrow>
          let lengthstart = (if offset_size r = 8 then 12 else 4); stop = lengthstart + unat (total_length header) in
          map_option (\<lambda>res. exec_bind res (\<lambda>calls. Returns (calls, stop)))
            (read_lines_loop r header buffer stop after_header (LineStateMachine_Reset (default_is_stmt header)) None calls))"

section \<open>The instructions of a line number program\<close>

text \<open>The specification works on instructions: their encoding, their effect on the machine, the matrix of rows that a
  program builds, and the table of lines that the matrix stands for.\<close>

datatype line_op =
    Special "8 word" | Copy | AdvancePC "64 word" | AdvanceLine int | SetFile "64 word" | SetColumn "64 word"
  | NegateStmt | SetBasicBlock | ConstAddPC | FixedAdvancePC "16 word" | EndSequence | SetAddress "64 word"
  | OtherStandard "8 word" "64 word list"

definition put_bytes :: "ByteReader \<Rightarrow> bytes \<Rightarrow> bytes" where
  "put_bytes r bs = (if endian r = ENDIANNESS_LITTLE then bs else rev bs)"

definition put_address :: "ByteReader \<Rightarrow> 64 word \<Rightarrow> bytes" where
  "put_address r a = put_bytes r (if address_size r = 8 then word_bytes a else word_bytes (ucast a :: 32 word))"

fun encode_op :: "ByteReader \<Rightarrow> LineInfoHeader \<Rightarrow> line_op \<Rightarrow> bytes" where
  "encode_op r h (Special k) = [opcode_base h + k]"
| "encode_op r h Copy = [1]"
| "encode_op r h (AdvancePC n) = 2 # ULEB128 n"
| "encode_op r h (AdvanceLine i) = 3 # LEB128 i"
| "encode_op r h (SetFile n) = 4 # ULEB128 n"
| "encode_op r h (SetColumn n) = 5 # ULEB128 n"
| "encode_op r h NegateStmt = [6]"
| "encode_op r h SetBasicBlock = [7]"
| "encode_op r h ConstAddPC = [8]"
| "encode_op r h (FixedAdvancePC n) = 9 # put_bytes r (word_bytes n)"
| "encode_op r h EndSequence = 0 # ULEB128 1 @ [1]"
| "encode_op r h (SetAddress a) = 0 # ULEB128 (of_nat (Suc (address_size r))) @ 2 # put_address r a"
| "encode_op r h (OtherStandard k vs) = k # concat (map ULEB128 vs)"

text \<open>The instructions that a header allows.\<close>

fun op_ok :: "ByteReader \<Rightarrow> LineInfoHeader \<Rightarrow> line_op \<Rightarrow> bool" where
  "op_ok r h (Special k) \<longleftrightarrow> unat (opcode_base h) + unat k < 256 \<and> line_range h \<noteq> 0"
| "op_ok r h (AdvanceLine i) \<longleftrightarrow> 9 < opcode_base h \<and> - (2 ^ 63) \<le> i \<and> i < 2 ^ 63"
| "op_ok r h ConstAddPC \<longleftrightarrow> 9 < opcode_base h \<and> line_range h \<noteq> 0"
| "op_ok r h (SetAddress a) \<longleftrightarrow> 9 < opcode_base h \<and> (address_size r = 8 \<or> address_size r = 4 \<and> unat a < 2 ^ 32)"
| "op_ok r h (OtherStandard k vs) \<longleftrightarrow> 9 < k \<and> k < opcode_base h \<and> length vs = unat (std_opcode_lengths h ! unat k)"
| "op_ok r h _ \<longleftrightarrow> 9 < opcode_base h"

text \<open>The effect of an instruction, and whether it adds a row to the matrix.\<close>

fun op_effect :: "LineInfoHeader \<Rightarrow> line_op \<Rightarrow> LineStateMachine \<Rightarrow> bool \<times> LineStateMachine" where
  "op_effect h (Special k) m =
     (True, m\<lparr>address := address m + of_nat (unat k div unat (line_range h) * unat (min_insn_length h)),
        line_num := line_num m + of_nat (unat k mod unat (line_range h)) + scast (line_base h), basic_block := True\<rparr>)"
| "op_effect h Copy m = (True, m\<lparr>basic_block := False\<rparr>)"
| "op_effect h (AdvancePC n) m = (False, m\<lparr>address := address m + ucast (min_insn_length h) * n\<rparr>)"
| "op_effect h (AdvanceLine i) m = (False, m\<lparr>line_num := line_num m + word_of_int i\<rparr>)"
| "op_effect h (SetFile n) m = (False, m\<lparr>file_num := ucast n\<rparr>)"
| "op_effect h (SetColumn n) m = (False, m\<lparr>column_num := ucast n\<rparr>)"
| "op_effect h NegateStmt m = (False, m\<lparr>is_stmt := \<not> is_stmt m\<rparr>)"
| "op_effect h SetBasicBlock m = (False, m\<lparr>basic_block := True\<rparr>)"
| "op_effect h ConstAddPC m =
     (False, m\<lparr>address := address m + of_nat (unat (min_insn_length h) * ((255 - unat (opcode_base h)) div unat (line_range h)))\<rparr>)"
| "op_effect h (FixedAdvancePC n) m = (False, m\<lparr>address := address m + ucast n\<rparr>)"
| "op_effect h EndSequence m = (True, m\<lparr>end_sequence := True\<rparr>)"
| "op_effect h (SetAddress a) m = (False, m\<lparr>address := a\<rparr>)"
| "op_effect h (OtherStandard k vs) m = (False, m)"

fun matrix :: "LineInfoHeader \<Rightarrow> line_op list \<Rightarrow> LineStateMachine \<Rightarrow> LineStateMachine list" where
  "matrix h [] m = []"
| "matrix h (op # ops) m =
     (let (row, m) = op_effect h op m in
      if row then m # matrix h ops (if end_sequence m then LineStateMachine_Reset (default_is_stmt h) else m) else matrix h ops m)"

text \<open>A line reaches from its row to the next row of its sequence.\<close>

fun line_table :: "LineStateMachine list \<Rightarrow> line_call list" where
  "line_table (row # row' # rows) =
     (if end_sequence row then []
      else [AddLineCall (address row) (address row' - address row) (file_num row) (line_num row) (column_num row)]) @
     line_table (row' # rows)"
| "line_table _ = []"

subsection \<open>Decoding\<close>

lemma exec_reads:
  "ReadUnsignedLEB128 (ULEB128 v @ rest) = Returns (v, length (ULEB128 v))"
  "ReadUnsignedLEB128 (ULEB128 v) = Returns (v, length (ULEB128 v))"
  using ReadUnsignedLEB128_ULEB128 [of v rest] ReadUnsignedLEB128_ULEB128 [of v "[]"] by simp_all

lemma word_bytes_expand:
  "word_bytes (w :: 16 word) = [ucast w, ucast (drop_bit 8 w)]"
  "word_bytes (w4 :: 32 word) = [ucast w4, ucast (drop_bit 8 w4), ucast (drop_bit 16 w4), ucast (drop_bit 24 w4)]"
  "word_bytes (w8 :: 64 word) = [ucast w8, ucast (drop_bit 8 w8), ucast (drop_bit 16 w8), ucast (drop_bit 24 w8),
     ucast (drop_bit 32 w8), ucast (drop_bit 40 w8), ucast (drop_bit 48 w8), ucast (drop_bit 56 w8)]"
  by (simp_all add: word_bytes_def upt_rec)

lemma two_bytes_join: "ucast (ucast w :: 8 word) OR push_bit 8 (ucast (ucast (drop_bit 8 w) :: 8 word)) = (w :: 16 word)"
proof (rule bit_word_eqI)
  fix n
  assume "n < LENGTH(16)"
  then show "bit (ucast (ucast w :: 8 word) OR push_bit 8 (ucast (ucast (drop_bit 8 w) :: 8 word)) :: 16 word) n = bit w n"
    by (cases "n < 8") (auto simp: bit_simps)
qed

lemma four_bytes_join:
  "four_bytes (ucast w) (ucast (drop_bit 8 w)) (ucast (drop_bit 16 w)) (ucast (drop_bit 24 w)) = (w :: 32 word)"
proof (rule bit_word_eqI)
  fix n
  assume n: "n < LENGTH(32)"
  then consider "n < 8" | "8 \<le> n" "n < 16" | "16 \<le> n" "n < 24" | "24 \<le> n" "n < 32" by fastforce
  then show "bit (four_bytes (ucast w) (ucast (drop_bit 8 w)) (ucast (drop_bit 16 w)) (ucast (drop_bit 24 w))) n = bit w n"
    by cases (auto simp: four_bytes_def bit_simps)
qed

lemma eight_bytes_join:
  "eight_bytes (ucast w) (ucast (drop_bit 8 w)) (ucast (drop_bit 16 w)) (ucast (drop_bit 24 w)) (ucast (drop_bit 32 w))
     (ucast (drop_bit 40 w)) (ucast (drop_bit 48 w)) (ucast (drop_bit 56 w)) = (w :: 64 word)"
proof (rule bit_word_eqI)
  fix n
  assume n: "n < LENGTH(64)"
  then consider "n < 8" | "8 \<le> n" "n < 16" | "16 \<le> n" "n < 24" | "24 \<le> n" "n < 32" | "32 \<le> n" "n < 40"
    | "40 \<le> n" "n < 48" | "48 \<le> n" "n < 56" | "56 \<le> n" "n < 64" by fastforce
  then show "bit (eight_bytes (ucast w) (ucast (drop_bit 8 w)) (ucast (drop_bit 16 w)) (ucast (drop_bit 24 w))
     (ucast (drop_bit 32 w)) (ucast (drop_bit 40 w)) (ucast (drop_bit 48 w)) (ucast (drop_bit 56 w))) n = bit w n"
    by cases (auto simp: eight_bytes_def bit_simps)
qed

lemma ReadTwoBytes_put: "ReadTwoBytes r (put_bytes r (word_bytes w) @ rest) = Returns w"
  by (simp add: put_bytes_def word_bytes_expand two_bytes_join)

lemma ReadAddress_put:
  assumes "address_size r = 8 \<or> address_size r = 4 \<and> unat a < 2 ^ 32"
  shows "ReadAddress r (put_address r a @ rest) = Returns a"
proof (cases "address_size r = 8")
  case True
  then show ?thesis by (simp add: ReadAddress_def put_address_def put_bytes_def word_bytes_expand(3) eight_bytes_join)
next
  case False
  then have "ucast (ucast a :: 32 word) = a"
    using assms by (simp add: word_unat_eq_iff unsigned_ucast_eq unsigned_take_bit_eq take_bit_nat_eq_self)
  then show ?thesis
    using False assms by (simp add: ReadAddress_def put_address_def put_bytes_def word_bytes_expand(2) four_bytes_join)
qed

lemma skip_operands_encoded:
  "skip_operands (length vs) (concat (map ULEB128 vs) @ rest) n = Returns (n + of_nat (length (concat (map ULEB128 vs))))"
proof (induction vs arbitrary: n)
  case (Cons v vs)
  then show ?case by (simp add: exec_reads add.assoc)
qed simp

lemma standard_opcode: "9 < b \<Longrightarrow> \<not> b \<le> (k :: 8 word)" if "k \<in> {0, 1, 2, 3, 4, 5, 6, 7, 8, 9}" for k :: "8 word"
  using that by (auto simp: word_less_nat_alt word_le_nat_alt)

lemma other_opcode: "9 < k \<Longrightarrow> k \<notin> {0, 1, 2, 3, 4, 5, 6, 7, 8, 9 :: 8 word}"
  by (auto simp: word_less_nat_alt)

lemma put_address_length: "address_size r = 8 \<or> address_size r = 4 \<Longrightarrow> length (put_address r a) = address_size r"
  by (auto simp: put_address_def put_bytes_def)

lemma ProcessOneOpcode_zero:
  "\<not> opcode_base h \<le> 0 \<Longrightarrow> ProcessOneOpcode r h (0 # start) m pc = extended_opcode r start m 1"
  by (simp add: ProcessOneOpcode_def)

text \<open>Decoding an instruction gives its effect and its length.\<close>

lemma ProcessOneOpcode_encoded:
  assumes "op_ok r h op"
  shows "ProcessOneOpcode r h (encode_op r h op @ rest) m None =
    Returns (fst (op_effect h op m), snd (op_effect h op m), of_nat (length (encode_op r h op)), [], False)"
proof (cases op)
  case (Special k)
  have "unat (opcode_base h + k) = unat (opcode_base h) + unat k"
    using assms by (simp add: Special unat_plus_if')
  then have "opcode_base h \<le> opcode_base h + k" by (simp add: word_le_nat_alt)
  then show ?thesis using assms by (simp add: Special ProcessOneOpcode_def passes_def Let_def add.assoc)
next
  case (AdvanceLine i)
  have "ucast (word_of_int i :: 64 word) = (word_of_int i :: 32 word)"
    by (rule bit_word_eqI) (simp add: bit_simps)
  then show ?thesis
    using assms ReadSignedLEB128_LEB128 [of i rest] standard_opcode [of 3 "opcode_base h"]
    by (simp add: AdvanceLine ProcessOneOpcode_def add.commute)
next
  case (FixedAdvancePC n)
  then show ?thesis
    using assms ReadTwoBytes_put [of r n rest] standard_opcode [of 9 "opcode_base h"]
    by (simp add: ProcessOneOpcode_def passes_def put_bytes_def)
next
  case EndSequence
  then show ?thesis
    using assms exec_reads(1) [of 1 "1 # rest"] standard_opcode [of 0 "opcode_base h"]
    by (simp add: ProcessOneOpcode_zero extended_opcode_def Let_def)
next
  case (SetAddress a)
  let ?n = "of_nat (Suc (address_size r)) :: 64 word"
  have s: "address_size r = 8 \<or> address_size r = 4 \<and> unat a < 2 ^ 32" using assms SetAddress by simp
  then have l: "length (put_address r a) = address_size r" using put_address_length by blast
  show ?thesis
    using assms exec_reads(1) [of ?n "2 # put_address r a @ rest"] standard_opcode [of 0 "opcode_base h"] ReadAddress_put [OF s, of rest] l
    by (simp add: SetAddress ProcessOneOpcode_zero extended_opcode_def Let_def)
next
  case (OtherStandard k vs)
  then have k: "9 < k" "k < opcode_base h" "length vs = unat (std_opcode_lengths h ! unat k)" using assms by simp_all
  then have "\<not> opcode_base h \<le> k" by simp
  then show ?thesis
    using other_opcode [OF k(1)] skip_operands_encoded [of vs rest 1] k(3)
    by (simp add: OtherStandard ProcessOneOpcode_def)
qed (use assms exec_reads standard_opcode in
  \<open>simp_all add: ProcessOneOpcode_def passes_def Let_def\<close>)

subsection \<open>The table of lines\<close>

definition pending_of :: "LineStateMachine option \<Rightarrow> pending_line" where
  "pending_of prev = (case prev of None \<Rightarrow> None | Some row \<Rightarrow> next_pending row)"

definition rows_from :: "LineStateMachine option \<Rightarrow> LineStateMachine list \<Rightarrow> LineStateMachine list" where
  "rows_from prev rows = (case prev of None \<Rightarrow> rows | Some row \<Rightarrow> row # rows)"

lemma line_table_step: "line_table (rows_from prev (m # rows)) = complete_row m (pending_of prev) @ line_table (m # rows)"
  by (cases prev) (simp_all add: rows_from_def pending_of_def complete_row_def next_pending_def)

lemma encode_op_length: "0 < length (encode_op r h op)"
  by (cases op) simp_all

lemma read_lines_loop_encoded:
  assumes "list_all (op_ok r h) ops" "length (pre @ concat (map (encode_op r h) ops) @ post) < 2 ^ 64"
  shows "read_lines_loop r h (pre @ concat (map (encode_op r h) ops) @ post)
      (length pre + length (concat (map (encode_op r h) ops))) (length pre) m (pending_of prev) calls =
    Some (Returns (calls @ line_table (rows_from prev (matrix h ops m))))"
  using assms
proof (induction ops arbitrary: pre m prev calls)
  case Nil
  then show ?case by (subst read_lines_loop.simps) (simp add: rows_from_def split: option.split)
next
  case (Cons op ops)
  let ?e = "encode_op r h op"
  obtain row m' where eff: "op_effect h op m = (row, m')" by fastforce
  have ok: "op_ok r h op" "list_all (op_ok r h) ops" using Cons.prems(1) by simp_all
  have l: "unat (of_nat (length ?e) :: 64 word) = length ?e"
    using Cons.prems(2) by (simp add: unat_of_nat)
  have IH: "read_lines_loop r h (pre @ ?e @ concat (map (encode_op r h) ops) @ post)
      (length pre + (length ?e + length (concat (map (encode_op r h) ops)))) (length pre + length ?e) m (pending_of prev) calls =
    Some (Returns (calls @ line_table (rows_from prev (matrix h ops m))))" for m prev calls
    using Cons.IH [OF ok(2), of "pre @ ?e" m prev calls] Cons.prems(2) by (simp add: add.assoc)
  note step = ProcessOneOpcode_encoded [OF ok(1), of "concat (map (encode_op r h) ops) @ post" m, unfolded eff fst_conv snd_conv]
  have "next_pending m' = pending_of (Some m')" by (simp add: pending_of_def)
  moreover have "rows_from (Some m') rows = m' # rows" for rows by (simp add: rows_from_def)
  ultimately show ?case
    using encode_op_length [of r h op]
    by (subst read_lines_loop.simps) (simp add: step l eff IH line_table_step)
qed

end
