(* ===== verification/Line_Program.thy ===== *)
theory Line_Program
  imports Line_Info
begin

text \<open>
  Complete line number programs: the encoding of the header with its tables of directories and files, and what
  \<open>LineInfo::Start\<close> reports for an encoded program. The last section has the inputs on which the reader does not do
  what it should.
\<close>

section \<open>The header\<close>

record file_entry =
  fe_name :: string
  fe_dir :: "64 word"
  fe_time :: "64 word"
  fe_length :: "64 word"

definition char_byte :: "char \<Rightarrow> 8 word" where
  "char_byte c = of_nat (of_char c)"

definition string_ok :: "string \<Rightarrow> bool" where
  "string_ok s \<longleftrightarrow> s \<noteq> [] \<and> CHR 0x00 \<notin> set s"

definition encode_string :: "string \<Rightarrow> bytes" where
  "encode_string s = map char_byte s @ [0]"

definition encode_file :: "file_entry \<Rightarrow> bytes" where
  "encode_file f = encode_string (fe_name f) @ ULEB128 (fe_dir f) @ ULEB128 (fe_time f) @ ULEB128 (fe_length f)"

definition put_offset :: "ByteReader \<Rightarrow> 64 word \<Rightarrow> bytes" where
  "put_offset r w = put_bytes r (if offset_size r = 8 then word_bytes w else word_bytes (ucast w :: 32 word))"

definition encode_initial_length :: "ByteReader \<Rightarrow> 64 word \<Rightarrow> bytes" where
  "encode_initial_length r w = (if offset_size r = 8 then [0xff, 0xff, 0xff, 0xff] else []) @ put_offset r w"

definition encode_header :: "ByteReader \<Rightarrow> LineInfoHeader \<Rightarrow> string list \<Rightarrow> file_entry list \<Rightarrow> bytes" where
  "encode_header r h dirs files =
     put_bytes r (word_bytes (version h)) @ put_offset r (prologue_length h) @
     [min_insn_length h, if default_is_stmt h then 1 else 0, line_base h, line_range h, opcode_base h] @
     butlast (tl (std_opcode_lengths h)) @ concat (map encode_string dirs) @ 0 # concat (map encode_file files) @ [0]"

definition offset_ok :: "ByteReader \<Rightarrow> 64 word \<Rightarrow> bool" where
  "offset_ok r w \<longleftrightarrow> offset_size r = 8 \<or> offset_size r = 4 \<and> unat w < 2 ^ 32 - 1"

text \<open>The headers that can be written: one length for each standard opcode, and offsets that fit their field.\<close>

definition header_ok :: "ByteReader \<Rightarrow> LineInfoHeader \<Rightarrow> bool" where
  "header_ok r h \<longleftrightarrow> opcode_base h \<noteq> 0 \<and> offset_ok r (prologue_length h) \<and>
     (\<exists>ls. std_opcode_lengths h = 0 # ls @ [0] \<and> length ls = unat (opcode_base h) - 1)"

definition dir_calls :: "nat \<Rightarrow> string list \<Rightarrow> line_call list" where
  "dir_calls n dirs = map (\<lambda>(i, d). DefineDirCall d (of_nat i)) (enumerate n dirs)"

definition file_calls :: "nat \<Rightarrow> file_entry list \<Rightarrow> line_call list" where
  "file_calls n files =
     map (\<lambda>(i, f). DefineFileCall (fe_name f) (of_nat i) (ucast (fe_dir f)) (fe_time f) (fe_length f)) (enumerate n files)"

lemma byte_char_char_byte [simp]: "byte_char (char_byte c) = c"
  by (simp add: byte_char_def char_byte_def unat_of_nat)

lemma char_byte_eq_0: "char_byte c = 0 \<longleftrightarrow> c = CHR 0x00"
proof
  assume "char_byte c = 0"
  then have "byte_char (char_byte c) = byte_char 0" by simp
  also have "(0 :: 8 word) = char_byte (CHR 0x00)" by (simp add: char_byte_def)
  finally show "c = CHR 0x00" by simp
qed (simp add: char_byte_def)

lemma read_string_encoded:
  assumes "CHR 0x00 \<notin> set s"
  shows "read_string (encode_string s @ rest) = Returns (s, rest)"
proof -
  have "takeWhile (\<lambda>b. b \<noteq> 0) (map char_byte s @ 0 # rest) = map char_byte s"
    "dropWhile (\<lambda>b. b \<noteq> 0) (map char_byte s @ 0 # rest) = 0 # rest"
    using assms by (induction s) (auto simp: char_byte_eq_0)
  then show ?thesis by (simp add: read_string_def encode_string_def comp_def)
qed

lemma ReadOneByte_encoded_string:
  assumes "string_ok s"
  obtains b where "ReadOneByte (encode_string s @ rest) = Returns b" "b \<noteq> 0"
  using assms by (cases s) (auto simp: string_ok_def encode_string_def char_byte_eq_0)

lemma read_dirs_encoded:
  "list_all string_ok dirs \<Longrightarrow>
   read_dirs (concat (map encode_string dirs) @ 0 # rest) (of_nat n) = Returns (dir_calls n dirs, 0 # rest)"
proof (induction dirs arbitrary: n)
  case (Cons d dirs)
  then have "string_ok d" by simp
  then obtain b where "ReadOneByte (encode_string d @ concat (map encode_string dirs) @ 0 # rest) = Returns b" "b \<noteq> 0"
    by (rule ReadOneByte_encoded_string)
  moreover have "(of_nat n + 1 :: 32 word) = of_nat (Suc n)" by simp
  ultimately show ?case
    using Cons read_string_encoded [of d "concat (map encode_string dirs) @ 0 # rest"]
    by (subst read_dirs.simps) (simp add: dir_calls_def string_ok_def del: of_nat_Suc)
qed (subst read_dirs.simps, simp add: dir_calls_def)

lemma take_uleb_encoded: "take_uleb (ULEB128 v @ rest) = Returns (v, rest)"
  by (simp add: take_uleb_def exec_reads)

lemma read_files_encoded:
  "list_all (\<lambda>f. string_ok (fe_name f)) files \<Longrightarrow>
   read_files (concat (map encode_file files) @ 0 # rest) (of_nat n) = Returns (file_calls n files, 0 # rest)"
proof (induction files arbitrary: n)
  case (Cons f files)
  let ?rest = "ULEB128 (fe_dir f) @ ULEB128 (fe_time f) @ ULEB128 (fe_length f) @ concat (map encode_file files) @ 0 # rest"
  from Cons have "string_ok (fe_name f)" by simp
  then obtain b where "ReadOneByte (encode_string (fe_name f) @ ?rest) = Returns b" "b \<noteq> 0"
    by (rule ReadOneByte_encoded_string)
  moreover have "(of_nat n + 1 :: 32 word) = of_nat (Suc n)" by simp
  ultimately have "read_files (encode_string (fe_name f) @ ?rest) (of_nat n) = Returns (file_calls n (f # files), 0 # rest)"
    using Cons read_string_encoded [of "fe_name f" ?rest]
    by (subst read_files.simps) (simp add: file_calls_def string_ok_def take_uleb_encoded del: of_nat_Suc)
  then show ?case by (simp add: encode_file_def [of f])
qed (subst read_files.simps, simp add: file_calls_def)

lemma ReadFourBytes_put: "ReadFourBytes r (put_bytes r (word_bytes w) @ rest) = Returns (ucast (w :: 32 word))"
  by (simp add: put_bytes_def word_bytes_expand four_bytes_join)

lemma ucast_32_64: "unat (w :: 64 word) < 2 ^ 32 \<Longrightarrow> ucast (ucast w :: 32 word) = w"
  by (simp add: word_unat_eq_iff unsigned_ucast_eq unsigned_take_bit_eq take_bit_nat_eq_self)

lemma ReadEightBytes_put: "ReadEightBytes r (put_bytes r (word_bytes w) @ rest) = Returns (w :: 64 word)"
  by (simp add: put_bytes_def word_bytes_expand(3) eight_bytes_join)

lemma ReadOffset_put: "offset_ok r w \<Longrightarrow> ReadOffset r (put_offset r w @ rest) = Returns w"
  by (auto simp: offset_ok_def ReadOffset_def put_offset_def ReadFourBytes_put ReadEightBytes_put ucast_32_64)

lemma put_bytes_length [simp]: "length (put_bytes r bs) = length bs"
  by (simp add: put_bytes_def)

lemma put_offset_length: "offset_ok r w \<Longrightarrow> length (put_offset r w') = offset_size r"
  by (auto simp: offset_ok_def put_offset_def put_bytes_def)

lemma offset_size_same: "offset_size r = n \<Longrightarrow> r\<lparr>offset_size := n\<rparr> = r"
  by (cases r) simp

lemma ReadInitialLength_put:
  assumes "offset_ok r w"
  shows "ReadInitialLength (r\<lparr>offset_size := k\<rparr>) (encode_initial_length r w @ rest) =
    Returns (w, length (encode_initial_length r w), r)"
proof (cases "offset_size r = 8")
  case True
  have "ReadFourBytes (r\<lparr>offset_size := k\<rparr>) ([0xff, 0xff, 0xff, 0xff] @ put_offset r w @ rest) = Returns 0xffffffff"
    by (simp add: four_bytes_def)
  then show ?thesis
    using True assms ReadOffset_put [OF assms, of rest]
    by (simp add: ReadInitialLength_def encode_initial_length_def SetOffsetSize_def put_offset_length offset_size_same)
next
  case False
  then have s: "offset_size r = 4" "unat w < 2 ^ 32 - 1" using assms by (simp_all add: offset_ok_def)
  then have "w \<noteq> 0xffffffff" by auto
  then show ?thesis
    using s ReadFourBytes_put [of "r\<lparr>offset_size := k\<rparr>" "ucast w" rest]
    by (simp add: ReadInitialLength_def encode_initial_length_def SetOffsetSize_def put_offset_def put_bytes_def ucast_32_64 offset_size_same)
qed

lemma ReadHeader_encoded:
  assumes "header_ok r h" "address_size r \<noteq> 0" "offset_ok r (total_length h)"
    and "list_all string_ok dirs" "list_all (\<lambda>f. string_ok (fe_name f)) files"
    and buffer: "buffer = encode_initial_length r (total_length h) @ encode_header r h dirs files @ rest"
    and "length (encode_initial_length r (total_length h)) + unat (total_length h) \<le> length buffer"
  shows "ReadHeader (r\<lparr>offset_size := k\<rparr>) buffer (length buffer) =
    Returns (h, r, dir_calls 1 dirs @ file_calls 1 files, length buffer - length rest)"
proof -
  obtain ls where ls: "std_opcode_lengths h = 0 # ls @ [0]" "length ls = unat (opcode_base h) - 1"
    using assms(1) by (auto simp: header_ok_def)
  define files_bytes where "files_bytes = concat (map encode_file files) @ 0 # rest"
  define dirs_bytes where "dirs_bytes = concat (map encode_string dirs) @ 0 # files_bytes"
  define version_bytes where "version_bytes = put_bytes r (word_bytes (version h))"
  define offset_bytes where "offset_bytes = put_offset r (prologue_length h)"
  let ?small = "[min_insn_length h, if default_is_stmt h then 1 else 0, line_base h, line_range h, opcode_base h]"
  have b: "buffer = encode_initial_length r (total_length h) @ version_bytes @ offset_bytes @ ?small @ ls @ dirs_bytes"
    by (simp add: buffer encode_header_def ls files_bytes_def dirs_bytes_def version_bytes_def offset_bytes_def)
  have reads: "ReadTwoBytes r (version_bytes @ xs) = Returns (version h)" "length version_bytes = 2"
    "ReadOffset r (offset_bytes @ xs) = Returns (prologue_length h)" "length offset_bytes = offset_size r" for xs
    using assms(1) by (auto simp: version_bytes_def offset_bytes_def ReadTwoBytes_put ReadOffset_put put_offset_length
        header_ok_def)
  have tables: "read_dirs dirs_bytes 1 = Returns (dir_calls 1 dirs, 0 # files_bytes)"
    "read_files files_bytes 1 = Returns (file_calls 1 files, 0 # rest)"
    using read_dirs_encoded [OF assms(4), of files_bytes 1] read_files_encoded [OF assms(5), of rest 1]
    by (simp_all add: dirs_bytes_def files_bytes_def)
  have "0 # (if opcode_base h = 0 then [] else ls @ [0]) = std_opcode_lengths h"
    using assms(1) ls by (simp add: header_ok_def)
  moreover have "\<not> length buffer < length (encode_initial_length r (total_length h)) + unat (total_length h)"
    using assms(7) by simp
  moreover have "\<not> unat (opcode_base h) - 1 > length (ls @ dirs_bytes)" using ls(2) by simp
  ultimately show ?thesis
    using assms(2) ls(2) ReadInitialLength_put [OF assms(3), of k "version_bytes @ offset_bytes @ ?small @ ls @ dirs_bytes"]
    unfolding b ReadHeader_def by (auto simp: reads tables Let_def intro!: LineInfoHeader.equality)
qed

section \<open>Complete programs\<close>

definition encode_program ::
    "ByteReader \<Rightarrow> LineInfoHeader \<Rightarrow> string list \<Rightarrow> file_entry list \<Rightarrow> line_op list \<Rightarrow> bytes" where
  "encode_program r h dirs files ops =
     encode_initial_length r (total_length h) @ encode_header r h dirs files @ concat (map (encode_op r h) ops)"

text \<open>The programs that can be written: their length fits the field of the header that holds it.\<close>

definition line_program_ok ::
    "ByteReader \<Rightarrow> LineInfoHeader \<Rightarrow> string list \<Rightarrow> file_entry list \<Rightarrow> line_op list \<Rightarrow> bool" where
  "line_program_ok r h dirs files ops \<longleftrightarrow> header_ok r h \<and> (address_size r = 4 \<or> address_size r = 8) \<and> offset_ok r (total_length h) \<and>
     list_all string_ok dirs \<and> list_all (\<lambda>f. string_ok (fe_name f)) files \<and> list_all (op_ok r h) ops \<and>
     unat (total_length h) = length (encode_header r h dirs files @ concat (map (encode_op r h) ops))"

lemma LineInfo_Start_reads:
  assumes "line_program_ok r h dirs files ops" and len: "length (encode_program r h dirs files ops @ rest) < 2 ^ 64"
  shows "LineInfo_Start (r\<lparr>offset_size := k\<rparr>) (encode_program r h dirs files ops @ rest)
      (length (encode_program r h dirs files ops @ rest)) =
    Some (Returns (dir_calls 1 dirs @ file_calls 1 files @ line_table (matrix h ops (LineStateMachine_Reset (default_is_stmt h))),
      length (encode_program r h dirs files ops)))"
proof -
  let ?pre = "encode_initial_length r (total_length h) @ encode_header r h dirs files"
  let ?ops = "concat (map (encode_op r h) ops)"
  have ok: "header_ok r h" "address_size r = 4 \<or> address_size r = 8" "offset_ok r (total_length h)" "list_all string_ok dirs"
    "list_all (\<lambda>f. string_ok (fe_name f)) files" "list_all (op_ok r h) ops"
    "unat (total_length h) = length (encode_header r h dirs files @ ?ops)"
    using assms(1) unfolding line_program_ok_def by blast+
  define buffer where "buffer = ?pre @ ?ops @ rest"
  have start: "(if offset_size r = 8 then 12 else 4) = length (encode_initial_length r (total_length h))"
    using ok(3) put_offset_length [OF ok(3)] by (auto simp: encode_initial_length_def offset_ok_def)
  have "ReadHeader (r\<lparr>offset_size := k\<rparr>) buffer (length buffer) =
      Returns (h, r, dir_calls 1 dirs @ file_calls 1 files, length buffer - length (?ops @ rest))"
    using ok by (intro ReadHeader_encoded) (auto simp: buffer_def)
  then have header: "ReadHeader (r\<lparr>offset_size := k\<rparr>) buffer (length buffer) =
      Returns (h, r, dir_calls 1 dirs @ file_calls 1 files, length ?pre)"
    by (simp add: buffer_def)
  have loop: "read_lines_loop r h buffer (length ?pre + length ?ops) (length ?pre) (LineStateMachine_Reset (default_is_stmt h)) None calls =
      Some (Returns (calls @ line_table (matrix h ops (LineStateMachine_Reset (default_is_stmt h)))))" for calls
    using read_lines_loop_encoded [OF ok(6), of ?pre rest _ None] len
    by (simp add: buffer_def encode_program_def pending_of_def rows_from_def)
  have "length (encode_initial_length r (total_length h)) + unat (total_length h) = length ?pre + length ?ops"
    using ok(7) by simp
  then have "LineInfo_Start (r\<lparr>offset_size := k\<rparr>) buffer (length buffer) =
      Some (Returns ((dir_calls 1 dirs @ file_calls 1 files) @ line_table (matrix h ops (LineStateMachine_Reset (default_is_stmt h))),
        length ?pre + length ?ops))"
    unfolding LineInfo_Start_def header exec.case prod.case start Let_def by (simp only: loop) simp
  then show ?thesis by (simp add: buffer_def encode_program_def)
qed

text \<open>C34. A line number program, written with any byte order, address size and offset size, is read as it is meant: the
  directories and the files of its header are reported in their order with their numbers, then the lines of its matrix, each
  reaching from its row to the next row of its sequence, and the reader stops where the program ends. It terminates.\<close>

theorem LineInfo_Start_encoded:
  assumes "line_program_ok r h dirs files ops" "length (encode_program r h dirs files ops @ rest) < 2 ^ 64"
  shows "LineInfo_Start (r\<lparr>offset_size := k\<rparr>) (encode_program r h dirs files ops @ rest)
      (length (encode_program r h dirs files ops @ rest)) =
    Some (Returns (dir_calls 1 dirs @ file_calls 1 files @ line_table (matrix h ops (LineStateMachine_Reset (default_is_stmt h))),
      length (encode_program r h dirs files ops)))"
  by (rule LineInfo_Start_reads [OF assms])

section \<open>Where the reader fails\<close>

text \<open>C37. The file that \<open>DW_LNE_define_file\<close> defines is reported with its directory as its time and its length as well, and
  the length of the instruction comes out longer than its encoding: its three numbers are read at the same place, and are
  counted although the length of the instruction includes them.\<close>

theorem define_file_misread:
  assumes "0 < opcode_base h" "CHR 0x00 \<notin> set (fe_name f)"
  defines "n \<equiv> of_nat (Suc (length (encode_file f)))"
  shows "ProcessOneOpcode r h (0 # ULEB128 n @ 3 # encode_file f @ rest) m pc =
    Returns (False, m, of_nat (length (0 # ULEB128 n @ 3 # encode_file f)) + of_nat (3 * length (ULEB128 (fe_dir f))),
      [DefineFileCall (fe_name f) (- 1) (ucast (fe_dir f)) (fe_dir f) (fe_dir f)], False)"
proof -
  let ?rest = "ULEB128 (fe_dir f) @ ULEB128 (fe_time f) @ ULEB128 (fe_length f) @ rest"
  have f: "encode_file f @ rest = encode_string (fe_name f) @ ?rest" by (simp add: encode_file_def)
  have "\<not> opcode_base h \<le> 0" using assms(1) by simp
  moreover have "read_string (encode_file f @ rest) = Returns (fe_name f, ?rest)"
    unfolding f by (rule read_string_encoded [OF assms(2)])
  ultimately show ?thesis
    by (simp add: ProcessOneOpcode_zero extended_opcode_def Let_def exec_reads(1) [of n]
        exec_reads(1) [of "fe_dir f"]) (simp add: n_def)
qed

text \<open>An extended instruction that is not known, whose length makes the length of the whole wrap to zero.\<close>

definition stuck_at :: "LineInfoHeader \<Rightarrow> bytes \<Rightarrow> nat \<Rightarrow> nat \<Rightarrow> bool" where
  "stuck_at h buffer stop p \<longleftrightarrow> 0 < opcode_base h \<and> p < stop \<and> p \<le> length buffer \<and>
     (\<exists>n x rest. drop p buffer = 0 # ULEB128 n @ x # rest \<and> 1 + of_nat (length (ULEB128 n)) + n = 0 \<and> x \<notin> {1, 2, 3})"

lemma ProcessOneOpcode_stuck:
  assumes "stuck_at h buffer stop p"
  shows "ProcessOneOpcode r h (drop p buffer) m None = Returns (False, m, 0, [], False)"
proof -
  obtain n x rest where b: "drop p buffer = 0 # ULEB128 n @ x # rest" "1 + of_nat (length (ULEB128 n)) + n = 0" "x \<notin> {1, 2, 3}"
    using assms by (auto simp: stuck_at_def)
  have "\<not> opcode_base h \<le> 0" using assms by (auto simp: stuck_at_def)
  then show ?thesis
    using b(2,3) by (simp add: b(1) ProcessOneOpcode_zero extended_opcode_def Let_def exec_reads(1) add.assoc)
qed

text \<open>C36. The reader of a line number program never returns once it meets an unknown extended instruction whose
  length, added to the bytes before it, wraps around to zero: the pointer stays where it is.\<close>

theorem ReadLines_diverges:
  assumes "stuck_at h buffer stop p"
  shows "read_lines_loop r h buffer stop p m pending calls = None"
proof (rule ccontr)
  assume "read_lines_loop r h buffer stop p m pending calls \<noteq> None"
  then obtain y where "read_lines_loop r h buffer stop p m pending calls = Some y" by blast
  then have "\<not> stuck_at h buffer stop p"
  proof (rule read_lines_loop.raw_induct [of "\<lambda>r h buffer stop p m pending calls y. \<not> stuck_at h buffer stop p", rotated])
    fix loop r h buffer stop p m pending calls y
    assume IH: "\<And>r h buffer stop p m pending calls y.
        loop r h buffer stop p m pending calls = Some y \<Longrightarrow> \<not> stuck_at h buffer stop p"
      and "(if p < stop
           then case ProcessOneOpcode r h (drop p buffer) m None of Undefined \<Rightarrow> Some Undefined
             | Returns (add_row, lsm, oplength, new_calls, passed) \<Rightarrow>
                 if length buffer < p + unat oplength then Some Undefined
                 else if add_row then
                   loop r h buffer stop (p + unat oplength)
                     (if end_sequence lsm then LineStateMachine_Reset (default_is_stmt h) else lsm) (next_pending lsm)
                     (calls @ new_calls @ complete_row lsm pending)
                 else loop r h buffer stop (p + unat oplength) lsm pending (calls @ new_calls)
           else Some (Returns calls)) = Some y"
    then have "loop r h buffer stop p m pending calls = Some y" if "stuck_at h buffer stop p"
      using ProcessOneOpcode_stuck [OF that, of r m] that by (simp add: stuck_at_def split: if_split_asm)
    then show "\<not> stuck_at h buffer stop p" using IH by blast
  qed
  then show False using assms by blast
qed

section \<open>Sample programs\<close>

definition sample_reader :: ByteReader where
  "sample_reader = (ByteReader_new ENDIANNESS_LITTLE)\<lparr>address_size := 8, offset_size := 4\<rparr>"

definition sample_header :: LineInfoHeader where
  "sample_header = \<lparr>total_length = 53, version = 2, prologue_length = 25, min_insn_length = 1, default_is_stmt = True,
     line_base = - 5, line_range = 14, opcode_base = 10, std_opcode_lengths = 0 # [0, 1, 1, 1, 1, 0, 0, 0, 1] @ [0]\<rparr>"

definition sample_dirs :: "string list" where
  "sample_dirs = [''d'']"

definition sample_files :: "file_entry list" where
  "sample_files = [\<lparr>fe_name = ''a.c'', fe_dir = 1, fe_time = 3, fe_length = 4\<rparr>]"

definition sample_ops :: "line_op list" where
  "sample_ops = [SetAddress 0x1000, Special 10, AdvancePC 200, Special 20, FixedAdvancePC 0x1c, EndSequence]"

lemma ULEB128_small: "\<not> 0x7f < v \<Longrightarrow> ULEB128 v = [ucast v]"
  by (simp add: ULEB128.simps)

lemma sample_length: "length (encode_header sample_reader sample_header sample_dirs sample_files @
    concat (map (encode_op sample_reader sample_header) sample_ops)) = 53"
  by (simp add: encode_header_def sample_header_def sample_reader_def sample_dirs_def sample_files_def sample_ops_def
      ByteReader_new_def put_offset_def encode_string_def encode_file_def put_address_def ULEB128_small ULEB128.simps [of 200])

lemma sample_program_ok: "line_program_ok sample_reader sample_header sample_dirs sample_files sample_ops"
proof -
  have "unat (total_length sample_header) = length (encode_header sample_reader sample_header sample_dirs sample_files @
      concat (map (encode_op sample_reader sample_header) sample_ops))"
    unfolding sample_length by (simp add: sample_header_def)
  moreover have "header_ok sample_reader sample_header" "offset_ok sample_reader (total_length sample_header)"
    "address_size sample_reader = 4 \<or> address_size sample_reader = 8" "list_all string_ok sample_dirs"
    "list_all (\<lambda>f. string_ok (fe_name f)) sample_files"
    by (simp_all add: header_ok_def offset_ok_def sample_header_def sample_reader_def sample_dirs_def sample_files_def string_ok_def)
  moreover have "list_all (op_ok sample_reader sample_header) sample_ops"
    by (simp add: sample_ops_def sample_header_def sample_reader_def)
  ultimately show ?thesis unfolding line_program_ok_def by blast
qed

lemma sample_program_length: "length (encode_program sample_reader sample_header sample_dirs sample_files sample_ops @ []) < 2 ^ 64"
  using sample_length by (simp add: encode_program_def encode_initial_length_def put_offset_def)

lemma sample_matrix: "line_table (matrix sample_header sample_ops (LineStateMachine_Reset (default_is_stmt sample_header))) =
    [AddLineCall 0x1000 0xc9 1 6 0, AddLineCall 0x10c9 0x1c 1 7 0]"
  by (simp add: sample_header_def sample_ops_def LineStateMachine_Reset_def)

theorem LineInfo_Start_encoded_witness:
  "\<exists>n. LineInfo_Start (sample_reader\<lparr>offset_size := 0\<rparr>)
     (encode_program sample_reader sample_header sample_dirs sample_files sample_ops @ [])
     (length (encode_program sample_reader sample_header sample_dirs sample_files sample_ops @ [])) =
   Some (Returns ([DefineDirCall ''d'' 1, DefineFileCall ''a.c'' 1 1 3 4,
     AddLineCall 0x1000 0xc9 1 6 0, AddLineCall 0x10c9 0x1c 1 7 0], n))"
proof -
  have "dir_calls 1 sample_dirs @ file_calls 1 sample_files = [DefineDirCall ''d'' 1, DefineFileCall ''a.c'' 1 1 3 4]"
    by (simp add: dir_calls_def file_calls_def sample_dirs_def sample_files_def)
  then show ?thesis
    using LineInfo_Start_encoded [OF sample_program_ok sample_program_length, of 0] by (simp add: sample_matrix)
qed

theorem define_file_misread_witness:
  "ProcessOneOpcode sample_reader sample_header (0 # [8] @ 3 # encode_file (hd sample_files) @ []) (LineStateMachine_Reset True) None =
    Returns (False, LineStateMachine_Reset True, 13, [DefineFileCall ''a.c'' (- 1) 1 1 1], False)"
  using define_file_misread [of sample_header "hd sample_files" sample_reader "[]" "LineStateMachine_Reset True" None]
  by (simp add: sample_header_def sample_files_def encode_file_def encode_string_def ULEB128_small)

lemma ULEB128_long: "ULEB128 (- 11) = [0xf5, 0xff, 0xff, 0xff, 0xff, 0xff, 0xff, 0xff, 0xff, 1]"
  by (simp add: ULEB128.simps)

theorem ReadLines_diverges_witness:
  "read_lines_loop sample_reader sample_header [0, 0xf5, 0xff, 0xff, 0xff, 0xff, 0xff, 0xff, 0xff, 0xff, 1, 9] 12 0
     (LineStateMachine_Reset True) None [] = None"
proof -
  have "stuck_at sample_header (0 # ULEB128 (- 11) @ [9]) 12 0"
    unfolding stuck_at_def by (intro conjI exI [of _ "- 11 :: 64 word"] exI [of _ "9 :: 8 word"] exI [of _ "[]"]) (simp_all add: sample_header_def ULEB128_long)
  from ReadLines_diverges [OF this] show ?thesis by (simp add: ULEB128_long)
qed

end
