(* ===== verification/Symbol_Module.thy ===== *)
theory Symbol_Module
  imports Symbol_File
begin

unbundle bit_operations_syntax

text \<open>
  The producer of symbol files: the module that the symbol dumpers fill and write out (\<^verbatim>\<open>common/module.cc\<close>,
  \<^verbatim>\<open>common/module.h\<close>). A pointer to a source file is its name, under which the module owns it; the sets and maps of
  the module are ordered maps. The stream is given by the output on which it is still good; a stream that is not
  takes no more output.
\<close>

section \<open>Data\<close>

record SymLine =
  line_address :: "64 word"
  line_size :: "64 word"
  line_file :: string
  line_number :: int

record SymFunction =
  func_name :: string
  func_address :: "64 word"
  func_size :: "64 word"
  func_parameter_size :: "64 word"
  func_lines :: "SymLine list"

type_synonym RuleMap = "(string, string) omap"

record StackFrameEntry =
  entry_address :: "64 word"
  entry_length :: "64 word"
  initial_rules :: RuleMap
  rule_changes :: "(64 word, RuleMap) omap"

record SymModule =
  mod_name :: string
  mod_os :: string
  architecture :: string
  mod_id :: string
  load_address :: "64 word"
  source_files :: "(string, int) omap"
  sym_functions :: "SymFunction list"
  externs :: "(64 word, string) omap"
  stack_frame_entries :: "StackFrameEntry list"

datatype SymbolData = ALL_SYMBOL_DATA | NO_CFI | ONLY_CFI

definition SymModule_new :: "string \<Rightarrow> string \<Rightarrow> string \<Rightarrow> string \<Rightarrow> SymModule" where
  "SymModule_new name os arch ident =
     \<lparr>mod_name = name, mod_os = os, architecture = arch, mod_id = ident, load_address = 0, source_files = [],
      sym_functions = [], externs = [], stack_frame_entries = []\<rparr>"

definition SetLoadAddress :: "64 word \<Rightarrow> SymModule \<Rightarrow> SymModule" where
  "SetLoadAddress address m = m\<lparr>load_address := address\<rparr>"

section \<open>Filling the module\<close>

text \<open>\<open>FunctionCompare\<close>, and the insertion into the set that it orders: an equivalent function that is there stays.\<close>

definition FunctionCompare :: "SymFunction \<Rightarrow> SymFunction \<Rightarrow> bool" where
  "FunctionCompare lhs rhs =
     (if func_address lhs = func_address rhs then func_name lhs < func_name rhs else func_address lhs < func_address rhs)"

definition insert_function :: "SymFunction \<Rightarrow> SymFunction list \<Rightarrow> SymFunction list" where
  "insert_function f fs =
     (let before = takeWhile (\<lambda>g. FunctionCompare g f) fs; after = dropWhile (\<lambda>g. FunctionCompare g f) fs
      in if after \<noteq> [] \<and> \<not> FunctionCompare f (hd after) then fs else before @ f # after)"

definition erase_extern :: "64 word \<Rightarrow> (64 word, string) omap \<Rightarrow> (64 word, string) omap" where
  "erase_extern a es = (let it = omap_find es a in if it = length es then es else omap_erase it (it + 1) es)"

text \<open>A function without a name fails the assertion. A PUBLIC symbol at the address of the function is removed.\<close>

definition AddFunction :: "SymFunction \<Rightarrow> SymModule \<Rightarrow> SymModule exec" where
  "AddFunction function m =
     (if func_name function = [] then Undefined
      else
        let a = (if omap_find (externs m) (func_address function) = length (externs m) \<and> architecture m = ''arm'' \<and>
                    func_address function AND 1 = 0
                 then func_address function OR 1 else func_address function)
        in Returns (m\<lparr>externs := erase_extern a (externs m), sym_functions := insert_function function (sym_functions m)\<rparr>))"

fun AddFunctions :: "SymFunction list \<Rightarrow> SymModule \<Rightarrow> SymModule exec" where
  "AddFunctions [] m = Returns m"
| "AddFunctions (f # fs) m = exec_bind (AddFunction f m) (\<lambda>m. AddFunctions fs m)"

definition AddStackFrameEntry :: "StackFrameEntry \<Rightarrow> SymModule \<Rightarrow> SymModule" where
  "AddStackFrameEntry e m = m\<lparr>stack_frame_entries := stack_frame_entries m @ [e]\<rparr>"

definition AddExtern :: "64 word \<Rightarrow> string \<Rightarrow> SymModule \<Rightarrow> SymModule" where
  "AddExtern address name m = m\<lparr>externs := omap_insert address name (externs m)\<rparr>"

definition GetFunctions :: "SymModule \<Rightarrow> SymFunction list" where
  "GetFunctions m = sym_functions m"

definition GetExterns :: "SymModule \<Rightarrow> (64 word \<times> string) list" where
  "GetExterns m = externs m"

definition FindFile :: "string \<Rightarrow> SymModule \<Rightarrow> string \<times> SymModule" where
  "FindFile name m =
     (let destiny = lower_bound (source_files m) name in
      if destiny = length (source_files m) \<or> fst (source_files m ! destiny) \<noteq> name
      then (name, m\<lparr>source_files := omap_insert name (-1) (source_files m)\<rparr>)
      else (fst (source_files m ! destiny), m))"

definition FindExistingFile :: "string \<Rightarrow> SymModule \<Rightarrow> string option" where
  "FindExistingFile name m =
     (let it = omap_find (source_files m) name in
      if it = length (source_files m) then None else Some (fst (source_files m ! it)))"

definition GetFiles :: "SymModule \<Rightarrow> string list" where
  "GetFiles m = map fst (source_files m)"

section \<open>Writing\<close>

definition mark_file :: "string \<Rightarrow> (string, int) omap \<Rightarrow> (string, int) omap" where
  "mark_file name fs = map (\<lambda>(n, i). (n, if n = name then 0 else i)) fs"

fun number_files :: "int \<Rightarrow> (string, int) omap \<Rightarrow> (string, int) omap" where
  "number_files next_source_id [] = []"
| "number_files next_source_id ((n, i) # fs) =
     (if i = 0 then (n, next_source_id) # number_files (next_source_id + 1) fs
      else (n, i) # number_files next_source_id fs)"

definition AssignSourceIds :: "SymModule \<Rightarrow> SymModule" where
  "AssignSourceIds m =
     (let fresh = map (\<lambda>(n, i). (n, - 1)) (source_files m);
          marked = fold (\<lambda>func fs. fold (\<lambda>line. mark_file (line_file line)) (func_lines func) fs) (GetFunctions m) fresh
      in m\<lparr>source_files := number_files 0 marked\<rparr>)"

text \<open>The id of the file of a line. A file of another module has been marked with zero.\<close>

definition source_id :: "SymModule \<Rightarrow> string \<Rightarrow> int" where
  "source_id m name = (case map_of (source_files m) name of Some i \<Rightarrow> i | None \<Rightarrow> 0)"

definition show_int :: "int \<Rightarrow> string" where
  "show_int i = (if i < 0 then CHR ''-'' # show_base 10 (nat (- i)) else show_base 10 (nat i))"

text \<open>What is written, in pieces. The flag says that the code then looks whether the stream is still good.\<close>

type_synonym piece = "string \<times> bool"

definition endl :: string where "endl = [CHR 10]"

fun rule_map_text :: "RuleMap \<Rightarrow> string" where
  "rule_map_text [] = []"
| "rule_map_text [(reg, rule)] = reg @ '': '' @ rule"
| "rule_map_text ((reg, rule) # r # rs) = reg @ '': '' @ rule @ '' '' @ rule_map_text (r # rs)"

definition file_pieces :: "SymModule \<Rightarrow> piece list" where
  "file_pieces m =
     map (\<lambda>(n, i). (''FILE '' @ show_int i @ '' '' @ n @ endl, True)) (filter (\<lambda>(n, i). i \<ge> 0) (source_files m))"

definition line_piece :: "SymModule \<Rightarrow> SymLine \<Rightarrow> piece" where
  "line_piece m l =
     (show_hex (line_address l - load_address m) @ '' '' @ show_hex (line_size l) @ '' '' @ show_int (line_number l) @ '' '' @
      show_int (source_id m (line_file l)) @ endl, True)"

definition function_pieces :: "SymModule \<Rightarrow> SymFunction \<Rightarrow> piece list" where
  "function_pieces m f =
     (''FUNC '' @ show_hex (func_address f - load_address m) @ '' '' @ show_hex (func_size f) @ '' '' @
      show_hex (func_parameter_size f) @ '' '' @ func_name f @ endl, True) # map (line_piece m) (func_lines f)"

definition extern_piece :: "SymModule \<Rightarrow> 64 word \<times> string \<Rightarrow> piece" where
  "extern_piece m e = (''PUBLIC '' @ show_hex (fst e - load_address m) @ '' 0 '' @ snd e @ endl, False)"

definition cfi_pieces :: "SymModule \<Rightarrow> StackFrameEntry \<Rightarrow> piece list" where
  "cfi_pieces m e =
     [(''STACK CFI INIT '' @ show_hex (entry_address e - load_address m) @ '' '' @ show_hex (entry_length e) @ '' '', True),
      (rule_map_text (initial_rules e), True), (endl, False)] @
     concat (map (\<lambda>d. [(''STACK CFI '' @ show_hex (fst d - load_address m) @ '' '', True),
        (rule_map_text (snd d), True), (endl, False)]) (rule_changes e))"

definition symbol_pieces :: "SymModule \<Rightarrow> SymbolData \<Rightarrow> piece list" where
  "symbol_pieces m symbol_data =
     [(''MODULE '' @ mod_os m @ '' '' @ architecture m @ '' '' @ mod_id m @ '' '' @ mod_name m @ endl, True)] @
     (if symbol_data \<noteq> ONLY_CFI
      then file_pieces m @ concat (map (function_pieces m) (GetFunctions m)) @ map (extern_piece m) (externs m) else []) @
     (if symbol_data \<noteq> NO_CFI then concat (map (cfi_pieces m) (stack_frame_entries m)) else [])"

fun emit :: "(string \<Rightarrow> bool) \<Rightarrow> string \<Rightarrow> piece list \<Rightarrow> bool \<times> string" where
  "emit good out [] = (True, out)"
| "emit good out ((t, checked) # ps) =
     (let out' = (if good out then out @ t else out)
      in if checked \<and> \<not> good out' then (False, out') else emit good out' ps)"

definition Module_Write :: "(string \<Rightarrow> bool) \<Rightarrow> SymbolData \<Rightarrow> SymModule \<Rightarrow> bool \<times> string \<times> SymModule" where
  "Module_Write good symbol_data m =
     (let m' = (if symbol_data \<noteq> ONLY_CFI then AssignSourceIds m else m);
          (ok, text) = emit good [] (symbol_pieces m' symbol_data)
      in (ok, text, if symbol_data \<noteq> ONLY_CFI \<and> fst (emit good [] [hd (symbol_pieces m' symbol_data)]) then m' else m))"

section \<open>The written text as records\<close>

definition line_record :: "SymModule \<Rightarrow> SymLine \<Rightarrow> sym_record" where
  "line_record m l =
     LineRec (line_address l - load_address m) (line_size l) (nat (line_number l)) (nat (source_id m (line_file l)))"

definition function_records :: "SymModule \<Rightarrow> SymFunction \<Rightarrow> sym_record list" where
  "function_records m f =
     FuncRec (func_address f - load_address m) (func_size f) (unat (func_parameter_size f)) (func_name f) #
     map (line_record m) (func_lines f)"

definition cfi_records :: "SymModule \<Rightarrow> StackFrameEntry \<Rightarrow> sym_record list" where
  "cfi_records m e =
     CfiInitRec (entry_address e - load_address m) (entry_length e) (rule_map_text (initial_rules e)) #
     map (\<lambda>d. CfiDeltaRec (fst d - load_address m) (rule_map_text (snd d))) (rule_changes e)"

definition used_files :: "SymModule \<Rightarrow> (string \<times> int) list" where
  "used_files m = filter (\<lambda>(n, i). i \<ge> 0) (source_files m)"

definition module_records :: "SymModule \<Rightarrow> sym_record list" where
  "module_records m =
     ModuleRec (mod_os m @ '' '' @ architecture m @ '' '' @ mod_id m @ '' '' @ mod_name m) #
     map (\<lambda>(n, i). FileRec (nat i) n) (used_files m) @ concat (map (function_records m) (sym_functions m)) @
     map (\<lambda>e. PublicRec (fst e - load_address m) 0 (snd e)) (externs m) @
     concat (map (cfi_records m) (stack_frame_entries m))"

lemma emit_good: "emit (\<lambda>_. True) out ps = (True, out @ concat (map fst ps))"
  by (induction ps arbitrary: out) auto

lemma show_base_zero: "show_base 16 0 = ''0''" "show_base 10 0 = ''0''"
  by (simp_all add: show_base.simps [of _ 0] digit_of_def char_of_def bit_0)

lemma show_int_nonneg: "0 \<le> i \<Longrightarrow> show_int i = show_base 10 (nat i)"
  by (simp add: show_int_def)

lemma file_text_Cons: "file_text (r # rs) = show_record r @ CHR 10 # file_text rs"
  by (simp add: file_text_def)

lemma file_text_append: "file_text (rs @ ss) = file_text rs @ file_text ss"
  by (simp add: file_text_def)

lemma file_text_concat: "file_text (concat rss) = concat (map file_text rss)"
  by (induction rss) (simp_all add: file_text_def)

lemma file_text_map: "file_text (map f xs) = concat (map (\<lambda>x. show_record (f x) @ [CHR 10]) xs)"
  by (simp add: file_text_def comp_def)

lemma file_pieces_text: "concat (map fst (file_pieces m)) = file_text (map (\<lambda>(n, i). FileRec (nat i) n) (used_files m))"
proof -
  have "map fst (file_pieces m) = map (\<lambda>x. show_record (case x of (n, i) \<Rightarrow> FileRec (nat i) n) @ [CHR 10]) (used_files m)"
    by (auto simp: file_pieces_def used_files_def endl_def blank_fields_def show_int_nonneg)
  then show ?thesis by (simp add: file_text_map)
qed

lemma line_piece_text:
  "0 \<le> line_number l \<Longrightarrow> 0 \<le> source_id m (line_file l) \<Longrightarrow> fst (line_piece m l) = show_record (line_record m l) @ [CHR 10]"
  by (simp add: line_piece_def line_record_def endl_def blank_fields_def show_int_nonneg)

lemma function_pieces_text:
  assumes "\<forall>l\<in>set (func_lines f). 0 \<le> line_number l \<and> 0 \<le> source_id m (line_file l)"
  shows "concat (map fst (function_pieces m f)) = file_text (function_records m f)"
proof -
  have "concat (map fst (map (line_piece m) (func_lines f))) = file_text (map (line_record m) (func_lines f))"
    using assms by (simp add: file_text_map line_piece_text cong: map_cong)
  then show ?thesis
    by (simp add: function_pieces_def function_records_def file_text_def endl_def blank_fields_def show_hex_def)
qed

lemma cfi_pieces_text: "concat (map fst (cfi_pieces m e)) = file_text (cfi_records m e)"
proof -
  have "concat (map fst (concat (map (\<lambda>d. [(''STACK CFI '' @ show_hex (fst d - load_address m) @ '' '', True),
        (rule_map_text (snd d), True), (endl, False)]) ds))) =
      file_text (map (\<lambda>d. CfiDeltaRec (fst d - load_address m) (rule_map_text (snd d))) ds)" for ds
    by (induction ds) (simp_all add: file_text_def endl_def blank_fields_def)
  then show ?thesis by (simp add: cfi_pieces_def cfi_records_def file_text_def endl_def blank_fields_def)
qed

lemma concat_map_concat: "concat (map f (concat xss)) = concat (map (\<lambda>xs. concat (map f xs)) xss)"
  by (induction xss) simp_all

lemma symbol_pieces_text:
  assumes "\<forall>f\<in>set (sym_functions m). \<forall>l\<in>set (func_lines f). 0 \<le> line_number l \<and> 0 \<le> source_id m (line_file l)"
  shows "concat (map fst (symbol_pieces m ALL_SYMBOL_DATA)) = file_text (module_records m)"
proof -
  have "concat (map fst (concat (map (function_pieces m) (sym_functions m)))) =
      file_text (concat (map (function_records m) (sym_functions m)))"
    using assms by (simp add: concat_map_concat file_text_concat comp_def function_pieces_text cong: map_cong)
  moreover have "concat (map fst (concat (map (cfi_pieces m) es))) = file_text (concat (map (cfi_records m) es))" for es
    by (simp add: concat_map_concat file_text_concat comp_def cfi_pieces_text)
  moreover have "concat (map fst (map (extern_piece m) es)) =
      file_text (map (\<lambda>e. PublicRec (fst e - load_address m) 0 (snd e)) es)" for es
    by (simp add: file_text_map extern_piece_def endl_def blank_fields_def show_base_zero comp_def)
  ultimately show ?thesis
    by (simp add: symbol_pieces_def module_records_def GetFunctions_def file_pieces_text file_text_append file_text_Cons
        endl_def)
qed

section \<open>Source ids\<close>

definition cited :: "SymModule \<Rightarrow> string \<Rightarrow> bool" where
  "cited m n \<longleftrightarrow> (\<exists>f\<in>set (sym_functions m). \<exists>l\<in>set (func_lines f). line_file l = n)"

lemma mark_lines:
  "fold (\<lambda>line. mark_file (line_file line)) ls fs = map (\<lambda>(n, i). (n, if n \<in> line_file ` set ls then 0 else i)) fs"
  by (induction ls arbitrary: fs) (auto simp: mark_file_def comp_def)

lemma mark_functions:
  "fold (\<lambda>func fs. fold (\<lambda>line. mark_file (line_file line)) (func_lines func) fs) gs fs =
    map (\<lambda>(n, i). (n, if \<exists>f\<in>set gs. \<exists>l\<in>set (func_lines f). line_file l = n then 0 else i)) fs"
  by (induction gs arbitrary: fs) (auto simp: mark_lines comp_def)

definition marked_files :: "SymModule \<Rightarrow> (string, int) omap" where
  "marked_files m = map (\<lambda>x. (fst x, if cited m (fst x) then 0 else - 1)) (source_files m)"

lemma AssignSourceIds_files: "source_files (AssignSourceIds m) = number_files 0 (marked_files m)"
  by (simp add: AssignSourceIds_def mark_functions cited_def GetFunctions_def comp_def case_prod_unfold marked_files_def cong: if_cong)

lemma marked_files_simps:
  "map fst (marked_files m) = map fst (source_files m)" "\<forall>x\<in>set (marked_files m). snd x = 0 \<or> snd x = - 1"
  "x \<in> set (marked_files m) \<Longrightarrow> snd x = 0 \<longleftrightarrow> cited m (fst x)"
  by (auto simp: marked_files_def comp_def split: if_split_asm)

lemma number_files_names [simp]: "map fst (number_files k fs) = map fst fs"
  by (induction k fs rule: number_files.induct) simp_all

lemma length_number_files [simp]: "length (number_files k fs) = length fs"
  by (induction k fs rule: number_files.induct) simp_all

lemma number_files_ids:
  assumes "\<forall>x\<in>set fs. snd x = 0 \<or> snd x = - 1" "0 \<le> k"
  shows "map snd (filter (\<lambda>(n, i). 0 \<le> i) (number_files k fs)) =
    [k..k + int (length (filter (\<lambda>x. snd x = 0) fs)) - 1]"
  using assms
proof (induction k fs rule: number_files.induct)
  case (2 k n i fs)
  show ?case
  proof (cases "i = 0")
    case True
    then have "map snd (filter (\<lambda>(n, i). 0 \<le> i) (number_files k ((n, i) # fs))) =
        k # [k + 1..k + 1 + int (length (filter (\<lambda>x. snd x = 0) fs)) - 1]"
      using 2 by simp
    also have "\<dots> = [k..k + int (length (filter (\<lambda>x. snd x = 0) ((n, i) # fs))) - 1]"
      using True by (subst (2) upto.simps) (simp add: algebra_simps)
    finally show ?thesis .
  qed (use 2 in simp)
qed simp

lemma number_files_marks:
  "0 \<le> k \<Longrightarrow> list_all2 (\<lambda>x y. fst x = fst y \<and> (if snd x = 0 then 0 \<le> snd y else snd y = snd x)) fs (number_files k fs)"
  by (induction k fs rule: number_files.induct) auto

lemma AssignSourceIds_cited:
  assumes "(n, i) \<in> set (source_files (AssignSourceIds m))"
  shows "0 \<le> i \<longleftrightarrow> cited m n"
proof -
  let ?fs = "marked_files m"
  obtain j where j: "j < length (number_files 0 ?fs)" "number_files 0 ?fs ! j = (n, i)"
    using assms unfolding AssignSourceIds_files in_set_conv_nth by blast
  have all: "list_all2 (\<lambda>x y. fst x = fst y \<and> (if snd x = 0 then 0 \<le> snd y else snd y = snd x)) ?fs (number_files 0 ?fs)"
    by (rule number_files_marks) simp
  then have "?fs ! j \<in> set ?fs" using j(1) by simp
  from marked_files_simps(3) [OF this] bspec [OF marked_files_simps(2) this]
  have mark: "snd (?fs ! j) = 0 \<longleftrightarrow> cited m (fst (?fs ! j))" "snd (?fs ! j) = 0 \<or> snd (?fs ! j) = - 1" .
  have "fst (?fs ! j) = n" "if snd (?fs ! j) = 0 then 0 \<le> i else i = snd (?fs ! j)"
    using list_all2_nthD2 [OF all j(1)] unfolding j(2) by (simp_all split: if_split_asm)
  with mark show ?thesis by (cases "snd (?fs ! j) = 0") simp_all
qed

lemma used_files_ids:
  "map snd (used_files (AssignSourceIds m)) = [0..int (length (used_files (AssignSourceIds m))) - 1]"
proof -
  have ids: "map snd (used_files (AssignSourceIds m)) = [0..int (length (filter (\<lambda>x. snd x = 0) (marked_files m))) - 1]"
    using number_files_ids [OF marked_files_simps(2)] by (simp add: used_files_def AssignSourceIds_files)
  then have "length (used_files (AssignSourceIds m)) = length (filter (\<lambda>x. snd x = 0) (marked_files m))"
    using arg_cong [OF ids, of length] unfolding length_map length_upto by simp
  with ids show ?thesis by simp
qed

text \<open>\<open>AssignSourceIds\<close> keeps the files and numbers exactly those that a line of some function cites, in the order
  of their names and without gaps from zero; every other file gets the id -1 or less.\<close>

theorem AssignSourceIds_numbers:
  "map fst (source_files (AssignSourceIds m)) = map fst (source_files m) \<and>
    (\<forall>(n, i)\<in>set (source_files (AssignSourceIds m)). 0 \<le> i \<longleftrightarrow> cited m n) \<and>
    map snd (filter (\<lambda>(n, i). 0 \<le> i) (source_files (AssignSourceIds m))) =
      [0..int (length (filter (\<lambda>(n, i). cited m n) (source_files m))) - 1]"
proof -
  have names: "map fst (source_files (AssignSourceIds m)) = map fst (source_files m)"
    by (simp add: AssignSourceIds_files marked_files_simps)
  have cited: "\<forall>(n, i)\<in>set (source_files (AssignSourceIds m)). 0 \<le> i \<longleftrightarrow> cited m n" using AssignSourceIds_cited by blast
  have "length (used_files (AssignSourceIds m)) = length (filter (\<lambda>(n, i). cited m n) (source_files (AssignSourceIds m)))"
    unfolding used_files_def using cited by (intro arg_cong [of _ _ length] filter_cong) auto
  also have "\<dots> = length (filter (cited m) (map fst (source_files (AssignSourceIds m))))"
    by (simp add: filter_map comp_def case_prod_unfold)
  also have "\<dots> = length (filter (\<lambda>(n, i). cited m n) (source_files m))"
    unfolding names by (simp add: filter_map comp_def case_prod_unfold)
  finally show ?thesis using names cited used_files_ids [of m] by (simp add: used_files_def)
qed

section \<open>Loading what was written\<close>

lemma num_errors_apply: "num_errors l \<le> num_errors (apply_record r l)"
  by (cases r) (auto simp: load_function_def load_line_def LogParseError_def Let_def case_prod_unfold split: option.split)

lemma num_errors_fold: "num_errors l \<le> num_errors (fold apply_record rs l)"
  by (induction rs arbitrary: l) (auto intro: order_trans [OF num_errors_apply])

lemma apply_records_fold:
  "num_errors (fold apply_record rs l) \<le> kMaxErrorsBeforeBailing \<Longrightarrow> apply_records rs l = fold apply_record rs l"
proof (induction rs arbitrary: l)
  case (Cons r rs)
  have "num_errors (apply_record r l) \<le> kMaxErrorsBeforeBailing"
    using num_errors_fold [of "apply_record r l" rs] Cons.prems by simp
  then show ?case using Cons by (simp add: Let_def)
qed simp

lemma fold_files:
  "fold apply_record (map (\<lambda>(n, i). FileRec (nat i) n) fs) l =
    l\<lparr>lmodule := (lmodule l)\<lparr>files := fold (\<lambda>(n, i). omap_insert (to_int32 (int (nat i))) n) fs (files (lmodule l))\<rparr>\<rparr>"
  by (induction fs arbitrary: l) (auto simp: case_prod_unfold)

definition loaded_line :: "SymModule \<Rightarrow> SymLine \<Rightarrow> Line" where
  "loaded_line m l =
     \<lparr>laddress = line_address l - load_address m, lsize = line_size l,
      source_file_id = to_int32 (int (nat (source_id m (line_file l)))), lline = to_int32 (int (nat (line_number l)))\<rparr>"

definition loaded_function :: "SymModule \<Rightarrow> SymFunction \<Rightarrow> Function" where
  "loaded_function m f =
     \<lparr>fname = func_name f, faddress = func_address f - load_address m, fsize = func_size f,
      fparameter_size = to_int32 (int (unat (func_parameter_size f))),
      lines = fold (\<lambda>(b, s, e) lm. snd (RangeMap_StoreRange lm b s e))
        (map (\<lambda>l. (line_address l - load_address m, line_size l, loaded_line m l)) (func_lines f)) []\<rparr>"

lemma fold_lines:
  "cur_func l = Some p \<Longrightarrow> p < length (func_heap (lmodule l)) \<Longrightarrow>
    fold apply_record (map (line_record m) ls) l =
      l\<lparr>lmodule := (lmodule l)\<lparr>func_heap := (func_heap (lmodule l))[p := (func_heap (lmodule l) ! p)\<lparr>lines :=
        fold (\<lambda>(b, s, e) lm. snd (RangeMap_StoreRange lm b s e))
          (map (\<lambda>l. (line_address l - load_address m, line_size l, loaded_line m l)) ls)
          (lines (func_heap (lmodule l) ! p))\<rparr>]\<rparr>\<rparr>"
proof (induction ls arbitrary: l)
  case (Cons x ls)
  then show ?case by (simp add: line_record_def load_line_def loaded_line_def Let_def)
qed simp

definition function_ranges :: "SymModule \<Rightarrow> nat \<Rightarrow> SymFunction list \<Rightarrow> (64 word \<times> 64 word \<times> nat) list" where
  "function_ranges m p fs = map (\<lambda>(i, f). (func_address f - load_address m, func_size f, i)) (enumerate p fs)"

lemma fold_functions:
  "\<exists>c. fold apply_record (concat (map (function_records m) fs)) l =
    l\<lparr>lmodule := (lmodule l)\<lparr>func_heap := func_heap (lmodule l) @ map (loaded_function m) fs,
        function_map := fold (\<lambda>(b, s, e) fm. snd (RangeMap_StoreRange fm b s e))
          (function_ranges m (length (func_heap (lmodule l))) fs) (function_map (lmodule l))\<rparr>, cur_func := c\<rparr>"
proof (induction fs arbitrary: l)
  case Nil
  then show ?case by (intro exI [of _ "cur_func l"]) (simp add: function_ranges_def)
next
  case (Cons f fs)
  let ?p = "length (func_heap (lmodule l))"
  let ?l = "l\<lparr>lmodule := (lmodule l)\<lparr>func_heap := func_heap (lmodule l) @ [loaded_function m f],
      function_map := snd (RangeMap_StoreRange (function_map (lmodule l)) (func_address f - load_address m) (func_size f) ?p)\<rparr>,
      cur_func := Some ?p\<rparr>"
  have "fold apply_record (function_records m f) l = ?l"
    unfolding function_records_def fold.simps comp_apply apply_record.simps
    by (subst fold_lines [where p = ?p]) (simp_all add: load_function_def loaded_function_def Let_def)
  then show ?case
    using Cons.IH [of ?l] by (simp add: function_ranges_def)
qed

text \<open>The records after the functions leave the tables of files and functions alone.\<close>

definition same_tables :: "loader \<Rightarrow> loader \<Rightarrow> bool" where
  "same_tables l l' \<longleftrightarrow> num_errors l' = num_errors l \<and> files (lmodule l') = files (lmodule l) \<and>
     func_heap (lmodule l') = func_heap (lmodule l) \<and> function_map (lmodule l') = function_map (lmodule l)"

lemma same_tables_fold: "(\<And>r l. r \<in> set rs \<Longrightarrow> same_tables l (apply_record r l)) \<Longrightarrow> same_tables l (fold apply_record rs l)"
proof (induction rs arbitrary: l)
  case (Cons r rs)
  have "same_tables l (apply_record r l)" "same_tables (apply_record r l) (fold apply_record rs (apply_record r l))"
    using Cons by simp_all
  then show ?case by (simp add: same_tables_def)
qed (simp add: same_tables_def)

lemma fold_cfi: "same_tables l (fold apply_record (concat (map (cfi_records m) es)) l)"
  by (rule same_tables_fold) (auto simp: cfi_records_def same_tables_def)

lemma fold_publics:
  assumes "distinct (map fst es)" "omap_ok (public_symbols (lmodule l))"
    "\<forall>e\<in>set es. fst e - la \<notin> fst ` set (public_symbols (lmodule l))"
  shows "same_tables l (fold apply_record (map (\<lambda>e. PublicRec (fst e - la) 0 (snd e)) es) l)"
  using assms
proof (induction es arbitrary: l)
  case (Cons e es)
  let ?a = "fst e - la" and ?l = "apply_record (PublicRec (fst e - la) 0 (snd e)) l"
  have new: "omap_find (public_symbols (lmodule l)) ?a = length (public_symbols (lmodule l))"
    using Cons.prems omap_find_iff [of "public_symbols (lmodule l)" ?a] omap_find_miss [of "public_symbols (lmodule l)" ?a]
    by auto
  define l1 where "l1 = ?l"
  have l: "same_tables l l1" using new by (simp add: l1_def same_tables_def AddressMap_Store_def)
  have syms: "public_symbols (lmodule l1) = (if ?a = 0 then public_symbols (lmodule l)
      else omap_insert ?a \<lparr>pname = snd e, paddress = ?a, pparameter_size = to_int32 (int 0)\<rparr> (public_symbols (lmodule l)))"
    using new by (simp add: l1_def AddressMap_Store_def)
  have "same_tables l1 (fold apply_record (map (\<lambda>e. PublicRec (fst e - la) 0 (snd e)) es) l1)"
  proof (rule Cons.IH)
    show "distinct (map fst es)" using Cons.prems(1) by simp
    show "omap_ok (public_symbols (lmodule l1))" using Cons.prems(2) by (simp add: syms omap_ok_insert)
    show "\<forall>e\<in>set es. fst e - la \<notin> fst ` set (public_symbols (lmodule l1))"
      using Cons.prems by (auto simp: syms set_omap_insert rev_image_eqI split: if_split_asm)
  qed
  with l show ?case by (simp add: same_tables_def l1_def)
qed (simp add: same_tables_def)

lemma fold_omap_insert_keeps:
  "omap_ok m \<Longrightarrow> map_of m k = Some v \<Longrightarrow> map_of (fold (\<lambda>x. omap_insert (f x) (g x)) xs m) k = Some v"
proof (induction xs arbitrary: m)
  case (Cons x xs)
  have "map_of (omap_insert (f x) (g x) m) k = Some v"
    using Cons.prems by (auto simp: map_of_omap_insert dest: map_of_SomeD intro: rev_image_eqI)
  then show ?case using Cons by (simp add: omap_ok_insert)
qed simp

lemma fold_omap_insert_lookup:
  assumes "omap_ok m" "distinct (map f xs)" "\<forall>x\<in>set xs. f x \<notin> fst ` set m" "x \<in> set xs"
  shows "map_of (fold (\<lambda>x. omap_insert (f x) (g x)) xs m) (f x) = Some (g x)"
  using assms
proof (induction xs arbitrary: m)
  case (Cons y xs)
  have ok: "omap_ok (omap_insert (f y) (g y) m)" using Cons.prems(1) by (rule omap_ok_insert)
  show ?case
  proof (cases "x = y")
    case True
    have "map_of (omap_insert (f y) (g y) m) (f y) = Some (g y)" using Cons.prems(1,3) by (simp add: map_of_omap_insert)
    then show ?thesis using fold_omap_insert_keeps [OF ok] True by simp
  next
    case False
    then have "map_of (fold (\<lambda>x. omap_insert (f x) (g x)) xs (omap_insert (f y) (g y) m)) (f x) = Some (g x)"
      using Cons.prems ok by (intro Cons.IH) (auto simp: set_omap_insert rev_image_eqI)
    then show ?thesis by simp
  qed
qed simp

lemma used_files_fold:
  assumes "(n, i) \<in> set (used_files (AssignSourceIds m))" "length (source_files m) \<le> 2 ^ 31"
  shows "0 \<le> i \<and> i < 2 ^ 31 \<and>
    map_of (fold (\<lambda>(n, i). omap_insert (to_int32 (int (nat i))) n) (used_files (AssignSourceIds m)) []) i = Some n"
proof -
  let ?u = "used_files (AssignSourceIds m)"
  have "length ?u \<le> length (source_files (AssignSourceIds m))" by (simp add: used_files_def)
  also have "\<dots> = length (source_files m)"
    by (simp add: AssignSourceIds_files marked_files_def)
  finally have "length ?u \<le> 2 ^ 31" using assms(2) by (rule order_trans)
  then have len: "int (length ?u) \<le> 2 ^ 31" by simp
  have ids: "set (map snd ?u) = {0..int (length ?u) - 1}" unfolding used_files_ids by simp
  have range: "\<forall>x\<in>set ?u. 0 \<le> snd x \<and> snd x < 2 ^ 31"
  proof
    fix x
    assume "x \<in> set ?u"
    then have "snd x \<in> set (map snd ?u)" by simp
    then show "0 \<le> snd x \<and> snd x < 2 ^ 31" unfolding ids using len by auto
  qed
  have id: "\<forall>x\<in>set ?u. to_int32 (int (nat (snd x))) = snd x"
  proof
    fix x
    assume "x \<in> set ?u"
    then show "to_int32 (int (nat (snd x))) = snd x" using bspec [OF range, of x] to_int32_self [of "snd x"] by simp
  qed
  have "distinct (map snd ?u)" unfolding used_files_ids by simp
  then have "distinct (map (\<lambda>x. to_int32 (int (nat (snd x)))) ?u)" using id by (simp cong: map_cong)
  from fold_omap_insert_lookup [OF omap_ok_Nil this, of "(n, i)" fst]
  have "map_of (fold (\<lambda>(n, i). omap_insert (to_int32 (int (nat i))) n) ?u []) (to_int32 (int (nat i))) = Some n"
    using assms(1) by (simp add: case_prod_unfold)
  moreover have "to_int32 (int (nat i)) = i" "0 \<le> i \<and> i < 2 ^ 31"
    using bspec [OF id assms(1)] bspec [OF range assms(1)] by simp_all
  ultimately show ?thesis by simp
qed

section \<open>The round trip\<close>

text \<open>The text format can hold the module, and its lines refer to its own files.\<close>

definition format_ok :: "SymModule \<Rightarrow> bool" where
  "format_ok m \<longleftrightarrow>
     (\<forall>r\<in>set (module_records (AssignSourceIds m)). record_ok r) \<and>
     CHR 0x00 \<notin> set (file_text (module_records (AssignSourceIds m))) \<and>
     (\<forall>f\<in>set (sym_functions m). \<forall>l\<in>set (func_lines f).
        0 \<le> line_number l \<and> line_number l < 2 ^ 31 \<and> line_file l \<in> fst ` set (source_files m)) \<and>
     omap_ok (source_files m) \<and> length (source_files m) \<le> 2 ^ 31 \<and> omap_ok (externs m)"

definition apart_ranges :: "(64 word \<times> 64 word) list \<Rightarrow> bool" where
  "apart_ranges xs \<longleftrightarrow>
     (\<forall>(b, s)\<in>set xs. s \<noteq> 0 \<and> unat b + unat s \<le> 2 ^ 64) \<and>
     sorted_wrt (\<lambda>(b, s) (b', s'). b' + s' - 1 < b \<or> b + s - 1 < b') xs"

definition code_apart :: "SymModule \<Rightarrow> bool" where
  "code_apart m \<longleftrightarrow>
     apart_ranges (map (\<lambda>f. (func_address f - load_address m, func_size f)) (sym_functions m)) \<and>
     (\<forall>f\<in>set (sym_functions m). apart_ranges (map (\<lambda>l. (line_address l - load_address m, line_size l)) (func_lines f)))"

definition store_ranges :: "(64 word \<times> 64 word \<times> 'e) list \<Rightarrow> (64, 'e) RangeMap" where
  "store_ranges xs = fold (\<lambda>(b, s, e) fm. snd (RangeMap_StoreRange fm b s e)) xs []"

lemma store_apart:
  assumes "apart_ranges (map (\<lambda>(b, s, e). (b, s)) xs)"
  shows "RangeMap_inv (store_ranges xs)" "RangeMap_ranges (store_ranges xs) = (\<lambda>(b, s, e). (b, b + s - 1, e)) ` set xs"
proof -
  show "RangeMap_inv (store_ranges xs)" unfolding store_ranges_def by (rule rm.store_all_invar) simp
  have "RangeMap_ranges (store_ranges xs) = RangeMap_ranges [] \<union> (\<lambda>(b, s, e). (b, b + s - 1, e)) ` set xs"
    unfolding store_ranges_def
    by (rule rm.store_all_ranges)
      (use assms in \<open>auto simp: apart_ranges_def RangeMap_ranges_def sorted_wrt_map case_prod_unfold\<close>)
  then show "RangeMap_ranges (store_ranges xs) = (\<lambda>(b, s, e). (b, b + s - 1, e)) ` set xs" by (simp add: RangeMap_ranges_def)
qed

lemma AssignSourceIds_simps [simp]:
  "sym_functions (AssignSourceIds m) = sym_functions m" "load_address (AssignSourceIds m) = load_address m"
  "externs (AssignSourceIds m) = externs m" "stack_frame_entries (AssignSourceIds m) = stack_frame_entries m"
  by (simp_all add: AssignSourceIds_def Let_def)

lemma source_id_used:
  assumes "omap_ok (source_files m)" "f \<in> set (sym_functions m)" "l \<in> set (func_lines f)" "line_file l \<in> fst ` set (source_files m)"
  shows "(line_file l, source_id (AssignSourceIds m) (line_file l)) \<in> set (used_files (AssignSourceIds m))"
proof -
  let ?m = "AssignSourceIds m"
  have names: "map fst (source_files ?m) = map fst (source_files m)" by (simp add: AssignSourceIds_files marked_files_simps)
  have "line_file l \<in> fst ` set (source_files ?m)" using assms(4) names by (metis set_map)
  then obtain i where i: "(line_file l, i) \<in> set (source_files ?m)" by auto
  have "distinct (map fst (source_files ?m))" unfolding names using assms(1) by (rule omap_ok_distinct)
  then have id: "source_id ?m (line_file l) = i" using i by (simp add: source_id_def)
  have "cited m (line_file l)" using assms(2,3) by (auto simp: cited_def)
  then have "0 \<le> i" using AssignSourceIds_cited [OF i] by simp
  with i id show ?thesis by (simp add: used_files_def)
qed

lemma Module_Write_text:
  assumes "format_ok m"
  shows "Module_Write (\<lambda>_. True) ALL_SYMBOL_DATA m =
    (True, file_text (module_records (AssignSourceIds m)), AssignSourceIds m)"
proof -
  have "\<forall>f\<in>set (sym_functions m). \<forall>l\<in>set (func_lines f). 0 \<le> line_number l \<and> 0 \<le> source_id (AssignSourceIds m) (line_file l)"
    using assms source_id_used [of m] by (fastforce simp: format_ok_def used_files_def)
  then show ?thesis
    by (simp add: Module_Write_def Let_def emit_good symbol_pieces_text)
qed

definition records_loader :: "SymModule \<Rightarrow> loader" where
  "records_loader m = fold apply_record (module_records m) \<lparr>lmodule = Module_empty, cur_func = None, num_errors = 0\<rparr>"

lemma records_loader_tables:
  assumes "omap_ok (externs m)"
  shows "num_errors (records_loader m) = 0"
    "files (lmodule (records_loader m)) = fold (\<lambda>(n, i). omap_insert (to_int32 (int (nat i))) n) (used_files m) []"
    "func_heap (lmodule (records_loader m)) = map (loaded_function m) (sym_functions m)"
    "function_map (lmodule (records_loader m)) = fold (\<lambda>(b, s, e) fm. snd (RangeMap_StoreRange fm b s e))
       (function_ranges m 0 (sym_functions m)) []"
proof -
  let ?l0 = "\<lparr>lmodule = Module_empty, cur_func = None, num_errors = 0\<rparr>"
  define l1 where "l1 = fold apply_record (map (\<lambda>(n, i). FileRec (nat i) n) (used_files m)) ?l0"
  define l2 where "l2 = fold apply_record (concat (map (function_records m) (sym_functions m))) l1"
  define l3 where "l3 = fold apply_record (map (\<lambda>e. PublicRec (fst e - load_address m) 0 (snd e)) (externs m)) l2"
  have end_l: "records_loader m = fold apply_record (concat (map (cfi_records m) (stack_frame_entries m))) l3"
    by (simp add: records_loader_def module_records_def l1_def l2_def l3_def)
  obtain c where l2: "l2 = l1\<lparr>lmodule := (lmodule l1)\<lparr>func_heap := func_heap (lmodule l1) @ map (loaded_function m) (sym_functions m),
        function_map := fold (\<lambda>(b, s, e) fm. snd (RangeMap_StoreRange fm b s e))
          (function_ranges m (length (func_heap (lmodule l1))) (sym_functions m)) (function_map (lmodule l1))\<rparr>, cur_func := c\<rparr>"
    using fold_functions [of m "sym_functions m" l1] unfolding l2_def by blast
  have l1: "num_errors l1 = 0" "func_heap (lmodule l1) = []" "function_map (lmodule l1) = []" "public_symbols (lmodule l1) = []"
    "files (lmodule l1) = fold (\<lambda>(n, i). omap_insert (to_int32 (int (nat i))) n) (used_files m) []"
    by (simp_all add: l1_def fold_files Module_empty_def)
  have "same_tables l2 l3" unfolding l3_def
    by (rule fold_publics) (use omap_ok_distinct [OF assms] in \<open>simp_all add: l2 l1\<close>)
  moreover have "same_tables l3 (records_loader m)" unfolding end_l by (rule fold_cfi)
  ultimately show "num_errors (records_loader m) = 0"
    "files (lmodule (records_loader m)) = fold (\<lambda>(n, i). omap_insert (to_int32 (int (nat i))) n) (used_files m) []"
    "func_heap (lmodule (records_loader m)) = map (loaded_function m) (sym_functions m)"
    "function_map (lmodule (records_loader m)) = fold (\<lambda>(b, s, e) fm. snd (RangeMap_StoreRange fm b s e))
       (function_ranges m 0 (sym_functions m)) []"
    by (simp_all add: same_tables_def l2 l1)
qed

lemma load_written:
  assumes "format_ok m"
  shows "Module_LoadMapFromMemory (file_text (module_records (AssignSourceIds m)) @ [CHR 0x00]) Module_empty =
    Returns (True, (lmodule (records_loader (AssignSourceIds m)))\<lparr>is_corrupt := False\<rparr>)"
proof -
  let ?m = "AssignSourceIds m" and ?l0 = "\<lparr>lmodule = Module_empty, cur_func = None, num_errors = 0\<rparr>"
  have ext: "omap_ok (externs ?m)" using assms by (simp add: format_ok_def)
  then have "apply_records (module_records ?m) ?l0 = records_loader ?m"
    using records_loader_tables(1) [of ?m] apply_records_fold [of "module_records ?m" ?l0] by (simp add: records_loader_def)
  then show ?thesis
    using load_file_text [of "module_records ?m" Module_empty] assms records_loader_tables(1) [OF ext] by (simp add: format_ok_def)
qed

definition covers :: "64 word \<Rightarrow> 64 word \<Rightarrow> 64 word \<Rightarrow> bool" where
  "covers a b s \<longleftrightarrow> b \<le> a \<and> a \<le> b + s - 1"

lemma loaded_lines:
  assumes apart: "apart_ranges (map (\<lambda>l. (line_address l - load_address m, line_size l)) (func_lines f))"
  shows "case find (\<lambda>l. covers a (line_address l - load_address m) (line_size l)) (func_lines f) of
      None \<Rightarrow> RangeMap_RetrieveRange (lines (loaded_function m f)) a = None
    | Some l \<Rightarrow> l \<in> set (func_lines f) \<and>
        (\<exists>s. RangeMap_RetrieveRange (lines (loaded_function m f)) a = Some (loaded_line m l, line_address l - load_address m, s))"
proof -
  let ?xs = "map (\<lambda>l. (line_address l - load_address m, line_size l, loaded_line m l)) (func_lines f)"
  have ls: "lines (loaded_function m f) = store_ranges ?xs" by (simp add: loaded_function_def store_ranges_def)
  have "apart_ranges (map (\<lambda>(b, s, e). (b, s)) ?xs)" using apart by (simp add: comp_def)
  note st = store_apart [OF this]
  have r: "RangeMap_ranges (lines (loaded_function m f)) =
      (\<lambda>l. (line_address l - load_address m, line_address l - load_address m + line_size l - 1, loaded_line m l)) ` set (func_lines f)"
    unfolding ls st(2) by force
  have inv: "RangeMap_inv (lines (loaded_function m f))" unfolding ls by (rule st(1))
  show ?thesis
  proof (cases "find (\<lambda>l. covers a (line_address l - load_address m) (line_size l)) (func_lines f)")
    case None
    then have "RangeMap_RetrieveRange (lines (loaded_function m f)) a = None"
      using r by (auto simp: find_None_iff rm.retrieve_none [OF inv] covers_def)
    with None show ?thesis by simp
  next
    case (Some l)
    then have l: "l \<in> set (func_lines f)" "covers a (line_address l - load_address m) (line_size l)"
      by (auto simp: find_Some_iff)
    have "(line_address l - load_address m, line_address l - load_address m + line_size l - 1, loaded_line m l)
        \<in> RangeMap_ranges (lines (loaded_function m f))" unfolding r using l(1) by (rule imageI)
    from rm.retrieve_inside [OF inv this, of a] l Some show ?thesis by (auto simp: covers_def)
  qed
qed

lemma loaded_functions:
  assumes "apart_ranges (map (\<lambda>f. (func_address f - load_address m, func_size f)) fs)" "j < length fs"
  shows "(func_address (fs ! j) - load_address m, func_address (fs ! j) - load_address m + func_size (fs ! j) - 1, j)
    \<in> RangeMap_ranges (store_ranges (function_ranges m 0 fs))"
proof -
  have "map (\<lambda>(b, s, e). (b, s)) (function_ranges m 0 fs) = map (\<lambda>f. (func_address f - load_address m, func_size f)) fs"
    by (rule nth_equalityI) (simp_all add: function_ranges_def nth_enumerate_eq)
  with assms(1) have apart: "apart_ranges (map (\<lambda>(b, s, e). (b, s)) (function_ranges m 0 fs))" by simp
  have "function_ranges m 0 fs ! j = (func_address (fs ! j) - load_address m, func_size (fs ! j), j)" "j < length (function_ranges m 0 fs)"
    using assms(2) by (simp_all add: function_ranges_def nth_enumerate_eq)
  then have "(func_address (fs ! j) - load_address m, func_size (fs ! j), j) \<in> set (function_ranges m 0 fs)" by (metis nth_mem)
  then show ?thesis unfolding store_apart(2) [OF apart] by (force simp: case_prod_unfold)
qed

text \<open>The source position that the module gives for an address of one of its functions.\<close>

definition described_frame :: "SymModule \<Rightarrow> SymFunction \<Rightarrow> StackFrame \<Rightarrow> StackFrame" where
  "described_frame m f frame =
     (let la = load_address m; a = instruction frame - module_base frame;
          frame1 = frame\<lparr>function_name := func_name f, function_base := module_base frame + (func_address f - la)\<rparr>
      in case find (\<lambda>l. covers a (line_address l - la) (line_size l)) (func_lines f) of
           None \<Rightarrow> frame1
         | Some l \<Rightarrow> frame1\<lparr>source_file_name := line_file l, source_line := line_number l,
             source_line_base := module_base frame + (line_address l - la)\<rparr>)"

text \<open>C26. What a symbol dumper collects reaches the processor: the text that a module writes is loaded without errors, and
  looking up an address of any of its functions, when functions and lines do not overlap, gives that
  function's name and base and, from the line that covers the address, the source file and line that were added to
  the module, whatever source ids were used in between.\<close>

theorem Module_Write_Load_lookup:
  assumes ok: "format_ok m" and apart: "code_apart m" and f: "f \<in> set (sym_functions m)"
    and a: "covers (instruction frame - module_base frame) (func_address f - load_address m) (func_size f)"
  shows "\<exists>txt m' bm. Module_Write (\<lambda>_. True) ALL_SYMBOL_DATA m = (True, txt, m') \<and>
    Module_LoadMapFromMemory (txt @ [CHR 0x00]) Module_empty = Returns (True, bm) \<and> \<not> is_corrupt bm \<and>
    Module_LookupAddress bm frame = described_frame m f frame"
proof -
  let ?m = "AssignSourceIds m" and ?a = "instruction frame - module_base frame"
  define bm where "bm = (lmodule (records_loader ?m))\<lparr>is_corrupt := False\<rparr>"
  have load: "Module_LoadMapFromMemory (file_text (module_records ?m) @ [CHR 0x00]) Module_empty = Returns (True, bm)"
    unfolding bm_def by (rule load_written [OF ok])
  have ext: "omap_ok (externs ?m)" using ok by (simp add: format_ok_def)
  note tables = records_loader_tables [OF ext]
  have inv: "module_inv bm" using load_module_inv [OF module_inv_empty load] by simp
  obtain j where j: "j < length (sym_functions m)" "sym_functions m ! j = f" using f by (metis in_set_conv_nth)
  have heap: "func_heap bm ! j = loaded_function ?m f" using j by (simp add: bm_def tables)
  have apart_f: "apart_ranges (map (\<lambda>f. (func_address f - load_address ?m, func_size f)) (sym_functions m))"
    and apart_l: "apart_ranges (map (\<lambda>l. (line_address l - load_address ?m, line_size l)) (func_lines f))"
    using apart f by (simp_all add: code_apart_def)
  have "(func_address f - load_address m, func_address f - load_address m + func_size f - 1, j) \<in> RangeMap_ranges (function_map bm)"
    using loaded_functions [OF apart_f j(1)] by (simp add: bm_def tables j(2) store_ranges_def)
  from LookupAddress_inside [OF inv this] a
  have look: "Module_LookupAddress bm frame = function_info bm frame j (func_address f - load_address m)" by (simp add: covers_def)
  have "function_info bm frame j (func_address f - load_address m) = described_frame m f frame"
  proof (cases "find (\<lambda>l. covers ?a (line_address l - load_address m) (line_size l)) (func_lines f)")
    case None
    then show ?thesis
      using loaded_lines [OF apart_l, of ?a] by (simp add: function_info_def described_frame_def heap Let_def) (simp add: loaded_function_def)
  next
    case (Some l)
    then obtain s where l: "l \<in> set (func_lines f)"
      "RangeMap_RetrieveRange (lines (loaded_function ?m f)) ?a = Some (loaded_line ?m l, line_address l - load_address m, s)"
      using loaded_lines [OF apart_l, of ?a] by auto
    have line: "0 \<le> line_number l" "line_number l < 2 ^ 31" "line_file l \<in> fst ` set (source_files m)"
      using ok f l(1) by (auto simp: format_ok_def)
    have "(line_file l, source_id ?m (line_file l)) \<in> set (used_files ?m)"
      using source_id_used [OF _ f l(1) line(3)] ok by (simp add: format_ok_def)
    from used_files_fold [OF this] ok have id: "0 \<le> source_id ?m (line_file l)" "source_id ?m (line_file l) < 2 ^ 31"
      "map_of (files bm) (source_id ?m (line_file l)) = Some (line_file l)"
      by (simp_all add: format_ok_def bm_def tables)
    have nums: "source_file_id (loaded_line ?m l) = source_id ?m (line_file l)" "lline (loaded_line ?m l) = line_number l"
      using id(1,2) line(1,2) by (simp_all add: loaded_line_def to_int32_self)
    show ?thesis
      using Some l(2) id(3) nums
      by (simp add: function_info_def described_frame_def heap Let_def) (simp add: loaded_function_def)
  qed
  then show ?thesis
    using Module_Write_text [OF ok] load look by (simp add: bm_def)
qed

definition sample_function :: SymFunction where
  "sample_function = \<lparr>func_name = ''f'', func_address = 0x10, func_size = 8, func_parameter_size = 0,
     func_lines = [\<lparr>line_address = 0x10, line_size = 8, line_file = ''a.c'', line_number = 7\<rparr>]\<rparr>"

definition sample_symbols :: SymModule where
  "sample_symbols = (snd (FindFile ''a.c'' (SymModule_new ''a.out'' ''Linux'' ''x86'' ''0'')))\<lparr>sym_functions := [sample_function]\<rparr>"

lemma sample_symbols_added:
  "AddFunction sample_function (snd (FindFile ''a.c'' (SymModule_new ''a.out'' ''Linux'' ''x86'' ''0''))) = Returns sample_symbols"
  by (simp add: AddFunction_def sample_symbols_def sample_function_def FindFile_def SymModule_new_def insert_function_def
      erase_extern_def omap_find_def lower_bound_def omap_insert_def)

lemma sample_records:
  "module_records (AssignSourceIds sample_symbols) =
    [ModuleRec ''Linux x86 0 a.out'', FileRec 0 ''a.c'', FuncRec 0x10 8 0 ''f'', LineRec 0x10 8 7 0]"
  by (simp add: module_records_def AssignSourceIds_def sample_symbols_def sample_function_def FindFile_def SymModule_new_def
      lower_bound_def omap_insert_def omap_find_def GetFunctions_def mark_file_def used_files_def function_records_def
      line_record_def source_id_def)

lemma sample_format_ok: "format_ok sample_symbols"
proof -
  have "CHR 0x00 \<notin> set (show_base b n)" if "b = 10 \<or> b = 16" for b n
  proof
    assume "CHR 0x00 \<in> set (show_base b n)"
    moreover have "2 \<le> b" "b \<le> 16" using that by auto
    ultimately obtain d where "d < b" "CHR 0x00 = digit_of d" using show_base_digits [of b "CHR 0x00" n] by blast
    then have "c_digit (CHR 0x00) = d" using c_digit_of [of d] that by auto
    then show False using \<open>d < b\<close> that by (auto simp: c_digit_def)
  qed
  then have "CHR 0x00 \<notin> set (file_text (module_records (AssignSourceIds sample_symbols)))"
    unfolding sample_records by (simp add: file_text_def blank_fields_def show_hex_def)
  then show ?thesis
    unfolding format_ok_def sample_records
    by (simp add: sample_symbols_def sample_function_def FindFile_def SymModule_new_def lower_bound_def omap_insert_def omap_find_def
        long_ok_def LONG_MAX_def free_of_def line_breaks_def omap_ok_def)
qed

lemma sample_code_apart: "code_apart sample_symbols"
  by (simp add: code_apart_def apart_ranges_def sample_symbols_def sample_function_def FindFile_def SymModule_new_def
      lower_bound_def)

theorem Module_Write_Load_lookup_witness:
  "\<exists>txt m' bm. Module_Write (\<lambda>_. True) ALL_SYMBOL_DATA sample_symbols = (True, txt, m') \<and>
    Module_LoadMapFromMemory (txt @ [CHR 0x00]) Module_empty = Returns (True, bm) \<and>
    Module_LookupAddress bm \<lparr>instruction = 0x112, module_base = 0x100, function_name = [], function_base = 0,
        source_file_name = [], source_line = 0, source_line_base = 0\<rparr> =
      \<lparr>instruction = 0x112, module_base = 0x100, function_name = ''f'', function_base = 0x110,
        source_file_name = ''a.c'', source_line = 7, source_line_base = 0x110\<rparr>"
proof -
  have load: "load_address sample_symbols = 0" "sym_functions sample_symbols = [sample_function]"
    by (simp_all add: sample_symbols_def FindFile_def SymModule_new_def lower_bound_def)
  show ?thesis
    using Module_Write_Load_lookup [OF sample_format_ok sample_code_apart, of sample_function
        "\<lparr>instruction = 0x112, module_base = 0x100, function_name = [], function_base = 0,
        source_file_name = [], source_line = 0, source_line_base = 0\<rparr>"]
    by (auto simp: load described_frame_def sample_function_def covers_def)
qed

end
