(* ===== verification/Line_To_Module.thy ===== *)
theory Line_To_Module
  imports Line_Program Symbol_Module
begin

text \<open>
  The handler that turns the line numbers of a compilation unit into lines of a module
  (\<^verbatim>\<open>common/dwarf_line_to_module.cc\<close>, \<^verbatim>\<open>dwarf_line_to_module.h\<close>), and its composition with the reader of line number
  programs. A null entry that a lookup leaves in the table of files is the same as no entry. The highest
  file number is a signed 32-bit number, which may not overflow.
\<close>

section \<open>The handler\<close>

definition PathIsAbsolute :: "string \<Rightarrow> bool" where
  "PathIsAbsolute path \<longleftrightarrow> path \<noteq> [] \<and> hd path = CHR ''/''"

definition HasTrailingSlash :: "string \<Rightarrow> bool" where
  "HasTrailingSlash path \<longleftrightarrow> path \<noteq> [] \<and> last path = CHR ''/''"

definition ExpandPath :: "string \<Rightarrow> string \<Rightarrow> string" where
  "ExpandPath path dir =
     (if PathIsAbsolute path \<or> dir = [] then path else dir @ (if HasTrailingSlash dir then '''' else ''/'') @ path)"

record DwarfLineToModule =
  target :: SymModule
  compilation_dir :: string
  module_lines :: "SymLine list"
  directories :: "32 word \<rightharpoonup> string"
  file_table :: "32 word \<rightharpoonup> string"
  highest_file_number :: "32 word"
  omitted_line_end :: "64 word"
  warned_bad_file_number :: bool
  warned_bad_directory_number :: bool

definition DwarfLineToModule_new :: "SymModule \<Rightarrow> string \<Rightarrow> SymLine list \<Rightarrow> DwarfLineToModule" where
  "DwarfLineToModule_new m dir ls = \<lparr>target = m, compilation_dir = dir, module_lines = ls, directories = Map.empty,
     file_table = Map.empty, highest_file_number = - 1, omitted_line_end = 0, warned_bad_file_number = False,
     warned_bad_directory_number = False\<rparr>"

definition DefineDir :: "string \<Rightarrow> 32 word \<Rightarrow> DwarfLineToModule \<Rightarrow> DwarfLineToModule" where
  "DefineDir name dir_num d =
     (if dir_num \<noteq> 0 then d\<lparr>directories := (directories d)(dir_num \<mapsto> ExpandPath name (compilation_dir d))\<rparr> else d)"

text \<open>The number that a file gets, and the highest number then.\<close>

definition file_number :: "32 word \<Rightarrow> DwarfLineToModule \<Rightarrow> (32 word \<times> 32 word) exec" where
  "file_number fnum d =
     (if fnum = - 1 then
        if sint (highest_file_number d) = 2 ^ 31 - 1 then Undefined
        else Returns (highest_file_number d + 1, highest_file_number d + 1)
      else if highest_file_number d <s fnum then Returns (fnum, fnum)
      else Returns (fnum, highest_file_number d))"

definition directory_name :: "32 word \<Rightarrow> DwarfLineToModule \<Rightarrow> string \<times> DwarfLineToModule" where
  "directory_name dir_num d =
     (if dir_num = 0 then (compilation_dir d, d)
      else case directories d dir_num of Some dir \<Rightarrow> (dir, d) | None \<Rightarrow> ('''', d\<lparr>warned_bad_directory_number := True\<rparr>))"

definition DefineFile :: "string \<Rightarrow> 32 word \<Rightarrow> 32 word \<Rightarrow> DwarfLineToModule \<Rightarrow> DwarfLineToModule exec" where
  "DefineFile name fnum dir_num d =
     exec_bind (file_number fnum d) (\<lambda>(num, highest).
       let d = d\<lparr>highest_file_number := highest\<rparr>; (dir_name, d) = directory_name dir_num d;
           (file, m) = FindFile (ExpandPath name dir_name) (target d)
       in Returns (d\<lparr>target := m, file_table := (file_table d)(num \<mapsto> file)\<rparr>))"

definition AddLine :: "64 word \<Rightarrow> 64 word \<Rightarrow> 32 word \<Rightarrow> 32 word \<Rightarrow> DwarfLineToModule \<Rightarrow> DwarfLineToModule" where
  "AddLine addr len fnum lnum d =
     (if len = 0 then d
      else
        let len = (if addr + len < addr then - addr else len) in
        if addr = 0 \<or> addr = omitted_line_end d then d\<lparr>omitted_line_end := addr + len\<rparr>
        else
          let d = d\<lparr>omitted_line_end := 0\<rparr> in
          case file_table d fnum of
            None \<Rightarrow> d\<lparr>warned_bad_file_number := True\<rparr>
          | Some file \<Rightarrow> d\<lparr>module_lines := module_lines d @
              [\<lparr>line_address = addr, line_size = len, line_file = file, line_number = sint lnum\<rparr>]\<rparr>)"

text \<open>The calls of the reader, in their order.\<close>

fun handle_call :: "line_call \<Rightarrow> DwarfLineToModule \<Rightarrow> DwarfLineToModule exec" where
  "handle_call (DefineDirCall name n) d = Returns (DefineDir name n d)"
| "handle_call (DefineFileCall name n dir time len) d = DefineFile name n dir d"
| "handle_call (AddLineCall addr len f l c) d = Returns (AddLine addr len f l d)"

fun handle_calls :: "line_call list \<Rightarrow> DwarfLineToModule \<Rightarrow> DwarfLineToModule exec" where
  "handle_calls [] d = Returns d"
| "handle_calls (c # cs) d = exec_bind (handle_call c d) (handle_calls cs)"

section \<open>What the lines satisfy\<close>

lemma handle_calls_append: "handle_calls (cs @ cs') d = exec_bind (handle_calls cs d) (handle_calls cs')"
proof (induction cs arbitrary: d)
  case (Cons c cs)
  then show ?case by (cases "handle_call c d") simp_all
qed simp

text \<open>The lines do not wrap around the address space, none is empty or starts at zero, and their files are files of the
  module.\<close>

definition line_ok :: "SymModule \<Rightarrow> SymLine \<Rightarrow> bool" where
  "line_ok m l \<longleftrightarrow> line_address l \<noteq> 0 \<and> line_size l \<noteq> 0 \<and>
     unat (line_address l) + unat (line_size l) \<le> 2 ^ 64 \<and> line_file l \<in> fst ` set (source_files m)"

definition handler_inv :: "DwarfLineToModule \<Rightarrow> bool" where
  "handler_inv d \<longleftrightarrow> omap_ok (source_files (target d)) \<and> list_all (line_ok (target d)) (module_lines d) \<and>
     ran (file_table d) \<subseteq> fst ` set (source_files (target d))"

lemma FindFile_simps:
  assumes "omap_ok (source_files m)" "FindFile name m = (file, m')"
  shows "file = name" "omap_ok (source_files m')" "fst ` set (source_files m') = insert name (fst ` set (source_files m))"
proof -
  let ?fs = "source_files m"
  have look: "lower_bound ?fs name = length ?fs \<or> fst (?fs ! lower_bound ?fs name) \<noteq> name \<longleftrightarrow> name \<notin> fst ` set ?fs"
    using omap_find_iff [OF assms(1), of name] lower_bound_le [of ?fs name] by (auto simp: omap_find_def Let_def le_less split: if_split_asm)
  show "file = name" using assms(2) by (auto simp: FindFile_def Let_def split: if_split_asm)
  show "omap_ok (source_files m')" "fst ` set (source_files m') = insert name (fst ` set (source_files m))"
    using assms look by (auto simp: FindFile_def Let_def set_omap_insert omap_ok_insert split: if_split_asm)
qed

lemma AddLine_size:
  fixes addr len :: "64 word"
  assumes "len \<noteq> 0" "addr \<noteq> 0"
  defines "clipped \<equiv> if addr + len < addr then - addr else len"
  shows "clipped \<noteq> 0" "unat addr + unat clipped \<le> 2 ^ 64"
proof -
  have "unat (- addr) = 2 ^ 64 - unat addr" using assms(2) unat_sub_if' [of 0 addr] by (simp add: unat_eq_0)
  moreover have "unat addr + unat len < 2 ^ 64" if "\<not> addr + len < addr"
    using that no_olen_add_nat [of addr len] by (simp add: not_less)
  moreover have "unat addr < 2 ^ 64" using unsigned_less [of addr] by simp
  ultimately show "clipped \<noteq> 0" "unat addr + unat clipped \<le> 2 ^ 64"
    using assms(1,2) by (auto simp: clipped_def)
qed

text \<open>Every call keeps the invariant.\<close>

lemma AddLine_inv [model_inv]: "handler_inv d \<Longrightarrow> handler_inv (AddLine addr len f l d)"
  using AddLine_size [of len addr]
  by (auto simp: AddLine_def handler_inv_def line_ok_def Let_def ran_def split: option.split)

lemma DefineDir_inv [model_inv]: "handler_inv d \<Longrightarrow> handler_inv (DefineDir name n d)"
  by (simp add: DefineDir_def handler_inv_def)

lemma directory_name_simps [simp]:
  "target (snd (directory_name n d)) = target d" "file_table (snd (directory_name n d)) = file_table d"
  "module_lines (snd (directory_name n d)) = module_lines d" "directories (snd (directory_name n d)) = directories d"
  "compilation_dir (snd (directory_name n d)) = compilation_dir d"
  "omitted_line_end (snd (directory_name n d)) = omitted_line_end d"
  "highest_file_number (snd (directory_name n d)) = highest_file_number d"
  by (simp_all add: directory_name_def split: option.split)

lemma directory_name_cong:
  "directories d = directories d' \<Longrightarrow> compilation_dir d = compilation_dir d' \<Longrightarrow>
   fst (directory_name n d) = fst (directory_name n d')"
  by (simp add: directory_name_def split: option.split)

lemma DefineFile_result:
  assumes "omap_ok (source_files (target d))" "file_number fnum d = Returns (num, highest)"
  obtains d' where "DefineFile name fnum dir d = Returns d'"
    "file_table d' = (file_table d)(num \<mapsto> ExpandPath name (fst (directory_name dir d)))"
    "omap_ok (source_files (target d'))" "module_lines d' = module_lines d" "directories d' = directories d"
    "compilation_dir d' = compilation_dir d" "omitted_line_end d' = omitted_line_end d"
    "fst ` set (source_files (target d')) =
       insert (ExpandPath name (fst (directory_name dir d))) (fst ` set (source_files (target d)))"
proof -
  let ?d = "d\<lparr>highest_file_number := highest\<rparr>" and ?n = "ExpandPath name (fst (directory_name dir d))"
  obtain found m where ff: "FindFile ?n (target d) = (found, m)" by fastforce
  obtain d1 where d1: "directory_name dir ?d = (fst (directory_name dir d), d1)"
    using directory_name_cong [of ?d d dir] by (cases "directory_name dir ?d") simp
  note s = directory_name_simps [of dir ?d, unfolded d1 snd_conv, simplified]
  show thesis
    using FindFile_simps [OF assms(1) ff] assms ff
    by (intro that [of "d1\<lparr>target := m, file_table := (file_table d)(num \<mapsto> found)\<rparr>"]) (simp_all add: DefineFile_def d1 s)
qed

lemma line_ok_mono: "fst ` set (source_files m) \<subseteq> fst ` set (source_files m') \<Longrightarrow> line_ok m l \<Longrightarrow> line_ok m' l"
  by (auto simp: line_ok_def)

lemma DefineFile_inv [model_inv]:
  assumes inv: "handler_inv d" and df: "DefineFile name n dir d = Returns d'"
  shows "handler_inv d'"
proof -
  obtain num highest where fn: "file_number n d = Returns (num, highest)"
    using df by (cases "file_number n d") (auto simp: DefineFile_def)
  have ok: "omap_ok (source_files (target d))" using inv by (simp add: handler_inv_def)
  obtain d1 where d1: "DefineFile name n dir d = Returns d1"
    "file_table d1 = (file_table d)(num \<mapsto> ExpandPath name (fst (directory_name dir d)))"
    "omap_ok (source_files (target d1))" "module_lines d1 = module_lines d"
    "fst ` set (source_files (target d1)) =
       insert (ExpandPath name (fst (directory_name dir d))) (fst ` set (source_files (target d)))"
    by (rule DefineFile_result [OF ok fn])
  then have "list_all (line_ok (target d1)) (module_lines d1)"
    using inv line_ok_mono [of "target d" "target d1"] by (auto simp: handler_inv_def list_all_iff)
  moreover have "ran (file_table d1) \<subseteq> fst ` set (source_files (target d1))"
    using inv d1(2,5) by (auto simp: handler_inv_def ran_def split: if_split_asm)
  ultimately show ?thesis using df d1(1,3) by (simp add: handler_inv_def)
qed

lemma handle_call_inv [model_inv]: "handler_inv d \<Longrightarrow> handle_call c d = Returns d' \<Longrightarrow> handler_inv d'"
  by (cases c) (auto simp: AddLine_inv DefineDir_inv intro: DefineFile_inv)

lemma handle_calls_inv [model_inv]: "handler_inv d \<Longrightarrow> handle_calls cs d = Returns d' \<Longrightarrow> handler_inv d'"
  by (induction cs arbitrary: d) (auto elim!: exec_bindE dest: handle_call_inv)

section \<open>The tables of the header\<close>

definition dir_path :: "string \<Rightarrow> string list \<Rightarrow> 32 word \<Rightarrow> string" where
  "dir_path cdir dirs k =
     (if k = 0 then cdir else if unat k \<le> length dirs then ExpandPath (dirs ! (unat k - 1)) cdir else '''')"

definition file_path :: "string \<Rightarrow> string list \<Rightarrow> file_entry \<Rightarrow> string" where
  "file_path cdir dirs f = ExpandPath (fe_name f) (dir_path cdir dirs (ucast (fe_dir f)))"

lemma unat_of_nat_32: "n < 2 ^ 32 \<Longrightarrow> unat (of_nat n :: 32 word) = n"
  by (simp add: unat_of_nat)

lemma handle_dirs:
  assumes "0 < n" "n + length dirs \<le> 2 ^ 32"
  shows "handle_calls (dir_calls n dirs) d =
    Returns (d\<lparr>directories := (\<lambda>k. if n \<le> unat k \<and> unat k < n + length dirs
       then Some (ExpandPath (dirs ! (unat k - n)) (compilation_dir d)) else directories d k)\<rparr>)"
  using assms
proof (induction dirs arbitrary: n d)
  case (Cons a dirs)
  have n: "unat (of_nat n :: 32 word) = n" using Cons.prems by (intro unat_of_nat_32) simp
  then have ne: "(of_nat n :: 32 word) \<noteq> 0" using Cons.prems by (metis unat_0 less_irrefl)
  have same: "k = of_nat n \<longleftrightarrow> unat k = n" for k :: "32 word" using n by (metis word_unat_eq_iff)
  have dd: "DefineDir a (of_nat n) d = d\<lparr>directories := (directories d)(of_nat n \<mapsto> ExpandPath a (compilation_dir d))\<rparr>"
    using ne by (simp add: DefineDir_def)
  have "handle_calls (dir_calls (Suc n) dirs) (DefineDir a (of_nat n) d) =
    Returns ((DefineDir a (of_nat n) d)\<lparr>directories := (\<lambda>k. if Suc n \<le> unat k \<and> unat k < Suc n + length dirs
       then Some (ExpandPath (dirs ! (unat k - Suc n)) (compilation_dir (DefineDir a (of_nat n) d)))
       else directories (DefineDir a (of_nat n) d) k)\<rparr>)"
    using Cons.prems by (intro Cons.IH) simp_all
  then have *: "handle_calls (dir_calls n (a # dirs)) d =
    Returns (d\<lparr>directories := (\<lambda>k. if Suc n \<le> unat k \<and> unat k < Suc n + length dirs
       then Some (ExpandPath (dirs ! (unat k - Suc n)) (compilation_dir d))
       else if k = of_nat n then Some (ExpandPath a (compilation_dir d)) else directories d k)\<rparr>)"
    unfolding dd by (simp add: dir_calls_def dd fun_upd_def cong: if_cong)
  have "(\<lambda>k. if Suc n \<le> unat k \<and> unat k < Suc n + length dirs then Some (ExpandPath (dirs ! (unat k - Suc n)) (compilation_dir d))
       else if k = of_nat n then Some (ExpandPath a (compilation_dir d)) else directories d k) =
    (\<lambda>k. if n \<le> unat k \<and> unat k < n + length (a # dirs)
       then Some (ExpandPath ((a # dirs) ! (unat k - n)) (compilation_dir d)) else directories d k)"
    by (auto simp: fun_eq_iff same nth_Cons')
  with * show ?case by simp
next
  case Nil
  then show ?case by (cases d) (auto simp: dir_calls_def fun_eq_iff)
qed

lemma file_number_given:
  assumes "n < 2 ^ 31"
  obtains highest where "file_number (of_nat n) d = Returns (of_nat n, highest)"
proof -
  have "unat (of_nat n :: 32 word) \<noteq> unat (- 1 :: 32 word)" using assms by (simp add: unat_of_nat unsigned_minus_1_eq_mask mask_eq_exp_minus_1)
  then have "(of_nat n :: 32 word) \<noteq> - 1" by metis
  then have "file_number (of_nat n) d =
      Returns (of_nat n, if highest_file_number d <s of_nat n then of_nat n else highest_file_number d)"
    by (simp add: file_number_def)
  then show thesis by (rule that)
qed

lemma handle_files:
  assumes "omap_ok (source_files (target d))" "n + length fs \<le> 2 ^ 31"
  shows "\<exists>d'. handle_calls (file_calls n fs) d = Returns d' \<and> omap_ok (source_files (target d')) \<and>
    file_table d' = (\<lambda>k. if n \<le> unat k \<and> unat k < n + length fs
       then Some (ExpandPath (fe_name (fs ! (unat k - n))) (fst (directory_name (ucast (fe_dir (fs ! (unat k - n)))) d)))
       else file_table d k) \<and>
    module_lines d' = module_lines d \<and> omitted_line_end d' = omitted_line_end d"
  using assms
proof (induction fs arbitrary: n d)
  case (Cons f fs)
  let ?path = "\<lambda>f d. ExpandPath (fe_name f) (fst (directory_name (ucast (fe_dir f)) d))"
  obtain highest where "file_number (of_nat n) d = Returns (of_nat n, highest)"
    using Cons.prems(2) by (auto intro: file_number_given [of n d])
  from DefineFile_result [OF Cons.prems(1) this, of "fe_name f" "ucast (fe_dir f)"]
  obtain d1 where d1: "DefineFile (fe_name f) (of_nat n) (ucast (fe_dir f)) d = Returns d1"
    "file_table d1 = (file_table d)(of_nat n \<mapsto> ?path f d)" "omap_ok (source_files (target d1))"
    "module_lines d1 = module_lines d" "directories d1 = directories d" "compilation_dir d1 = compilation_dir d"
    "omitted_line_end d1 = omitted_line_end d" by metis
  have paths: "?path g d1 = ?path g d" for g using directory_name_cong [OF d1(5,6)] by metis
  obtain d' where d': "handle_calls (file_calls (Suc n) fs) d1 = Returns d'" "omap_ok (source_files (target d'))"
    "file_table d' = (\<lambda>k. if Suc n \<le> unat k \<and> unat k < Suc n + length fs then Some (?path (fs ! (unat k - Suc n)) d1)
       else file_table d1 k)"
    "module_lines d' = module_lines d1" "omitted_line_end d' = omitted_line_end d1"
    using Cons.IH [OF d1(3), of "Suc n"] Cons.prems(2) by auto
  have "unat (of_nat n :: 32 word) = n" using Cons.prems(2) by (intro unat_of_nat_32) simp
  then have same: "k = of_nat n \<longleftrightarrow> unat k = n" for k :: "32 word" by (metis word_unat_eq_iff)
  have "file_table d' = (\<lambda>k. if n \<le> unat k \<and> unat k < n + length (f # fs) then Some (?path ((f # fs) ! (unat k - n)) d)
       else file_table d k)"
    unfolding d'(3) d1(2) paths by (auto simp: fun_eq_iff same nth_Cons')
  moreover have "handle_calls (file_calls n (f # fs)) d = Returns d'" using d1(1) d'(1) by (simp add: file_calls_def)
  ultimately show ?case using d'(2,4,5) d1(4,7) by (intro exI [of _ d']) simp
qed (auto simp: file_calls_def fun_eq_iff)

section \<open>From the program to the module\<close>

text \<open>The line of the module for a line that the reader reports.\<close>

fun added_line :: "(32 word \<rightharpoonup> string) \<Rightarrow> line_call \<Rightarrow> SymLine list" where
  "added_line tab (AddLineCall addr len f l c) =
     (if len = 0 then []
      else case tab f of
        None \<Rightarrow> []
      | Some name \<Rightarrow> [\<lparr>line_address = addr, line_size = (if addr + len < addr then - addr else len), line_file = name,
          line_number = sint l\<rparr>])"
| "added_line tab _ = []"

fun live_line :: "line_call \<Rightarrow> bool" where
  "live_line (AddLineCall addr len f l c) \<longleftrightarrow> addr \<noteq> 0"
| "live_line _ \<longleftrightarrow> False"

text \<open>A line that is not empty, and one whose file, if it is not empty, is in a table of \<open>n\<close> files.\<close>

fun nonempty_line :: "line_call \<Rightarrow> bool" where
  "nonempty_line (AddLineCall addr len f l c) \<longleftrightarrow> len \<noteq> 0"
| "nonempty_line _ \<longleftrightarrow> False"

fun names_file :: "nat \<Rightarrow> line_call \<Rightarrow> bool" where
  "names_file n (AddLineCall addr len f l c) \<longleftrightarrow> len = 0 \<or> 1 \<le> unat f \<and> unat f \<le> n"
| "names_file n _ \<longleftrightarrow> True"

lemma added_lines_length:
  assumes "list_all (names_file n) cs"
  shows "length (concat (map (added_line (\<lambda>f. if 1 \<le> unat f \<and> unat f \<le> n then Some (path f) else None)) cs)) =
    length (filter nonempty_line cs)"
  using assms
proof (induction cs)
  case (Cons c cs)
  then show ?case by (cases c) auto
qed simp

lemma AddLine_live:
  assumes "addr \<noteq> 0" "omitted_line_end d = 0"
  shows "omitted_line_end (AddLine addr len f l d) = 0" "file_table (AddLine addr len f l d) = file_table d"
    "module_lines (AddLine addr len f l d) = module_lines d @ added_line (file_table d) (AddLineCall addr len f l c)"
  using assms by (auto simp: AddLine_def Let_def split: option.split)

lemma handle_lines:
  assumes "list_all live_line cs" "omitted_line_end d = 0"
  shows "\<exists>d'. handle_calls cs d = Returns d' \<and> module_lines d' = module_lines d @ concat (map (added_line (file_table d)) cs)"
  using assms
proof (induction cs arbitrary: d)
  case (Cons c cs)
  then obtain addr len f l col where c: "c = AddLineCall addr len f l col" "addr \<noteq> 0" by (cases c) auto
  note al = AddLine_live [OF c(2) Cons.prems(2), of len f l]
  have "list_all live_line cs" using Cons.prems(1) by simp
  from Cons.IH [OF this al(1)] show ?case by (auto simp: c(1) al(2) al(3) [where c = col] simp del: added_line.simps)
qed simp

text \<open>C33. The reader and the handler of a compilation unit together: a line number program, written to bytes, read back and handed to
  the handler, adds to the module exactly one line for each line of its matrix that is not empty, in their order, with the
  source file that the tables of the program name, relative to its directory and the compilation directory. This is for
  programs in which no line starts at address zero, as the lines of code that the linker dropped do, and in which every
  line that is not empty names a file of the table; the handler leaves out lines of both kinds. All lines of the module have
  files of the module, are not empty and do not wrap around.\<close>

theorem line_program_to_module:
  assumes ok: "line_program_ok r h dirs fs ops" "length (encode_program r h dirs fs ops @ rest) < 2 ^ 64"
    and few: "length dirs < 2 ^ 31" "length fs < 2 ^ 31" and m: "omap_ok (source_files m)"
    and live: "list_all live_line (line_table (matrix h ops (LineStateMachine_Reset (default_is_stmt h))))"
    and named: "list_all (names_file (length fs)) (line_table (matrix h ops (LineStateMachine_Reset (default_is_stmt h))))"
  shows "\<exists>calls n d. LineInfo_Start (r\<lparr>offset_size := k\<rparr>) (encode_program r h dirs fs ops @ rest)
      (length (encode_program r h dirs fs ops @ rest)) = Some (Returns (calls, n)) \<and>
    handle_calls calls (DwarfLineToModule_new m cdir []) = Returns d \<and>
    module_lines d = concat (map
      (added_line (\<lambda>f. if 1 \<le> unat f \<and> unat f \<le> length fs then Some (file_path cdir dirs (fs ! (unat f - 1))) else None))
      (line_table (matrix h ops (LineStateMachine_Reset (default_is_stmt h))))) \<and>
    length (module_lines d) =
      length (filter nonempty_line (line_table (matrix h ops (LineStateMachine_Reset (default_is_stmt h))))) \<and>
    list_all (line_ok (target d)) (module_lines d)"
proof -
  define table where "table = line_table (matrix h ops (LineStateMachine_Reset (default_is_stmt h)))"
  define d0 where "d0 = DwarfLineToModule_new m cdir []"
  define d1 where "d1 = d0\<lparr>directories := (\<lambda>k. if 1 \<le> unat k \<and> unat k < 1 + length dirs
       then Some (ExpandPath (dirs ! (unat k - 1)) cdir) else None)\<rparr>"
  have h1: "handle_calls (dir_calls 1 dirs) d0 = Returns d1"
    using handle_dirs [of 1 dirs d0] few(1) by (simp add: d1_def d0_def DwarfLineToModule_new_def cong: if_cong)
  have dn: "fst (directory_name n d1) = dir_path cdir dirs n" for n
    by (auto simp: directory_name_def dir_path_def d1_def d0_def DwarfLineToModule_new_def unat_gt_0 Suc_le_eq)
  have d1_simps: "target d1 = m" "file_table d1 = (\<lambda>k. None)" "module_lines d1 = []" "omitted_line_end d1 = 0"
    by (simp_all add: d1_def d0_def DwarfLineToModule_new_def)
  obtain d2 where d2: "handle_calls (file_calls 1 fs) d1 = Returns d2"
    "file_table d2 = (\<lambda>k. if 1 \<le> unat k \<and> unat k < 1 + length fs
       then Some (file_path cdir dirs (fs ! (unat k - 1))) else None)"
    "module_lines d2 = []" "omitted_line_end d2 = 0"
    using handle_files [of d1 1 fs] few(2) m d1_simps unfolding dn file_path_def [symmetric] by (auto cong: if_cong)
  obtain d3 where d3: "handle_calls table d2 = Returns d3" "module_lines d3 = concat (map (added_line (file_table d2)) table)"
    using handle_lines [OF live d2(4)] d2(3) by (auto simp: table_def)
  have run: "handle_calls (dir_calls 1 dirs @ file_calls 1 fs @ table) d0 = Returns d3"
    by (simp only: handle_calls_append h1 d2(1) d3(1) exec_bind.simps)
  have "handler_inv d0" using m by (simp add: d0_def DwarfLineToModule_new_def handler_inv_def)
  from handle_calls_inv [OF this run] have ok': "list_all (line_ok (target d3)) (module_lines d3)"
    by (simp add: handler_inv_def)
  have "file_table d2 = (\<lambda>f. if 1 \<le> unat f \<and> unat f \<le> length fs then Some (file_path cdir dirs (fs ! (unat f - 1))) else None)"
    unfolding d2(2) by (simp add: less_Suc_eq_le)
  with d3(2) have lines: "module_lines d3 = concat (map
      (added_line (\<lambda>f. if 1 \<le> unat f \<and> unat f \<le> length fs then Some (file_path cdir dirs (fs ! (unat f - 1))) else None)) table)"
    by simp
  have count: "length (module_lines d3) = length (filter nonempty_line table)"
    unfolding lines using added_lines_length [OF named, of "\<lambda>f. file_path cdir dirs (fs ! (unat f - 1))"]
    by (simp add: table_def)
  show ?thesis
    unfolding LineInfo_Start_reads [OF ok] table_def [symmetric] d0_def [symmetric]
    by (intro exI conjI, rule refl, rule run, rule lines, rule count, rule ok')
qed

theorem line_program_to_module_witness:
  "\<exists>calls n d. LineInfo_Start (sample_reader\<lparr>offset_size := 0\<rparr>)
      (encode_program sample_reader sample_header sample_dirs sample_files sample_ops @ [])
      (length (encode_program sample_reader sample_header sample_dirs sample_files sample_ops @ [])) = Some (Returns (calls, n)) \<and>
    handle_calls calls (DwarfLineToModule_new (SymModule_new ''m'' ''Linux'' ''x86'' ''0'') ''/src'' []) = Returns d \<and>
    module_lines d = [\<lparr>line_address = 0x1000, line_size = 0xc9, line_file = ''/src/d/a.c'', line_number = 6\<rparr>,
      \<lparr>line_address = 0x10c9, line_size = 0x1c, line_file = ''/src/d/a.c'', line_number = 7\<rparr>]"
proof -
  have "length sample_dirs < 2 ^ 31" "length sample_files < 2 ^ 31" by (simp_all add: sample_dirs_def sample_files_def)
  moreover have "omap_ok (source_files (SymModule_new ''m'' ''Linux'' ''x86'' ''0''))" by (simp add: SymModule_new_def omap_ok_def)
  moreover have "list_all live_line (line_table (matrix sample_header sample_ops (LineStateMachine_Reset (default_is_stmt sample_header))))"
    by (simp add: sample_matrix)
  moreover have "list_all (names_file (length sample_files))
      (line_table (matrix sample_header sample_ops (LineStateMachine_Reset (default_is_stmt sample_header))))"
    by (simp add: sample_matrix sample_files_def)
  moreover have "file_path ''/src'' sample_dirs (sample_files ! 0) = ''/src/d/a.c''"
    by (simp add: file_path_def dir_path_def sample_dirs_def sample_files_def ExpandPath_def PathIsAbsolute_def HasTrailingSlash_def)
  moreover have "length sample_files = 1" by (simp add: sample_files_def)
  ultimately show ?thesis
    using line_program_to_module [OF sample_program_ok sample_program_length, of "SymModule_new ''m'' ''Linux'' ''x86'' ''0''" 0 "''/src''"]
    unfolding sample_matrix by fastforce
qed

section \<open>Lines of code that the linker dropped\<close>

text \<open>A run of lines from an address on, each starting where the one before it ends, and where it ends.\<close>

fun run_from :: "64 word \<Rightarrow> line_call list \<Rightarrow> bool" where
  "run_from a (AddLineCall addr len f l c # cs) \<longleftrightarrow> addr = a \<and> len \<noteq> 0 \<and> unat a + unat len < 2 ^ 64 \<and> run_from (a + len) cs"
| "run_from a [] \<longleftrightarrow> True"
| "run_from a _ \<longleftrightarrow> False"

fun run_end :: "64 word \<Rightarrow> line_call list \<Rightarrow> 64 word" where
  "run_end a (AddLineCall addr len f l c # cs) = run_end (a + len) cs"
| "run_end a _ = a"

lemma omitted_run:
  assumes "run_from a cs" "a = 0 \<or> omitted_line_end d = a"
  shows "handle_calls cs d = Returns (if cs = [] then d else d\<lparr>omitted_line_end := run_end a cs\<rparr>)"
  using assms
proof (induction a cs arbitrary: d rule: run_from.induct)
  case (1 a addr len f l c cs)
  then have w: "\<not> addr + len < addr" by (simp add: no_olen_add_nat not_less)
  have "AddLine addr len f l d = d\<lparr>omitted_line_end := a + len\<rparr>" using 1(2,3) w by (auto simp: AddLine_def Let_def)
  moreover have "handle_calls cs (d\<lparr>omitted_line_end := a + len\<rparr>) =
      Returns (if cs = [] then d\<lparr>omitted_line_end := a + len\<rparr> else d\<lparr>omitted_line_end := a + len, omitted_line_end := run_end (a + len) cs\<rparr>)"
    using 1 by auto
  ultimately show ?case by (cases cs) auto
qed auto

text \<open>C35. Lines for code that the linker has dropped do not reach the module: of a run of adjacent lines that starts at address zero
  no line is added, nor is a line right after it; the first line elsewhere is added again.\<close>

theorem dropped_code_omitted:
  assumes "run_from 0 cs" "cs \<noteq> []" "addr \<noteq> 0"
  shows "\<exists>d'. handle_calls (cs @ [AddLineCall addr len f l c]) d = Returns d' \<and>
    module_lines d' = module_lines d @
      (if addr = run_end 0 cs then [] else added_line (file_table d) (AddLineCall addr len f l c))"
proof -
  have "handle_calls cs d = Returns (d\<lparr>omitted_line_end := run_end 0 cs\<rparr>)"
    using omitted_run [OF assms(1), of d] assms(2) by simp
  then show ?thesis
    using assms(3) by (auto simp: handle_calls_append AddLine_def Let_def split: option.split)
qed

theorem dropped_code_omitted_witness:
  "\<exists>d'. handle_calls ([AddLineCall 0 3 1 15 0, AddLineCall 3 8 1 16 0] @ [AddLineCall 0x1000 4 1 24 0])
      ((DwarfLineToModule_new (SymModule_new ''m'' ''Linux'' ''x86'' ''0'') ''/src'' [])\<lparr>file_table := [1 \<mapsto> ''a.c'']\<rparr>) = Returns d' \<and>
    module_lines d' = [\<lparr>line_address = 0x1000, line_size = 4, line_file = ''a.c'', line_number = 24\<rparr>]"
  using dropped_code_omitted [of "[AddLineCall 0 3 1 15 0, AddLineCall 3 8 1 16 0]" "0x1000" 4 1 24 0
      "(DwarfLineToModule_new (SymModule_new ''m'' ''Linux'' ''x86'' ''0'') ''/src'' [])\<lparr>file_table := [1 \<mapsto> ''a.c'']\<rparr>"]
  by (simp add: DwarfLineToModule_new_def)

end
