(* ===== verification/Spec2Isabelle.thy ===== *)
theory Spec2Isabelle
  imports Symbol_File Handler_Thread Stackwalker_X86 Stackwalker_AMD64 Stackwalker_RISC
    Stackwalker_ARM Resolver_Conversion Line_To_Module
begin

text \<open>
  Verification of the crash reporting code of SMEClient\_Window: the C++ sources under
  \<^verbatim>\<open>src/google-breakpad/src\<close>.

  \<^bold>\<open>The program.\<close> A process that crashes has its state written to a minidump, by itself or by a
  server process that it registered with. A processor later reads the dump: it walks the stack of every
  thread, and asks a resolver which function, source line and unwinding rules belong to an address. The
  resolver answers from symbol files, which the symbol dumpers have written for the modules of the program.
  The development follows this chain from the containers up.

  \<^bold>\<open>The theories and the sources they model\<close> (paths below \<^verbatim>\<open>src/google-breakpad/src\<close>).

  \<^item> Foundations. \<^verbatim>\<open>Prelude\<close>: outcomes of calls, lemmas on lists and words. \<^verbatim>\<open>Std_Map\<close>: \<open>std::map\<close> as a
    sorted association list with its bounds and iterators. \<^verbatim>\<open>Text_Stream\<close>, \<^verbatim>\<open>C_Strings\<close>, \<^verbatim>\<open>C_Numbers\<close>: what the
    sources use of \<open>istringstream\<close>, \<open>ostream\<close>, \<open>strtok_r\<close>, \<open>strtol\<close> and \<open>strtoull\<close>.
  \<^item> Containers. \<^verbatim>\<open>Range_Map\<close> (\<^verbatim>\<open>processor/range_map-inl.h\<close>), \<^verbatim>\<open>Address_Map\<close>
    (\<^verbatim>\<open>processor/address_map-inl.h\<close>), \<^verbatim>\<open>Contained_Range_Map\<close> (\<^verbatim>\<open>processor/contained_range_map-inl.h\<close>).
    Each has a locale of what its clients rely on (\<open>range_container\<close>, \<open>address_reader\<close>,
    \<open>nested_container\<close>), interpreted on the model of the code; the properties say that a lookup finds what was
    stored, that exactly the non-conflicting ranges are stored, and that the nested map finds the smallest range.
  \<^item> Unwinding rules. \<^verbatim>\<open>Postfix_Evaluator\<close> (\<^verbatim>\<open>processor/postfix_evaluator-inl.h\<close>): the postfix programs
    compute the expressions they denote. \<^verbatim>\<open>CFI_Frame_Info\<close> (\<^verbatim>\<open>processor/cfi_frame_info.cc\<close>, \<^verbatim>\<open>-inl.h\<close>): the
    grammar of rule sets, their printing and parsing, the computation of the caller's registers.
    \<^verbatim>\<open>Windows_Frame_Info\<close> (\<^verbatim>\<open>processor/windows_frame_info.h\<close>, \<^verbatim>\<open>tokenize.cc\<close>).
  \<^item> Symbol files. \<^verbatim>\<open>Source_Line_Resolver\<close> (\<^verbatim>\<open>processor/basic_source_line_resolver.cc\<close>): the line reader, every
    record parser and every query. \<^verbatim>\<open>Symbol_File\<close>: the records as data, and loading as a refinement of applying the
    records in order. \<^verbatim>\<open>Symbol_Module\<close> (\<^verbatim>\<open>common/module.cc\<close>): the writer; what it writes is loaded back to what was
    added.
  \<^item> Binary symbol files. \<^verbatim>\<open>Static_Map\<close> (\<^verbatim>\<open>processor/static_map-inl.h\<close>, \<^verbatim>\<open>static_map_iterator-inl.h\<close>),
    \<^verbatim>\<open>Map_Serializers\<close> (\<^verbatim>\<open>processor/map_serializers-inl.h\<close> and the static range maps), \<^verbatim>\<open>Module_Serializer\<close>
    (\<^verbatim>\<open>processor/module_serializer.cc\<close>, \<^verbatim>\<open>simple_serializer-inl.h\<close>), \<^verbatim>\<open>Fast_Resolver\<close>
    (\<^verbatim>\<open>processor/fast_source_line_resolver.cc\<close>), \<^verbatim>\<open>Fast_Load\<close> and \<^verbatim>\<open>Resolver_Conversion\<close>: a resolver on the
    serialized bytes answers every query as the basic resolver does on the text.
  \<^item> Symbolization. \<^verbatim>\<open>Code_Modules\<close> (\<^verbatim>\<open>processor/basic_code_modules.cc\<close>), \<^verbatim>\<open>Symbolizer\<close>
    (\<^verbatim>\<open>processor/source_line_resolver_base.cc\<close>, \<^verbatim>\<open>stack_frame_symbolizer.cc\<close>), \<^verbatim>\<open>Memory_Region\<close>
    (\<open>MinidumpMemoryRegion\<close> of \<^verbatim>\<open>processor/minidump.cc\<close>).
  \<^item> Stack walking. \<^verbatim>\<open>Stackwalker\<close> (\<^verbatim>\<open>processor/stackwalker.cc\<close>) holds the walk over any processor and three
    locales: \<open>stackwalker\<close>, what the shared loop relies on; \<open>strict_stackwalker\<close>, a walker whose stack pointer
    grows with every frame; \<open>pointer_walker\<close>, a walker that follows a chain of saved pointers. They are interpreted in
    \<^verbatim>\<open>Stackwalker_X86\<close>, \<^verbatim>\<open>Stackwalker_AMD64\<close>, \<^verbatim>\<open>Stackwalker_RISC\<close> (PowerPC, PowerPC-64, SPARC) and
    \<^verbatim>\<open>Stackwalker_ARM\<close> (ARM, ARM64).
  \<^item> Crash generation. \<^verbatim>\<open>Crash_Generation_Server\<close> (\<^verbatim>\<open>client/windows/crash_generation/crash_generation_server.cc\<close>,
    \<^verbatim>\<open>client_info.cc\<close>): the state machine of the pipe, the registration of clients, dump requests and the shutdown,
    with the callbacks of its threads interleaved around their critical sections. \<^verbatim>\<open>Crash_Generation_Client\<close>
    (\<^verbatim>\<open>client/windows/crash_generation/crash_generation_client.cc\<close>): registration and requests, and a whole session of a
    client with the server.
  \<^item> Exception handlers. \<^verbatim>\<open>Exception_Handler\<close> (\<^verbatim>\<open>client/windows/handler/exception_handler.cc\<close>): the stack of handlers and
    the hooks of a process, delivery, dumps in and out of the process. \<^verbatim>\<open>Handler_Lifetimes\<close>: the order of delivery, what
    nested lifetimes restore and leave open, what goes wrong otherwise. \<^verbatim>\<open>Handler_Thread\<close>: the hand-over to the handler thread
    as interleaved steps, refined to one call, and its progress.
  \<^item> Line numbers of the symbol dumper. \<^verbatim>\<open>Byte_Reader\<close> (\<^verbatim>\<open>common/dwarf/bytereader.cc\<close>, \<^verbatim>\<open>bytereader-inl.h\<close>):
    fixed-size and LEB128 numbers, encoded pointers. \<^verbatim>\<open>Line_Info\<close> and \<^verbatim>\<open>Line_Program\<close> (\<open>LineInfo\<close> of
    \<^verbatim>\<open>common/dwarf/dwarf2reader.cc\<close>): line number programs are read as they were encoded, with the inputs on which the reader
    does not return. \<^verbatim>\<open>Line_To_Module\<close> (\<^verbatim>\<open>common/dwarf_line_to_module.cc\<close>): the lines that reach the module.

  \<^bold>\<open>Conventions.\<close> An \<open>exec\<close> value is \<open>Undefined\<close> where the source has undefined behaviour or traps: a null
  dereference, a division by zero, an index out of range. Failing calls return \<open>None\<close> or \<open>False\<close> as the source does.
  An \<open>assert\<close> that the sources keep in release builds is a guard whose failure is \<open>Undefined\<close>. Log messages are left
  out. Integers that can wrap are words of their C width, for a 64-bit build with 32-bit \<open>int\<close> and little-endian
  bytes in the binary symbol format; reads of the binary format are allowed at unaligned places, as on x86. Loops of
  which termination is not plain are \<open>partial_function (option)\<close> or carry a measure: \<open>None\<close> is a loop that does not
  end, and the properties state when the result is a \<open>Some\<close>. No fuel is used.

  \<^bold>\<open>Outside code.\<close> The operating system, the file system, the symbol supplier and the allocator are arguments
  of the definitions that call them.

  \<^bold>\<open>Not modelled.\<close> The remaining stream readers of \<^verbatim>\<open>processor/minidump.cc\<close> and \<^verbatim>\<open>minidump_processor.cc\<close>, which
  decode fixed record layouts; the tables of names in \<^verbatim>\<open>symbolic_constants_win.cc\<close>; the readers of DWARF
  compilation units and call frame information, and the STABS, PDB and Mach-O readers of the symbol dumpers under
  \<^verbatim>\<open>common\<close>; a client of the crash server that exits while it is being added is a separate theorem and excluded from the
  others; the stackwalker for MIPS; the exploitability heuristics, which rest on the disassembler
  of a third party; printing tools, tests and third-party libraries; the managed projects under
  \<^verbatim>\<open>src/SMEWindow\<close>, which are C\#.
\<close>

end
